(* ===== verification/Prelude.thy ===== *)
theory Prelude
  imports Main "HOL-Library.AList" "HOL-Library.Char_ord" "HOL-Library.List_Lexorder"
    "HOL-Library.Word"
begin

text \<open>
  Shared vocabulary of the development: the type synonyms of the model, the parts of Go's
  \<^verbatim>\<open>strings\<close> and \<^verbatim>\<open>sort\<close> packages the program uses, keyed tables (what the SQLite tables
  and the Go maps that are listed become), the first-occurrence loop with a \<^verbatim>\<open>seen\<close> map, and
  the lemmas about them that the component theories rely on.

  Strings are byte strings; \<open>to_lower\<close> and \<open>equal_fold\<close> fold ASCII letters only, which is
  what Go does on the ASCII identifiers, host names and header values the program handles.
  Times and durations are nanoseconds, \<open>int\<close>.
\<close>

named_theorems table_simps \<open>lookup and membership laws of keyed tables\<close>
named_theorems str_simps \<open>facts about the string helpers\<close>

type_synonym time = int
type_synonym duration = int
type_synonym ('k, 'v) table = "('k \<times> 'v) list"

abbreviation second :: duration where
  "second \<equiv> 1000000000"

subsection \<open>Go string helpers\<close>

definition lower_char :: "char \<Rightarrow> char" where
  "lower_char c = (if 65 \<le> (of_char c :: nat) \<and> (of_char c :: nat) \<le> 90
                   then char_of ((of_char c :: nat) + 32) else c)"

definition to_lower :: "string \<Rightarrow> string" where
  "to_lower s = map lower_char s"

definition equal_fold :: "string \<Rightarrow> string \<Rightarrow> bool" where
  "equal_fold a b \<longleftrightarrow> to_lower a = to_lower b"

fun has_prefix :: "string \<Rightarrow> string \<Rightarrow> bool" where
  "has_prefix s [] = True"
| "has_prefix [] (p # ps) = False"
| "has_prefix (c # cs) (p # ps) = (c = p \<and> has_prefix cs ps)"

definition has_suffix :: "string \<Rightarrow> string \<Rightarrow> bool" where
  "has_suffix s t \<longleftrightarrow> has_prefix (rev s) (rev t)"

fun contains_str :: "string \<Rightarrow> string \<Rightarrow> bool" where
  "contains_str [] t = (t = [])"
| "contains_str (c # cs) t = (has_prefix (c # cs) t \<or> contains_str cs t)"

definition trim_suffix :: "string \<Rightarrow> string \<Rightarrow> string" where
  "trim_suffix s t = (if has_suffix s t then take (length s - length t) s else s)"

definition trim_prefix :: "string \<Rightarrow> string \<Rightarrow> string" where
  "trim_prefix s t = (if has_prefix s t then drop (length t) s else s)"

definition trim_left_func :: "(char \<Rightarrow> bool) \<Rightarrow> string \<Rightarrow> string" where
  "trim_left_func p s = dropWhile p s"

definition trim_right_func :: "(char \<Rightarrow> bool) \<Rightarrow> string \<Rightarrow> string" where
  "trim_right_func p s = rev (dropWhile p (rev s))"

definition trim_func :: "(char \<Rightarrow> bool) \<Rightarrow> string \<Rightarrow> string" where
  "trim_func p s = trim_right_func p (trim_left_func p s)"

definition is_space :: "char \<Rightarrow> bool" where
  "is_space c \<longleftrightarrow> (of_char c :: nat) \<in> {9, 10, 11, 12, 13, 32}"

definition trim_space :: "string \<Rightarrow> string" where
  "trim_space s = trim_func is_space s"

definition is_lower :: "char \<Rightarrow> bool" where
  "is_lower c \<longleftrightarrow> 97 \<le> (of_char c :: nat) \<and> (of_char c :: nat) \<le> 122"

definition is_digit :: "char \<Rightarrow> bool" where
  "is_digit c \<longleftrightarrow> 48 \<le> (of_char c :: nat) \<and> (of_char c :: nat) \<le> 57"

definition is_alnum :: "char \<Rightarrow> bool" where
  "is_alnum c \<longleftrightarrow> is_lower c \<or> is_digit c"

lemma has_prefix_iff: "has_prefix s t \<longleftrightarrow> (\<exists>u. s = t @ u)"
  by (induction s t rule: has_prefix.induct) auto

lemma has_suffix_iff: "has_suffix s t \<longleftrightarrow> (\<exists>u. s = u @ t)"
proof -
  have "has_suffix s t \<longleftrightarrow> (\<exists>u. rev s = rev t @ u)"
    by (simp add: has_suffix_def has_prefix_iff)
  also have "\<dots> \<longleftrightarrow> (\<exists>u. s = u @ t)"
    by (metis rev_append rev_rev_ident)
  finally show ?thesis .
qed

lemma contains_str_iff: "contains_str s t \<longleftrightarrow> (\<exists>u v. s = u @ t @ v)"
proof (induction s)
  case (Cons c cs)
  then show ?case by (auto simp: has_prefix_iff Cons_eq_append_conv)
qed auto

lemma trim_prefix_append [str_simps]: "trim_prefix (t @ u) t = u"
  by (auto simp: trim_prefix_def has_prefix_iff)

lemma trim_suffix_append [str_simps]: "trim_suffix (u @ t) t = u"
  by (auto simp: trim_suffix_def has_suffix_iff)

lemma of_char_lower_char:
  "(of_char (lower_char c) :: nat) =
     (if 65 \<le> (of_char c :: nat) \<and> (of_char c :: nat) \<le> 90 then of_char c + 32 else of_char c)"
  by (simp add: lower_char_def of_char_of)

lemma lower_char_idem [simp]: "lower_char (lower_char c) = lower_char c"
  using of_char_lower_char [of c] by (auto simp: lower_char_def [of "lower_char c"])

lemma to_lower_idem [simp]: "to_lower (to_lower s) = to_lower s"
  by (simp add: to_lower_def)

lemma length_to_lower [simp]: "length (to_lower s) = length s"
  by (simp add: to_lower_def)

lemma to_lower_append [simp]: "to_lower (s @ t) = to_lower s @ to_lower t"
  by (simp add: to_lower_def)

lemma to_lower_eq_Nil [simp]: "to_lower s = [] \<longleftrightarrow> s = []"
  by (simp add: to_lower_def)

lemma equal_fold_refl [simp]: "equal_fold s s"
  by (simp add: equal_fold_def)

lemma equal_fold_sym: "equal_fold s t \<longleftrightarrow> equal_fold t s"
  by (auto simp: equal_fold_def)

lemma equal_fold_trans: "equal_fold a b \<Longrightarrow> equal_fold b c \<Longrightarrow> equal_fold a c"
  by (simp add: equal_fold_def)

lemma lower_char_alnum: "is_alnum c \<Longrightarrow> lower_char c = c"
  by (auto simp: lower_char_def is_alnum_def is_lower_def is_digit_def)

subsection \<open>Keyed tables\<close>

text \<open>
  A Go map that the code also ranges over, and a SQLite table with a primary key, are lists
  of rows with distinct keys. The list order stands for the order in which the map is ranged
  over or the rows are returned; the theorems hold for every order.
\<close>

definition tput :: "'k \<Rightarrow> 'v \<Rightarrow> ('k, 'v) table \<Rightarrow> ('k, 'v) table" where
  "tput k v t = AList.update k v t"

definition tdel :: "'k \<Rightarrow> ('k, 'v) table \<Rightarrow> ('k, 'v) table" where
  "tdel k t = AList.delete k t"

definition tget :: "('k, 'v) table \<Rightarrow> 'k \<Rightarrow> 'v option" where
  "tget t k = map_of t k"

definition keys_distinct :: "('k, 'v) table \<Rightarrow> bool" where
  "keys_distinct t \<longleftrightarrow> distinct (map fst t)"

lemma tget_Nil [simp, table_simps]: "tget [] k = None"
  by (simp add: tget_def)

lemma tget_Cons [simp]: "tget ((k', v) # t) k = (if k' = k then Some v else tget t k)"
  by (simp add: tget_def)

lemma tget_tput [simp, table_simps]: "tget (tput k v t) k' = (if k' = k then Some v else tget t k')"
  by (simp add: tget_def tput_def update_conv')

lemma tget_tdel [simp, table_simps]: "tget (tdel k t) k' = (if k' = k then None else tget t k')"
  by (simp add: tget_def tdel_def delete_conv')

lemma keys_distinct_Nil [simp, table_simps]: "keys_distinct []"
  by (simp add: keys_distinct_def)

lemma keys_distinct_tput [simp, table_simps]: "keys_distinct t \<Longrightarrow> keys_distinct (tput k v t)"
  by (simp add: keys_distinct_def tput_def distinct_update)

lemma keys_distinct_tdel [simp, table_simps]: "keys_distinct t \<Longrightarrow> keys_distinct (tdel k t)"
  by (simp add: keys_distinct_def tdel_def distinct_delete)

lemma keys_distinct_filter [simp, table_simps]: "keys_distinct t \<Longrightarrow> keys_distinct (filter P t)"
  by (simp add: keys_distinct_def distinct_map_filter)

lemma mem_tget: "keys_distinct t \<Longrightarrow> (k, v) \<in> set t \<longleftrightarrow> tget t k = Some v"
  by (simp add: keys_distinct_def tget_def)

lemma tget_mem: "tget t k = Some v \<Longrightarrow> (k, v) \<in> set t"
  by (auto simp: tget_def dest: map_of_SomeD)

lemma tget_filter:
  assumes "keys_distinct t"
  shows "tget (filter P t) k = (case tget t k of None \<Rightarrow> None | Some v \<Rightarrow> if P (k, v) then Some v else None)"
proof (cases "tget (filter P t) k")
  case None
  then have "\<forall>v. (k, v) \<notin> set (filter P t)"
    using mem_tget [OF keys_distinct_filter [OF assms]] by fastforce
  with None assms show ?thesis by (auto simp: mem_tget split: option.splits)
next
  case (Some v)
  then have "(k, v) \<in> set t" "P (k, v)" by (auto dest: tget_mem)
  with Some assms show ?thesis by (simp add: mem_tget)
qed

lemma set_tput:
  assumes "keys_distinct t"
  shows "set (tput k v t) = insert (k, v) {(k', v') \<in> set t. k' \<noteq> k}"
proof (rule set_eqI)
  fix x
  show "x \<in> set (tput k v t) \<longleftrightarrow> x \<in> insert (k, v) {(k', v') \<in> set t. k' \<noteq> k}"
    by (cases x) (use assms in \<open>auto simp: mem_tget\<close>)
qed

lemma set_tdel: "set (tdel k t) = {(k', v') \<in> set t. k' \<noteq> k}"
  by (auto simp: tdel_def AList.delete_eq)

lemma find_Some_mem: "find P xs = Some x \<Longrightarrow> x \<in> set xs \<and> P x"
  by (induction xs) (auto split: if_splits)

subsection \<open>Loops with a \<open>seen\<close> map\<close>

text \<open>
  The pattern \<^verbatim>\<open>for x := range xs { if seen[x] { continue }; seen[x] = true; out = append(out, x) }\<close>.
\<close>

fun uniq :: "'a list \<Rightarrow> 'a list \<Rightarrow> 'a list" where
  "uniq seen [] = []"
| "uniq seen (x # xs) = (if x \<in> set seen then uniq seen xs else x # uniq (x # seen) xs)"

lemma set_uniq: "set (uniq seen xs) = set xs - set seen"
  by (induction seen xs rule: uniq.induct) auto

lemma distinct_uniq: "distinct (uniq seen xs)"
  by (induction seen xs rule: uniq.induct) (auto simp: set_uniq)

lemma uniq_cong: "set seen = set seen' \<Longrightarrow> uniq seen xs = uniq seen' xs"
proof (induction xs arbitrary: seen seen')
  case (Cons x xs)
  have "uniq (x # seen) xs = uniq (x # seen') xs" by (rule Cons.IH) (simp add: Cons.prems)
  with Cons.IH [OF Cons.prems] Cons.prems show ?case by simp
qed simp

lemma uniq_append: "uniq seen (xs @ ys) = uniq seen xs @ uniq (xs @ seen) ys"
proof (induction xs arbitrary: seen)
  case (Cons x xs)
  have "uniq (xs @ x # seen) ys = uniq ((x # xs) @ seen) ys" by (rule uniq_cong) auto
  moreover have "x \<in> set seen \<Longrightarrow> uniq (xs @ seen) ys = uniq ((x # xs) @ seen) ys" by (rule uniq_cong) auto
  ultimately show ?case using Cons [of seen] Cons [of "x # seen"] by simp
qed simp

end
