(* ===== verification/Regex.thy ===== *)
theory Regex
  imports Prelude
begin

text \<open>
  The anchored regular expressions of the program (\<^verbatim>\<open>regexp.MustCompile\<close> with
  \<^verbatim>\<open>^...$\<close>), as a small syntax with an executable matcher. \<open>accepts r s\<close> is what
  \<^verbatim>\<open>MatchString\<close> returns for an expression anchored at both ends; \<open>denotes\<close> is the set of
  strings an expression stands for, and \<open>accepts_denotes\<close> says the matcher decides it.
\<close>

datatype rx =
    Fail
  | Empty
  | Class "char \<Rightarrow> bool"
  | Or rx rx
  | Then rx rx
  | Many rx

abbreviation Lit :: "char \<Rightarrow> rx" where
  "Lit c \<equiv> Class (\<lambda>d. d = c)"

abbreviation Opt :: "rx \<Rightarrow> rx" where
  "Opt r \<equiv> Or Empty r"

fun UpTo :: "nat \<Rightarrow> rx \<Rightarrow> rx" where
  "UpTo 0 r = Empty"
| "UpTo (Suc n) r = Opt (Then r (UpTo n r))"

fun accepts_empty :: "rx \<Rightarrow> bool" where
  "accepts_empty Fail = False"
| "accepts_empty Empty = True"
| "accepts_empty (Class p) = False"
| "accepts_empty (Or a b) = (accepts_empty a \<or> accepts_empty b)"
| "accepts_empty (Then a b) = (accepts_empty a \<and> accepts_empty b)"
| "accepts_empty (Many a) = True"

fun after :: "rx \<Rightarrow> char \<Rightarrow> rx" where
  "after Fail x = Fail"
| "after Empty x = Fail"
| "after (Class p) x = (if p x then Empty else Fail)"
| "after (Or a b) x = Or (after a x) (after b x)"
| "after (Then a b) x =
     Or (Then (after a x) b) (if accepts_empty a then after b x else Fail)"
| "after (Many a) x = Then (after a x) (Many a)"

definition accepts :: "rx \<Rightarrow> string \<Rightarrow> bool" where
  "accepts r s = accepts_empty (foldl after r s)"

inductive denotes :: "rx \<Rightarrow> string \<Rightarrow> bool" where
  den_empty: "denotes Empty []"
| den_class: "p x \<Longrightarrow> denotes (Class p) [x]"
| den_or1: "denotes a s \<Longrightarrow> denotes (Or a b) s"
| den_or2: "denotes b s \<Longrightarrow> denotes (Or a b) s"
| den_then: "denotes a s \<Longrightarrow> denotes b t \<Longrightarrow> denotes (Then a b) (s @ t)"
| den_many0: "denotes (Many a) []"
| den_many1: "denotes a s \<Longrightarrow> denotes (Many a) t \<Longrightarrow> denotes (Many a) (s @ t)"

inductive_simps denotes_Fail [simp]: "denotes Fail s"
inductive_simps denotes_Empty [simp]: "denotes Empty s"
inductive_simps denotes_Class [simp]: "denotes (Class p) s"
inductive_simps denotes_Or [simp]: "denotes (Or a b) s"
inductive_simps denotes_Then: "denotes (Then a b) s"

lemma denotes_Many_Cons:
  "denotes (Many a) (x # s) \<longleftrightarrow> (\<exists>u v. s = u @ v \<and> denotes a (x # u) \<and> denotes (Many a) v)"
    (is "_ \<longleftrightarrow> ?rhs x s")
proof
  assume "denotes (Many a) (x # s)"
  then show "?rhs x s"
  proof (induction "Many a" "x # s" rule: denotes.induct)
    case (den_many1 s' t)
    show ?case
    proof (cases s')
      case Nil
      with den_many1 show ?thesis by simp
    next
      case (Cons y u)
      with den_many1 show ?thesis by auto
    qed
  qed
next
  assume "?rhs x s"
  then obtain u v where "s = u @ v" "denotes a (x # u)" "denotes (Many a) v" by blast
  then show "denotes (Many a) (x # s)" using den_many1 [of a "x # u" v] by simp
qed

lemma accepts_empty_denotes: "accepts_empty r \<longleftrightarrow> denotes r []"
proof (induction r)
  case (Then a b)
  then show ?case by (auto simp: denotes_Then)
qed (auto intro: denotes.intros)

lemma after_denotes: "denotes (after r x) s \<longleftrightarrow> denotes r (x # s)"
proof (induction r arbitrary: s)
  case (Then a b)
  have "denotes (Then a b) (x # s) \<longleftrightarrow>
    (\<exists>u v. s = u @ v \<and> denotes a (x # u) \<and> denotes b v) \<or> (denotes a [] \<and> denotes b (x # s))"
    by (auto simp: denotes_Then Cons_eq_append_conv)
  with Then show ?case by (simp add: denotes_Then accepts_empty_denotes)
next
  case (Many a)
  then show ?case by (simp add: denotes_Then denotes_Many_Cons)
qed auto

lemma accepts_denotes: "accepts r s \<longleftrightarrow> denotes r s"
proof (induction s arbitrary: r)
  case Nil
  show ?case by (simp add: accepts_def accepts_empty_denotes)
next
  case (Cons x s)
  then show ?case by (simp add: accepts_def flip: after_denotes)
qed

lemma denotes_Class_Then:
  "denotes (Then (Class p) b) s \<longleftrightarrow> (\<exists>x t. s = x # t \<and> p x \<and> denotes b t)"
  unfolding denotes_Then denotes_Class by (metis append_Cons append_Nil)

lemma denotes_Then_Class:
  "denotes (Then a (Class p)) s \<longleftrightarrow> (\<exists>m y. s = m @ [y] \<and> denotes a m \<and> p y)"
  by (auto simp: denotes_Then)

lemma denotes_UpTo_Class:
  "denotes (UpTo n (Class p)) s \<longleftrightarrow> length s \<le> n \<and> (\<forall>c \<in> set s. p c)"
proof (induction n arbitrary: s)
  case 0
  show ?case by auto
next
  case (Suc n)
  then show ?case by (cases s) (auto simp: denotes_Class_Then)
qed

lemma denotes_Many_Class: "denotes (Many (Class p)) s \<longleftrightarrow> (\<forall>c \<in> set s. p c)"
proof (induction s)
  case Nil
  show ?case by (auto intro: den_many0)
next
  case (Cons x s)
  then show ?case by (auto simp: denotes_Many_Cons)
qed

text \<open>Every character of a denoted string is allowed by some class of the expression.\<close>

fun rx_chars :: "rx \<Rightarrow> char \<Rightarrow> bool" where
  "rx_chars Fail c = False"
| "rx_chars Empty c = False"
| "rx_chars (Class p) c = p c"
| "rx_chars (Or a b) c = (rx_chars a c \<or> rx_chars b c)"
| "rx_chars (Then a b) c = (rx_chars a c \<or> rx_chars b c)"
| "rx_chars (Many a) c = rx_chars a c"

lemma denotes_chars: "denotes r s \<Longrightarrow> c \<in> set s \<Longrightarrow> rx_chars r c"
  by (induction rule: denotes.induct) auto

end
