(* ===== verification/Sandbox.thy ===== *)
theory Sandbox
  imports Regex
begin

text \<open>
  The backend-neutral box types of \<^verbatim>\<open>internal/shared/sandbox/sandbox.go\<close>: the box view, the
  creation options and result, the network policy and the limits, and the box-id rule.
  The box-id regular expression is written as in the source; \<open>ValidBoxID_iff\<close> spells out
  which strings it accepts.
\<close>

abbreviation StateUnreachable :: string where "StateUnreachable \<equiv> ''unreachable''"
abbreviation StateTerminated :: string where "StateTerminated \<equiv> ''terminated''"
abbreviation StatePaused :: string where "StatePaused \<equiv> ''paused''"
abbreviation PhaseBroken :: string where "PhaseBroken \<equiv> ''broken''"

record box =
  box_InstanceID :: string
  box_Name :: string
  box_BoxID :: string
  box_Description :: string
  box_Spoke :: string
  box_Image :: string
  box_State :: string
  box_Status :: string
  box_Phase :: string
  box_LastError :: string
  box_Created :: int
  box_LastSeen :: int

record publish_port =
  pp_Port :: int
  pp_Description :: string

record create_result =
  cr_InstanceID :: string
  cr_InitScriptFailed :: bool
  cr_InitScriptOutput :: string
  cr_PublishPorts :: "publish_port list"

record exec_result =
  er_Stdout :: string
  er_Stderr :: string
  er_ExitCode :: int

record inject_file =
  if_Path :: string
  if_Content :: string
  if_Mode :: int
  if_UID :: int
  if_GID :: int

record create_options =
  co_BoxID :: string
  co_Description :: string
  co_SpokeName :: string
  co_Files :: "inject_file list"
  co_DiskBytes :: int

record domain_rule =
  dr_Pattern :: string
  dr_TTLSeconds :: int

record network_policy =
  np_Enabled :: bool
  np_Rules :: "domain_rule list"

record limits =
  lim_MemoryBytes :: int
  lim_NanoCPUs :: int
  lim_PidsLimit :: int
  lim_MaxBoxes :: int
  lim_DiskBytes :: int
  lim_MaxDiskBytes :: int

definition alnum_hyphen :: "char \<Rightarrow> bool" where
  "alnum_hyphen c \<longleftrightarrow> is_alnum c \<or> c = CHR ''-''"

definition boxIDRe :: rx where
  "boxIDRe = Then (Class is_alnum) (Opt (Then (UpTo 61 (Class alnum_hyphen)) (Class is_alnum)))"

definition ValidBoxID :: "string \<Rightarrow> bool" where
  "ValidBoxID s = accepts boxIDRe s"

lemma alnum_not_hyphen: "is_alnum c \<Longrightarrow> c \<noteq> CHR ''-''"
  by (auto simp: is_alnum_def is_lower_def is_digit_def)

lemma lower_char_hyphen: "lower_char (CHR ''-'') = CHR ''-''"
  by (simp add: lower_char_def)

lemma denotes_boxIDRe:
  "denotes boxIDRe s \<longleftrightarrow> (\<exists>x t. s = x # t \<and> is_alnum x \<and>
     (t = [] \<or> (\<exists>m y. t = m @ [y] \<and> (length m \<le> 61 \<and> (\<forall>c \<in> set m. alnum_hyphen c)) \<and> is_alnum y)))"
  by (simp only: boxIDRe_def denotes_Class_Then denotes_Then_Class denotes_UpTo_Class
      denotes_Or denotes_Empty)

lemma ValidBoxID_cases:
  "ValidBoxID s \<longleftrightarrow> s \<noteq> [] \<and> length s \<le> 63 \<and> list_all alnum_hyphen s \<and>
     hd s \<noteq> CHR ''-'' \<and> last s \<noteq> CHR ''-''"
proof (cases s rule: rev_cases)
  case Nil
  then show ?thesis by (simp add: ValidBoxID_def accepts_denotes denotes_boxIDRe)
next
  case (snoc m y)
  show ?thesis
  proof (cases m)
    case Nil
    with snoc show ?thesis
      by (auto simp: ValidBoxID_def accepts_denotes denotes_boxIDRe alnum_hyphen_def
          list_all_iff dest: alnum_not_hyphen)
  next
    case (Cons x k)
    with snoc show ?thesis
      by (auto simp: ValidBoxID_def accepts_denotes denotes_boxIDRe alnum_hyphen_def
          list_all_iff dest: alnum_not_hyphen)
  qed
qed

lemma ValidBoxID_to_lower: "ValidBoxID s \<Longrightarrow> to_lower s = s"
proof -
  assume "ValidBoxID s"
  then have "list_all alnum_hyphen s" by (simp add: ValidBoxID_cases)
  then show "to_lower s = s"
    unfolding to_lower_def
    by (intro map_idI) (auto simp: alnum_hyphen_def list_all_iff lower_char_alnum lower_char_hyphen)
qed

text \<open>
  Further (ValidBoxID_iff). A box id is accepted exactly when it is one to sixty-three lower-case
  letters, digits or hyphens, with no hyphen first or last: a single DNS label, so it carries
  no shell metacharacter, no dot and no path separator.
\<close>

lemma ValidBoxID_iff:
  "ValidBoxID s \<longleftrightarrow> 1 \<le> length s \<and> length s \<le> 63 \<and>
     (\<forall>c \<in> set s. is_lower c \<or> is_digit c \<or> c = CHR ''-'') \<and>
     s ! 0 \<noteq> CHR ''-'' \<and> s ! (length s - 1) \<noteq> CHR ''-''"
proof -
  have "s \<noteq> [] \<Longrightarrow> hd s = s ! 0 \<and> last s = s ! (length s - 1)"
    by (simp add: hd_conv_nth last_conv_nth)
  then show ?thesis
    by (cases "s = []")
      (auto simp: ValidBoxID_cases list_all_iff alnum_hyphen_def is_alnum_def Suc_le_eq)
qed

theorem ValidBoxID_iff_witness: "ValidBoxID ''my-box-1'' \<and> \<not> ValidBoxID ''-box''"
proof -
  have "\<forall>c \<in> set ''my-box-1''. is_lower c \<or> is_digit c \<or> c = CHR ''-''" by code_simp
  then have "ValidBoxID ''my-box-1''" using ValidBoxID_iff [of "''my-box-1''"] by simp
  moreover have "\<not> ValidBoxID ''-box''" using ValidBoxID_iff [of "''-box''"] by simp
  ultimately show ?thesis by blast
qed

end
