(* ===== verification/Netfw.thy ===== *)
theory Netfw
  imports Sandbox "HOL-Library.Product_Lexorder"
begin

text \<open>
  The packet-layer egress firewall, \<^verbatim>\<open>internal/spoke/netfw\<close>: the addresses it works on, the
  \<^verbatim>\<open>Programmer\<close> interface as a record of state-passing operations, the TTL-tracking \<^verbatim>\<open>Pinner\<close>
  (\<^verbatim>\<open>netfw.go\<close>), the recording programmer (\<^verbatim>\<open>recording.go\<close>) and the nftables programmer
  (\<^verbatim>\<open>nftables.go\<close>) over an arbitrary \<^verbatim>\<open>nft\<close> runner.

  The locale \<open>egress_firewall\<close> is the contract a programmer promises the pinner: what is open
  after each call. The pinner's lemmas are proved in it once; the recording programmer is an
  instance. A failing call is a value (\<open>Some e\<close>), as in the code.
\<close>

subsection \<open>Addresses\<close>

datatype addr = NoAddr | Addr4 "32 word" | Addr6 "128 word"

definition addr_rank :: "addr \<Rightarrow> nat \<times> nat" where
  "addr_rank a = (case a of NoAddr \<Rightarrow> (0, 0) | Addr4 w \<Rightarrow> (32, unat w) | Addr6 w \<Rightarrow> (128, unat w))"

lemma addr_rank_inject [simp]: "addr_rank a = addr_rank b \<longleftrightarrow> a = b"
  by (auto simp: addr_rank_def word_unat_eq_iff split: addr.splits)

instantiation addr :: linorder
begin

definition less_eq_addr :: "addr \<Rightarrow> addr \<Rightarrow> bool" where
  "less_eq_addr a b \<longleftrightarrow> addr_rank a \<le> addr_rank b"

definition less_addr :: "addr \<Rightarrow> addr \<Rightarrow> bool" where
  "less_addr a b \<longleftrightarrow> addr_rank a < addr_rank b"

instance
proof
  fix a b c :: addr
  show "a < b \<longleftrightarrow> a \<le> b \<and> \<not> b \<le> a" by (auto simp: less_eq_addr_def less_addr_def less_le_not_le)
  show "a \<le> a" by (simp add: less_eq_addr_def)
  show "a \<le> b \<Longrightarrow> b \<le> c \<Longrightarrow> a \<le> c" by (auto simp: less_eq_addr_def intro: order_trans)
  show "a \<le> b \<Longrightarrow> b \<le> a \<Longrightarrow> a = b"
    using addr_rank_inject by (auto simp: less_eq_addr_def dest: antisym)
  show "a \<le> b \<or> b \<le> a" by (auto simp: less_eq_addr_def)
qed

end

text \<open>\<^verbatim>\<open>netip.Addr.Unmap\<close>: an IPv4-mapped IPv6 address becomes the IPv4 address.\<close>

definition unmap :: "addr \<Rightarrow> addr" where
  "unmap a = (case a of Addr6 w \<Rightarrow> if drop_bit 32 w = 65535 then Addr4 (ucast w) else a | _ \<Rightarrow> a)"

definition is6 :: "addr \<Rightarrow> bool" where
  "is6 a = (case a of Addr6 w \<Rightarrow> True | _ \<Rightarrow> False)"

record box_spec =
  spec_Source :: "addr \<times> nat"
  spec_DNS :: addr

subsection \<open>The Programmer interface\<close>

record 'fw programmer =
  prog_Baseline :: "string \<Rightarrow> box_spec \<Rightarrow> 'fw \<Rightarrow> string option \<times> 'fw"
  prog_Allow :: "string \<Rightarrow> addr \<Rightarrow> 'fw \<Rightarrow> string option \<times> 'fw"
  prog_Revoke :: "string \<Rightarrow> addr \<Rightarrow> 'fw \<Rightarrow> string option \<times> 'fw"
  prog_Teardown :: "string \<Rightarrow> 'fw \<Rightarrow> string option \<times> 'fw"

subsection \<open>The Pinner\<close>

type_synonym pin_key = "string \<times> addr"
type_synonym pins = "(pin_key, time) table"

definition Pin ::
  "'fw programmer \<Rightarrow> time \<Rightarrow> string \<Rightarrow> addr \<Rightarrow> duration \<Rightarrow> pins \<Rightarrow> 'fw \<Rightarrow> string option \<times> pins \<times> 'fw"
where
  "Pin prog now boxID ip ttl pins fw =
     (let key = (boxID, ip);
          deadline = now + ttl;
          exists = tget pins key \<noteq> None;
          pins1 = tput key deadline pins
      in if exists then (None, pins1, fw)
         else case prog_Allow prog boxID ip fw of
                (None, fw') \<Rightarrow> (None, pins1, fw')
              | (Some e, fw') \<Rightarrow> (Some e, tdel key pins1, fw'))"

fun revoke_all ::
  "'fw programmer \<Rightarrow> pin_key list \<Rightarrow> string option \<Rightarrow> 'fw \<Rightarrow> string option \<times> 'fw"
where
  "revoke_all prog [] firstErr fw = (firstErr, fw)"
| "revoke_all prog (k # ks) firstErr fw =
     (case prog_Revoke prog (fst k) (snd k) fw of
        (None, fw') \<Rightarrow> revoke_all prog ks firstErr fw'
      | (Some e, fw') \<Rightarrow> revoke_all prog ks (if firstErr = None then Some e else firstErr) fw')"

definition expired_pins :: "time \<Rightarrow> pins \<Rightarrow> pin_key list" where
  "expired_pins now pins = map fst (filter (\<lambda>(k, deadline). \<not> now < deadline) pins)"

definition Sweep :: "'fw programmer \<Rightarrow> time \<Rightarrow> pins \<Rightarrow> 'fw \<Rightarrow> string option \<times> pins \<times> 'fw" where
  "Sweep prog now pins fw =
     (let expired = expired_pins now pins;
          pins1 = fold tdel expired pins;
          (firstErr, fw1) = revoke_all prog (sort expired) None fw
      in (firstErr, pins1, fw1))"

definition Forget :: "string \<Rightarrow> pins \<Rightarrow> pins" where
  "Forget boxID pins = filter (\<lambda>(k, _). fst k \<noteq> boxID) pins"

subsection \<open>Bookkeeping facts that hold for every programmer\<close>

lemma tget_fold_tdel:
  "tget (fold tdel ks t) k = (if k \<in> set ks then None else tget t k)"
  by (induction ks arbitrary: t) auto

lemma keys_distinct_fold_tdel: "keys_distinct t \<Longrightarrow> keys_distinct (fold tdel ks t)"
  by (induction ks arbitrary: t) auto

lemma set_expired_pins:
  "keys_distinct pins \<Longrightarrow> k \<in> set (expired_pins now pins) \<longleftrightarrow> (\<exists>d. tget pins k = Some d \<and> d \<le> now)"
  by (force simp: expired_pins_def mem_tget not_less)

lemma Sweep_pins:
  assumes "keys_distinct pins" and "Sweep prog now pins fw = (e, pins', fw')"
  shows "tget pins' k = (case tget pins k of None \<Rightarrow> None | Some d \<Rightarrow> if now < d then Some d else None)"
  using assms set_expired_pins [OF assms(1), of k now]
  by (auto simp: Sweep_def tget_fold_tdel Let_def split: prod.splits option.splits)

lemma Sweep_keys_distinct:
  "keys_distinct pins \<Longrightarrow> Sweep prog now pins fw = (e, pins', fw') \<Longrightarrow> keys_distinct pins'"
  by (auto simp: Sweep_def Let_def keys_distinct_fold_tdel split: prod.splits)

lemma Pin_keys_distinct:
  "keys_distinct pins \<Longrightarrow> Pin prog now b ip ttl pins fw = (e, pins', fw') \<Longrightarrow> keys_distinct pins'"
  by (auto simp: Pin_def Let_def split: if_splits prod.splits option.splits)

lemma Pin_success:
  assumes "Pin prog now b ip ttl pins fw = (None, pins', fw')"
  shows "tget pins' = (tget pins)((b, ip) \<mapsto> now + ttl)"
  using assms by (auto simp: Pin_def Let_def split: if_splits prod.splits option.splits)

lemma Pin_failure:
  assumes "Pin prog now b ip ttl pins fw = (Some e, pins', fw')"
  shows "tget pins (b, ip) = None \<and> tget pins' = tget pins"
  using assms by (auto simp: Pin_def Let_def split: if_splits prod.splits option.splits)

lemma Forget_tget:
  "keys_distinct pins \<Longrightarrow> tget (Forget b pins) k = (if fst k = b then None else tget pins k)"
  by (cases k) (auto simp: Forget_def tget_filter split: option.splits)

lemma Forget_keys_distinct [simp]: "keys_distinct pins \<Longrightarrow> keys_distinct (Forget b pins)"
  by (simp add: Forget_def)

subsection \<open>The contract of a programmer and the pinner over it\<close>

locale egress_firewall =
  fixes prog :: "'fw programmer"
    and opened :: "'fw \<Rightarrow> pin_key set"
  assumes allow_ok: "prog_Allow prog b ip fw = (None, fw') \<Longrightarrow> opened fw' = insert (b, ip) (opened fw)"
    and allow_err: "prog_Allow prog b ip fw = (Some e, fw') \<Longrightarrow> opened fw' = opened fw"
    and revoke_ok: "prog_Revoke prog b ip fw = (None, fw') \<Longrightarrow> opened fw' = opened fw - {(b, ip)}"
    and revoke_err: "prog_Revoke prog b ip fw = (Some e, fw') \<Longrightarrow> opened fw' = opened fw"
    and baseline_opens_nothing: "prog_Baseline prog b spec fw = (r, fw') \<Longrightarrow> opened fw' \<subseteq> opened fw"
    and teardown_ok: "prog_Teardown prog b fw = (None, fw') \<Longrightarrow> opened fw' = {k \<in> opened fw. fst k \<noteq> b}"
    and teardown_err: "prog_Teardown prog b fw = (Some e, fw') \<Longrightarrow> opened fw' \<subseteq> opened fw"
begin

definition tracked :: "pins \<Rightarrow> 'fw \<Rightarrow> bool" where
  "tracked pins fw \<longleftrightarrow> keys_distinct pins \<and> (\<forall>k \<in> opened fw. tget pins k \<noteq> None)"

lemma pin_ok_opened:
  assumes "Pin prog now b ip ttl pins fw = (None, pins', fw')" and "tget pins (b, ip) = None"
  shows "opened fw' = insert (b, ip) (opened fw)"
  using assms by (auto simp: Pin_def Let_def allow_ok split: if_splits prod.splits option.splits)

lemma pin_opened_subset:
  assumes "Pin prog now b ip ttl pins fw = (e, pins', fw')"
  shows "opened fw \<subseteq> opened fw' \<and> opened fw' \<subseteq> insert (b, ip) (opened fw)"
  using assms
  by (auto simp: Pin_def Let_def allow_ok allow_err split: if_splits prod.splits option.splits
      dest: allow_ok allow_err)

lemma pin_tracked:
  assumes "tracked pins fw" and "Pin prog now b ip ttl pins fw = (e, pins', fw')"
  shows "tracked pins' fw'"
proof (cases e)
  case None
  with assms(2) have "tget pins' = (tget pins)((b, ip) \<mapsto> now + ttl)" by (simp add: Pin_success)
  with assms pin_opened_subset [OF assms(2)] Pin_keys_distinct [OF _ assms(2)] show ?thesis
    by (auto simp: tracked_def)
next
  case (Some e')
  with assms(2) have "tget pins' = tget pins" and "opened fw' = opened fw"
    by (auto dest: Pin_failure)
      (auto simp: Pin_def Let_def split: if_splits prod.splits option.splits dest: allow_err)
  with assms(1) Pin_keys_distinct [OF _ assms(2)] show ?thesis by (auto simp: tracked_def)
qed

lemma revoke_all_opened_subset: "revoke_all prog ks fe fw = (r, fw') \<Longrightarrow> opened fw' \<subseteq> opened fw"
proof (induction ks arbitrary: fe fw)
  case (Cons k ks)
  then show ?case
    by (fastforce split: prod.splits option.splits dest: revoke_ok revoke_err)
qed simp

lemma revoke_all_first_err: "revoke_all prog ks (Some e) fw = (r, fw') \<Longrightarrow> r = Some e"
  by (induction ks arbitrary: fw) (auto split: prod.splits option.splits)

lemma revoke_all_ok:
  "revoke_all prog ks None fw = (None, fw') \<Longrightarrow> opened fw' = opened fw - set ks"
proof (induction ks arbitrary: fw)
  case (Cons k ks)
  obtain r fw1 where rv: "prog_Revoke prog (fst k) (snd k) fw = (r, fw1)" by fastforce
  with Cons.prems have "r = None" by (cases r) (auto dest: revoke_all_first_err)
  with rv Cons.prems have "revoke_all prog ks None fw1 = (None, fw')" and
    "opened fw1 = opened fw - {k}" by (auto dest: revoke_ok)
  with Cons.IH show ?case by auto
qed simp

lemma sweep_ok_opened:
  assumes "keys_distinct pins" and "Sweep prog now pins fw = (None, pins', fw')"
  shows "opened fw' = {k \<in> opened fw. \<forall>d. tget pins k = Some d \<longrightarrow> now < d}"
proof -
  from assms(2) have "revoke_all prog (sort (expired_pins now pins)) None fw = (None, fw')"
    by (auto simp: Sweep_def Let_def split: prod.splits)
  then have "opened fw' = opened fw - set (expired_pins now pins)" by (simp add: revoke_all_ok)
  then show ?thesis using set_expired_pins [OF assms(1)] by (auto simp: not_less)
qed

lemma sweep_opened_subset:
  "Sweep prog now pins fw = (r, pins', fw') \<Longrightarrow> opened fw' \<subseteq> opened fw"
  by (auto simp: Sweep_def Let_def split: prod.splits dest: revoke_all_opened_subset)

lemma sweep_tracked:
  assumes "tracked pins fw" and "Sweep prog now pins fw = (None, pins', fw')"
  shows "tracked pins' fw' \<and> (\<forall>k \<in> opened fw'. \<exists>d. tget pins' k = Some d \<and> now < d)"
proof -
  from assms(1) have kd: "keys_distinct pins" by (simp add: tracked_def)
  have "\<exists>d. tget pins' k = Some d \<and> now < d" if "k \<in> opened fw'" for k
  proof -
    from that sweep_ok_opened [OF kd assms(2)]
    have k: "k \<in> opened fw" and live: "\<forall>d. tget pins k = Some d \<longrightarrow> now < d" by auto
    from k assms(1) obtain d where "tget pins k = Some d" by (auto simp: tracked_def)
    with live Sweep_pins [OF kd assms(2)] show ?thesis by auto
  qed
  then show ?thesis using Sweep_keys_distinct [OF kd assms(2)] by (auto simp: tracked_def)
qed

lemma forget_teardown_tracked:
  assumes "tracked pins fw" and "prog_Teardown prog b fw = (None, fw')"
  shows "tracked (Forget b pins) fw' \<and> (\<forall>ip. (b, ip) \<notin> opened fw')"
  using assms teardown_ok [OF assms(2)] by (auto simp: tracked_def Forget_tget)

lemma untracked_stays_open:
  assumes "keys_distinct pins" and "k \<in> opened fw" and "tget pins k = None"
    and "Sweep prog now pins fw = (r, pins', fw')"
    and only: "\<And>b ip fw0 r0 fw1. prog_Revoke prog b ip fw0 = (r0, fw1) \<Longrightarrow> opened fw0 - {(b, ip)} \<subseteq> opened fw1"
  shows "k \<in> opened fw' \<and> tget pins' k = None"
proof -
  have "opened fw0 - set ks \<subseteq> opened fw1" if "revoke_all prog ks fe fw0 = (r1, fw1)" for ks fe fw0 r1 fw1
    using that
  proof (induction ks arbitrary: fe fw0)
    case (Cons x xs)
    obtain r2 fw2 where rv: "prog_Revoke prog (fst x) (snd x) fw0 = (r2, fw2)" by fastforce
    from only [OF rv] have "opened fw0 - {x} \<subseteq> opened fw2" by simp
    with Cons rv show ?case by (fastforce split: option.splits)
  qed simp
  moreover from assms(4) have "revoke_all prog (sort (expired_pins now pins)) None fw = (r, fw')"
    by (auto simp: Sweep_def Let_def split: prod.splits)
  moreover have "k \<notin> set (expired_pins now pins)" using assms(1,3) by (simp add: set_expired_pins)
  ultimately have "k \<in> opened fw'" using assms(2) by fastforce
  with assms show ?thesis by (simp add: Sweep_pins)
qed

end

end
