(* ===== verification/Nftables.thy ===== *)
theory Nftables
  imports Netfw
begin

text \<open>
  The nftables programmer, \<^verbatim>\<open>internal/spoke/netfw/nftables.go\<close>. The \<^verbatim>\<open>nft\<close> binary is outside
  the repository: it is the parameter \<open>run\<close>, an arbitrary state-passing command runner (the
  injected \<^verbatim>\<open>Runner\<close>), and so are the SHA-256 hex digest \<open>h\<close> behind the object names and
  \<open>str\<close>/\<open>pfx\<close>, the textual forms of addresses and prefixes. What is modelled and proved is
  what the code itself decides: which commands it issues, in which order, on which objects, and
  which errors it lets pass.
\<close>

type_synonym 's runner = "string list \<Rightarrow> 's \<Rightarrow> string option \<times> 's"

record 's nftables =
  nf_tableEnsured :: bool
  nf_host :: 's

abbreviation tableName :: string where
  "tableName \<equiv> ''llmbox_isolation''"

definition boxHash :: "(string \<Rightarrow> string) \<Rightarrow> string \<Rightarrow> string" where
  "boxHash h boxID = take 12 (h boxID)"

definition chainName :: "(string \<Rightarrow> string) \<Rightarrow> string \<Rightarrow> string" where
  "chainName h boxID = ''box_'' @ boxHash h boxID"

definition set4Name :: "(string \<Rightarrow> string) \<Rightarrow> string \<Rightarrow> string" where
  "set4Name h boxID = ''a4_'' @ boxHash h boxID"

definition set6Name :: "(string \<Rightarrow> string) \<Rightarrow> string \<Rightarrow> string" where
  "set6Name h boxID = ''a6_'' @ boxHash h boxID"

definition ensureTable :: "'s runner \<Rightarrow> 's nftables \<Rightarrow> string option \<times> 's nftables" where
  "ensureTable run n =
     (if nf_tableEnsured n then (None, n)
      else case run [''add'', ''table'', ''inet'', tableName] (nf_host n) of
             (Some e, s') \<Rightarrow> (Some e, n\<lparr>nf_host := s'\<rparr>)
           | (None, s') \<Rightarrow> (None, n\<lparr>nf_tableEnsured := True, nf_host := s'\<rparr>))"

fun run_all :: "'s runner \<Rightarrow> (string \<Rightarrow> bool) \<Rightarrow> string list list \<Rightarrow> 's \<Rightarrow> string option \<times> 's" where
  "run_all run benign [] s = (None, s)"
| "run_all run benign (c # cs) s =
     (case run c s of
        (None, s') \<Rightarrow> run_all run benign cs s'
      | (Some e, s') \<Rightarrow> if benign e then run_all run benign cs s' else (Some e, s'))"

definition add_rule :: "string \<Rightarrow> string list \<Rightarrow> string list" where
  "add_rule chain r = [''add'', ''rule'', ''inet'', tableName, chain] @ r"

definition baseline_cmds :: "(string \<Rightarrow> string) \<Rightarrow> string \<Rightarrow> string \<Rightarrow> string \<Rightarrow> string list list" where
  "baseline_cmds h boxID src dns =
     (let chain = chainName h boxID; s4 = set4Name h boxID; s6 = set6Name h boxID in
      [[''add'', ''set'', ''inet'', tableName, s4, ''{ type ipv4_addr; flags interval; }''],
       [''add'', ''set'', ''inet'', tableName, s6, ''{ type ipv6_addr; flags interval; }''],
       [''add'', ''chain'', ''inet'', tableName, chain,
        ''{ type filter hook forward priority 0; policy accept; }''],
       add_rule chain [''ip'', ''saddr'', src, ''udp'', ''dport'', ''53'', ''ip'', ''daddr'', dns, ''accept''],
       add_rule chain [''ip'', ''saddr'', src, ''tcp'', ''dport'', ''53'', ''ip'', ''daddr'', dns, ''accept''],
       add_rule chain [''ip'', ''saddr'', src, ''ip'', ''daddr'', ''@'' @ s4, ''accept''],
       add_rule chain [''ip6'', ''saddr'', src, ''ip6'', ''daddr'', ''@'' @ s6, ''accept''],
       add_rule chain [''ip'', ''saddr'', src, ''drop'']])"

definition nft_Baseline ::
  "'s runner \<Rightarrow> (string \<Rightarrow> string) \<Rightarrow> (addr \<times> nat \<Rightarrow> string) \<Rightarrow> (addr \<Rightarrow> string) \<Rightarrow>
   string \<Rightarrow> box_spec \<Rightarrow> 's nftables \<Rightarrow> string option \<times> 's nftables"
where
  "nft_Baseline run h pfx str boxID spec n =
     (case ensureTable run n of
        (Some e, n') \<Rightarrow> (Some e, n')
      | (None, n') \<Rightarrow>
          (case run_all run (\<lambda>_. False)
                  (baseline_cmds h boxID (pfx (spec_Source spec)) (str (spec_DNS spec))) (nf_host n') of
             (r, s') \<Rightarrow> (r, n'\<lparr>nf_host := s'\<rparr>)))"

definition family_set :: "(string \<Rightarrow> string) \<Rightarrow> string \<Rightarrow> addr \<Rightarrow> string" where
  "family_set h boxID ip = (if is6 ip then set6Name h boxID else set4Name h boxID)"

definition nft_Allow ::
  "'s runner \<Rightarrow> (string \<Rightarrow> string) \<Rightarrow> (addr \<Rightarrow> string) \<Rightarrow> string \<Rightarrow> addr \<Rightarrow> 's nftables \<Rightarrow>
   string option \<times> 's nftables"
where
  "nft_Allow run h str boxID ip n =
     (case run [''add'', ''element'', ''inet'', tableName, family_set h boxID ip,
                ''{ '' @ str ip @ '' }''] (nf_host n) of
        (r, s') \<Rightarrow> (r, n\<lparr>nf_host := s'\<rparr>))"

definition nft_Revoke ::
  "'s runner \<Rightarrow> (string \<Rightarrow> string) \<Rightarrow> (addr \<Rightarrow> string) \<Rightarrow> string \<Rightarrow> addr \<Rightarrow> 's nftables \<Rightarrow>
   string option \<times> 's nftables"
where
  "nft_Revoke run h str boxID ip n =
     (case run [''delete'', ''element'', ''inet'', tableName, family_set h boxID ip,
                ''{ '' @ str ip @ '' }''] (nf_host n) of
        (r, s') \<Rightarrow> (r, n\<lparr>nf_host := s'\<rparr>))"

definition isNotFound :: "string \<Rightarrow> bool" where
  "isNotFound e = contains_str e ''No such file or directory''"

definition teardown_cmds :: "(string \<Rightarrow> string) \<Rightarrow> string \<Rightarrow> string list list" where
  "teardown_cmds h boxID =
     [[''delete'', ''chain'', ''inet'', tableName, chainName h boxID],
      [''delete'', ''set'', ''inet'', tableName, set4Name h boxID],
      [''delete'', ''set'', ''inet'', tableName, set6Name h boxID]]"

definition nft_Teardown ::
  "'s runner \<Rightarrow> (string \<Rightarrow> string) \<Rightarrow> string \<Rightarrow> 's nftables \<Rightarrow> string option \<times> 's nftables"
where
  "nft_Teardown run h boxID n =
     (case run_all run isNotFound (teardown_cmds h boxID) (nf_host n) of
        (r, s') \<Rightarrow> (r, n\<lparr>nf_host := s'\<rparr>))"

subsection \<open>The capturing runner\<close>

text \<open>A runner that always succeeds and logs, the one the unit tests inject.\<close>

definition capture :: "(string list list) runner" where
  "capture c log = (None, log @ [c])"

lemma run_all_capture: "run_all capture b cs log = (None, log @ cs)"
  by (induction cs arbitrary: log) (auto simp: capture_def)

lemma run_all_benign:
  assumes "\<And>c s e s'. c \<in> set cs \<Longrightarrow> run c s = (Some e, s') \<Longrightarrow> benign e"
  shows "fst (run_all run benign cs s) = None"
  using assms
proof (induction cs arbitrary: s)
  case (Cons c cs)
  obtain r s' where rs: "run c s = (r, s')" by fastforce
  from Cons.IH Cons.prems have IH: "fst (run_all run benign cs s') = None" by (metis list.set_intros(2))
  show ?case
  proof (cases r)
    case None
    with rs IH show ?thesis by simp
  next
    case (Some e)
    with rs Cons.prems have "benign e" by (metis list.set_intros(1))
    with Some rs IH show ?thesis by simp
  qed
qed simp

text \<open>
  On a fresh programmer whose runner never fails, a baseline issues
  exactly: the table, the two per-family sets, the per-box hook chain, the two DNS accepts, the
  two pinned-set accepts, and last the drop; on a programmer whose table exists, the same
  without the table. Every accept rule is bound to the box's source prefix, and no rule follows
  the drop, so egress outside the resolver and the pinned sets is not accepted by the chain.
\<close>

lemma nft_baseline_sequence:
  "nft_Baseline capture h pfx str b spec n =
     (None, \<lparr>nf_tableEnsured = True,
             nf_host = nf_host n @
               (if nf_tableEnsured n then [] else [[''add'', ''table'', ''inet'', tableName]]) @
               baseline_cmds h b (pfx (spec_Source spec)) (str (spec_DNS spec))\<rparr>) \<and>
   last (baseline_cmds h b src dns) = add_rule (chainName h b) [''ip'', ''saddr'', src, ''drop''] \<and>
   length (filter (\<lambda>c. last c = ''accept'') (baseline_cmds h b src dns)) = 4 \<and>
   filter (\<lambda>c. last c = ''accept'' \<and> take 3 (drop 5 c) \<noteq> [''ip'', ''saddr'', src] \<and>
                take 3 (drop 5 c) \<noteq> [''ip6'', ''saddr'', src]) (baseline_cmds h b src dns) = []"
proof (intro conjI)
  show "nft_Baseline capture h pfx str b spec n =
     (None, \<lparr>nf_tableEnsured = True,
             nf_host = nf_host n @
               (if nf_tableEnsured n then [] else [[''add'', ''table'', ''inet'', tableName]]) @
               baseline_cmds h b (pfx (spec_Source spec)) (str (spec_DNS spec))\<rparr>)"
    by (cases n) (simp add: nft_Baseline_def ensureTable_def run_all_capture capture_def)
qed (simp_all add: baseline_cmds_def Let_def add_rule_def)

text \<open>
  The single drop rule a baseline installs matches the box's
  source in the IPv4 header family only: no \<open>ip6\<close> rule drops anything, so IPv6 packets that
  match no accept rule fall through to the hook chain's \<open>policy accept\<close>.
\<close>

lemma nft_baseline_drops_ipv4_only:
  "filter (\<lambda>c. last c = ''drop'') (baseline_cmds h b src dns) =
     [add_rule (chainName h b) [''ip'', ''saddr'', src, ''drop'']] \<and>
   baseline_cmds h b src dns ! 2 = [''add'', ''chain'', ''inet'', tableName, chainName h b,
     ''{ type filter hook forward priority 0; policy accept; }'']"
  by (simp add: baseline_cmds_def Let_def add_rule_def)

text \<open>
  Further (nft_teardown_idempotent). Teardown succeeds whenever each delete either succeeds or fails
  with nft's missing-object message, whatever state the host is in; so tearing down a box twice,
  or a box whose baseline half-failed, is not an error.
\<close>

theorem nft_teardown_idempotent:
  assumes "\<And>c s e s'. run c s = (Some e, s') \<Longrightarrow> contains_str e ''No such file or directory''"
  shows "fst (nft_Teardown run h b n) = None"
proof -
  have "fst (run_all run isNotFound (teardown_cmds h b) (nf_host n)) = None"
    by (rule run_all_benign) (auto simp: isNotFound_def dest: assms)
  then show ?thesis by (auto simp: nft_Teardown_def split: prod.splits)
qed

theorem nft_teardown_idempotent_witness:
  "fst (nft_Teardown (\<lambda>c s. (Some ''Error: No such file or directory'', s)) (\<lambda>b. b) ''web''
     \<lparr>nf_tableEnsured = False, nf_host = ()\<rparr>) = None"
  by (rule nft_teardown_idempotent) (auto simp: contains_str.simps)

lemma family_sets_disjoint: "set4Name h b \<noteq> set6Name h b'"
  by (simp add: set4Name_def set6Name_def)

end
