(* ===== verification/Netaddr.thy ===== *)
theory Netaddr
  imports Prelude
begin

text \<open>
  The pieces of Go's \<^verbatim>\<open>net\<close> and \<^verbatim>\<open>strconv\<close> packages that the program's host handling uses:
  \<open>split_host_port\<close> (\<^verbatim>\<open>net.SplitHostPort\<close>), \<open>join_host_port\<close> (\<^verbatim>\<open>net.JoinHostPort\<close>), decimal
  parsing (\<^verbatim>\<open>strconv.Atoi\<close>) and decimal printing, with the round trips the callers need.
\<close>

definition split_host_port :: "string \<Rightarrow> (string \<times> string) option" where
  "split_host_port hp =
     (if CHR '':'' \<notin> set hp then None
      else
        let port = rev (takeWhile (\<lambda>c. c \<noteq> CHR '':'') (rev hp));
            i = length hp - length port - 1
        in if hp ! 0 = CHR ''['' then
             (let e = length (takeWhile (\<lambda>c. c \<noteq> CHR '']'') hp) in
              if CHR '']'' \<notin> set hp \<or> e + 1 = length hp \<or> e + 1 \<noteq> i then None
              else if CHR ''['' \<in> set (drop 1 hp) \<or> CHR '']'' \<in> set (drop (e + 1) hp) then None
              else Some (drop 1 (take e hp), port))
           else
             (let host = take i hp in
              if CHR '':'' \<in> set host then None
              else if CHR ''['' \<in> set hp \<or> CHR '']'' \<in> set hp then None
              else Some (host, port)))"

definition join_host_port :: "string \<Rightarrow> string \<Rightarrow> string" where
  "join_host_port host port =
     (if CHR '':'' \<in> set host then ''['' @ host @ '']:'' @ port else host @ '':'' @ port)"

definition plain_host :: "string \<Rightarrow> bool" where
  "plain_host h \<longleftrightarrow> CHR ''['' \<notin> set h \<and> CHR '']'' \<notin> set h"

lemma takeWhile_rev_port:
  "CHR '':'' \<notin> set p \<Longrightarrow>
     rev (takeWhile (\<lambda>c. c \<noteq> CHR '':'') (rev (h @ CHR '':'' # p))) = p"
  by (auto simp: takeWhile_append takeWhile_eq_all_conv)

lemma split_join_plain:
  assumes "CHR '':'' \<notin> set h" "h \<noteq> []" "plain_host h" "plain_host p" "CHR '':'' \<notin> set p"
  shows "split_host_port (h @ CHR '':'' # p) = Some (h, p)"
proof -
  from assms(2,3) have "(h @ CHR '':'' # p) ! 0 \<noteq> CHR ''[''"
    by (cases h) (auto simp: plain_host_def)
  with assms takeWhile_rev_port [OF assms(5), of h] show ?thesis
    by (auto simp: split_host_port_def Let_def plain_host_def)
qed

lemma takeWhile_bracket:
  "plain_host h \<Longrightarrow>
     takeWhile (\<lambda>c. c \<noteq> CHR '']'') (CHR ''['' # h @ CHR '']'' # t) = CHR ''['' # h"
  by (auto simp: plain_host_def takeWhile_append takeWhile_eq_all_conv)

lemma split_join_bracketed:
  assumes "plain_host h" "plain_host p" "CHR '':'' \<notin> set p"
  shows "split_host_port (''['' @ h @ '']:'' @ p) = Some (h, p)"
proof -
  have "rev (takeWhile (\<lambda>c. c \<noteq> CHR '':'') (rev (''['' @ h @ '']:'' @ p))) = p"
    using takeWhile_rev_port [OF assms(3), of "''['' @ h @ '']''"] by simp
  then show ?thesis
    using assms takeWhile_bracket [OF assms(1), of "CHR '':'' # p"]
    by (auto simp: split_host_port_def Let_def plain_host_def)
qed

lemma split_join_host_port:
  assumes "h \<noteq> []" "plain_host h" "plain_host p" "CHR '':'' \<notin> set p"
  shows "split_host_port (join_host_port h p) = Some (h, p)"
  using assms split_join_bracketed [OF assms(2-4)] split_join_plain [of h p]
  by (auto simp: join_host_port_def)

subsection \<open>Decimal numbers\<close>

definition digit_val :: "char \<Rightarrow> nat" where
  "digit_val c = of_char c - 48"

fun digits_val :: "nat \<Rightarrow> string \<Rightarrow> nat" where
  "digits_val acc [] = acc"
| "digits_val acc (c # cs) = digits_val (acc * 10 + digit_val c) cs"

definition atoi_digits :: "string \<Rightarrow> nat option" where
  "atoi_digits s = (if s \<noteq> [] \<and> list_all is_digit s then Some (digits_val 0 s) else None)"

text \<open>\<^verbatim>\<open>strconv.Atoi\<close> up to its range check, which no caller here can observe.\<close>

definition atoi :: "string \<Rightarrow> int option" where
  "atoi s =
     (case s of
        [] \<Rightarrow> None
      | c # cs \<Rightarrow>
          if c = CHR ''+'' then map_option int (atoi_digits cs)
          else if c = CHR ''-'' then map_option (\<lambda>n. - int n) (atoi_digits cs)
          else map_option int (atoi_digits s))"

definition digit_char :: "nat \<Rightarrow> char" where
  "digit_char d = char_of (48 + d)"

fun show_nat :: "nat \<Rightarrow> string" where
  "show_nat n = (if n < 10 then [digit_char n] else show_nat (n div 10) @ [digit_char (n mod 10)])"

declare show_nat.simps [simp del]

definition show_int :: "int \<Rightarrow> string" where
  "show_int i = (if i < 0 then ''-'' @ show_nat (nat (- i)) else show_nat (nat i))"

lemma of_char_digit_char: "d < 10 \<Longrightarrow> (of_char (digit_char d) :: nat) = 48 + d"
  by (simp add: digit_char_def of_char_of)

lemma digits_val_append: "digits_val acc (s @ [c]) = digits_val acc s * 10 + digit_val c"
  by (induction acc s rule: digits_val.induct) auto

lemma show_nat_digits: "show_nat n \<noteq> [] \<and> list_all is_digit (show_nat n)"
proof (induction n rule: show_nat.induct)
  case (1 n)
  then show ?case
    by (cases "n < 10") (auto simp: show_nat.simps [of n] is_digit_def of_char_digit_char)
qed

lemma digits_val_show_nat: "digits_val 0 (show_nat n) = n"
proof (induction n rule: show_nat.induct)
  case (1 n)
  then show ?case
    by (cases "n < 10")
      (auto simp: show_nat.simps [of n] digits_val_append digit_val_def of_char_digit_char)
qed

lemma show_nat_inject: "show_nat m = show_nat n \<longleftrightarrow> m = n"
  using digits_val_show_nat by metis

lemma is_digit_not_sign: "is_digit c \<Longrightarrow> c \<noteq> CHR ''+'' \<and> c \<noteq> CHR ''-'' \<and> c \<noteq> CHR '':'' \<and> c \<noteq> CHR ''.''"
  by (auto simp: is_digit_def)

lemma atoi_show_nat: "atoi (show_nat n) = Some (int n)"
proof (cases "show_nat n")
  case Nil
  then show ?thesis using show_nat_digits [of n] by simp
next
  case (Cons c cs)
  with show_nat_digits [of n] have "is_digit c" by simp
  with Cons show_nat_digits [of n] digits_val_show_nat [of n] show ?thesis
    by (auto simp: atoi_def atoi_digits_def dest: is_digit_not_sign)
qed

end
