(* ===== verification/HubStore.thy ===== *)
theory HubStore
  imports Netaddr
begin

text \<open>
  The hub's database, \<^verbatim>\<open>internal/hub/store\<close> (\<^verbatim>\<open>store.go\<close>, \<^verbatim>\<open>sqlite.go\<close>, \<^verbatim>\<open>allowlist_store.go\<close>,
  \<^verbatim>\<open>dns_audit_store.go\<close>). Each SQL table is a keyed table (\<open>Prelude.table\<close>) of rows; each method is
  the effect of its statement on those tables. \<open>db_down op\<close> says that the database refuses the
  operation \<open>op\<close> (an I/O error); a refused operation returns the error and changes nothing, which
  is what a single statement or a rolled-back transaction does. Rows keep times as values and the
  statements that compare times compare their stored text \<open>encodeTime\<close>, as the SQL does.

  The locale \<open>kv_store\<close> is what the rest of the hub relies on for every table with a single key:
  a successful write is read back, other keys are untouched. It is interpreted for each of them.
\<close>

subsection \<open>Records\<close>

datatype store_error = StoreIO string | NameTaken string

datatype lifecycle = LifecycleRunning | LifecycleTerminated | LifecycleOther string

type_synonym hook_state = "(string, string) table"

record store_box =
  sb_Token :: string
  sb_InstanceID :: string
  sb_BoxID :: string
  sb_Spoke :: string
  sb_Description :: string
  sb_Status :: string
  sb_LastError :: string
  sb_HookState :: "hook_state option"
  sb_Lifecycle :: lifecycle
  sb_CreatedAt :: time
  sb_ObservedName :: string
  sb_ObservedImage :: string
  sb_ObservedState :: string
  sb_ObservedAt :: "time option"

record identity_session =
  is_Email :: string
  is_Provider :: string
  is_CSRFToken :: string
  is_ExpiresAt :: time
  is_CanAdmin :: bool

record oidc_flow =
  of_Provider :: string
  of_ReturnTo :: string
  of_Nonce :: string
  of_PKCEVerifier :: string
  of_ExpiresAt :: time

record proxy_record =
  pr_Slug :: string
  pr_BoxID :: string
  pr_InstanceID :: string
  pr_Port :: int
  pr_Spoke :: string
  pr_CreatedAt :: time
  pr_Owner :: string
  pr_Description :: string

record api_key_record =
  ak_Name :: string
  ak_CreatedAt :: time
  ak_ExpiresAt :: time

record join_token_record =
  jt_Name :: string
  jt_Backend :: string
  jt_ExpiresAt :: time

record spoke_record =
  sr_Name :: string
  sr_CredentialHash :: string
  sr_EnrolledAt :: time

record allowlist_group =
  ag_ID :: string
  ag_Name :: string
  ag_Description :: string
  ag_TTLSeconds :: int
  ag_IsGlobal :: bool
  ag_Domains :: "string list"
  ag_CreatedAt :: time
  ag_UpdatedAt :: time

record dns_audit_entry =
  da_BoxID :: string
  da_Domain :: string
  da_Verdict :: string
  da_Hits :: int
  da_FirstSeen :: time
  da_LastSeen :: time

record dns_audit_filter =
  df_BoxID :: string
  df_Verdict :: string
  df_Domain :: string
  df_Limit :: int

text \<open>The schema. Key columns are kept as table keys, the remaining columns in the row.\<close>

record db =
  db_boxes :: "(string, store_box) table"
  db_sessions :: "(string, identity_session) table"
  db_flows :: "(string, oidc_flow) table"
  db_join_tokens :: "(string, join_token_record) table"
  db_spokes :: "(string, spoke_record) table"
  db_proxies :: "(string, proxy_record) table"
  db_settings :: "(string, string) table"
  db_api_keys :: "(string, api_key_record) table"
  db_groups :: "(string, allowlist_group) table"
  db_group_domains :: "(string \<times> string) list"
  db_box_groups :: "(string \<times> string) list"
  db_audit :: "(string \<times> string \<times> string, dns_audit_entry) table"
  db_down :: "string \<Rightarrow> bool"

definition empty_db :: db where
  "empty_db =
     \<lparr>db_boxes = [], db_sessions = [], db_flows = [], db_join_tokens = [], db_spokes = [],
      db_proxies = [], db_settings = [], db_api_keys = [], db_groups = [], db_group_domains = [],
      db_box_groups = [], db_audit = [], db_down = (\<lambda>_. False)\<rparr>"

definition attempt :: "string \<Rightarrow> db \<Rightarrow> 'a \<Rightarrow> store_error + 'a" where
  "attempt oper d r = (if db_down d oper then Inl (StoreIO oper) else Inr r)"

lemma attempt_Inr [simp]: "attempt oper d r = Inr x \<longleftrightarrow> \<not> db_down d oper \<and> r = x"
  by (simp add: attempt_def)

lemma attempt_Inl [simp]: "attempt oper d r = Inl e \<longleftrightarrow> db_down d oper \<and> e = StoreIO oper"
  by (auto simp: attempt_def)

subsection \<open>Timestamps\<close>

text \<open>
  \<^verbatim>\<open>encodeTime\<close> is \<^verbatim>\<open>time.RFC3339Nano\<close> for a UTC time: date and time of day, then the fraction of the
  second without trailing zeros (nothing at all when it is zero), then \<^verbatim>\<open>Z\<close>. \<open>civil\<close> is the
  proleptic Gregorian date of a day number counted from 1970-01-01.
\<close>

definition civil :: "int \<Rightarrow> int \<times> int \<times> int" where
  "civil days =
     (let z = days + 719468;
          era = z div 146097;
          doe = z mod 146097;
          yoe = (doe - doe div 1460 + doe div 36524 - doe div 146096) div 365;
          doy = doe - (365 * yoe + yoe div 4 - yoe div 100);
          mp = (5 * doy + 2) div 153;
          d = doy - (153 * mp + 2) div 5 + 1;
          m = (if mp < 10 then mp + 3 else mp - 9);
          y = yoe + era * 400
      in (if m \<le> 2 then y + 1 else y, m, d))"

definition pad :: "nat \<Rightarrow> int \<Rightarrow> string" where
  "pad n i = (let s = show_nat (nat i) in replicate (n - length s) (CHR ''0'') @ s)"

definition fraction :: "int \<Rightarrow> string" where
  "fraction nanos =
     (if nanos = 0 then [] else ''.'' @ trim_right_func (\<lambda>c. c = CHR ''0'') (pad 9 nanos))"

definition encodeTime :: "time \<Rightarrow> string" where
  "encodeTime t =
     (let secs = t div second; nanos = t mod second;
          (y, m, d) = civil (secs div 86400); s = secs mod 86400
      in pad 4 y @ ''-'' @ pad 2 m @ ''-'' @ pad 2 d @ ''T'' @
         pad 2 (s div 3600) @ '':'' @ pad 2 (s div 60 mod 60) @ '':'' @ pad 2 (s mod 60) @
         fraction nanos @ ''Z'')"

subsection \<open>Boxes\<close>

definition PutBox :: "store_box \<Rightarrow> db \<Rightarrow> store_error + db" where
  "PutBox b d = attempt ''PutBox'' d (d\<lparr>db_boxes := tput (sb_Token b) b (db_boxes d)\<rparr>)"

definition DeleteBox :: "string \<Rightarrow> db \<Rightarrow> store_error + db" where
  "DeleteBox token d = attempt ''DeleteBox'' d (d\<lparr>db_boxes := tdel token (db_boxes d)\<rparr>)"

definition ListBoxes :: "db \<Rightarrow> store_error + store_box list" where
  "ListBoxes d = attempt ''ListBoxes'' d (map snd (db_boxes d))"

subsection \<open>Sign-in state\<close>

definition PutOIDCFlow :: "string \<Rightarrow> oidc_flow \<Rightarrow> db \<Rightarrow> store_error + db" where
  "PutOIDCFlow state f d = attempt ''PutOIDCFlow'' d (d\<lparr>db_flows := tput state f (db_flows d)\<rparr>)"

definition TakeOIDCFlow :: "string \<Rightarrow> db \<Rightarrow> store_error + (oidc_flow option \<times> db)" where
  "TakeOIDCFlow state d =
     attempt ''TakeOIDCFlow'' d (tget (db_flows d) state, d\<lparr>db_flows := tdel state (db_flows d)\<rparr>)"

definition PutIdentitySession :: "string \<Rightarrow> identity_session \<Rightarrow> db \<Rightarrow> store_error + db" where
  "PutIdentitySession i s d =
     attempt ''PutIdentitySession'' d (d\<lparr>db_sessions := tput i s (db_sessions d)\<rparr>)"

definition GetIdentitySession :: "string \<Rightarrow> db \<Rightarrow> store_error + identity_session option" where
  "GetIdentitySession i d = attempt ''GetIdentitySession'' d (tget (db_sessions d) i)"

definition DeleteIdentitySession :: "string \<Rightarrow> db \<Rightarrow> store_error + db" where
  "DeleteIdentitySession i d =
     attempt ''DeleteIdentitySession'' d (d\<lparr>db_sessions := tdel i (db_sessions d)\<rparr>)"

definition PurgeExpiredIdentities :: "time \<Rightarrow> db \<Rightarrow> store_error + db" where
  "PurgeExpiredIdentities now d =
     (let cutoff = encodeTime now in
      attempt ''PurgeExpiredIdentities'' d
        (d\<lparr>db_sessions := filter (\<lambda>(_, s). \<not> encodeTime (is_ExpiresAt s) < cutoff) (db_sessions d),
           db_flows := filter (\<lambda>(_, f). \<not> encodeTime (of_ExpiresAt f) < cutoff) (db_flows d)\<rparr>))"

subsection \<open>Join tokens, spokes and API keys\<close>

definition PutJoinToken :: "string \<Rightarrow> join_token_record \<Rightarrow> db \<Rightarrow> store_error + db" where
  "PutJoinToken h rec d =
     attempt ''PutJoinToken'' d (d\<lparr>db_join_tokens := tput h rec (db_join_tokens d)\<rparr>)"

definition TakeJoinToken :: "string \<Rightarrow> db \<Rightarrow> store_error + (join_token_record option \<times> db)" where
  "TakeJoinToken h d =
     attempt ''TakeJoinToken'' d
       (tget (db_join_tokens d) h, d\<lparr>db_join_tokens := tdel h (db_join_tokens d)\<rparr>)"

definition ListJoinTokens :: "db \<Rightarrow> store_error + (string \<times> join_token_record) list" where
  "ListJoinTokens d = attempt ''ListJoinTokens'' d (db_join_tokens d)"

definition DeleteJoinToken :: "string \<Rightarrow> db \<Rightarrow> store_error + db" where
  "DeleteJoinToken h d =
     attempt ''DeleteJoinToken'' d (d\<lparr>db_join_tokens := tdel h (db_join_tokens d)\<rparr>)"

definition PutAPIKey :: "string \<Rightarrow> api_key_record \<Rightarrow> db \<Rightarrow> store_error + db" where
  "PutAPIKey h rec d = attempt ''PutAPIKey'' d (d\<lparr>db_api_keys := tput h rec (db_api_keys d)\<rparr>)"

definition GetAPIKey :: "string \<Rightarrow> db \<Rightarrow> store_error + api_key_record option" where
  "GetAPIKey h d = attempt ''GetAPIKey'' d (tget (db_api_keys d) h)"

definition ListAPIKeys :: "db \<Rightarrow> store_error + (string \<times> api_key_record) list" where
  "ListAPIKeys d = attempt ''ListAPIKeys'' d (db_api_keys d)"

definition DeleteAPIKey :: "string \<Rightarrow> db \<Rightarrow> store_error + db" where
  "DeleteAPIKey h d = attempt ''DeleteAPIKey'' d (d\<lparr>db_api_keys := tdel h (db_api_keys d)\<rparr>)"

definition PutSpoke :: "string \<Rightarrow> spoke_record \<Rightarrow> db \<Rightarrow> store_error + db" where
  "PutSpoke name rec d =
     attempt ''PutSpoke'' d (d\<lparr>db_spokes := tput name (rec\<lparr>sr_Name := name\<rparr>) (db_spokes d)\<rparr>)"

definition GetSpoke :: "string \<Rightarrow> db \<Rightarrow> store_error + spoke_record option" where
  "GetSpoke name d = attempt ''GetSpoke'' d (tget (db_spokes d) name)"

definition ListSpokes :: "db \<Rightarrow> store_error + spoke_record list" where
  "ListSpokes d = attempt ''ListSpokes'' d (map snd (db_spokes d))"

definition DeleteSpoke :: "string \<Rightarrow> db \<Rightarrow> store_error + db" where
  "DeleteSpoke name d = attempt ''DeleteSpoke'' d (d\<lparr>db_spokes := tdel name (db_spokes d)\<rparr>)"

subsection \<open>Proxies and settings\<close>

definition SaveProxy :: "proxy_record \<Rightarrow> db \<Rightarrow> store_error + db" where
  "SaveProxy rec d = attempt ''SaveProxy'' d (d\<lparr>db_proxies := tput (pr_Slug rec) rec (db_proxies d)\<rparr>)"

definition GetProxy :: "string \<Rightarrow> db \<Rightarrow> store_error + proxy_record option" where
  "GetProxy slug d = attempt ''GetProxy'' d (tget (db_proxies d) slug)"

definition ListProxies :: "db \<Rightarrow> store_error + proxy_record list" where
  "ListProxies d = attempt ''ListProxies'' d (map snd (db_proxies d))"

definition DeleteProxy :: "string \<Rightarrow> db \<Rightarrow> store_error + db" where
  "DeleteProxy slug d = attempt ''DeleteProxy'' d (d\<lparr>db_proxies := tdel slug (db_proxies d)\<rparr>)"

definition PutSetting :: "string \<Rightarrow> string \<Rightarrow> db \<Rightarrow> store_error + db" where
  "PutSetting k v d = attempt ''PutSetting'' d (d\<lparr>db_settings := tput k v (db_settings d)\<rparr>)"

definition GetSetting :: "string \<Rightarrow> db \<Rightarrow> store_error + string option" where
  "GetSetting k d = attempt ''GetSetting'' d (tget (db_settings d) k)"

subsection \<open>Allowlist groups\<close>

definition SaveAllowlistGroup :: "allowlist_group \<Rightarrow> db \<Rightarrow> store_error + db" where
  "SaveAllowlistGroup g d =
     (if db_down d ''SaveAllowlistGroup'' then Inl (StoreIO ''SaveAllowlistGroup'')
      else if list_ex (\<lambda>(i, g'). i \<noteq> ag_ID g \<and> ag_Name g' = ag_Name g) (db_groups d)
      then Inl (NameTaken (ag_Name g))
      else
        let created = (case tget (db_groups d) (ag_ID g) of
                         None \<Rightarrow> ag_CreatedAt g | Some old \<Rightarrow> ag_CreatedAt old);
            row = g\<lparr>ag_Domains := [], ag_CreatedAt := created\<rparr>
        in Inr (d\<lparr>db_groups := tput (ag_ID g) row (db_groups d),
                  db_group_domains := filter (\<lambda>p. fst p \<noteq> ag_ID g) (db_group_domains d)
                    @ map (Pair (ag_ID g)) (uniq [] (ag_Domains g))\<rparr>))"

definition domainsFor :: "string \<Rightarrow> db \<Rightarrow> string list" where
  "domainsFor i d = sort (map snd (filter (\<lambda>p. fst p = i) (db_group_domains d)))"

definition GetAllowlistGroup :: "string \<Rightarrow> db \<Rightarrow> store_error + allowlist_group option" where
  "GetAllowlistGroup i d =
     attempt ''GetAllowlistGroup'' d
       (map_option (\<lambda>g. g\<lparr>ag_Domains := domainsFor i d\<rparr>) (tget (db_groups d) i))"

definition ListAllowlistGroups :: "db \<Rightarrow> store_error + allowlist_group list" where
  "ListAllowlistGroups d =
     attempt ''ListAllowlistGroups'' d
       (map (\<lambda>g. g\<lparr>ag_Domains := domainsFor (ag_ID g) d\<rparr>) (sort_key ag_Name (map snd (db_groups d))))"

definition DeleteAllowlistGroup :: "string \<Rightarrow> db \<Rightarrow> store_error + db" where
  "DeleteAllowlistGroup i d =
     attempt ''DeleteAllowlistGroup'' d
       (d\<lparr>db_group_domains := filter (\<lambda>p. fst p \<noteq> i) (db_group_domains d),
          db_box_groups := filter (\<lambda>p. snd p \<noteq> i) (db_box_groups d),
          db_groups := tdel i (db_groups d)\<rparr>)"

definition SetBoxGroups :: "string \<Rightarrow> string list \<Rightarrow> db \<Rightarrow> store_error + db" where
  "SetBoxGroups boxID gids d =
     attempt ''SetBoxGroups'' d
       (d\<lparr>db_box_groups := filter (\<lambda>p. fst p \<noteq> boxID) (db_box_groups d) @ map (Pair boxID) (uniq [] gids)\<rparr>)"

definition GetBoxGroups :: "string \<Rightarrow> db \<Rightarrow> store_error + string list" where
  "GetBoxGroups boxID d =
     attempt ''GetBoxGroups'' d (sort (map snd (filter (\<lambda>p. fst p = boxID) (db_box_groups d))))"

definition ListBoxGroups :: "db \<Rightarrow> store_error + (string, string list) table" where
  "ListBoxGroups d =
     attempt ''ListBoxGroups'' d
       (map (\<lambda>b. (b, sort (map snd (filter (\<lambda>p. fst p = b) (db_box_groups d)))))
          (sort (remdups (map fst (db_box_groups d)))))"

subsection \<open>The DNS audit table\<close>

definition RecordDNSLookup :: "string \<Rightarrow> string \<Rightarrow> string \<Rightarrow> time \<Rightarrow> db \<Rightarrow> store_error + db" where
  "RecordDNSLookup boxID domain verdict at d =
     (let k = (boxID, domain, verdict);
          row = (case tget (db_audit d) k of
                   None \<Rightarrow> \<lparr>da_BoxID = boxID, da_Domain = domain, da_Verdict = verdict, da_Hits = 1,
                            da_FirstSeen = at, da_LastSeen = at\<rparr>
                 | Some e \<Rightarrow> e\<lparr>da_Hits := da_Hits e + 1, da_LastSeen := at\<rparr>)
      in attempt ''RecordDNSLookup'' d (d\<lparr>db_audit := tput k row (db_audit d)\<rparr>))"

text \<open>SQL \<^verbatim>\<open>LIKE\<close>: percent matches any run, underscore one character, letters without case.\<close>

fun like :: "string \<Rightarrow> string \<Rightarrow> bool" where
  "like [] s = (s = [])"
| "like (p # ps) [] = (p = CHR ''%'' \<and> like ps [])"
| "like (p # ps) (c # cs) =
     (if p = CHR ''%'' then like ps (c # cs) \<or> like (p # ps) cs
      else if p = CHR ''_'' then like ps cs
      else lower_char p = lower_char c \<and> like ps cs)"

abbreviation defaultDNSAuditLimit :: int where
  "defaultDNSAuditLimit \<equiv> 500"

definition audit_matches :: "dns_audit_filter \<Rightarrow> dns_audit_entry \<Rightarrow> bool" where
  "audit_matches f e \<longleftrightarrow>
     (df_BoxID f = [] \<or> da_BoxID e = df_BoxID f) \<and>
     (df_Verdict f = [] \<or> da_Verdict e = df_Verdict f) \<and>
     (df_Domain f = [] \<or> like (''%'' @ df_Domain f @ ''%'') (da_Domain e))"

definition ListDNSAudit :: "dns_audit_filter \<Rightarrow> db \<Rightarrow> store_error + dns_audit_entry list" where
  "ListDNSAudit f d =
     (let limit = (if df_Limit f \<le> 0 then defaultDNSAuditLimit else df_Limit f);
          rows = filter (audit_matches f) (map snd (db_audit d))
      in attempt ''ListDNSAudit'' d
           (take (nat limit) (rev (sort_key (\<lambda>e. encodeTime (da_LastSeen e)) (rev rows)))))"

definition DeleteDNSAuditForBox :: "string \<Rightarrow> db \<Rightarrow> store_error + db" where
  "DeleteDNSAuditForBox boxID d =
     attempt ''DeleteDNSAuditForBox'' d (d\<lparr>db_audit := filter (\<lambda>(k, _). fst k \<noteq> boxID) (db_audit d)\<rparr>)"

subsection \<open>What clients of a single-key table rely on\<close>

datatype ('k, 'v) kv_write = KPut 'k 'v | KDel 'k

fun kv_run ::
  "('k \<Rightarrow> 'v \<Rightarrow> 'd \<Rightarrow> 'e + 'd) \<Rightarrow> ('k \<Rightarrow> 'd \<Rightarrow> 'e + 'd) \<Rightarrow> ('k, 'v) kv_write list \<Rightarrow> 'd \<Rightarrow> 'e + 'd"
where
  "kv_run put del [] d = Inr d"
| "kv_run put del (KPut k v # ws) d =
     (case put k v d of Inl e \<Rightarrow> Inl e | Inr d' \<Rightarrow> kv_run put del ws d')"
| "kv_run put del (KDel k # ws) d =
     (case del k d of Inl e \<Rightarrow> Inl e | Inr d' \<Rightarrow> kv_run put del ws d')"

fun kv_spec :: "('k, 'v) kv_write list \<Rightarrow> ('k \<rightharpoonup> 'v) \<Rightarrow> 'k \<rightharpoonup> 'v" where
  "kv_spec [] m = m"
| "kv_spec (KPut k v # ws) m = kv_spec ws (m(k \<mapsto> v))"
| "kv_spec (KDel k # ws) m = kv_spec ws (m(k := None))"

locale kv_put =
  fixes put :: "'k \<Rightarrow> 'v \<Rightarrow> 'd \<Rightarrow> 'e + 'd"
    and look :: "'d \<Rightarrow> 'k \<Rightarrow> 'v option"
  assumes put_look: "put k v d = Inr d' \<Longrightarrow> look d' = (look d)(k \<mapsto> v)"
begin

lemma read_your_write: "put k v d = Inr d' \<Longrightarrow> look d' k = Some v"
  by (simp add: put_look)

lemma overwrite: "put k v d = Inr d1 \<Longrightarrow> put k w d1 = Inr d2 \<Longrightarrow> look d2 = (look d)(k \<mapsto> w)"
  by (simp add: put_look)

end

locale kv_store = kv_put put look
  for put :: "'k \<Rightarrow> 'v \<Rightarrow> 'd \<Rightarrow> 'e + 'd" and look :: "'d \<Rightarrow> 'k \<Rightarrow> 'v option" +
  fixes del :: "'k \<Rightarrow> 'd \<Rightarrow> 'e + 'd"
  assumes del_look: "del k d = Inr d' \<Longrightarrow> look d' = (look d)(k := None)"
begin

lemma run_refines_map: "kv_run put del ws d = Inr d' \<Longrightarrow> look d' = kv_spec ws (look d)"
proof (induction ws arbitrary: d)
  case (Cons w ws)
  then show ?case
    by (cases w) (auto simp: put_look del_look fun_upd_def split: sum.splits)
qed simp

end

locale kv_take = kv_put put look
  for put :: "'k \<Rightarrow> 'v \<Rightarrow> 'd \<Rightarrow> 'e + 'd" and look :: "'d \<Rightarrow> 'k \<Rightarrow> 'v option" +
  fixes take_row :: "'k \<Rightarrow> 'd \<Rightarrow> 'e + ('v option \<times> 'd)"
  assumes take_look: "take_row k d = Inr (r, d') \<Longrightarrow> r = look d k \<and> look d' = (look d)(k := None)"
begin

lemma put_then_take: "put k v d = Inr d1 \<Longrightarrow> take_row k d1 = Inr (r, d2) \<Longrightarrow> r = Some v"
  by (metis read_your_write take_look)

lemma second_take_fails:
  "take_row k d = Inr (r, d1) \<Longrightarrow> take_row k d1 = Inr (r', d2) \<Longrightarrow> r' = None"
  by (metis fun_upd_same take_look)

end

interpretation session_kv: kv_store PutIdentitySession "\<lambda>d. tget (db_sessions d)" DeleteIdentitySession
  by unfold_locales (auto simp: PutIdentitySession_def DeleteIdentitySession_def)

interpretation flow_kv: kv_take PutOIDCFlow "\<lambda>d. tget (db_flows d)" TakeOIDCFlow
  by unfold_locales (auto simp: PutOIDCFlow_def TakeOIDCFlow_def)

interpretation join_kv: kv_store PutJoinToken "\<lambda>d. tget (db_join_tokens d)" DeleteJoinToken
  by unfold_locales (auto simp: PutJoinToken_def DeleteJoinToken_def)

interpretation join_once: kv_take PutJoinToken "\<lambda>d. tget (db_join_tokens d)" TakeJoinToken
  by unfold_locales (auto simp: PutJoinToken_def TakeJoinToken_def)

interpretation apikey_kv: kv_store PutAPIKey "\<lambda>d. tget (db_api_keys d)" DeleteAPIKey
  by unfold_locales (auto simp: PutAPIKey_def DeleteAPIKey_def)

interpretation setting_kv: kv_put PutSetting "\<lambda>d. tget (db_settings d)"
  by unfold_locales (auto simp: PutSetting_def)

subsection \<open>Properties of the tables\<close>

text \<open>
  Further (api_keys_refine_map). The API-key table behaves as a map: after any sequence of successful
  writes and deletions, looking up any secret hash returns what the sequence last wrote for it,
  and nothing when it was deleted since.
\<close>

theorem api_keys_refine_map:
  assumes "kv_run PutAPIKey DeleteAPIKey ws d = Inr d'" and "\<not> db_down d' ''GetAPIKey''"
  shows "GetAPIKey h d' = Inr (kv_spec ws (tget (db_api_keys d)) h)"
  using apikey_kv.run_refines_map [OF assms(1)] assms(2) by (simp add: GetAPIKey_def)

theorem api_keys_refine_map_witness:
  "GetAPIKey ''h1'' (projr (kv_run PutAPIKey DeleteAPIKey
      [KPut ''h1'' \<lparr>ak_Name = ''ci'', ak_CreatedAt = 0, ak_ExpiresAt = 9\<rparr>, KDel ''h2''] empty_db)) =
   Inr (Some \<lparr>ak_Name = ''ci'', ak_CreatedAt = 0, ak_ExpiresAt = 9\<rparr>)"
proof -
  let ?ws = "[KPut ''h1'' \<lparr>ak_Name = ''ci'', ak_CreatedAt = 0, ak_ExpiresAt = 9\<rparr>, KDel ''h2'']"
  obtain d' where r: "kv_run PutAPIKey DeleteAPIKey ?ws empty_db = Inr d'"
    by (auto simp: PutAPIKey_def DeleteAPIKey_def attempt_def empty_db_def)
  then have "\<not> db_down d' ''GetAPIKey''"
    by (auto simp: PutAPIKey_def DeleteAPIKey_def attempt_def empty_db_def)
  from api_keys_refine_map [OF r this, of "''h1''"] r show ?thesis by simp
qed

lemma map_snd_filter_Pair: "map snd (filter (\<lambda>p. fst p = i) (map (Pair i) xs)) = xs"
  by (induction xs) auto

lemma filter_Pair_other: "j \<noteq> i \<Longrightarrow> filter (\<lambda>p. fst p = j) (map (Pair i) xs) = []"
  by (induction xs) auto

lemma filter_drop_key: "filter (\<lambda>p. fst p = i) (filter (\<lambda>p. fst p \<noteq> i) ps) = []"
  by (induction ps) auto

lemma filter_keep_key: "j \<noteq> i \<Longrightarrow> filter (\<lambda>p. fst p = j) (filter (\<lambda>p. fst p \<noteq> i) ps) = filter (\<lambda>p. fst p = j) ps"
  by (induction ps) auto

lemma filter_keep_conj: "j \<noteq> i \<Longrightarrow> filter (\<lambda>p. fst p \<noteq> i \<and> fst p = j) ps = filter (\<lambda>p. fst p = j) ps"
  by (induction ps) auto

lemma map_snd_Pair: "map (snd \<circ> Pair i) xs = xs"
  by (induction xs) auto

lemmas assoc_filter = map_snd_Pair map_snd_filter_Pair filter_Pair_other filter_drop_key filter_keep_key
  filter_keep_conj

text \<open>
  Further (save_group_roundtrip). Saving a group and reading it back returns it with its domains sorted
  and without duplicates, with the creation time of the first save; other groups read as before.
  Saving under a name another group holds is refused and changes nothing.
\<close>

theorem save_group_roundtrip:
  assumes "SaveAllowlistGroup g d = r" and "\<not> db_down d ''GetAllowlistGroup''"
    and "\<not> db_down d ''SaveAllowlistGroup''"
  shows "case r of
      Inl e \<Rightarrow> e = NameTaken (ag_Name g) \<and>
        (\<exists>i g'. (i, g') \<in> set (db_groups d) \<and> i \<noteq> ag_ID g \<and> ag_Name g' = ag_Name g)
    | Inr d' \<Rightarrow>
        GetAllowlistGroup (ag_ID g) d' =
          Inr (Some (g\<lparr>ag_Domains := sorted_list_of_set (set (ag_Domains g)),
                       ag_CreatedAt := (case tget (db_groups d) (ag_ID g) of
                          None \<Rightarrow> ag_CreatedAt g | Some old \<Rightarrow> ag_CreatedAt old)\<rparr>)) \<and>
        (\<forall>i. i \<noteq> ag_ID g \<longrightarrow> GetAllowlistGroup i d' = GetAllowlistGroup i d)"
proof (cases "list_ex (\<lambda>(i, g'). i \<noteq> ag_ID g \<and> ag_Name g' = ag_Name g) (db_groups d)")
  case True
  with assms show ?thesis by (fastforce simp: SaveAllowlistGroup_def list_ex_iff)
next
  case False
  have "sort (uniq [] (ag_Domains g)) = sorted_list_of_set (set (ag_Domains g))"
    by (rule sorted_distinct_set_unique) (simp_all add: distinct_uniq set_uniq)
  with False assms show ?thesis
    by (auto simp: SaveAllowlistGroup_def GetAllowlistGroup_def domainsFor_def assoc_filter Let_def
        attempt_def)
qed

theorem save_group_roundtrip_witness:
  "\<exists>d'. SaveAllowlistGroup \<lparr>ag_ID = ''g'', ag_Name = ''G'', ag_Description = [], ag_TTLSeconds = 30,
      ag_IsGlobal = True, ag_Domains = [''b'', ''a'', ''b''], ag_CreatedAt = 1, ag_UpdatedAt = 1\<rparr> empty_db = Inr d' \<and>
    (\<exists>g'. GetAllowlistGroup ''g'' d' = Inr (Some g') \<and> ag_Domains g' = [''a'', ''b''])"
proof -
  let ?g = "\<lparr>ag_ID = ''g'', ag_Name = ''G'', ag_Description = [], ag_TTLSeconds = 30,
      ag_IsGlobal = True, ag_Domains = [''b'', ''a'', ''b''], ag_CreatedAt = 1, ag_UpdatedAt = 1\<rparr>"
  have u: "\<not> db_down empty_db op" for op by (simp add: empty_db_def)
  obtain d' where r: "SaveAllowlistGroup ?g empty_db = Inr d'"
    by (auto simp: SaveAllowlistGroup_def empty_db_def)
  have "sorted_list_of_set (set [''b'', ''a'', ''b'']) = [''a'', ''b'']"
    by (simp only: sorted_list_of_set_sort_remdups) code_simp
  with save_group_roundtrip [OF r u u] r show ?thesis by (auto simp: empty_db_def)
qed

text \<open>
  Further (delete_group_detaches). Deleting a group removes it, its domains and every box assignment that
  refers to it, and leaves the other groups and every other assignment as they were.
\<close>

theorem delete_group_detaches:
  assumes "DeleteAllowlistGroup i d = Inr d'" and "\<And>op. \<not> db_down d op"
  shows "GetAllowlistGroup i d' = Inr None \<and> domainsFor i d' = [] \<and>
    (\<forall>j. j \<noteq> i \<longrightarrow> GetAllowlistGroup j d' = GetAllowlistGroup j d) \<and>
    (\<forall>b gs. GetBoxGroups b d = Inr gs \<longrightarrow> GetBoxGroups b d' = Inr (filter (\<lambda>g. g \<noteq> i) gs))"
proof (intro conjI)
  from assms have d': "d' = d\<lparr>db_group_domains := filter (\<lambda>p. fst p \<noteq> i) (db_group_domains d),
      db_box_groups := filter (\<lambda>p. snd p \<noteq> i) (db_box_groups d), db_groups := tdel i (db_groups d)\<rparr>"
    by (simp add: DeleteAllowlistGroup_def)
  show "GetAllowlistGroup i d' = Inr None" using assms(2) by (simp add: GetAllowlistGroup_def d')
  show "domainsFor i d' = []" by (simp add: domainsFor_def d' assoc_filter)
  show "\<forall>j. j \<noteq> i \<longrightarrow> GetAllowlistGroup j d' = GetAllowlistGroup j d"
    by (simp add: GetAllowlistGroup_def domainsFor_def d' assoc_filter attempt_def)
  have swap: "map snd (filter (\<lambda>p. snd p \<noteq> i \<and> fst p = b) ps) =
      filter (\<lambda>g. g \<noteq> i) (map snd (filter (\<lambda>p. fst p = b) ps))" for b ps
    by (induction ps) auto
  show "\<forall>b gs. GetBoxGroups b d = Inr gs \<longrightarrow> GetBoxGroups b d' = Inr (filter (\<lambda>g. g \<noteq> i) gs)"
    using assms(2) by (auto simp: GetBoxGroups_def d' swap filter_sort)
qed

theorem delete_group_detaches_witness:
  "GetBoxGroups ''web'' (projr (DeleteAllowlistGroup ''a''
      (empty_db\<lparr>db_box_groups := [(''web'', ''b''), (''web'', ''a'')]\<rparr>))) = Inr [''b'']"
proof -
  let ?d = "empty_db\<lparr>db_box_groups := [(''web'', ''b''), (''web'', ''a'')]\<rparr>"
  have u: "\<not> db_down ?d op" for op by (simp add: empty_db_def)
  obtain d' where r: "DeleteAllowlistGroup ''a'' ?d = Inr d'"
    using u by (auto simp: DeleteAllowlistGroup_def attempt_def)
  have "GetBoxGroups ''web'' ?d = Inr [''a'', ''b'']"
    using u by (simp add: GetBoxGroups_def)
  with delete_group_detaches [OF r u] r show ?thesis by auto
qed

subsection \<open>Aggregation of DNS lookups\<close>

text \<open>A lookup is (box, domain, verdict, time); \<open>record_all\<close> stores a sequence of them.\<close>

fun record_all :: "((string \<times> string \<times> string) \<times> time) list \<Rightarrow> db \<Rightarrow> store_error + db" where
  "record_all [] d = Inr d"
| "record_all (((b, n, v), at) # ls) d =
     (case RecordDNSLookup b n v at d of Inl e \<Rightarrow> Inl e | Inr d' \<Rightarrow> record_all ls d')"

definition lookups_of :: "(string \<times> string \<times> string) \<Rightarrow> ((string \<times> string \<times> string) \<times> time) list \<Rightarrow> time list" where
  "lookups_of k ls = map snd (filter (\<lambda>l. fst l = k) ls)"

lemma lookups_of_Nil [simp]: "lookups_of k [] = []"
  by (simp add: lookups_of_def)

lemma lookups_of_Cons [simp]:
  "lookups_of k ((k', at) # ls) = (if k' = k then at # lookups_of k ls else lookups_of k ls)"
  by (simp add: lookups_of_def)

lemma record_all_row:
  assumes "record_all ls d = Inr d'" and "tget (db_audit d) k = Some e"
  shows "tget (db_audit d') k = Some (e\<lparr>da_Hits := da_Hits e + int (length (lookups_of k ls)),
    da_LastSeen := (if lookups_of k ls = [] then da_LastSeen e else last (lookups_of k ls))\<rparr>)"
  using assms
proof (induction ls arbitrary: d e)
  case (Cons l ls)
  obtain b n v at where l: "l = ((b, n, v), at)" by (metis prod.exhaust)
  from Cons.prems(1) l obtain d1 where d1: "RecordDNSLookup b n v at d = Inr d1" "record_all ls d1 = Inr d'"
    by (auto split: sum.splits)
  show ?case
  proof (cases "(b, n, v) = k")
    case True
    with d1(1) Cons.prems(2)
    have "tget (db_audit d1) k = Some (e\<lparr>da_Hits := da_Hits e + 1, da_LastSeen := at\<rparr>)"
      by (auto simp: RecordDNSLookup_def Let_def)
    from Cons.IH [OF d1(2) this] True l show ?thesis by simp
  next
    case False
    with d1(1) Cons.prems(2) have "tget (db_audit d1) k = Some e"
      by (auto simp: RecordDNSLookup_def Let_def)
    from Cons.IH [OF d1(2) this] False l show ?thesis by simp
  qed
qed simp

text \<open>
  Further (audit_aggregates_lookups). Storing a sequence of lookups for a (box, domain, verdict) triple
  that has no row yet leaves exactly one row for it, whose hit count is the number of its lookups,
  whose first-seen time is that of the first and whose last-seen time is that of the last; a triple
  that was not looked up gets no row.
\<close>

theorem audit_aggregates_lookups:
  assumes "record_all ls d = Inr d'" and "tget (db_audit d) (b, n, v) = None"
  shows "tget (db_audit d') (b, n, v) =
    (case lookups_of (b, n, v) ls of
       [] \<Rightarrow> None
     | t # ts \<Rightarrow> Some \<lparr>da_BoxID = b, da_Domain = n, da_Verdict = v,
         da_Hits = int (length (lookups_of (b, n, v) ls)), da_FirstSeen = t,
         da_LastSeen = last (t # ts)\<rparr>)"
  using assms
proof (induction ls arbitrary: d)
  case (Cons l ls)
  obtain b' n' v' at where l: "l = ((b', n', v'), at)" by (metis prod.exhaust)
  from Cons.prems(1) l obtain d1 where d1: "RecordDNSLookup b' n' v' at d = Inr d1" "record_all ls d1 = Inr d'"
    by (auto split: sum.splits)
  show ?case
  proof (cases "(b', n', v') = (b, n, v)")
    case True
    with d1(1) Cons.prems(2)
    have "tget (db_audit d1) (b, n, v) = Some \<lparr>da_BoxID = b, da_Domain = n, da_Verdict = v, da_Hits = 1,
        da_FirstSeen = at, da_LastSeen = at\<rparr>"
      by (auto simp: RecordDNSLookup_def Let_def)
    from record_all_row [OF d1(2) this] True l show ?thesis by simp
  next
    case False
    with d1(1) Cons.prems(2) have none: "tget (db_audit d1) (b, n, v) = None"
      by (auto simp: RecordDNSLookup_def Let_def)
    have skip: "lookups_of (b, n, v) (l # ls) = lookups_of (b, n, v) ls" using False l by auto
    from Cons.IH [OF d1(2) none] show ?thesis unfolding skip .
  qed
qed simp

theorem audit_aggregates_lookups_witness:
  "tget (db_audit (projr (record_all [((''web'', ''a.com'', ''allowed''), 3), ((''web'', ''a.com'', ''allowed''), 8)] empty_db)))
     (''web'', ''a.com'', ''allowed'') =
   Some \<lparr>da_BoxID = ''web'', da_Domain = ''a.com'', da_Verdict = ''allowed'', da_Hits = 2,
     da_FirstSeen = 3, da_LastSeen = 8\<rparr>"
proof -
  let ?ls = "[((''web'', ''a.com'', ''allowed''), 3), ((''web'', ''a.com'', ''allowed''), 8)]"
  obtain d' where r: "record_all ?ls empty_db = Inr d'"
    by (auto simp: RecordDNSLookup_def attempt_def empty_db_def Let_def)
  have n: "tget (db_audit empty_db) (''web'', ''a.com'', ''allowed'') = None" by (simp add: empty_db_def)
  from audit_aggregates_lookups [OF r n] r show ?thesis by (simp add: lookups_of_def)
qed

subsection \<open>Comparing times as text\<close>

text \<open>
  The purge compares RFC 3339 text: half a second past the epoch sorts before the epoch itself,
  because the fraction's dot sorts before the final \<^verbatim>\<open>Z\<close>. A session that is still valid is purged.
\<close>

lemma digit_chars: "digit_char 0 = CHR ''0''" "digit_char (Suc 0) = CHR ''1''" "digit_char 2 = CHR ''2''" "digit_char 3 = CHR ''3''"
  "digit_char 4 = CHR ''4''" "digit_char 5 = CHR ''5''" "digit_char 6 = CHR ''6''" "digit_char 7 = CHR ''7''" "digit_char 8 = CHR ''8''" "digit_char 9 = CHR ''9''"
  by code_simp+

lemma civil_examples: "civil 0 = (1970, 1, 1)" "civil 19782 = (2024, 2, 29)"
  by code_simp+

lemma pad_examples: "pad 2 0 = ''00''" "pad 2 1 = ''01''"  "pad 2 2 = ''02''" "pad 2 12 = ''12''" "pad 2 29 = ''29''" "pad 2 34 = ''34''" "pad 2 56 = ''56''" "pad 4 1970 = ''1970''" "pad 4 2024 = ''2024''"
  "pad 9 500000000 = ''500000000''" "pad 9 120000000 = ''120000000''"
  by (simp_all add: pad_def show_nat.simps digit_chars)

lemma encodeTime_examples:
  "encodeTime 0 = ''1970-01-01T00:00:00Z''"
  "encodeTime 500000000 = ''1970-01-01T00:00:00.5Z''"
  "encodeTime 1709210096120000000 = ''2024-02-29T12:34:56.12Z''"
  by (simp_all add: encodeTime_def civil_examples pad_examples fraction_def trim_right_func_def)

lemma purge_drops_live_session:
  "encodeTime 500000000 < encodeTime 0"
  "map_sum (\<lambda>e. e) db_sessions (PurgeExpiredIdentities 0 (empty_db\<lparr>db_sessions :=
     [(''c'', \<lparr>is_Email = [], is_Provider = [], is_CSRFToken = [], is_ExpiresAt = 500000000, is_CanAdmin = True\<rparr>)]\<rparr>)) = Inr []"
  by (simp_all add: PurgeExpiredIdentities_def empty_db_def attempt_def encodeTime_examples)

end
