(* ===== verification/Enroll.thy ===== *)
theory Enroll
  imports HubStore
begin

text \<open>
  Spoke enrollment and hub credentials: \<^verbatim>\<open>internal/shared/cluster/tokens.go\<close> (join tokens,
  per-spoke credentials), the handshake on both sides and the registry of connected spokes
  (\<^verbatim>\<open>hub.go\<close>, \<^verbatim>\<open>spoke.go\<close>), the operator commands on join tokens (\<^verbatim>\<open>hub/token/token.go\<close>) and API
  keys (\<^verbatim>\<open>hub/apikey\<close>).

  The hash of secrets is the parameter \<open>h\<close> (hex SHA-256 in the code: the theorems hold for every
  function, and name injectivity where they need it); a call of the system random source is an
  argument \<open>rnd\<close>, \<open>None\<close> when it fails. A frame is its type with its decoded payload, \<open>None\<close> for a
  payload that does not decode. A connection is identified by a number.
\<close>

subsection \<open>Requests and errors\<close>

record enroll_req =
  er_JoinToken :: string
  er_Name :: string
  er_Credential :: string

record credentials =
  cr_Name :: string
  cr_Credential :: string

datatype reject_reason =
    TokenUnknown
  | TokenExpired string
  | ReconnectIncomplete
  | SpokeUnknown string
  | CredentialMismatch string
  | NotAnEnrollFrame

datatype enroll_error =
    SpokeNameRequired
  | TTLNotPositive
  | RandomFailed
  | StoreFailed store_error
  | Rejected reject_reason
  | TransportFailed
  | PayloadInvalid
  | HubRejected
  | UnexpectedReply

subsection \<open>Join tokens and credentials\<close>

definition sameHash :: "(string \<Rightarrow> string) \<Rightarrow> string \<Rightarrow> string \<Rightarrow> bool" where
  "sameHash h secret hash \<longleftrightarrow> h secret = hash"

definition CreateJoinToken ::
  "(string \<Rightarrow> string) \<Rightarrow> string option \<Rightarrow> string \<Rightarrow> string \<Rightarrow> duration \<Rightarrow> time \<Rightarrow> db \<Rightarrow>
   enroll_error + (string \<times> db)"
where
  "CreateJoinToken h rnd name backend ttl now d =
     (if name = [] then Inl SpokeNameRequired
      else if ttl \<le> 0 then Inl TTLNotPositive
      else case rnd of
             None \<Rightarrow> Inl RandomFailed
           | Some secret \<Rightarrow>
               (case PutJoinToken (h secret)
                       \<lparr>jt_Name = name, jt_Backend = backend, jt_ExpiresAt = now + ttl\<rparr> d of
                  Inl e \<Rightarrow> Inl (StoreFailed e)
                | Inr d' \<Rightarrow> Inr (secret, d')))"

definition enrollWithJoinToken ::
  "(string \<Rightarrow> string) \<Rightarrow> string option \<Rightarrow> string \<Rightarrow> time \<Rightarrow> db \<Rightarrow> (enroll_error + (string \<times> string)) \<times> db"
where
  "enrollWithJoinToken h rnd token now d =
     (case TakeJoinToken (h token) d of
        Inl e \<Rightarrow> (Inl (StoreFailed e), d)
      | Inr (None, d1) \<Rightarrow> (Inl (Rejected TokenUnknown), d1)
      | Inr (Some rec, d1) \<Rightarrow>
          if jt_ExpiresAt rec < now then (Inl (Rejected (TokenExpired (jt_Name rec))), d1)
          else case rnd of
                 None \<Rightarrow> (Inl RandomFailed, d1)
               | Some credential \<Rightarrow>
                   (case PutSpoke (jt_Name rec)
                           \<lparr>sr_Name = jt_Name rec, sr_CredentialHash = h credential, sr_EnrolledAt = now\<rparr> d1 of
                      Inl e \<Rightarrow> (Inl (StoreFailed e), d1)
                    | Inr d2 \<Rightarrow> (Inr (jt_Name rec, credential), d2)))"

definition reconnect :: "(string \<Rightarrow> string) \<Rightarrow> enroll_req \<Rightarrow> db \<Rightarrow> enroll_error option" where
  "reconnect h req d =
     (if er_Name req = [] \<or> er_Credential req = [] then Some (Rejected ReconnectIncomplete)
      else case GetSpoke (er_Name req) d of
             Inl e \<Rightarrow> Some (StoreFailed e)
           | Inr None \<Rightarrow> Some (Rejected (SpokeUnknown (er_Name req)))
           | Inr (Some rec) \<Rightarrow>
               if sameHash h (er_Credential req) (sr_CredentialHash rec) then None
               else Some (Rejected (CredentialMismatch (er_Name req))))"

definition authenticateEnroll ::
  "(string \<Rightarrow> string) \<Rightarrow> string option \<Rightarrow> enroll_req \<Rightarrow> time \<Rightarrow> db \<Rightarrow> (enroll_error + (string \<times> string)) \<times> db"
where
  "authenticateEnroll h rnd req now d =
     (if er_JoinToken req \<noteq> [] then enrollWithJoinToken h rnd (er_JoinToken req) now d
      else case reconnect h req d of
             Some e \<Rightarrow> (Inl e, d)
           | None \<Rightarrow> (Inr (er_Name req, []), d))"

subsection \<open>The handshake\<close>

datatype frame =
    FrameEnroll "enroll_req option"
  | FrameWelcome "(string \<times> string) option"
  | FrameErr
  | FrameOther

definition enroll ::
  "(string \<Rightarrow> string) \<Rightarrow> string option \<Rightarrow> time \<Rightarrow> frame option \<Rightarrow> bool \<Rightarrow> db \<Rightarrow>
   (enroll_error + string) \<times> frame list \<times> db"
where
  "enroll h rnd now received sendOK d =
     (case received of
        None \<Rightarrow> (Inl TransportFailed, [], d)
      | Some (FrameEnroll (Some req)) \<Rightarrow>
          (case authenticateEnroll h rnd req now d of
             (Inl e, d') \<Rightarrow> (Inl e, [], d')
           | (Inr (name, credential), d') \<Rightarrow>
               if sendOK then (Inr name, [FrameWelcome (Some (name, credential))], d')
               else (Inl TransportFailed, [], d'))
      | Some (FrameEnroll None) \<Rightarrow> (Inl PayloadInvalid, [], d)
      | Some _ \<Rightarrow> (Inl (Rejected NotAnEnrollFrame), [], d))"

definition enroll_request :: "string \<Rightarrow> credentials option \<Rightarrow> enroll_req" where
  "enroll_request joinToken creds =
     (case creds of
        Some c \<Rightarrow> \<lparr>er_JoinToken = [], er_Name = cr_Name c, er_Credential = cr_Credential c\<rparr>
      | None \<Rightarrow> \<lparr>er_JoinToken = joinToken, er_Name = [], er_Credential = []\<rparr>)"

definition enroll_reply :: "credentials option \<Rightarrow> frame option \<Rightarrow> enroll_error + credentials" where
  "enroll_reply creds reply =
     (case reply of
        None \<Rightarrow> Inl TransportFailed
      | Some FrameErr \<Rightarrow> Inl HubRejected
      | Some (FrameWelcome (Some (name, credential))) \<Rightarrow>
          Inr \<lparr>cr_Name = name, cr_Credential = (case creds of None \<Rightarrow> credential | Some c \<Rightarrow> cr_Credential c)\<rparr>
      | Some (FrameWelcome None) \<Rightarrow> Inl PayloadInvalid
      | Some _ \<Rightarrow> Inl UnexpectedReply)"

definition enrollSpoke ::
  "(frame \<Rightarrow> 's \<Rightarrow> frame option \<times> 's) \<Rightarrow> string \<Rightarrow> credentials option \<Rightarrow> 's \<Rightarrow> (enroll_error + credentials) \<times> 's"
where
  "enrollSpoke exchange joinToken creds s =
     (case exchange (FrameEnroll (Some (enroll_request joinToken creds))) s of
        (reply, s') \<Rightarrow> (enroll_reply creds reply, s'))"

text \<open>
  \<open>hub_exchange\<close> is the connection seen from the spoke when both sides are this code: the frame
  the spoke sends is what the hub receives, and the hub's answer is its welcome frame, or the
  error frame \<^verbatim>\<open>ConnectHandler\<close> sends when the handshake fails.
\<close>

definition hub_exchange ::
  "(string \<Rightarrow> string) \<Rightarrow> string option \<Rightarrow> time \<Rightarrow> frame \<Rightarrow> db \<Rightarrow> frame option \<times> db"
where
  "hub_exchange h rnd now f d =
     (case enroll h rnd now (Some f) True d of
        (Inr name, replies, d') \<Rightarrow> (Some (hd replies), d')
      | (Inl e, replies, d') \<Rightarrow> (Some FrameErr, d'))"

subsection \<open>The registry of connected spokes\<close>

record hub =
  hub_spokes :: "(string, nat) table"
  hub_closed :: "nat set"

text \<open>
  \<^verbatim>\<open>register\<close> swaps the entry under the mutex and closes the connection it found there afterwards;
  \<^verbatim>\<open>Disconnect\<close> looks the connection up under the mutex and closes it afterwards.
\<close>

definition hub_swap :: "string \<Rightarrow> nat \<Rightarrow> hub \<Rightarrow> nat option \<times> hub" where
  "hub_swap name rs hb = (tget (hub_spokes hb) name, hb\<lparr>hub_spokes := tput name rs (hub_spokes hb)\<rparr>)"

definition hub_close :: "nat \<Rightarrow> hub \<Rightarrow> hub" where
  "hub_close rs hb = hb\<lparr>hub_closed := insert rs (hub_closed hb)\<rparr>"

definition hub_register :: "string \<Rightarrow> nat \<Rightarrow> hub \<Rightarrow> hub" where
  "hub_register name rs hb =
     (case hub_swap name rs hb of (old, h1) \<Rightarrow> (case old of None \<Rightarrow> h1 | Some o' \<Rightarrow> hub_close o' h1))"

definition hub_unregister :: "string \<Rightarrow> nat \<Rightarrow> hub \<Rightarrow> hub" where
  "hub_unregister name rs hb =
     (if tget (hub_spokes hb) name = Some rs then hb\<lparr>hub_spokes := tdel name (hub_spokes hb)\<rparr> else hb)"

definition hub_Disconnect :: "string \<Rightarrow> hub \<Rightarrow> hub" where
  "hub_Disconnect name hb =
     (case tget (hub_spokes hb) name of
        None \<Rightarrow> hb | Some rs \<Rightarrow> hub_close rs hb)"

definition hub_Spoke :: "hub \<Rightarrow> string \<Rightarrow> nat option" where
  "hub_Spoke hb name = tget (hub_spokes hb) name"

definition hub_Spokes :: "hub \<Rightarrow> (string, nat) table" where
  "hub_Spokes hb = hub_spokes hb"

text \<open>
  The connections over time, one step per critical section. A connection that passed the handshake
  is swapped in; the one it supersedes, or the one \<^verbatim>\<open>Disconnect\<close> found, is closed in a later step, until
  when it is in \<open>closing\<close>. A connection also ends by itself or because the hub's context was
  cancelled, and the handler of an ended one unregisters it in yet another step.
\<close>

type_synonym hub_state = "hub \<times> (nat \<rightharpoonup> string) \<times> nat set"

inductive hub_step :: "hub_state \<Rightarrow> hub_state \<Rightarrow> bool" where
  connect: "conns rs = None \<Longrightarrow> rs \<notin> hub_closed hb \<Longrightarrow> hub_swap name rs hb = (old, hb') \<Longrightarrow>
    hub_step (hb, conns, closing) (hb', conns(rs \<mapsto> name), closing \<union> set_option old)"
| disconnect: "hub_step (hb, conns, closing) (hb, conns, closing \<union> set_option (tget (hub_spokes hb) name))"
| closes: "rs \<in> closing \<Longrightarrow> hub_step (hb, conns, closing) (hub_close rs hb, conns, closing - {rs})"
| ends: "conns rs \<noteq> None \<Longrightarrow> hub_step (hb, conns, closing) (hub_close rs hb, conns, closing)"
| unregisters: "conns rs = Some name \<Longrightarrow> rs \<in> hub_closed hb \<Longrightarrow>
    hub_step (hb, conns, closing) (hub_unregister name rs hb, conns(rs := None), closing)"

definition new_hub :: hub_state where
  "new_hub = (\<lparr>hub_spokes = [], hub_closed = {}\<rparr>, Map.empty, {})"

inductive hub_reach :: "hub_state \<Rightarrow> bool" where
  hub_init: "hub_reach new_hub"
| hub_next: "hub_reach s \<Longrightarrow> hub_step s s' \<Longrightarrow> hub_reach s'"

subsection \<open>Operator commands\<close>

datatype select_error = NoMatch | AmbiguousPrefix string nat | SelectStore store_error

definition matched_rows ::
  "('r \<Rightarrow> string) \<Rightarrow> string \<Rightarrow> string \<Rightarrow> (string \<times> 'r) list \<Rightarrow> (string \<times> 'r) list"
where
  "matched_rows nameOf idPrefix name rows =
     filter (\<lambda>(i, r). (idPrefix \<noteq> [] \<and> has_prefix i idPrefix) \<or> (name \<noteq> [] \<and> nameOf r = name)) rows"

fun delete_each :: "(string \<Rightarrow> db \<Rightarrow> store_error + db) \<Rightarrow> string list \<Rightarrow> db \<Rightarrow> select_error option \<times> db" where
  "delete_each del [] d = (None, d)"
| "delete_each del (i # is) d =
     (case del i d of Inl e \<Rightarrow> (Some (SelectStore e), d) | Inr d' \<Rightarrow> delete_each del is d')"

definition revokeJoinTokens :: "string \<Rightarrow> string \<Rightarrow> db \<Rightarrow> select_error option \<times> db" where
  "revokeJoinTokens idPrefix name d =
     (case ListJoinTokens d of
        Inl e \<Rightarrow> (Some (SelectStore e), d)
      | Inr rows \<Rightarrow>
          (let matched = matched_rows jt_Name idPrefix name rows in
           if matched = [] then (Some NoMatch, d)
           else if idPrefix \<noteq> [] \<and> length matched > 1
           then (Some (AmbiguousPrefix idPrefix (length matched)), d)
           else delete_each DeleteJoinToken (map fst matched) d))"

definition deleteAPIKeys :: "string \<Rightarrow> string \<Rightarrow> db \<Rightarrow> select_error option \<times> db" where
  "deleteAPIKeys idPrefix name d =
     (case ListAPIKeys d of
        Inl e \<Rightarrow> (Some (SelectStore e), d)
      | Inr rows \<Rightarrow>
          (let matched = matched_rows ak_Name idPrefix name rows in
           if matched = [] then (Some NoMatch, d)
           else if idPrefix \<noteq> [] \<and> length matched > 1
           then (Some (AmbiguousPrefix idPrefix (length matched)), d)
           else delete_each DeleteAPIKey (map fst matched) d))"

definition shortID :: "string \<Rightarrow> string" where
  "shortID i = (if length i \<le> 12 then i else take 12 i)"

definition listJoinTokens :: "time \<Rightarrow> db \<Rightarrow> store_error + (string \<times> string \<times> time \<times> bool) list" where
  "listJoinTokens now d =
     (case ListJoinTokens d of
        Inl e \<Rightarrow> Inl e
      | Inr rows \<Rightarrow>
          Inr (map (\<lambda>(i, t). (shortID i, jt_Name t, jt_ExpiresAt t, jt_ExpiresAt t < now))
                 (sort_key (\<lambda>(i, t). jt_Name t) rows)))"

subsection \<open>API keys\<close>

datatype apikey_error = KeyNameRequired | KeyTTLNotPositive | KeyRandomFailed | KeyStore store_error

definition apikey_Create ::
  "(string \<Rightarrow> string) \<Rightarrow> string option \<Rightarrow> string \<Rightarrow> duration \<Rightarrow> time \<Rightarrow> db \<Rightarrow> apikey_error + (string \<times> db)"
where
  "apikey_Create h rnd name ttl now d =
     (if name = [] then Inl KeyNameRequired
      else if ttl \<le> 0 then Inl KeyTTLNotPositive
      else case rnd of
             None \<Rightarrow> Inl KeyRandomFailed
           | Some hex \<Rightarrow>
               (let secret = ''lbx_'' @ hex in
                case PutAPIKey (h secret) \<lparr>ak_Name = name, ak_CreatedAt = now, ak_ExpiresAt = now + ttl\<rparr> d of
                  Inl e \<Rightarrow> Inl (KeyStore e)
                | Inr d' \<Rightarrow> Inr (secret, d')))"

definition apikey_Authenticate ::
  "(string \<Rightarrow> string) \<Rightarrow> string \<Rightarrow> time \<Rightarrow> db \<Rightarrow> store_error + api_key_record option"
where
  "apikey_Authenticate h secret now d =
     (if secret = [] then Inr None
      else case GetAPIKey (h secret) d of
             Inl e \<Rightarrow> Inl e
           | Inr None \<Rightarrow> Inr None
           | Inr (Some rec) \<Rightarrow> if ak_ExpiresAt rec < now then Inr None else Inr (Some rec))"

subsection \<open>Join tokens are used once\<close>

text \<open>
  \<open>run_enrolls\<close> answers a sequence of enrollment requests, each with its clock and random source,
  and lists the results in order.
\<close>

fun run_enrolls ::
  "(string \<Rightarrow> string) \<Rightarrow> (enroll_req \<times> time \<times> string option) list \<Rightarrow> db \<Rightarrow>
   (enroll_error + (string \<times> string)) list \<times> db"
where
  "run_enrolls h [] d = ([], d)"
| "run_enrolls h ((req, now, rnd) # rs) d =
     (case authenticateEnroll h rnd req now d of
        (r, d') \<Rightarrow> (case run_enrolls h rs d' of (rs', d'') \<Rightarrow> (r # rs', d'')))"

definition token_successes ::
  "string \<Rightarrow> (enroll_req \<times> time \<times> string option) list \<Rightarrow> (enroll_error + (string \<times> string)) list \<Rightarrow> nat"
where
  "token_successes t reqs res =
     length (filter (\<lambda>(rq, r). er_JoinToken (fst rq) = t \<and> \<not> isl r) (zip reqs res))"

lemmas enroll_defs =
  authenticateEnroll_def enrollWithJoinToken_def TakeJoinToken_def PutSpoke_def reconnect_def GetSpoke_def
  sameHash_def

lemma authenticate_tokens_shrink:
  assumes "authenticateEnroll h rnd req now d = (r, d')" and "tget (db_join_tokens d) k = None"
  shows "tget (db_join_tokens d') k = None"
  using assms
  by (auto simp: enroll_defs attempt_def split: if_splits option.splits sum.splits)

lemma authenticate_token_consumed:
  assumes "authenticateEnroll h rnd req now d = (Inr r, d')" and "er_JoinToken req \<noteq> []"
  shows "tget (db_join_tokens d) (h (er_JoinToken req)) \<noteq> None \<and>
    tget (db_join_tokens d') (h (er_JoinToken req)) = None"
  using assms
  by (auto simp: enroll_defs attempt_def split: if_splits option.splits sum.splits)

lemma run_enrolls_dead_token:
  assumes "run_enrolls h reqs d = (res, d')" and "tget (db_join_tokens d) (h t) = None" and "t \<noteq> []"
  shows "token_successes t reqs res = 0"
  using assms
proof (induction reqs arbitrary: d d' res)
  case (Cons rq reqs)
  obtain req now rnd where rq: "rq = (req, now, rnd)" by (metis prod_cases3)
  obtain r d1 where a: "authenticateEnroll h rnd req now d = (r, d1)" by fastforce
  obtain res' d2 where b: "run_enrolls h reqs d1 = (res', d2)" by fastforce
  from Cons.prems(1) rq a b have res: "res = r # res'" by simp
  have "token_successes t reqs res' = 0"
    using Cons.IH [OF b] authenticate_tokens_shrink [OF a Cons.prems(2)] Cons.prems(3) by blast
  moreover have "\<not> (er_JoinToken req = t \<and> \<not> isl r)"
    using authenticate_token_consumed [of h rnd req now d] a Cons.prems(2,3)
    by (cases r) auto
  ultimately show ?case by (auto simp: token_successes_def res rq)
qed (simp add: token_successes_def)

text \<open>
  C8 (join_token_enrolls_once). Whatever sequence of enrollment and reconnection requests the hub
  answers, from any state of its database, a given join token leads to at most one successful
  enrollment.
\<close>

theorem join_token_enrolls_once:
  assumes "run_enrolls h reqs d = (res, d')" and "t \<noteq> []"
  shows "token_successes t reqs res \<le> 1"
  using assms
proof (induction reqs arbitrary: d d' res)
  case (Cons rq reqs)
  obtain req now rnd where rq: "rq = (req, now, rnd)" by (metis prod_cases3)
  obtain r d1 where a: "authenticateEnroll h rnd req now d = (r, d1)" by fastforce
  obtain res' d2 where b: "run_enrolls h reqs d1 = (res', d2)" by fastforce
  from Cons.prems(1) rq a b have res: "res = r # res'" by simp
  show ?case
  proof (cases "er_JoinToken req = t \<and> \<not> isl r")
    case True
    then obtain x where "r = Inr x" by (cases r) auto
    with a True Cons.prems(2) have "tget (db_join_tokens d1) (h t) = None"
      using authenticate_token_consumed [of h rnd req now d x d1] by simp
    with run_enrolls_dead_token [OF b] Cons.prems(2) True show ?thesis
      by (simp add: token_successes_def res rq)
  next
    case False
    with Cons.IH [OF b Cons.prems(2)] show ?thesis by (auto simp: token_successes_def res rq)
  qed
qed (simp add: token_successes_def)

theorem join_token_enrolls_once_witness:
  "token_successes ''t'' [(enroll_request ''t'' None, 1, Some ''c1''), (enroll_request ''t'' None, 2, Some ''c2'')]
     (fst (run_enrolls (\<lambda>s. s) [(enroll_request ''t'' None, 1, Some ''c1''), (enroll_request ''t'' None, 2, Some ''c2'')]
       (empty_db\<lparr>db_join_tokens := [(''t'', \<lparr>jt_Name = ''gpu'', jt_Backend = [], jt_ExpiresAt = 9\<rparr>)]\<rparr>))) = 1"
proof -
  let ?rs = "[(enroll_request ''t'' None, 1, Some ''c1''), (enroll_request ''t'' None, 2, Some ''c2'')]"
  let ?d = "empty_db\<lparr>db_join_tokens := [(''t'', \<lparr>jt_Name = ''gpu'', jt_Backend = [], jt_ExpiresAt = 9\<rparr>)]\<rparr>"
  obtain res d' where r: "run_enrolls (\<lambda>s. s) ?rs ?d = (res, d')" by fastforce
  have "token_successes ''t'' ?rs res \<le> 1" by (rule join_token_enrolls_once [OF r]) simp
  moreover have "0 < token_successes ''t'' ?rs res"
    using r by (auto simp: token_successes_def enroll_defs enroll_request_def attempt_def empty_db_def)
  ultimately show ?thesis unfolding r by simp
qed

subsection \<open>Enrollment and reconnection\<close>

text \<open>
  C26 (enroll_handshake_roundtrip). First enrollment followed by reconnection: when the hub holds an
  unexpired token for a spoke name, the spoke that presents it gets credentials with that name;
  these credentials are accepted on every later handshake whose database still has the record, they
  come back unchanged, and a different credential is accepted only if it has the same hash.
\<close>

theorem enroll_handshake_roundtrip:
  assumes "\<And>op. \<not> db_down d op" and "token \<noteq> []" and "cred \<noteq> []"
    and "tget (db_join_tokens d) (h token) = Some rec" and "now \<le> jt_ExpiresAt rec" and "jt_Name rec \<noteq> []"
  shows "\<exists>d'. enrollSpoke (hub_exchange h (Some cred) now) token None d
        = (Inr \<lparr>cr_Name = jt_Name rec, cr_Credential = cred\<rparr>, d') \<and>
      tget (db_join_tokens d') (h token) = None \<and>
      (\<forall>now' rnd. enrollSpoke (hub_exchange h rnd now') [] (Some \<lparr>cr_Name = jt_Name rec, cr_Credential = cred\<rparr>) d'
         = (Inr \<lparr>cr_Name = jt_Name rec, cr_Credential = cred\<rparr>, d')) \<and>
      (\<forall>now' rnd c. c \<noteq> [] \<longrightarrow>
         fst (enrollSpoke (hub_exchange h rnd now') [] (Some \<lparr>cr_Name = jt_Name rec, cr_Credential = c\<rparr>) d') =
         (if h c = h cred then Inr \<lparr>cr_Name = jt_Name rec, cr_Credential = c\<rparr> else Inl HubRejected))"
proof -
  let ?sp = "\<lparr>sr_Name = jt_Name rec, sr_CredentialHash = h cred, sr_EnrolledAt = now\<rparr>"
  let ?d' = "d\<lparr>db_join_tokens := tdel (h token) (db_join_tokens d),
      db_spokes := tput (jt_Name rec) ?sp (db_spokes d)\<rparr>"
  have first: "authenticateEnroll h (Some cred) (enroll_request token None) now d
      = (Inr (jt_Name rec, cred), ?d')"
    using assms by (simp add: enroll_defs enroll_request_def attempt_def)
  have again: "authenticateEnroll h rnd (enroll_request [] (Some \<lparr>cr_Name = jt_Name rec, cr_Credential = c\<rparr>)) now' ?d'
      = (if h c = h cred then Inr (jt_Name rec, []) else Inl (Rejected (CredentialMismatch (jt_Name rec))), ?d')"
    if "c \<noteq> []" for c now' rnd
    using assms that by (simp add: enroll_defs enroll_request_def attempt_def)
  show ?thesis
    by (rule exI [of _ ?d'])
      (auto simp: enrollSpoke_def hub_exchange_def enroll_def enroll_reply_def first again assms(3))
qed

theorem enroll_handshake_roundtrip_witness:
  "\<exists>d'. fst (enrollSpoke (hub_exchange (\<lambda>s. s) (Some ''cred'') 5) ''tok'' None
      (empty_db\<lparr>db_join_tokens := [(''tok'', \<lparr>jt_Name = ''gpu'', jt_Backend = [], jt_ExpiresAt = 9\<rparr>)]\<rparr>))
    = Inr \<lparr>cr_Name = ''gpu'', cr_Credential = ''cred''\<rparr>"
proof -
  let ?rec = "\<lparr>jt_Name = ''gpu'', jt_Backend = [], jt_ExpiresAt = 9\<rparr>"
  let ?d = "empty_db\<lparr>db_join_tokens := [(''tok'', ?rec)]\<rparr>"
  have "\<exists>d'. enrollSpoke (hub_exchange (\<lambda>s. s) (Some ''cred'') 5) ''tok'' None ?d
      = (Inr \<lparr>cr_Name = jt_Name ?rec, cr_Credential = ''cred''\<rparr>, d')"
    using enroll_handshake_roundtrip [of ?d "''tok''" "''cred''" "\<lambda>s. s" ?rec 5]
    by (auto simp: empty_db_def)
  then show ?thesis by auto
qed

text \<open>
  Further (enroll_rejections). The refusals of the handshake: an expired token is refused and consumed;
  an unknown token is refused; a reconnection for a name the database has no record of (never
  enrolled, or deleted by an operator) is refused whatever the credential; no refused request
  changes the enrolled spokes.
\<close>

theorem enroll_rejections:
  assumes "\<And>op. \<not> db_down d op" and "authenticateEnroll h rnd req now d = (r, d')"
  shows "(er_JoinToken req \<noteq> [] \<and> tget (db_join_tokens d) (h (er_JoinToken req)) = None \<longrightarrow>
        r = Inl (Rejected TokenUnknown) \<and> db_join_tokens d' = tdel (h (er_JoinToken req)) (db_join_tokens d)) \<and>
    (\<forall>rec. er_JoinToken req \<noteq> [] \<and> tget (db_join_tokens d) (h (er_JoinToken req)) = Some rec \<and> jt_ExpiresAt rec < now \<longrightarrow>
        r = Inl (Rejected (TokenExpired (jt_Name rec))) \<and> tget (db_join_tokens d') (h (er_JoinToken req)) = None) \<and>
    (er_JoinToken req = [] \<and> tget (db_spokes d) (er_Name req) = None \<longrightarrow> isl r \<and> d' = d) \<and>
    (isl r \<longrightarrow> db_spokes d' = db_spokes d)"
  using assms
  by (auto simp: enroll_defs attempt_def split: if_splits option.splits sum.splits)

theorem enroll_rejections_witness:
  "fst (authenticateEnroll (\<lambda>s. s) (Some ''c'') (enroll_request ''tok'' None) 10
      (empty_db\<lparr>db_join_tokens := [(''tok'', \<lparr>jt_Name = ''gpu'', jt_Backend = [], jt_ExpiresAt = 9\<rparr>)]\<rparr>))
    = Inl (Rejected (TokenExpired ''gpu''))"
proof -
  let ?d = "empty_db\<lparr>db_join_tokens := [(''tok'', \<lparr>jt_Name = ''gpu'', jt_Backend = [], jt_ExpiresAt = 9\<rparr>)]\<rparr>"
  have u: "\<not> db_down ?d op" for op by (simp add: empty_db_def)
  obtain r d' where a: "authenticateEnroll (\<lambda>s. s) (Some ''c'') (enroll_request ''tok'' None) 10 ?d = (r, d')"
    by fastforce
  from enroll_rejections [OF u a] show ?thesis unfolding a by (auto simp: enroll_request_def)
qed

subsection \<open>One live connection per spoke\<close>

definition hub_inv :: "hub_state \<Rightarrow> bool" where
  "hub_inv = (\<lambda>(hb, conns, closing).
     (\<forall>name rs. tget (hub_spokes hb) name = Some rs \<longrightarrow> conns rs = Some name) \<and>
     (\<forall>name rs. conns rs = Some name \<longrightarrow> rs \<in> hub_closed hb \<or> rs \<in> closing \<or> tget (hub_spokes hb) name = Some rs))"

lemma hub_inv_registered:
  "hub_inv (hb, conns, closing) \<Longrightarrow> tget (hub_spokes hb) name = Some rs \<Longrightarrow> conns rs = Some name"
  unfolding hub_inv_def by blast

lemma hub_inv_live:
  "hub_inv (hb, conns, closing) \<Longrightarrow> conns rs = Some name \<Longrightarrow> rs \<notin> hub_closed hb \<Longrightarrow> rs \<notin> closing \<Longrightarrow>
     tget (hub_spokes hb) name = Some rs"
  unfolding hub_inv_def by blast

lemma hub_inv_step: "hub_step s s' \<Longrightarrow> hub_inv s \<Longrightarrow> hub_inv s'"
proof (induction rule: hub_step.induct)
  case (connect conns rs hb name old hb' closing)
  have sw: "tget (hub_spokes hb') n = (if n = name then Some rs else tget (hub_spokes hb) n)"
    "hub_closed hb' = hub_closed hb" "old = tget (hub_spokes hb) name" for n
    using connect.hyps(3) by (auto simp: hub_swap_def)
  have fresh: "tget (hub_spokes hb) n \<noteq> Some rs" for n
    using hub_inv_registered [OF connect.prems, of n rs] connect.hyps(1) by auto
  show ?case unfolding hub_inv_def prod.case
  proof (intro conjI allI impI)
    fix n x assume "tget (hub_spokes hb') n = Some x"
    then show "(conns(rs \<mapsto> name)) x = Some n"
      using sw(1) [of n] fresh [of n] hub_inv_registered [OF connect.prems, of n x] by (auto split: if_splits)
  next
    fix n x assume x: "(conns(rs \<mapsto> name)) x = Some n"
    show "x \<in> hub_closed hb' \<or> x \<in> closing \<union> set_option old \<or> tget (hub_spokes hb') n = Some x"
    proof (cases "x = rs")
      case True
      with x sw(1) show ?thesis by simp
    next
      case False
      with x have "conns x = Some n" by simp
      from hub_inv_live [OF connect.prems this] sw show ?thesis by (auto split: if_splits)
    qed
  qed
next
  case (unregisters conns rs name hb closing)
  have un: "tget (hub_spokes (hub_unregister name rs hb)) n =
      (if n = name \<and> tget (hub_spokes hb) n = Some rs then None else tget (hub_spokes hb) n)"
    "hub_closed (hub_unregister name rs hb) = hub_closed hb" for n
    by (auto simp: hub_unregister_def)
  show ?case unfolding hub_inv_def prod.case
  proof (intro conjI allI impI)
    fix n x assume "tget (hub_spokes (hub_unregister name rs hb)) n = Some x"
    then show "(conns(rs := None)) x = Some n"
      using un(1) [of n] hub_inv_registered [OF unregisters.prems, of n x] unregisters.hyps(1) by (auto split: if_splits)
  next
    fix n x assume x: "(conns(rs := None)) x = Some n"
    then have "x \<noteq> rs" "conns x = Some n" by (auto split: if_splits)
    with hub_inv_live [OF unregisters.prems this(2)] un
    show "x \<in> hub_closed (hub_unregister name rs hb) \<or> x \<in> closing \<or> tget (hub_spokes (hub_unregister name rs hb)) n = Some x"
      by auto
  qed
qed (unfold hub_inv_def hub_close_def; simp; blast)+

lemma hub_reach_inv: "hub_reach s \<Longrightarrow> hub_inv s"
proof (induction rule: hub_reach.induct)
  case hub_init
  then show ?case by (simp add: hub_inv_def new_hub_def)
next
  case (hub_next s s')
  then show ?case using hub_inv_step by blast
qed

text \<open>A registered connection gives way only to its own teardown or to a newer connection.\<close>

lemma hub_step_registered:
  assumes "hub_step (hb, conns, closing) (hb', conns', closing')" and "hub_inv (hb, conns, closing)"
    and "tget (hub_spokes hb) name = Some rs" and "tget (hub_spokes hb') name \<noteq> Some rs"
  shows "(rs \<in> hub_closed hb \<and> conns' rs = None) \<or>
    (\<exists>rs'. conns rs' = None \<and> tget (hub_spokes hb') name = Some rs' \<and> rs \<in> closing')"
  using assms(1)
proof cases
  case (connect rs' n old)
  with assms(3,4) have "n = name" by (auto simp: hub_swap_def split: if_splits)
  with connect assms(3) show ?thesis by (auto simp: hub_swap_def)
next
  case (unregisters rs' n)
  with assms(3,4) have "rs' = rs" by (auto simp: hub_unregister_def split: if_splits)
  with unregisters show ?thesis by simp
qed (use assms(3,4) in \<open>auto simp: hub_close_def\<close>)



subsection \<open>Revoking by prefix or by name\<close>

lemma delete_each_ok:
  assumes "\<And>op. \<not> db_down d op"
  shows "delete_each DeleteJoinToken is d = (None, d\<lparr>db_join_tokens := fold tdel is (db_join_tokens d)\<rparr>)"
  using assms
proof (induction "is" arbitrary: d)
  case (Cons i "is")
  then show ?case by (simp add: DeleteJoinToken_def attempt_def)
qed simp

lemma tget_fold_tdel_iff: "tget (fold tdel ks t) k = (if k \<in> set ks then None else tget t k)"
  by (induction ks arbitrary: t) auto

lemma revoke_by_prefix:
  assumes up: "\<And>op. \<not> db_down d op" and kd: "keys_distinct (db_join_tokens d)" and "idPrefix \<noteq> []"
  shows "case revokeJoinTokens idPrefix [] d of
      (None, d') \<Rightarrow> \<exists>i. {k. tget (db_join_tokens d) k \<noteq> None \<and> has_prefix k idPrefix} = {i} \<and>
         tget (db_join_tokens d') = (tget (db_join_tokens d))(i := None)
    | (Some e, d') \<Rightarrow> d' = d \<and> \<not> (\<exists>!k. tget (db_join_tokens d) k \<noteq> None \<and> has_prefix k idPrefix)"
proof -
  let ?ts = "db_join_tokens d"
  let ?m = "matched_rows jt_Name idPrefix [] ?ts"
  have fm: "k \<in> fst ` set ?m \<longleftrightarrow> tget ?ts k \<noteq> None \<and> has_prefix k idPrefix" for k
    using assms(3) mem_tget [OF kd] by (force simp: matched_rows_def)
  have dist: "distinct (map fst ?m)"
    using kd by (auto simp: matched_rows_def keys_distinct_def distinct_map_filter)
  consider "?m = []" | r where "?m = [r]" | r1 r2 rs where "?m = r1 # r2 # rs"
    by (metis neq_Nil_conv)
  then show ?thesis
  proof cases
    case 1
    then have "\<not> (\<exists>k. tget ?ts k \<noteq> None \<and> has_prefix k idPrefix)" using fm by (metis empty_iff image_empty list.set(1))
    then have "\<not> (\<exists>!k. tget ?ts k \<noteq> None \<and> has_prefix k idPrefix)" by blast
    with 1 up show ?thesis by (simp add: revokeJoinTokens_def ListJoinTokens_def attempt_def)
  next
    case (2 r)
    then have "{k. tget ?ts k \<noteq> None \<and> has_prefix k idPrefix} = {fst r}" using fm by auto
    with 2 up show ?thesis
      by (auto simp: revokeJoinTokens_def ListJoinTokens_def attempt_def DeleteJoinToken_def fun_upd_def)
  next
    case (3 r1 r2 rs)
    with dist fm have "fst r1 \<noteq> fst r2" "tget ?ts (fst r1) \<noteq> None \<and> has_prefix (fst r1) idPrefix"
      "tget ?ts (fst r2) \<noteq> None \<and> has_prefix (fst r2) idPrefix"
      by (auto simp flip: fm)
    with 3 assms(3) up show ?thesis
      by (simp add: revokeJoinTokens_def ListJoinTokens_def attempt_def) metis
  qed
qed

lemma revoke_by_name:
  assumes up: "\<And>op. \<not> db_down d op" and kd: "keys_distinct (db_join_tokens d)" and "name \<noteq> []"
  shows "case revokeJoinTokens [] name d of
      (None, d') \<Rightarrow> (\<forall>k. tget (db_join_tokens d') k =
         (case tget (db_join_tokens d) k of
            None \<Rightarrow> None | Some t \<Rightarrow> if jt_Name t = name then None else Some t))
    | (Some e, d') \<Rightarrow> d' = d \<and> e = NoMatch \<and> (\<forall>k t. tget (db_join_tokens d) k = Some t \<longrightarrow> jt_Name t \<noteq> name)"
proof -
  let ?ts = "db_join_tokens d"
  let ?m = "matched_rows jt_Name [] name ?ts"
  have fm: "k \<in> fst ` set ?m \<longleftrightarrow> (\<exists>t. tget ?ts k = Some t \<and> jt_Name t = name)" for k
    using assms(3) mem_tget [OF kd] by (force simp: matched_rows_def)
  show ?thesis
  proof (cases "?m = []")
    case True
    with up fm show ?thesis by (auto simp: revokeJoinTokens_def ListJoinTokens_def attempt_def)
  next
    case False
    then have "revokeJoinTokens [] name d = (None, d\<lparr>db_join_tokens := fold tdel (map fst ?m) ?ts\<rparr>)"
      using up by (simp add: revokeJoinTokens_def ListJoinTokens_def attempt_def delete_each_ok)
    then show ?thesis using fm by (auto simp: tget_fold_tdel_iff split: option.splits)
  qed
qed

text \<open>
  Further (revoke_is_unambiguous). Revoking join tokens by id prefix alone either deletes exactly the one
  token whose id has that prefix, or fails and deletes nothing, when none or several have it;
  revoking by spoke name alone deletes exactly the tokens of that spoke, and fails when it has none.
\<close>

theorem revoke_is_unambiguous:
  assumes "\<And>op. \<not> db_down d op" and "keys_distinct (db_join_tokens d)"
  shows "(idPrefix \<noteq> [] \<longrightarrow>
      (case revokeJoinTokens idPrefix [] d of
         (None, d') \<Rightarrow> \<exists>i. {k. tget (db_join_tokens d) k \<noteq> None \<and> has_prefix k idPrefix} = {i} \<and>
            tget (db_join_tokens d') = (tget (db_join_tokens d))(i := None)
       | (Some e, d') \<Rightarrow> d' = d \<and> \<not> (\<exists>!k. tget (db_join_tokens d) k \<noteq> None \<and> has_prefix k idPrefix))) \<and>
    (name \<noteq> [] \<longrightarrow>
      (case revokeJoinTokens [] name d of
         (None, d') \<Rightarrow> (\<forall>k. tget (db_join_tokens d') k =
            (case tget (db_join_tokens d) k of
               None \<Rightarrow> None | Some t \<Rightarrow> if jt_Name t = name then None else Some t))
       | (Some e, d') \<Rightarrow> d' = d \<and> e = NoMatch \<and> (\<forall>k t. tget (db_join_tokens d) k = Some t \<longrightarrow> jt_Name t \<noteq> name)))"
proof (intro conjI impI)
  show "idPrefix \<noteq> [] \<Longrightarrow> case revokeJoinTokens idPrefix [] d of
      (None, d') \<Rightarrow> \<exists>i. {k. tget (db_join_tokens d) k \<noteq> None \<and> has_prefix k idPrefix} = {i} \<and>
         tget (db_join_tokens d') = (tget (db_join_tokens d))(i := None)
    | (Some e, d') \<Rightarrow> d' = d \<and> \<not> (\<exists>!k. tget (db_join_tokens d) k \<noteq> None \<and> has_prefix k idPrefix)"
    by (rule revoke_by_prefix [OF assms])
qed (rule revoke_by_name [OF assms])

theorem revoke_is_unambiguous_witness:
  "fst (revokeJoinTokens ''a'' [] (empty_db\<lparr>db_join_tokens :=
      [(''ab'', \<lparr>jt_Name = ''gpu'', jt_Backend = [], jt_ExpiresAt = 9\<rparr>),
       (''ac'', \<lparr>jt_Name = ''cpu'', jt_Backend = [], jt_ExpiresAt = 9\<rparr>)]\<rparr>)) \<noteq> None"
proof -
  define d where "d = empty_db\<lparr>db_join_tokens :=
      [(''ab'', \<lparr>jt_Name = ''gpu'', jt_Backend = [], jt_ExpiresAt = 9\<rparr>),
       (''ac'', \<lparr>jt_Name = ''cpu'', jt_Backend = [], jt_ExpiresAt = 9\<rparr>)]\<rparr>"
  have u: "\<not> db_down d op" for op by (simp add: d_def empty_db_def)
  have k: "keys_distinct (db_join_tokens d)" by (simp add: d_def keys_distinct_def)
  have p: "tget (db_join_tokens d) ''ab'' \<noteq> None \<and> has_prefix ''ab'' ''a''"
    "tget (db_join_tokens d) ''ac'' \<noteq> None \<and> has_prefix ''ac'' ''a''" by (simp_all add: d_def)
  have "fst (revokeJoinTokens ''a'' [] d) \<noteq> None"
  proof
    assume "fst (revokeJoinTokens ''a'' [] d) = None"
    then obtain d' where "revokeJoinTokens ''a'' [] d = (None, d')" by (metis prod.collapse)
    with revoke_is_unambiguous [OF u k, of "''a''" "[]"] obtain i where
      "{k. tget (db_join_tokens d) k \<noteq> None \<and> has_prefix k ''a''} = {i}" by auto
    with p have "''ab'' = i" "''ac'' = i" by blast+
    then have "''ab'' = ''ac''" by metis
    then show False by simp
  qed
  then show ?thesis by (simp add: d_def)
qed

subsection \<open>API keys\<close>

text \<open>
  Further (api_key_lifecycle). A minted API key authenticates, with the name it was given, at every time
  up to its expiry and at none after it; deleting its hash makes it unknown; a secret with another
  hash is accepted exactly as it was before. Keys without a name or with a TTL that is not positive
  are refused.
\<close>

theorem api_key_lifecycle:
  assumes "\<And>op. \<not> db_down d op"
  shows "(name = [] \<or> ttl \<le> 0 \<longrightarrow> isl (apikey_Create h rnd name ttl now d)) \<and>
    (\<forall>secret d'. apikey_Create h rnd name ttl now d = Inr (secret, d') \<longrightarrow>
       (\<forall>t. apikey_Authenticate h secret t d' =
          Inr (if t \<le> now + ttl then Some \<lparr>ak_Name = name, ak_CreatedAt = now, ak_ExpiresAt = now + ttl\<rparr> else None)) \<and>
       (\<forall>s t. h s \<noteq> h secret \<longrightarrow> apikey_Authenticate h s t d' = apikey_Authenticate h s t d) \<and>
       (\<forall>d'' t. DeleteAPIKey (h secret) d' = Inr d'' \<longrightarrow> apikey_Authenticate h secret t d'' = Inr None))"
  using assms
  by (auto simp: apikey_Create_def apikey_Authenticate_def PutAPIKey_def GetAPIKey_def DeleteAPIKey_def
      attempt_def Let_def split: if_splits option.splits)

theorem api_key_lifecycle_witness:
  "\<exists>d'. apikey_Create (\<lambda>s. s) (Some ''ff'') ''ci'' 10 5 empty_db = Inr (''lbx_ff'', d') \<and>
     apikey_Authenticate (\<lambda>s. s) ''lbx_ff'' 16 d' = Inr None"
proof -
  have u: "\<not> db_down empty_db op" for op by (simp add: empty_db_def)
  obtain d' where c: "apikey_Create (\<lambda>s. s) (Some ''ff'') ''ci'' 10 5 empty_db = Inr (''lbx_ff'', d')"
    by (auto simp: apikey_Create_def PutAPIKey_def attempt_def empty_db_def Let_def)
  with api_key_lifecycle [OF u, of "''ci''" 10 "\<lambda>s. s" "Some ''ff''" 5]
  have "apikey_Authenticate (\<lambda>s. s) ''lbx_ff'' 16 d' = Inr None" by auto
  with c show ?thesis by blast
qed

end
