(* ===== verification/Spokes.thy ===== *)
theory Spokes
  imports Enroll
begin

text \<open>
  The hub's operations on spokes (\<^verbatim>\<open>internal/hub/server.go\<close>): the admin-chosen default spoke, the
  resolution of a spoke name to a connected spoke, creating, dropping and listing spokes, and
  revoking or regenerating join tokens. They act on the database and on the registry of live
  connections of \<open>Enroll\<close>.
\<close>

datatype spoke_error =
    SpokeNameMissing
  | TokenIDMissing
  | NoDefaultSpoke
  | SpokeNotConnected string
  | SpokeNotEnrolled string
  | NoSuchToken string
  | SpokeStore store_error
  | SpokeEnroll enroll_error

definition defaultSpokeSettingKey :: string where
  "defaultSpokeSettingKey = ''default_spoke''"

definition DefaultSpoke :: "db \<Rightarrow> store_error + string" where
  "DefaultSpoke d =
     (case GetSetting defaultSpokeSettingKey d of
        Inl e \<Rightarrow> Inl e
      | Inr None \<Rightarrow> Inr []
      | Inr (Some v) \<Rightarrow> Inr v)"

definition SetDefaultSpoke :: "string \<Rightarrow> db \<Rightarrow> store_error + db" where
  "SetDefaultSpoke name d = PutSetting defaultSpokeSettingKey name d"

definition spoke :: "db \<Rightarrow> hub option \<Rightarrow> string \<Rightarrow> spoke_error + string" where
  "spoke d hb name =
     (let find = (\<lambda>n. case hb of
                        None \<Rightarrow> Inl (SpokeNotConnected n)
                      | Some h \<Rightarrow> if hub_Spoke h n \<noteq> None then Inr n else Inl (SpokeNotConnected n))
      in if name = [] then
           (case DefaultSpoke d of
              Inl e \<Rightarrow> Inl (SpokeStore e)
            | Inr def \<Rightarrow> if def = [] then Inl NoDefaultSpoke else find def)
         else find name)"

definition allSpokes :: "hub option \<Rightarrow> string list" where
  "allSpokes hb = (case hb of None \<Rightarrow> [] | Some h \<Rightarrow> map fst (hub_Spokes h))"

definition createSpoke ::
  "(string \<Rightarrow> string) \<Rightarrow> string option \<Rightarrow> string \<Rightarrow> string \<Rightarrow> duration \<Rightarrow> time \<Rightarrow> db \<Rightarrow> spoke_error + (string \<times> db)"
where
  "createSpoke h rnd name backend ttl now d =
     (if name = [] then Inl SpokeNameMissing
      else case CreateJoinToken h rnd name backend ttl now d of
             Inl e \<Rightarrow> Inl (SpokeEnroll e) | Inr r \<Rightarrow> Inr r)"

fun drop_tokens :: "string \<Rightarrow> (string \<times> join_token_record) list \<Rightarrow> db \<Rightarrow> db" where
  "drop_tokens name [] d = d"
| "drop_tokens name ((i, t) # ts) d =
     drop_tokens name ts
       (if jt_Name t = name then (case DeleteJoinToken i d of Inl _ \<Rightarrow> d | Inr d' \<Rightarrow> d') else d)"

definition dropSpoke :: "string \<Rightarrow> db \<Rightarrow> hub option \<Rightarrow> spoke_error option \<times> db \<times> hub option" where
  "dropSpoke name d hb =
     (if name = [] then (Some SpokeNameMissing, d, hb)
      else case DeleteSpoke name d of
             Inl e \<Rightarrow> (Some (SpokeStore e), d, hb)
           | Inr d1 \<Rightarrow>
               (let d2 = (case ListJoinTokens d1 of Inl _ \<Rightarrow> d1 | Inr ts \<Rightarrow> drop_tokens name ts d1);
                    hb' = map_option (hub_Disconnect name) hb;
                    d3 = (case DefaultSpoke d2 of
                            Inr def \<Rightarrow> if def = name
                                       then (case SetDefaultSpoke [] d2 of Inl _ \<Rightarrow> d2 | Inr d' \<Rightarrow> d')
                                       else d2
                          | Inl _ \<Rightarrow> d2)
                in (None, d3, hb')))"

definition chooseDefaultSpoke :: "string \<Rightarrow> db \<Rightarrow> spoke_error + db" where
  "chooseDefaultSpoke name d =
     (if name = [] then Inl SpokeNameMissing
      else case ListSpokes d of
             Inl e \<Rightarrow> Inl (SpokeStore e)
           | Inr recs \<Rightarrow>
               if list_ex (\<lambda>r. sr_Name r = name) recs
               then (case SetDefaultSpoke name d of Inl e \<Rightarrow> Inl (SpokeStore e) | Inr d' \<Rightarrow> Inr d')
               else Inl (SpokeNotEnrolled name))"

definition revokeJoinToken :: "string \<Rightarrow> db \<Rightarrow> spoke_error + db" where
  "revokeJoinToken i d =
     (if i = [] then Inl TokenIDMissing
      else case DeleteJoinToken i d of Inl e \<Rightarrow> Inl (SpokeStore e) | Inr d' \<Rightarrow> Inr d')"

text \<open>The old token is gone from the database even when minting its replacement fails.\<close>

definition regenerateJoinToken ::
  "(string \<Rightarrow> string) \<Rightarrow> string option \<Rightarrow> duration \<Rightarrow> time \<Rightarrow> string \<Rightarrow> db \<Rightarrow>
   (spoke_error + (string \<times> string \<times> string)) \<times> db"
where
  "regenerateJoinToken h rnd ttl now i d =
     (if i = [] then (Inl TokenIDMissing, d)
      else case ListJoinTokens d of
             Inl e \<Rightarrow> (Inl (SpokeStore e), d)
           | Inr ts \<Rightarrow>
               (case tget ts i of
                  None \<Rightarrow> (Inl (NoSuchToken i), d)
                | Some t \<Rightarrow>
                    (case DeleteJoinToken i d of
                       Inl e \<Rightarrow> (Inl (SpokeStore e), d)
                     | Inr d1 \<Rightarrow>
                         (case CreateJoinToken h rnd (jt_Name t) (jt_Backend t) ttl now d1 of
                            Inl e \<Rightarrow> (Inl (SpokeEnroll e), d1)
                          | Inr (tok, d2) \<Rightarrow> (Inr (jt_Name t, jt_Backend t, tok), d2)))))"

definition resolveStoredSpoke :: "db \<Rightarrow> string \<Rightarrow> string" where
  "resolveStoredSpoke d name =
     (if name \<noteq> [] then name else case DefaultSpoke d of Inl _ \<Rightarrow> [] | Inr def \<Rightarrow> def)"

record spoke_status =
  ss_Name :: string
  ss_Connected :: bool
  ss_Default :: bool
  ss_EnrolledAt :: time

definition SpokeStatuses :: "db \<Rightarrow> hub option \<Rightarrow> store_error + spoke_status list" where
  "SpokeStatuses d hb =
     (case hb of
        None \<Rightarrow> Inr []
      | Some h \<Rightarrow>
          (case ListSpokes d of
             Inl e \<Rightarrow> Inl e
           | Inr recs \<Rightarrow>
               (case DefaultSpoke d of
                  Inl e \<Rightarrow> Inl e
                | Inr def \<Rightarrow>
                    Inr (map (\<lambda>r. \<lparr>ss_Name = sr_Name r, ss_Connected = hub_Spoke h (sr_Name r) \<noteq> None,
                                   ss_Default = (sr_Name r = def), ss_EnrolledAt = sr_EnrolledAt r\<rparr>) recs))))"

subsection \<open>A dropped spoke cannot come back by itself\<close>

definition no_way_in :: "string \<Rightarrow> db \<Rightarrow> bool" where
  "no_way_in name d \<longleftrightarrow> tget (db_spokes d) name = None \<and>
     (\<forall>k t. tget (db_join_tokens d) k = Some t \<longrightarrow> jt_Name t \<noteq> name)"

lemma no_way_in_authenticate:
  assumes "no_way_in name d" and "authenticateEnroll h rnd req now d = (r, d')"
  shows "no_way_in name d' \<and> (\<forall>c. r \<noteq> Inr (name, c))"
  using assms
  by (auto simp: no_way_in_def enroll_defs attempt_def split: if_splits option.splits sum.splits) blast+

lemma no_way_in_run:
  assumes "no_way_in name d" and "run_enrolls h reqs d = (res, d')"
  shows "\<forall>c. Inr (name, c) \<notin> set res"
  using assms
proof (induction reqs arbitrary: d d' res)
  case (Cons rq reqs)
  obtain req now rnd where rq: "rq = (req, now, rnd)" by (metis prod_cases3)
  obtain r d1 where a: "authenticateEnroll h rnd req now d = (r, d1)" by fastforce
  obtain res' d2 where b: "run_enrolls h reqs d1 = (res', d2)" by fastforce
  from Cons.prems(2) rq a b have "res = r # res'" by simp
  with no_way_in_authenticate [OF Cons.prems(1) a] Cons.IH [OF _ b] show ?case by auto
qed simp

lemma drop_tokens_spec:
  assumes "\<And>op. \<not> db_down d op"
  shows "\<exists>js. drop_tokens name ts d = d\<lparr>db_join_tokens := js\<rparr> \<and>
    (\<forall>k. tget js k = (if \<exists>t. (k, t) \<in> set ts \<and> jt_Name t = name then None else tget (db_join_tokens d) k))"
  using assms
proof (induction ts arbitrary: d)
  case Nil
  show ?case by (rule exI [of _ "db_join_tokens d"]) simp
next
  case (Cons x ts)
  obtain i t where x: "x = (i, t)" by fastforce
  let ?d1 = "if jt_Name t = name then d\<lparr>db_join_tokens := tdel i (db_join_tokens d)\<rparr> else d"
  have "\<And>op. \<not> db_down ?d1 op" using Cons.prems by simp
  from Cons.IH [OF this] obtain js where
    js: "drop_tokens name ts ?d1 = ?d1\<lparr>db_join_tokens := js\<rparr>"
      "\<And>k. tget js k = (if \<exists>t. (k, t) \<in> set ts \<and> jt_Name t = name then None else tget (db_join_tokens ?d1) k)"
    by blast
  have "drop_tokens name (x # ts) d = d\<lparr>db_join_tokens := js\<rparr>"
    using js(1) Cons.prems by (cases "jt_Name t = name") (simp_all add: x DeleteJoinToken_def attempt_def)
  moreover have "tget js k = (if \<exists>t'. (k, t') \<in> set (x # ts) \<and> jt_Name t' = name then None
      else tget (db_join_tokens d) k)" for k
    using js(2) [of k] by (auto simp: x)
  ultimately show ?case by blast
qed

text \<open>
  C24 (dropped_spoke_stays_out). Dropping a spoke removes its enrollment, revokes every outstanding
  join token for its name, closes its live connection, and clears the default spoke if it was that
  one; afterwards no sequence of enrollment and reconnection requests, with whatever tokens and
  credentials, is ever accepted under that name until an operator mints a new token.
\<close>

theorem dropped_spoke_stays_out:
  assumes "\<And>op. \<not> db_down d op" and "keys_distinct (db_join_tokens d)" and "name \<noteq> []"
    and "dropSpoke name d hb = (e, d', hb')"
  shows "e = None \<and> GetSpoke name d' = Inr None \<and>
    DefaultSpoke d' = Inr (if DefaultSpoke d = Inr name then [] else projr (DefaultSpoke d)) \<and>
    (\<forall>h rs. hb = Some h \<and> hub_Spoke h name = Some rs \<longrightarrow> (\<exists>h'. hb' = Some h' \<and> rs \<in> hub_closed h')) \<and>
    (\<forall>hash reqs c. Inr (name, c) \<notin> set (fst (run_enrolls hash reqs d')))"
proof -
  let ?d1 = "d\<lparr>db_spokes := tdel name (db_spokes d)\<rparr>"
  have up: "\<And>op. \<not> db_down ?d1 op" using assms(1) by simp
  from drop_tokens_spec [OF up] obtain js where
    js: "drop_tokens name (db_join_tokens d) ?d1 = ?d1\<lparr>db_join_tokens := js\<rparr>"
      "\<And>k. tget js k = (if \<exists>t. (k, t) \<in> set (db_join_tokens d) \<and> jt_Name t = name then None
            else tget (db_join_tokens d) k)"
    by force
  let ?d2 = "?d1\<lparr>db_join_tokens := js\<rparr>"
  have def: "DefaultSpoke ?d2 = DefaultSpoke d"
    using assms(1) by (simp add: DefaultSpoke_def GetSetting_def attempt_def)
  have eq: "e = None" "hb' = map_option (hub_Disconnect name) hb"
    "d' = (if DefaultSpoke d = Inr name then ?d2\<lparr>db_settings := tput defaultSpokeSettingKey [] (db_settings d)\<rparr> else ?d2)"
    using assms js(1) def
    by (auto simp: dropSpoke_def DeleteSpoke_def ListJoinTokens_def attempt_def SetDefaultSpoke_def
        PutSetting_def Let_def split: sum.splits if_splits)
  have "no_way_in name d'"
    using eq(3) js(2) assms(2) by (auto simp: no_way_in_def mem_tget)
  then have out: "\<forall>hash reqs c. Inr (name, c) \<notin> set (fst (run_enrolls hash reqs d'))"
    using no_way_in_run by (metis prod.collapse)
  show ?thesis
    using assms(1,3) eq def out
    by (auto simp: GetSpoke_def DefaultSpoke_def GetSetting_def attempt_def hub_Disconnect_def hub_close_def hub_Spoke_def
        split: option.splits)
qed

theorem dropped_spoke_stays_out_witness:
  "Inr (''gpu'', ''x'') \<notin> set (fst (run_enrolls (\<lambda>s. s) [(enroll_request ''tok'' None, 1, Some ''x'')]
     (fst (snd (dropSpoke ''gpu''
        (empty_db\<lparr>db_join_tokens := [(''tok'', \<lparr>jt_Name = ''gpu'', jt_Backend = [], jt_ExpiresAt = 9\<rparr>)]\<rparr>) None)))))"
proof -
  define d where "d = empty_db\<lparr>db_join_tokens := [(''tok'', \<lparr>jt_Name = ''gpu'', jt_Backend = [], jt_ExpiresAt = 9\<rparr>)]\<rparr>"
  have u: "\<not> db_down d op" for op by (simp add: d_def empty_db_def)
  have k: "keys_distinct (db_join_tokens d)" by (simp add: d_def keys_distinct_def)
  obtain e d' hb' where r: "dropSpoke ''gpu'' d None = (e, d', hb')" by (metis prod_cases3)
  from dropped_spoke_stays_out [OF u k _ r]
  have "\<forall>hash reqs c. Inr (''gpu'', c) \<notin> set (fst (run_enrolls hash reqs d'))" by simp
  then show ?thesis unfolding d_def [symmetric] r fst_conv snd_conv by blast
qed

text \<open>
  Further (regenerate_replaces_token). Regenerating a join token leaves the old token unusable whether or
  not the replacement could be minted, and on success the replacement enrolls the same spoke name
  with the same recorded backend, while every other token is untouched.
\<close>

theorem regenerate_replaces_token:
  assumes "\<And>op. \<not> db_down d op" and "i \<noteq> []" and "tget (db_join_tokens d) i = Some t"
    and "jt_Name t \<noteq> []" and "0 < ttl" and "regenerateJoinToken h rnd ttl now i d = (r, d')"
  shows "(\<forall>secret. rnd = Some secret \<longrightarrow>
      r = Inr (jt_Name t, jt_Backend t, secret) \<and>
      tget (db_join_tokens d') = (tget (db_join_tokens d))
        (i := None, h secret \<mapsto> \<lparr>jt_Name = jt_Name t, jt_Backend = jt_Backend t, jt_ExpiresAt = now + ttl\<rparr>)) \<and>
    (rnd = None \<longrightarrow> r = Inl (SpokeEnroll RandomFailed) \<and>
      tget (db_join_tokens d') = (tget (db_join_tokens d))(i := None))"
  using assms
  by (auto simp: regenerateJoinToken_def ListJoinTokens_def DeleteJoinToken_def CreateJoinToken_def
      PutJoinToken_def attempt_def fun_upd_def split: option.splits)

theorem regenerate_replaces_token_witness:
  "fst (regenerateJoinToken (\<lambda>s. s) (Some ''new'') 5 1 ''old''
     (empty_db\<lparr>db_join_tokens := [(''old'', \<lparr>jt_Name = ''gpu'', jt_Backend = ''docker'', jt_ExpiresAt = 9\<rparr>)]\<rparr>)) =
   Inr (''gpu'', ''docker'', ''new'')"
proof -
  define d where "d = empty_db\<lparr>db_join_tokens := [(''old'', \<lparr>jt_Name = ''gpu'', jt_Backend = ''docker'', jt_ExpiresAt = 9\<rparr>)]\<rparr>"
  have u: "\<not> db_down d op" for op by (simp add: d_def empty_db_def)
  have t: "tget (db_join_tokens d) ''old'' = Some \<lparr>jt_Name = ''gpu'', jt_Backend = ''docker'', jt_ExpiresAt = 9\<rparr>"
    by (simp add: d_def)
  obtain r d' where g: "regenerateJoinToken (\<lambda>s. s) (Some ''new'') 5 1 ''old'' d = (r, d')" by fastforce
  have "''old'' \<noteq> []" "jt_Name \<lparr>jt_Name = ''gpu'', jt_Backend = ''docker'', jt_ExpiresAt = 9\<rparr> \<noteq> []" "(0::int) < 5"
    by simp_all
  from regenerate_replaces_token [OF u this(1) t this(2,3) g] show ?thesis unfolding d_def [symmetric] g by simp
qed

end
