(* ===== verification/Allowlist.thy ===== *)
theory Allowlist
  imports Spokes Sandbox
begin

text \<open>
  The hub's network-isolation configuration: \<^verbatim>\<open>internal/hub/allowlist.go\<close> and \<^verbatim>\<open>internal/hub/dns_audit.go\<close>.
  A handler takes its decoded request (\<open>None\<close> when the body does not decode) and the database, and
  returns the response, the list of policies it pushed to spokes, in order, and the database. A
  push is (spoke, box id, policy); whether the spoke accepts it changes nothing on the hub.
\<close>

datatype 'a response = Ok 'a | Fail400 | Fail404 | Fail409 | Fail500

type_synonym push = "string \<times> string \<times> network_policy"

abbreviation defaultAllowlistTTLSeconds :: int where
  "defaultAllowlistTTLSeconds \<equiv> 30"

abbreviation allowlistBundleVersion :: int where
  "allowlistBundleVersion \<equiv> 1"

subsection \<open>Names and domains\<close>

definition domain_label :: rx where
  "domain_label = Then (Class is_alnum) (Then (Opt (Then (Many (Class alnum_hyphen)) (Class is_alnum))) (Lit (CHR ''.'')))"

definition domainPattern :: rx where
  "domainPattern =
     Then (Opt (Then (Lit (CHR ''*'')) (Lit (CHR ''.''))))
       (Then (Then domain_label (Many domain_label))
          (Then (Class is_lower) (Then (Class is_lower) (Many (Class is_lower)))))"

definition valid_domain :: "string \<Rightarrow> bool" where
  "valid_domain d = accepts domainPattern d"

definition clean_domain :: "string \<Rightarrow> string" where
  "clean_domain raw = to_lower (trim_space raw)"

fun normalize_loop :: "string list \<Rightarrow> string list \<Rightarrow> string list \<Rightarrow> string + string list" where
  "normalize_loop seen out [] = Inr out"
| "normalize_loop seen out (raw # rest) =
     (let d = clean_domain raw in
      if d = [] then normalize_loop seen out rest
      else if \<not> valid_domain d then Inl raw
      else if d \<in> set seen then normalize_loop seen out rest
      else normalize_loop (d # seen) (out @ [d]) rest)"

definition normalizeDomains :: "string list \<Rightarrow> string + string list" where
  "normalizeDomains ds = (case normalize_loop [] [] ds of Inl raw \<Rightarrow> Inl raw | Inr out \<Rightarrow> Inr (sort out))"

text \<open>\<^verbatim>\<open>slugRe.ReplaceAllString\<close>: each run of characters outside \<^verbatim>\<open>a-z0-9\<close> becomes one hyphen.\<close>

function collapse :: "string \<Rightarrow> string" where
  "collapse [] = []"
| "collapse (c # cs) =
     (if is_alnum c then c # collapse cs
      else CHR ''-'' # collapse (dropWhile (\<lambda>c. \<not> is_alnum c) cs))"
  by pat_completeness auto
termination
  by (relation "measure length") (auto simp: le_imp_less_Suc length_dropWhile_le)

definition slugify :: "string \<Rightarrow> string" where
  "slugify name = trim_func (\<lambda>c. c = CHR ''-'') (collapse (to_lower name))"

definition unionSorted :: "string list \<Rightarrow> string list \<Rightarrow> string list" where
  "unionSorted a b = sort (uniq [] (a @ b))"

subsection \<open>What a box may reach\<close>

definition reaches :: "string list \<Rightarrow> allowlist_group \<Rightarrow> bool" where
  "reaches assigned g \<longleftrightarrow> ag_IsGlobal g \<or> ag_ID g \<in> set assigned"

definition effectiveAllowlist :: "allowlist_group list \<Rightarrow> string list \<Rightarrow> string list \<times> string list" where
  "effectiveAllowlist groups assigned =
     (let gs = filter (reaches assigned) groups in
      (sorted_list_of_set (\<Union>g \<in> set gs. set (ag_Domains g)), sort (map ag_Name gs)))"

fun add_rules :: "int \<Rightarrow> string list \<Rightarrow> string list \<Rightarrow> string list \<times> domain_rule list" where
  "add_rules ttl seen [] = (seen, [])"
| "add_rules ttl seen (d # ds) =
     (if d \<in> set seen then add_rules ttl seen ds
      else case add_rules ttl (d # seen) ds of
             (seen', rs) \<Rightarrow> (seen', \<lparr>dr_Pattern = d, dr_TTLSeconds = ttl\<rparr> # rs))"

fun policy_rules :: "string list \<Rightarrow> string list \<Rightarrow> allowlist_group list \<Rightarrow> domain_rule list" where
  "policy_rules assigned seen [] = []"
| "policy_rules assigned seen (g # gs) =
     (if \<not> reaches assigned g then policy_rules assigned seen gs
      else
        let ttl = (if ag_TTLSeconds g \<le> 0 then defaultAllowlistTTLSeconds else ag_TTLSeconds g);
            (seen', rs) = add_rules ttl seen (ag_Domains g)
        in rs @ policy_rules assigned seen' gs)"

definition boxNetworkPolicy :: "string \<Rightarrow> db \<Rightarrow> store_error + network_policy" where
  "boxNetworkPolicy boxID d =
     (case ListAllowlistGroups d of
        Inl e \<Rightarrow> Inl e
      | Inr groups \<Rightarrow>
          (case GetBoxGroups boxID d of
             Inl e \<Rightarrow> Inl e
           | Inr assigned \<Rightarrow> Inr \<lparr>np_Enabled = True, np_Rules = policy_rules assigned [] groups\<rparr>))"

subsection \<open>Pushing policies\<close>

definition pushBoxPolicyTo :: "db \<Rightarrow> hub option \<Rightarrow> string \<Rightarrow> string \<Rightarrow> push list" where
  "pushBoxPolicyTo d hb boxID spokeName =
     (case boxNetworkPolicy boxID d of
        Inl _ \<Rightarrow> []
      | Inr pol \<Rightarrow> (case spoke d hb spokeName of Inl _ \<Rightarrow> [] | Inr sp \<Rightarrow> [(sp, boxID, pol)]))"

definition pushBoxPolicy :: "db \<Rightarrow> hub option \<Rightarrow> string \<Rightarrow> push list" where
  "pushBoxPolicy d hb boxID =
     (case ListBoxes d of
        Inl _ \<Rightarrow> []
      | Inr boxes \<Rightarrow>
          (case find (\<lambda>b. sb_BoxID b = boxID) boxes of
             None \<Rightarrow> [] | Some b \<Rightarrow> pushBoxPolicyTo d hb boxID (sb_Spoke b)))"

definition pushAllPolicies :: "db \<Rightarrow> hub option \<Rightarrow> push list" where
  "pushAllPolicies d hb =
     (case ListBoxes d of
        Inl _ \<Rightarrow> []
      | Inr boxes \<Rightarrow>
          concat (map (\<lambda>b. if sb_BoxID b = [] then [] else pushBoxPolicyTo d hb (sb_BoxID b) (sb_Spoke b)) boxes))"

subsection \<open>Views\<close>

record group_view =
  gv_group :: allowlist_group
  gv_BoxCount :: nat

definition groupBoxCounts :: "db \<Rightarrow> store_error + (string \<Rightarrow> nat)" where
  "groupBoxCounts d =
     (case ListBoxGroups d of
        Inl e \<Rightarrow> Inl e
      | Inr assignments \<Rightarrow> Inr (\<lambda>gid. length (filter (\<lambda>x. x = gid) (concat (map snd assignments)))))"

definition groupView :: "allowlist_group \<Rightarrow> nat \<Rightarrow> group_view" where
  "groupView g n = \<lparr>gv_group = g, gv_BoxCount = n\<rparr>"

definition counts_or_zero :: "db \<Rightarrow> string \<Rightarrow> nat" where
  "counts_or_zero d gid = (case groupBoxCounts d of Inl _ \<Rightarrow> 0 | Inr c \<Rightarrow> c gid)"

definition handleListAllowlistGroups :: "db \<Rightarrow> group_view list response" where
  "handleListAllowlistGroups d =
     (case ListAllowlistGroups d of
        Inl _ \<Rightarrow> Fail500
      | Inr groups \<Rightarrow>
          (case groupBoxCounts d of
             Inl _ \<Rightarrow> Fail500 | Inr counts \<Rightarrow> Ok (map (\<lambda>g. groupView g (counts (ag_ID g))) groups)))"

subsection \<open>Changing groups\<close>

record save_req =
  sq_ID :: string
  sq_Name :: string
  sq_Description :: string
  sq_TTLSeconds :: int
  sq_IsGlobal :: bool
  sq_Domains :: "string list"

definition save_and_push ::
  "hub option \<Rightarrow> allowlist_group \<Rightarrow> db \<Rightarrow> group_view response \<times> push list \<times> db"
where
  "save_and_push hb g d =
     (case SaveAllowlistGroup g d of
        Inl _ \<Rightarrow> (Fail500, [], d)
      | Inr d' \<Rightarrow> (Ok (groupView g (counts_or_zero d' (ag_ID g))), pushAllPolicies d' hb, d'))"

definition handleSaveAllowlistGroup ::
  "time \<Rightarrow> hub option \<Rightarrow> save_req option \<Rightarrow> db \<Rightarrow> group_view response \<times> push list \<times> db"
where
  "handleSaveAllowlistGroup now hb body d =
     (case body of
        None \<Rightarrow> (Fail400, [], d)
      | Some req \<Rightarrow>
          (let name = trim_space (sq_Name req) in
           if name = [] then (Fail400, [], d)
           else case normalizeDomains (sq_Domains req) of
                  Inl _ \<Rightarrow> (Fail400, [], d)
                | Inr domains \<Rightarrow>
                    (let ttl = (if sq_TTLSeconds req \<le> 0 then defaultAllowlistTTLSeconds else sq_TTLSeconds req);
                         g = \<lparr>ag_ID = [], ag_Name = name, ag_Description = trim_space (sq_Description req),
                              ag_TTLSeconds = ttl, ag_IsGlobal = sq_IsGlobal req, ag_Domains = domains,
                              ag_CreatedAt = now, ag_UpdatedAt = now\<rparr>
                     in if sq_ID req = [] then
                          (let i = slugify name in
                           if i = [] then (Fail400, [], d)
                           else case GetAllowlistGroup i d of
                                  Inl _ \<Rightarrow> (Fail500, [], d)
                                | Inr (Some _) \<Rightarrow> (Fail409, [], d)
                                | Inr None \<Rightarrow> save_and_push hb (g\<lparr>ag_ID := i\<rparr>) d)
                        else case GetAllowlistGroup (sq_ID req) d of
                               Inl _ \<Rightarrow> (Fail500, [], d)
                             | Inr None \<Rightarrow> (Fail404, [], d)
                             | Inr (Some old) \<Rightarrow>
                                 save_and_push hb (g\<lparr>ag_ID := sq_ID req, ag_CreatedAt := ag_CreatedAt old\<rparr>) d)))"

definition handleDeleteAllowlistGroup ::
  "hub option \<Rightarrow> string option \<Rightarrow> db \<Rightarrow> unit response \<times> push list \<times> db"
where
  "handleDeleteAllowlistGroup hb body d =
     (case body of
        None \<Rightarrow> (Fail400, [], d)
      | Some i \<Rightarrow>
          if i = [] then (Fail400, [], d)
          else case DeleteAllowlistGroup i d of
                 Inl _ \<Rightarrow> (Fail500, [], d)
               | Inr d' \<Rightarrow> (Ok (), pushAllPolicies d' hb, d'))"

definition handleGetBoxAllowlist ::
  "string option \<Rightarrow> db \<Rightarrow> (string list \<times> string list \<times> string list) response"
where
  "handleGetBoxAllowlist body d =
     (case body of
        None \<Rightarrow> Fail400
      | Some boxID \<Rightarrow>
          if boxID = [] then Fail400
          else case ListAllowlistGroups d of
                 Inl _ \<Rightarrow> Fail500
               | Inr groups \<Rightarrow>
                   (case GetBoxGroups boxID d of
                      Inl _ \<Rightarrow> Fail500
                    | Inr assigned \<Rightarrow>
                        (case effectiveAllowlist groups assigned of
                           (domains, names) \<Rightarrow> Ok (assigned, names, domains))))"

fun check_groups :: "string list \<Rightarrow> db \<Rightarrow> unit response" where
  "check_groups [] d = Ok ()"
| "check_groups (i # is) d =
     (case GetAllowlistGroup i d of
        Inl _ \<Rightarrow> Fail500
      | Inr None \<Rightarrow> Fail400
      | Inr (Some _) \<Rightarrow> check_groups is d)"

definition handleSetBoxGroups ::
  "hub option \<Rightarrow> (string \<times> string list) option \<Rightarrow> db \<Rightarrow> unit response \<times> push list \<times> db"
where
  "handleSetBoxGroups hb body d =
     (case body of
        None \<Rightarrow> (Fail400, [], d)
      | Some (boxID, gids) \<Rightarrow>
          if boxID = [] then (Fail400, [], d)
          else case check_groups gids d of
                 Ok _ \<Rightarrow>
                   (case SetBoxGroups boxID gids d of
                      Inl _ \<Rightarrow> (Fail500, [], d)
                    | Inr d' \<Rightarrow> (Ok (), pushBoxPolicy d' hb boxID, d'))
               | err \<Rightarrow> (err, [], d))"

subsection \<open>Export and import\<close>

record bundle_item =
  bi_Name :: string
  bi_Description :: string
  bi_Domains :: "string list"
  bi_TTLSeconds :: int
  bi_IsGlobal :: bool

record allowlist_bundle =
  bu_Version :: int
  bu_Groups :: "bundle_item list"

definition bundle_item_of :: "allowlist_group \<Rightarrow> bundle_item" where
  "bundle_item_of g =
     \<lparr>bi_Name = ag_Name g, bi_Description = ag_Description g, bi_Domains = ag_Domains g,
      bi_TTLSeconds = ag_TTLSeconds g, bi_IsGlobal = ag_IsGlobal g\<rparr>"

definition handleExportAllowlistGroups :: "string list option \<Rightarrow> db \<Rightarrow> allowlist_bundle response" where
  "handleExportAllowlistGroups body d =
     (case body of
        None \<Rightarrow> Fail400
      | Some want \<Rightarrow>
          (case ListAllowlistGroups d of
             Inl _ \<Rightarrow> Fail500
           | Inr groups \<Rightarrow>
               Ok \<lparr>bu_Version = allowlistBundleVersion,
                   bu_Groups = map bundle_item_of (filter (\<lambda>g. want = [] \<or> ag_ID g \<in> set want) groups)\<rparr>))"

definition imported_group ::
  "time \<Rightarrow> bool \<Rightarrow> string \<Rightarrow> string list \<Rightarrow> bundle_item \<Rightarrow> allowlist_group option \<Rightarrow> allowlist_group"
where
  "imported_group now replace name domains item existing =
     (let ttl = (if bi_TTLSeconds item \<le> 0 then defaultAllowlistTTLSeconds else bi_TTLSeconds item);
          g = \<lparr>ag_ID = slugify name, ag_Name = name, ag_Description = trim_space (bi_Description item),
               ag_TTLSeconds = ttl, ag_IsGlobal = bi_IsGlobal item, ag_Domains = domains,
               ag_CreatedAt = now, ag_UpdatedAt = now\<rparr>
      in case existing of
           None \<Rightarrow> g
         | Some old \<Rightarrow>
             if replace then g\<lparr>ag_CreatedAt := ag_CreatedAt old\<rparr>
             else g\<lparr>ag_CreatedAt := ag_CreatedAt old,
                    ag_Domains := unionSorted (ag_Domains old) domains,
                    ag_Description := ag_Description old,
                    ag_TTLSeconds := ag_TTLSeconds old,
                    ag_IsGlobal := ag_IsGlobal old\<rparr>)"

fun import_loop :: "time \<Rightarrow> bool \<Rightarrow> nat \<Rightarrow> bundle_item list \<Rightarrow> db \<Rightarrow> nat response \<times> db" where
  "import_loop now replace n [] d = (Ok n, d)"
| "import_loop now replace n (item # items) d =
     (let name = trim_space (bi_Name item) in
      if name = [] then (Fail400, d)
      else case normalizeDomains (bi_Domains item) of
             Inl _ \<Rightarrow> (Fail400, d)
           | Inr domains \<Rightarrow>
               (case GetAllowlistGroup (slugify name) d of
                  Inl _ \<Rightarrow> (Fail500, d)
                | Inr existing \<Rightarrow>
                    (case SaveAllowlistGroup (imported_group now replace name domains item existing) d of
                       Inl _ \<Rightarrow> (Fail500, d)
                     | Inr d' \<Rightarrow> import_loop now replace (n + 1) items d')))"

definition handleImportAllowlistGroups ::
  "time \<Rightarrow> hub option \<Rightarrow> (allowlist_bundle \<times> string) option \<Rightarrow> db \<Rightarrow> nat response \<times> push list \<times> db"
where
  "handleImportAllowlistGroups now hb body d =
     (case body of
        None \<Rightarrow> (Fail400, [], d)
      | Some (bundle, mode) \<Rightarrow>
          if bu_Version bundle \<noteq> allowlistBundleVersion then (Fail400, [], d)
          else case import_loop now (mode = ''replace'') 0 (bu_Groups bundle) d of
                 (Ok n, d') \<Rightarrow> (Ok n, pushAllPolicies d' hb, d')
               | (err, d') \<Rightarrow> (err, [], d'))"

subsection \<open>The audit view\<close>

definition handleListDNSAudit ::
  "dns_audit_filter option \<Rightarrow> db \<Rightarrow> (string \<times> string \<times> string \<times> int \<times> int) list response"
where
  "handleListDNSAudit body d =
     (case body of
        None \<Rightarrow> Fail400
      | Some f \<Rightarrow>
          (case ListDNSAudit f d of
             Inl _ \<Rightarrow> Fail500
           | Inr es \<Rightarrow>
               Ok (map (\<lambda>e. (da_BoxID e, da_Domain e, da_Verdict e, da_Hits e, da_LastSeen e div second)) es)))"

record add_domain_req =
  ad_Domain :: string
  ad_GroupID :: string
  ad_NewGroupName :: string

definition handleAddDomainToGroup ::
  "time \<Rightarrow> hub option \<Rightarrow> add_domain_req option \<Rightarrow> db \<Rightarrow> group_view response \<times> push list \<times> db"
where
  "handleAddDomainToGroup now hb body d =
     (case body of
        None \<Rightarrow> (Fail400, [], d)
      | Some req \<Rightarrow>
          (case normalizeDomains [ad_Domain req] of
             Inl _ \<Rightarrow> (Fail400, [], d)
           | Inr [] \<Rightarrow> (Fail400, [], d)
           | Inr (domain # _) \<Rightarrow>
               if ad_GroupID req \<noteq> [] then
                 (case GetAllowlistGroup (ad_GroupID req) d of
                    Inl _ \<Rightarrow> (Fail500, [], d)
                  | Inr None \<Rightarrow> (Fail404, [], d)
                  | Inr (Some old) \<Rightarrow>
                      save_and_push hb (old\<lparr>ag_Domains := unionSorted (ag_Domains old) [domain], ag_UpdatedAt := now\<rparr>) d)
               else
                 (let name = ad_NewGroupName req; i = slugify name in
                  if name = [] then (Fail400, [], d)
                  else if i = [] then (Fail400, [], d)
                  else case GetAllowlistGroup i d of
                         Inl _ \<Rightarrow> (Fail500, [], d)
                       | Inr (Some _) \<Rightarrow> (Fail409, [], d)
                       | Inr None \<Rightarrow>
                           save_and_push hb
                             \<lparr>ag_ID = i, ag_Name = name, ag_Description = [],
                              ag_TTLSeconds = defaultAllowlistTTLSeconds, ag_IsGlobal = False,
                              ag_Domains = [domain], ag_CreatedAt = now, ag_UpdatedAt = now\<rparr> d)))"

subsection \<open>Domain normalisation\<close>

lemma normalize_loop_Inr:
  "normalize_loop seen out ds = Inr r \<Longrightarrow> set seen = set out \<Longrightarrow> distinct out \<Longrightarrow>
     distinct r \<and> set r = set out \<union> {clean_domain x | x. x \<in> set ds \<and> clean_domain x \<noteq> []} \<and>
     (\<forall>x \<in> set ds. clean_domain x \<noteq> [] \<longrightarrow> valid_domain (clean_domain x))"
proof (induction seen out ds rule: normalize_loop.induct)
  case (2 seen out raw rest)
  let ?d = "clean_domain raw"
  consider "?d = []" | "?d \<noteq> []" "\<not> valid_domain ?d" | "?d \<noteq> []" "valid_domain ?d" "?d \<in> set seen"
    | "?d \<noteq> []" "valid_domain ?d" "?d \<notin> set seen" by blast
  then show ?case
  proof cases
    case 1
    then have "normalize_loop seen out rest = Inr r" using "2.prems"(1) by simp
    from "2.IH"(1) [OF refl 1 this "2.prems"(2,3)] 1 show ?thesis by auto
  next
    case 2
    with "2.prems"(1) show ?thesis by simp
  next
    case 3
    then have "normalize_loop seen out rest = Inr r" using "2.prems"(1) by simp
    from "2.IH"(2) [OF refl 3(1) _ 3(3) this "2.prems"(2,3)] 3 "2.prems"(2) show ?thesis by auto
  next
    case 4
    then have n: "normalize_loop (?d # seen) (out @ [?d]) rest = Inr r" using "2.prems"(1) by (simp add: Let_def)
    have "set (?d # seen) = set (out @ [?d])" "distinct (out @ [?d])" using "2.prems" 4 by auto
    from "2.IH"(3) [OF refl 4(1) _ 4(3) n this] 4 show ?thesis by auto
  qed
qed auto

lemma normalize_loop_Inl:
  "normalize_loop seen out ds = Inl raw \<Longrightarrow>
     raw \<in> set ds \<and> clean_domain raw \<noteq> [] \<and> \<not> valid_domain (clean_domain raw)"
  by (induction seen out ds rule: normalize_loop.induct) (auto simp: Let_def split: if_splits)

text \<open>
  Further (normalizeDomains_spec). Normalising a list of domains either fails on an entry of the list that
  is not blank and not a valid host or wildcard, or returns, sorted and without duplicates, exactly
  the trimmed lower-case forms of the entries that are not blank, all of them valid.
\<close>

theorem normalizeDomains_spec:
  "case normalizeDomains ds of
     Inl raw \<Rightarrow> raw \<in> set ds \<and> clean_domain raw \<noteq> [] \<and> \<not> valid_domain (clean_domain raw)
   | Inr out \<Rightarrow> sorted out \<and> distinct out \<and> list_all valid_domain out \<and>
       set out = {clean_domain x | x. x \<in> set ds \<and> clean_domain x \<noteq> []}"
proof (cases "normalize_loop [] [] ds")
  case (Inl raw)
  with normalize_loop_Inl [OF Inl] show ?thesis by (simp add: normalizeDomains_def)
next
  case (Inr r)
  with normalize_loop_Inr [OF Inr] show ?thesis
    by (auto simp: normalizeDomains_def list_all_iff)
qed

lemma valid_domain_chars:
  "valid_domain d \<Longrightarrow> c \<in> set d \<Longrightarrow> is_alnum c \<or> c = CHR ''-'' \<or> c = CHR ''.'' \<or> c = CHR ''*''"
  using denotes_chars [of domainPattern d c]
  by (auto simp: valid_domain_def accepts_denotes domainPattern_def domain_label_def alnum_hyphen_def is_alnum_def)

lemma valid_domain_lower: "valid_domain d \<Longrightarrow> to_lower d = d"
proof -
  assume v: "valid_domain d"
  have "lower_char c = c" if "c \<in> set d" for c
    using valid_domain_chars [OF v that] lower_char_hyphen
    by (cases "is_alnum c") (simp add: lower_char_alnum, auto simp: lower_char_def)
  then show ?thesis unfolding to_lower_def by (rule map_idI)
qed

lemma valid_domain_last: "valid_domain d \<Longrightarrow> d \<noteq> [] \<and> is_lower (last d)"
proof -
  assume "valid_domain d"
  then obtain u t where d: "d = u @ t" and "denotes (Then (Class is_lower) (Then (Class is_lower) (Many (Class is_lower)))) t"
    unfolding valid_domain_def accepts_denotes domainPattern_def
    by (metis append.assoc denotes_Then)
  then obtain x y v where "t = x # y # v" "is_lower x" "is_lower y" "\<forall>c \<in> set v. is_lower c"
    by (auto simp: denotes_Class_Then denotes_Many_Class)
  with d show ?thesis by (cases v rule: rev_cases) auto
qed

lemma valid_domain_examples:
  "valid_domain ''github.com''" "valid_domain ''*.github.com''" "\<not> valid_domain ''github.com.''"
  "\<not> valid_domain ''*.com''" "\<not> valid_domain ''a.*.com''" "\<not> valid_domain ''localhost''"
  by code_simp+

subsection \<open>Slugs\<close>

definition slug_ok :: "string \<Rightarrow> bool" where
  "slug_ok s \<longleftrightarrow> list_all alnum_hyphen s \<and> (\<forall>u v. s \<noteq> u @ ''--'' @ v) \<and>
     (s \<noteq> [] \<longrightarrow> hd s \<noteq> CHR ''-'' \<and> last s \<noteq> CHR ''-'')"

fun no_double :: "string \<Rightarrow> bool" where
  "no_double (a # b # s) = (\<not> (a = CHR ''-'' \<and> b = CHR ''-'') \<and> no_double (b # s))"
| "no_double _ = True"

lemma no_double_append: "no_double (u @ v) \<Longrightarrow> no_double u \<and> no_double v"
  by (induction u rule: no_double.induct) (auto elim: no_double.elims intro: no_double.elims)

lemma no_double_iff: "no_double s \<longleftrightarrow> (\<forall>u v. s \<noteq> u @ ''--'' @ v)"
proof
  assume n: "no_double s"
  show "\<forall>u v. s \<noteq> u @ ''--'' @ v"
  proof (intro allI notI)
    fix u v assume "s = u @ ''--'' @ v"
    with n no_double_append [of u "''--'' @ v"] show False by simp
  qed
next
  assume "\<forall>u v. s \<noteq> u @ ''--'' @ v"
  then show "no_double s"
  proof (induction s rule: no_double.induct)
    case (1 a b s)
    have "\<forall>u v. b # s \<noteq> u @ ''--'' @ v" using 1(2) by (metis append_Cons)
    moreover have "\<not> (a = CHR ''-'' \<and> b = CHR ''-'')" using 1(2) [rule_format, of "[]" s] by auto
    ultimately show ?case using 1 by simp
  qed simp_all
qed

lemma collapse_hd: "s \<noteq> [] \<Longrightarrow> is_alnum (hd s) \<Longrightarrow> \<exists>t. collapse s = hd s # t"
  by (cases s) auto

lemma no_double_Cons_alnum: "is_alnum c \<Longrightarrow> no_double s \<Longrightarrow> no_double (c # s)"
  by (cases s) (auto dest: alnum_not_hyphen)

lemma collapse_ok: "list_all alnum_hyphen (collapse s) \<and> no_double (collapse s)"
proof (induction s rule: collapse.induct)
  case (2 c cs)
  show ?case
  proof (cases "is_alnum c")
    case True
    with 2(1) show ?thesis by (simp add: alnum_hyphen_def no_double_Cons_alnum)
  next
    case False
    let ?r = "dropWhile (\<lambda>c. \<not> is_alnum c) cs"
    have "no_double (CHR ''-'' # collapse ?r)"
    proof (cases "?r = []")
      case True
      show ?thesis unfolding True by simp
    next
      case False
      then have "is_alnum (hd ?r)" using hd_dropWhile [of "\<lambda>c. \<not> is_alnum c" cs] by blast
      with collapse_hd [OF False] 2(2) \<open>\<not> is_alnum c\<close> show ?thesis by (auto dest: alnum_not_hyphen)
    qed
    with False 2(2) show ?thesis by (simp add: alnum_hyphen_def)
  qed
qed simp

lemma trim_right_append: "trim_right_func p s @ rev (takeWhile p (rev s)) = s"
  unfolding trim_right_func_def by (metis rev_append rev_rev_ident takeWhile_dropWhile_id)

lemma trim_func_infix: "\<exists>u v. s = u @ trim_func p s @ v"
proof -
  have "takeWhile p s @ trim_func p s @ rev (takeWhile p (rev (dropWhile p s))) = s"
    by (simp add: trim_func_def trim_left_func_def trim_right_append)
  then show ?thesis by metis
qed

lemma trim_func_ends:
  assumes "trim_func p s \<noteq> []"
  shows "\<not> p (hd (trim_func p s)) \<and> \<not> p (last (trim_func p s))"
proof -
  define l where "l = dropWhile p s"
  have t: "trim_func p s = trim_right_func p l"
    by (simp add: l_def trim_func_def trim_left_func_def)
  have ne: "trim_right_func p l \<noteq> []" using assms by (simp add: t)
  then have "l \<noteq> []" by (auto simp: trim_right_func_def)
  moreover have "hd l = hd (trim_right_func p l)"
    using ne trim_right_append [of p l] by (metis hd_append2)
  ultimately have "\<not> p (hd (trim_right_func p l))" using hd_dropWhile [of p s] by (simp add: l_def)
  moreover have "\<not> p (last (trim_right_func p l))"
    using ne hd_dropWhile [of p "rev l"] by (simp add: trim_right_func_def last_rev)
  ultimately show ?thesis by (simp add: t)
qed

text \<open>
  Further (slugify_shape). A slug consists of lower-case letters, digits and single hyphens, with no
  hyphen at either end, whatever the name was.
\<close>

theorem slugify_shape: "slug_ok (slugify name)"
proof -
  let ?c = "collapse (to_lower name)"
  obtain u v where uv: "?c = u @ slugify name @ v"
    unfolding slugify_def using trim_func_infix by blast
  have "list_all alnum_hyphen ?c" "no_double ?c" using collapse_ok by blast+
  with uv have "list_all alnum_hyphen (slugify name)" "no_double (slugify name)"
    by (auto dest!: no_double_append)
  then show ?thesis
    using trim_func_ends [of "\<lambda>c. c = CHR ''-''" ?c] by (simp add: slug_ok_def slugify_def no_double_iff)
qed

subsection \<open>The pushed policy\<close>

definition effective_ttl :: "allowlist_group \<Rightarrow> int" where
  "effective_ttl g = (if ag_TTLSeconds g \<le> 0 then defaultAllowlistTTLSeconds else ag_TTLSeconds g)"

lemma add_rules_spec:
  "add_rules ttl seen ds = (seen', rs) \<Longrightarrow>
     set seen' = set seen \<union> set ds \<and> map dr_Pattern rs = uniq seen ds \<and> (\<forall>r \<in> set rs. dr_TTLSeconds r = ttl)"
proof (induction ttl seen ds arbitrary: seen' rs rule: add_rules.induct)
  case (2 ttl seen d ds)
  then show ?case by (cases "d \<in> set seen") (auto split: prod.splits)
qed auto

lemma policy_rules_patterns:
  "map dr_Pattern (policy_rules assigned seen gs) =
     uniq seen (concat (map ag_Domains (filter (reaches assigned) gs)))"
proof (induction gs arbitrary: seen)
  case (Cons g gs)
  show ?case
  proof (cases "reaches assigned g")
    case True
    obtain seen' rs where a: "add_rules (effective_ttl g) seen (ag_Domains g) = (seen', rs)" by fastforce
    have "uniq seen' xs = uniq (ag_Domains g @ seen) xs" for xs
      using add_rules_spec [OF a] by (intro uniq_cong) auto
    with Cons [of seen'] True a add_rules_spec [OF a] show ?thesis
      by (auto simp: effective_ttl_def Let_def uniq_append split: if_splits)
  next
    case False
    with Cons show ?thesis by simp
  qed
qed simp

lemma policy_rules_ttl:
  assumes "r \<in> set (policy_rules assigned seen gs)"
  shows "\<exists>pre g post. gs = pre @ g # post \<and> reaches assigned g \<and> dr_Pattern r \<in> set (ag_Domains g) \<and>
    dr_TTLSeconds r = effective_ttl g \<and> dr_Pattern r \<notin> set seen \<and>
    (\<forall>g' \<in> set pre. reaches assigned g' \<longrightarrow> dr_Pattern r \<notin> set (ag_Domains g'))"
  using assms
proof (induction gs arbitrary: seen)
  case (Cons g gs)
  obtain seen' rs where a: "add_rules (effective_ttl g) seen (ag_Domains g) = (seen', rs)" by fastforce
  note spec = add_rules_spec [OF a]
  show ?case
  proof (cases "reaches assigned g \<and> r \<in> set rs")
    case True
    then have "dr_Pattern r \<in> set (uniq seen (ag_Domains g))" using spec by (metis imageI list.set_map)
    then have "dr_Pattern r \<in> set (ag_Domains g)" "dr_Pattern r \<notin> set seen" by (auto simp: set_uniq)
    with True spec show ?thesis by (intro exI [of _ "[]"] exI [of _ g] exI [of _ gs]) auto
  next
    case False
    let ?s = "if reaches assigned g then seen' else seen"
    have "r \<in> set (policy_rules assigned ?s gs)"
      using Cons.prems False a by (auto simp: effective_ttl_def Let_def split: if_splits)
    from Cons.IH [OF this] obtain pre g0 post where
      p: "gs = pre @ g0 # post" "reaches assigned g0" "dr_Pattern r \<in> set (ag_Domains g0)"
        "dr_TTLSeconds r = effective_ttl g0" "dr_Pattern r \<notin> set ?s"
        "\<forall>g' \<in> set pre. reaches assigned g' \<longrightarrow> dr_Pattern r \<notin> set (ag_Domains g')" by blast
    then show ?thesis
      using spec by (intro exI [of _ "g # pre"] exI [of _ g0] exI [of _ post]) (auto split: if_splits)
  qed
qed simp

lemma box_policy_rules:
  assumes "ListAllowlistGroups d = Inr groups" and "GetBoxGroups boxID d = Inr assigned"
    and "boxNetworkPolicy boxID d = Inr pol"
  shows "pol = \<lparr>np_Enabled = True, np_Rules = policy_rules assigned [] groups\<rparr>"
  using assms by (simp add: boxNetworkPolicy_def)

lemma policy_rules_effective:
  "set (map dr_Pattern (policy_rules assigned [] groups)) = set (fst (effectiveAllowlist groups assigned))"
  unfolding policy_rules_patterns by (auto simp: set_uniq effectiveAllowlist_def Let_def)

text \<open>
  Further (box_policy_spec). The policy the hub computes for a box is enabled, names each domain once,
  and its domains are exactly the box's effective allowlist: the domains of the global groups and of
  the groups assigned to it. Each rule carries the TTL of the first such group, in name order, that
  lists the domain, and that TTL is positive.
\<close>

theorem box_policy_spec:
  assumes "ListAllowlistGroups d = Inr groups" and "GetBoxGroups boxID d = Inr assigned"
    and "boxNetworkPolicy boxID d = Inr pol"
  shows "np_Enabled pol \<and> distinct (map dr_Pattern (np_Rules pol)) \<and>
    set (map dr_Pattern (np_Rules pol)) = set (fst (effectiveAllowlist groups assigned)) \<and>
    (\<forall>r \<in> set (np_Rules pol). 0 < dr_TTLSeconds r \<and>
       (\<exists>pre g post. groups = pre @ g # post \<and> reaches assigned g \<and> dr_Pattern r \<in> set (ag_Domains g) \<and>
          dr_TTLSeconds r = effective_ttl g \<and>
          (\<forall>g' \<in> set pre. reaches assigned g' \<longrightarrow> dr_Pattern r \<notin> set (ag_Domains g'))))"
proof -
  note pol = box_policy_rules [OF assms]
  have pos: "0 < effective_ttl g" for g by (simp add: effective_ttl_def)
  have "distinct (map dr_Pattern (policy_rules assigned [] groups))"
    by (simp only: policy_rules_patterns distinct_uniq)
  with policy_rules_ttl [of _ assigned "[]" groups] policy_rules_effective [of assigned groups] pos
  show ?thesis unfolding pol by simp metis
qed

theorem box_policy_spec_witness:
  "\<exists>pol. boxNetworkPolicy ''web'' (empty_db\<lparr>
       db_groups := [(''g'', \<lparr>ag_ID = ''g'', ag_Name = ''G'', ag_Description = [], ag_TTLSeconds = 0, ag_IsGlobal = True,
         ag_Domains = [], ag_CreatedAt = 0, ag_UpdatedAt = 0\<rparr>)],
       db_group_domains := [(''g'', ''a.com'')]\<rparr>) = Inr pol \<and>
     (\<forall>r \<in> set (np_Rules pol). 0 < dr_TTLSeconds r) \<and> np_Rules pol \<noteq> []"
proof -
  define d where "d = empty_db\<lparr>
       db_groups := [(''g'', \<lparr>ag_ID = ''g'', ag_Name = ''G'', ag_Description = [], ag_TTLSeconds = 0, ag_IsGlobal = True,
         ag_Domains = [], ag_CreatedAt = 0, ag_UpdatedAt = 0\<rparr>)],
       db_group_domains := [(''g'', ''a.com'')]\<rparr>"
  obtain groups where g: "ListAllowlistGroups d = Inr groups"
    by (auto simp: ListAllowlistGroups_def d_def empty_db_def)
  obtain assigned where a: "GetBoxGroups ''web'' d = Inr assigned"
    by (auto simp: GetBoxGroups_def d_def empty_db_def)
  obtain pol where p: "boxNetworkPolicy ''web'' d = Inr pol" using g a by (simp add: boxNetworkPolicy_def)
  then have "np_Rules pol \<noteq> []"
    by (auto simp: boxNetworkPolicy_def ListAllowlistGroups_def GetBoxGroups_def attempt_def domainsFor_def
        d_def empty_db_def reaches_def)
  with box_policy_spec [OF g a p] p show ?thesis unfolding d_def [symmetric] by blast
qed

subsection \<open>The stored groups stay enforceable\<close>

definition group_ok :: "allowlist_group \<Rightarrow> bool" where
  "group_ok g \<longleftrightarrow> ag_Name g \<noteq> [] \<and> 0 < ag_TTLSeconds g \<and> list_all valid_domain (ag_Domains g)"

definition names_unique :: "(string, allowlist_group) table \<Rightarrow> bool" where
  "names_unique t \<longleftrightarrow>
     (\<forall>i j g g'. tget t i = Some g \<and> tget t j = Some g' \<and> ag_Name g = ag_Name g' \<longrightarrow> i = j)"

definition rows_ok :: "(string, allowlist_group) table \<Rightarrow> bool" where
  "rows_ok t \<longleftrightarrow> (\<forall>i g. tget t i = Some g \<longrightarrow> ag_ID g = i \<and> ag_Name g \<noteq> [] \<and> 0 < ag_TTLSeconds g)"

definition groups_wf :: "db \<Rightarrow> bool" where
  "groups_wf d \<longleftrightarrow> keys_distinct (db_groups d) \<and> rows_ok (db_groups d) \<and> names_unique (db_groups d) \<and>
     (\<forall>i x. (i, x) \<in> set (db_group_domains d) \<longrightarrow> valid_domain x)"

lemma names_unique_tput:
  assumes "names_unique t" and "\<And>i g'. tget t i = Some g' \<Longrightarrow> i \<noteq> k \<Longrightarrow> ag_Name g' \<noteq> ag_Name row"
  shows "names_unique (tput k row t)"
  unfolding names_unique_def
proof (intro allI impI)
  fix i j g g'
  assume a: "tget (tput k row t) i = Some g \<and> tget (tput k row t) j = Some g' \<and> ag_Name g = ag_Name g'"
  have "\<And>i j g g'. tget t i = Some g \<Longrightarrow> tget t j = Some g' \<Longrightarrow> ag_Name g = ag_Name g' \<Longrightarrow> i = j"
    using assms(1) unfolding names_unique_def by blast
  note t = this [of i g j g'] and f = assms(2) [of i g] assms(2) [of j g']
  show "i = j"
  proof (cases "i = k \<or> j = k")
    case True
    with a f show ?thesis by (metis option.inject tget_tput)
  next
    case False
    with a have "tget t i = Some g" "tget t j = Some g'" "ag_Name g = ag_Name g'" by simp_all
    then show ?thesis by (rule t)
  qed
qed

lemma names_unique_tdel:
  assumes "names_unique t"
  shows "names_unique (tdel k t)"
  unfolding names_unique_def
proof (intro allI impI)
  fix i j g g'
  assume a: "tget (tdel k t) i = Some g \<and> tget (tdel k t) j = Some g' \<and> ag_Name g = ag_Name g'"
  then have "tget t i = Some g" "tget t j = Some g'" by (simp_all split: if_splits)
  with a assms show "i = j" unfolding names_unique_def by blast
qed

lemma rows_ok_tput:
  "rows_ok t \<Longrightarrow> ag_ID row = k \<Longrightarrow> ag_Name row \<noteq> [] \<Longrightarrow> 0 < ag_TTLSeconds row \<Longrightarrow> rows_ok (tput k row t)"
  by (auto simp: rows_ok_def split: if_splits)

lemma rows_ok_tdel: "rows_ok t \<Longrightarrow> rows_ok (tdel k t)"
  by (auto simp: rows_ok_def split: if_splits)

lemma SaveAllowlistGroup_Inr:
  assumes "SaveAllowlistGroup g d = Inr d'"
  shows "\<exists>row. ag_ID row = ag_ID g \<and> ag_Name row = ag_Name g \<and> ag_TTLSeconds row = ag_TTLSeconds g \<and>
    db_groups d' = tput (ag_ID g) row (db_groups d) \<and>
    set (db_group_domains d') \<subseteq> set (db_group_domains d) \<union> Pair (ag_ID g) ` set (ag_Domains g) \<and>
    (\<forall>i g'. (i, g') \<in> set (db_groups d) \<and> i \<noteq> ag_ID g \<longrightarrow> ag_Name g' \<noteq> ag_Name g)"
proof -
  let ?row = "g\<lparr>ag_Domains := [], ag_CreatedAt := (case tget (db_groups d) (ag_ID g) of
      None \<Rightarrow> ag_CreatedAt g | Some old \<Rightarrow> ag_CreatedAt old)\<rparr>"
  show ?thesis
    using assms
    by (intro exI [of _ ?row])
      (auto simp: SaveAllowlistGroup_def Let_def set_uniq list_ex_iff split: if_splits)
qed

lemma save_keeps_wf:
  assumes "groups_wf d" and "group_ok g" and "SaveAllowlistGroup g d = Inr d'"
  shows "groups_wf d'"
proof -
  from SaveAllowlistGroup_Inr [OF assms(3)] obtain row where
    row: "ag_ID row = ag_ID g" "ag_Name row = ag_Name g" "ag_TTLSeconds row = ag_TTLSeconds g"
    and gs: "db_groups d' = tput (ag_ID g) row (db_groups d)"
    and ds: "set (db_group_domains d') \<subseteq> set (db_group_domains d) \<union> Pair (ag_ID g) ` set (ag_Domains g)"
    and free: "\<And>i g'. (i, g') \<in> set (db_groups d) \<Longrightarrow> i \<noteq> ag_ID g \<Longrightarrow> ag_Name g' \<noteq> ag_Name g" by blast
  have "\<forall>i x. (i, x) \<in> set (db_group_domains d') \<longrightarrow> valid_domain x"
    using ds assms(1,2) by (auto simp: groups_wf_def group_ok_def list_all_iff)
  moreover have "names_unique (db_groups d')"
    unfolding gs using assms(1) free row(2) by (intro names_unique_tput) (auto simp: groups_wf_def dest: tget_mem)
  moreover have "rows_ok (db_groups d')"
    unfolding gs using assms(1,2) row by (intro rows_ok_tput) (auto simp: groups_wf_def group_ok_def)
  ultimately show ?thesis using assms(1) by (simp add: groups_wf_def gs)
qed

lemma get_group_ok:
  assumes "groups_wf d" and "GetAllowlistGroup i d = Inr (Some g)"
  shows "group_ok g \<and> ag_ID g = i"
proof -
  from assms(2) obtain row where row: "tget (db_groups d) i = Some row" "g = row\<lparr>ag_Domains := domainsFor i d\<rparr>"
    by (auto simp: GetAllowlistGroup_def)
  then have "ag_ID row = i \<and> ag_Name row \<noteq> [] \<and> 0 < ag_TTLSeconds row"
    using assms(1) unfolding groups_wf_def rows_ok_def by blast
  moreover have "list_all valid_domain (domainsFor i d)"
    using assms(1) by (auto simp: groups_wf_def domainsFor_def list_all_iff)
  ultimately show ?thesis using row(2) by (simp add: group_ok_def)
qed

lemma normalized_valid: "normalizeDomains ds = Inr out \<Longrightarrow> list_all valid_domain out"
  using normalize_loop_Inr [of "[]" "[]" ds]
  by (auto simp: normalizeDomains_def list_all_iff split: sum.splits)

lemma unionSorted_set: "set (unionSorted a b) = set a \<union> set b"
  by (simp add: unionSorted_def set_uniq)

lemma save_and_push_wf:
  "groups_wf d \<Longrightarrow> group_ok g \<Longrightarrow> save_and_push hb g d = (r, ps, d') \<Longrightarrow> groups_wf d'"
  by (auto simp: save_and_push_def split: sum.splits dest: save_keeps_wf)

lemma handleSave_wf:
  assumes "groups_wf d" and "handleSaveAllowlistGroup now hb body d = (r, ps, d')"
  shows "groups_wf d'"
proof (cases "d' = d")
  case False
  with assms(2) obtain g where "save_and_push hb g d = (r, ps, d')" "group_ok g"
    by (auto simp: handleSaveAllowlistGroup_def Let_def group_ok_def dest: normalized_valid
        split: option.splits sum.splits if_splits)
  with assms(1) show ?thesis by (blast intro: save_and_push_wf)
qed (use assms in simp)

lemma handleAdd_wf:
  assumes "groups_wf d" and "handleAddDomainToGroup now hb body d = (r, ps, d')"
  shows "groups_wf d'"
proof (cases "d' = d")
  case False
  with assms(2) obtain g where "save_and_push hb g d = (r, ps, d')" "group_ok g"
    using get_group_ok [OF assms(1)] unionSorted_set
    by (auto simp: handleAddDomainToGroup_def Let_def group_ok_def list_all_iff
        dest!: normalized_valid split: option.splits sum.splits if_splits list.splits)
  with assms(1) show ?thesis by (blast intro: save_and_push_wf)
qed (use assms in simp)

lemma imported_group_ok:
  assumes "name \<noteq> []" and "list_all valid_domain ds" and "\<And>old. existing = Some old \<Longrightarrow> group_ok old"
  shows "group_ok (imported_group now replace name ds item existing)"
  using assms unionSorted_set
  by (cases existing) (auto simp: imported_group_def group_ok_def Let_def list_all_iff)

lemma import_loop_wf:
  "groups_wf d \<Longrightarrow> import_loop now replace n items d = (r, d') \<Longrightarrow> groups_wf d'"
proof (induction items arbitrary: n d)
  case (Cons item items)
  let ?name = "trim_space (bi_Name item)"
  show ?case
  proof (cases "d' = d")
    case False
    with Cons.prems(2) obtain ds existing d1 where
      n: "?name \<noteq> []" "normalizeDomains (bi_Domains item) = Inr ds"
        "GetAllowlistGroup (slugify ?name) d = Inr existing"
      and s: "SaveAllowlistGroup (imported_group now replace ?name ds item existing) d = Inr d1"
      and l: "import_loop now replace (n + 1) items d1 = (r, d')"
      by (auto simp: Let_def split: sum.splits if_splits)
    have "group_ok (imported_group now replace ?name ds item existing)"
      using n get_group_ok [OF Cons.prems(1)] by (intro imported_group_ok) (auto dest: normalized_valid)
    from Cons.IH [OF save_keeps_wf [OF Cons.prems(1) this s] l] show ?thesis .
  qed (use Cons.prems in simp)
qed simp

text \<open>
  C36 (group_handlers_keep_wf). Every handler that changes the allowlist configuration, a rejected or
  half-failed import included, keeps the stored configuration enforceable: group ids are keys, names
  are non-empty and pairwise different, TTLs are positive, and every stored domain matches the domain
  grammar.
\<close>

theorem group_handlers_keep_wf:
  assumes "groups_wf d"
  shows "(\<forall>now hb body r ps d'. handleSaveAllowlistGroup now hb body d = (r, ps, d') \<longrightarrow> groups_wf d') \<and>
    (\<forall>hb body r ps d'. handleDeleteAllowlistGroup hb body d = (r, ps, d') \<longrightarrow> groups_wf d') \<and>
    (\<forall>hb body r ps d'. handleSetBoxGroups hb body d = (r, ps, d') \<longrightarrow> groups_wf d') \<and>
    (\<forall>now hb body r ps d'. handleImportAllowlistGroups now hb body d = (r, ps, d') \<longrightarrow> groups_wf d') \<and>
    (\<forall>now hb body r ps d'. handleAddDomainToGroup now hb body d = (r, ps, d') \<longrightarrow> groups_wf d')"
proof (intro conjI allI impI)
  fix hb body r ps d' assume "handleDeleteAllowlistGroup hb body d = (r, ps, d')"
  with assms show "groups_wf d'"
    by (auto simp: handleDeleteAllowlistGroup_def DeleteAllowlistGroup_def groups_wf_def attempt_def
        names_unique_tdel rows_ok_tdel split: option.splits if_splits sum.splits)
next
  fix hb body r ps d' assume "handleSetBoxGroups hb body d = (r, ps, d')"
  with assms show "groups_wf d'"
    by (auto simp: handleSetBoxGroups_def SetBoxGroups_def groups_wf_def attempt_def
        split: option.splits if_splits sum.splits response.splits)
next
  fix now hb body r ps d' assume "handleImportAllowlistGroups now hb body d = (r, ps, d')"
  with assms import_loop_wf show "groups_wf d'"
    by (auto simp: handleImportAllowlistGroups_def split: option.splits if_splits prod.splits response.splits)
qed (use assms handleSave_wf handleAdd_wf in blast)+

theorem group_handlers_keep_wf_witness:
  "groups_wf (snd (snd (handleSaveAllowlistGroup 5 None
     (Some \<lparr>sq_ID = [], sq_Name = ''Dev tools'', sq_Description = [], sq_TTLSeconds = 0, sq_IsGlobal = True,
            sq_Domains = [''GitHub.com'']\<rparr>) empty_db)))"
proof -
  have e: "groups_wf empty_db" by (simp add: groups_wf_def rows_ok_def names_unique_def empty_db_def)
  obtain r ps d' where h: "handleSaveAllowlistGroup 5 None
     (Some \<lparr>sq_ID = [], sq_Name = ''Dev tools'', sq_Description = [], sq_TTLSeconds = 0, sq_IsGlobal = True,
            sq_Domains = [''GitHub.com'']\<rparr>) empty_db = (r, ps, d')" by (metis prod_cases3)
  from conjunct1 [OF group_handlers_keep_wf [OF e], rule_format, OF h] show ?thesis unfolding h by simp
qed

end
