(* ===== verification/Mvmnet.thy ===== *)
theory Mvmnet
  imports Netaddr
begin

text \<open>
  The egress network of the microVM backends, \<^verbatim>\<open>internal/spoke/microvm/mvmnet/mvmnet.go\<close>: the
  addressing of the pool slots, the egress modes, and the pool operations that create, validate
  and remove the TAP devices and the shared \<^verbatim>\<open>iptables\<close> rules.

  The programs \<^verbatim>\<open>sysctl\<close>, \<^verbatim>\<open>ip\<close> and \<^verbatim>\<open>iptables\<close> are outside the repository: they are one
  parameter \<open>exec\<close>, which takes an argument vector and the host's state and returns an optional
  error, the output and the new state. What the code relies on is the named hypothesis
  \<open>host_laws\<close>.
\<close>

named_theorems mvm_defs \<open>the addressing functions\<close>

abbreviation MaxIndex :: int where "MaxIndex \<equiv> 255"

record mvm_config =
  cfg_TapPrefix :: string
  cfg_SubnetBase :: string
  cfg_TapGroup :: int
  cfg_Uplink :: string

record box_net =
  bn_Index :: int
  bn_TapName :: string
  bn_HostIP :: string
  bn_GuestIP :: string
  bn_Netmask :: string

definition aggregateSubnet :: "mvm_config \<Rightarrow> string" where
  "aggregateSubnet c = cfg_SubnetBase c @ ''.0.0/16''"

definition TapName :: "mvm_config \<Rightarrow> int \<Rightarrow> string" where
  "TapName c index = cfg_TapPrefix c @ show_int index"

definition NetFor :: "mvm_config \<Rightarrow> int \<Rightarrow> box_net" where
  "NetFor c index =
     \<lparr>bn_Index = index,
      bn_TapName = TapName c index,
      bn_HostIP = cfg_SubnetBase c @ ''.'' @ show_int index @ ''.1'',
      bn_GuestIP = cfg_SubnetBase c @ ''.'' @ show_int index @ ''.2'',
      bn_Netmask = ''255.255.255.252''\<rparr>"

definition hex_digit :: "char \<Rightarrow> nat \<Rightarrow> char" where
  "hex_digit a d = (if d < 10 then digit_char d else char_of (of_char a + (d - 10)))"

text \<open>The format \<^verbatim>\<open>%02x\<close> (\<open>a\<close> is the letter a) or \<^verbatim>\<open>%02X\<close> (\<open>a\<close> is the letter A) of a byte.\<close>

definition hex2 :: "char \<Rightarrow> nat \<Rightarrow> string" where
  "hex2 a b = [hex_digit a (b div 16), hex_digit a (b mod 16)]"

text \<open>The two's complement bytes \<^verbatim>\<open>(index>>8)&0xff\<close> and \<^verbatim>\<open>index&0xff\<close>.\<close>

definition byte1 :: "int \<Rightarrow> nat" where "byte1 i = nat (i div 256 mod 256)"
definition byte0 :: "int \<Rightarrow> nat" where "byte0 i = nat (i mod 256)"

definition MACForIndex :: "int \<Rightarrow> string" where
  "MACForIndex index =
     ''02:00:00:00:'' @ hex2 (CHR ''a'') (byte1 index) @ '':'' @ hex2 (CHR ''a'') (byte0 index)"

definition KernelIPArg :: "box_net \<Rightarrow> string" where
  "KernelIPArg n = ''ip='' @ bn_GuestIP n @ ''::'' @ bn_HostIP n @ '':'' @ bn_Netmask n @ ''::eth0:off''"

datatype egress_mode = EgressManaged | EgressExternal | EgressDisabled

fun egress_mode_String :: "egress_mode \<Rightarrow> string" where
  "egress_mode_String EgressManaged = ''managed''"
| "egress_mode_String EgressExternal = ''external''"
| "egress_mode_String EgressDisabled = ''disabled''"

definition ParseEgressMode :: "string \<Rightarrow> string + egress_mode" where
  "ParseEgressMode s =
     (let v = to_lower (trim_space s) in
      if v = '''' \<or> v = ''managed'' then Inr EgressManaged
      else if v = ''external'' then Inr EgressExternal
      else if v = ''disabled'' then Inr EgressDisabled
      else Inl s)"

subsection \<open>Host commands\<close>

type_synonym 's exec = "string list \<Rightarrow> 's \<Rightarrow> (string option \<times> string) \<times> 's"

definition run_cmd :: "'s exec \<Rightarrow> string list \<Rightarrow> 's \<Rightarrow> string option \<times> 's" where
  "run_cmd exec args s =
     (case exec args s of
        ((None, out), s') \<Rightarrow> (None, s')
      | ((Some err, out), s') \<Rightarrow> (Some (err @ '': '' @ trim_space out), s'))"

definition sharedRules :: "mvm_config \<Rightarrow> string \<Rightarrow> string list list" where
  "sharedRules c uplink =
     (let sub = aggregateSubnet c in
      [[''-t'', ''nat'', ''POSTROUTING'', ''-s'', sub, ''-o'', uplink, ''-j'', ''MASQUERADE''],
       [''FORWARD'', ''-s'', sub, ''-d'', sub, ''-j'', ''DROP''],
       [''FORWARD'', ''-s'', sub, ''-o'', uplink, ''-j'', ''ACCEPT''],
       [''FORWARD'', ''-d'', sub, ''-m'', ''state'', ''--state'', ''RELATED,ESTABLISHED'', ''-j'', ''ACCEPT'']])"

definition ruleInsertAt :: "string list \<Rightarrow> nat" where
  "ruleInsertAt rule = (if 2 \<le> length rule \<and> rule ! 0 = ''-t'' then 3 else 1)"

definition insertVerb :: "string list \<Rightarrow> nat \<Rightarrow> string \<Rightarrow> string list" where
  "insertVerb args i verb = take i args @ [verb] @ drop i args"

definition rule_cmd :: "string \<Rightarrow> string list \<Rightarrow> string list" where
  "rule_cmd verb rule = insertVerb (''iptables'' # rule) (ruleInsertAt rule) verb"

fun split_char :: "char \<Rightarrow> string \<Rightarrow> string list" where
  "split_char c [] = [[]]"
| "split_char c (x # xs) =
     (if x = c then [] # split_char c xs
      else case split_char c xs of [] \<Rightarrow> [[x]] | w # ws \<Rightarrow> (x # w) # ws)"

fun index_byte :: "char \<Rightarrow> string \<Rightarrow> nat option" where
  "index_byte c [] = None"
| "index_byte c (x # xs) = (if x = c then Some 0 else map_option Suc (index_byte c xs))"

definition linkFlagsUp :: "string \<Rightarrow> bool" where
  "linkFlagsUp line =
     (case (index_byte (CHR ''<'') line, index_byte (CHR ''>'') line) of
        (Some lt, Some gt) \<Rightarrow>
          if gt < lt then False
          else list_ex (\<lambda>f. f = ''UP'') (split_char (CHR '','') (take (gt - (lt + 1)) (drop (lt + 1) line)))
      | _ \<Rightarrow> False)"

text \<open>\<^verbatim>\<open>strings.Fields\<close>: the maximal runs of characters that are not white space.\<close>

fun fields_acc :: "string \<Rightarrow> string \<Rightarrow> string list" where
  "fields_acc w [] = (if w = [] then [] else [rev w])"
| "fields_acc w (c # cs) =
     (if is_space c then (if w = [] then fields_acc [] cs else rev w # fields_acc [] cs)
      else fields_acc (c # w) cs)"

definition fields :: "string \<Rightarrow> string list" where
  "fields s = fields_acc [] s"

fun dev_field :: "string list \<Rightarrow> string option" where
  "dev_field (f # g # fs) = (if f = ''dev'' then Some g else dev_field (g # fs))"
| "dev_field _ = None"

datatype net_error =
    UplinkUnresolved string
  | NoDefaultRoute string
  | ForwardingFailed string
  | TapCreateFailed string string
  | TapUpFailed string string
  | RuleAddFailed "string list" string
  | PoolIncomplete "string list"

definition resolveUplink :: "'s exec \<Rightarrow> mvm_config \<Rightarrow> 's \<Rightarrow> (net_error + string) \<times> 's" where
  "resolveUplink exec c s =
     (if cfg_Uplink c \<noteq> '''' then (Inr (cfg_Uplink c), s)
      else case exec [''ip'', ''route'', ''show'', ''default''] s of
             ((Some err, out), s') \<Rightarrow> (Inl (UplinkUnresolved err), s')
           | ((None, out), s') \<Rightarrow>
               (case dev_field (fields out) of
                  Some d \<Rightarrow> (Inr d, s')
                | None \<Rightarrow> (Inl (NoDefaultRoute (trim_space out)), s')))"

definition tap_add_cmd :: "mvm_config \<Rightarrow> string \<Rightarrow> string list" where
  "tap_add_cmd c tap =
     [''ip'', ''tuntap'', ''add'', ''dev'', tap, ''mode'', ''tap''] @
     (if cfg_TapGroup c > 0 then [''group'', show_int (cfg_TapGroup c)] else [])"

definition tap_address :: "'s exec \<Rightarrow> box_net \<Rightarrow> 's \<Rightarrow> net_error option \<times> 's" where
  "tap_address exec n s =
     (let s1 = snd (run_cmd exec [''ip'', ''addr'', ''add'', bn_HostIP n @ ''/30'', ''dev'', bn_TapName n] s)
      in case run_cmd exec [''ip'', ''link'', ''set'', ''dev'', bn_TapName n, ''up''] s1 of
           (Some e, s2) \<Rightarrow> (Some (TapUpFailed (bn_TapName n) e), s2)
         | (None, s2) \<Rightarrow> (None, s2))"

definition ensureTap :: "'s exec \<Rightarrow> mvm_config \<Rightarrow> box_net \<Rightarrow> 's \<Rightarrow> net_error option \<times> 's" where
  "ensureTap exec c n s =
     (case run_cmd exec [''ip'', ''link'', ''show'', bn_TapName n] s of
        (None, s1) \<Rightarrow> tap_address exec n s1
      | (Some _, s1) \<Rightarrow>
          (case run_cmd exec (tap_add_cmd c (bn_TapName n)) s1 of
             (Some e, s2) \<Rightarrow> (Some (TapCreateFailed (bn_TapName n) e), s2)
           | (None, s2) \<Rightarrow> tap_address exec n s2))"

definition ensureRule :: "'s exec \<Rightarrow> string list \<Rightarrow> 's \<Rightarrow> net_error option \<times> 's" where
  "ensureRule exec rule s =
     (case run_cmd exec (rule_cmd ''-C'' rule) s of
        (None, s1) \<Rightarrow> (None, s1)
      | (Some _, s1) \<Rightarrow>
          (case run_cmd exec (rule_cmd ''-A'' rule) s1 of
             (Some e, s2) \<Rightarrow> (Some (RuleAddFailed rule e), s2)
           | (None, s2) \<Rightarrow> (None, s2)))"

text \<open>A loop that stops at the first error.\<close>

fun until_error :: "('a \<Rightarrow> 's \<Rightarrow> 'e option \<times> 's) \<Rightarrow> 'a list \<Rightarrow> 's \<Rightarrow> 'e option \<times> 's" where
  "until_error f [] s = (None, s)"
| "until_error f (x # xs) s =
     (case f x s of (Some e, s') \<Rightarrow> (Some e, s') | (None, s') \<Rightarrow> until_error f xs s')"

definition slots :: "int \<Rightarrow> int list" where
  "slots sz = map int [0..<nat sz]"

definition EnsurePool :: "'s exec \<Rightarrow> mvm_config \<Rightarrow> int \<Rightarrow> 's \<Rightarrow> net_error option \<times> 's" where
  "EnsurePool exec c sz s =
     (case resolveUplink exec c s of
        (Inl e, s1) \<Rightarrow> (Some e, s1)
      | (Inr uplink, s1) \<Rightarrow>
          (case run_cmd exec [''sysctl'', ''-w'', ''net.ipv4.ip_forward=1''] s1 of
             (Some e, s2) \<Rightarrow> (Some (ForwardingFailed e), s2)
           | (None, s2) \<Rightarrow>
               (case until_error (\<lambda>i. ensureTap exec c (NetFor c i)) (slots sz) s2 of
                  (Some e, s3) \<Rightarrow> (Some e, s3)
                | (None, s3) \<Rightarrow> until_error (ensureRule exec) (sharedRules c uplink) s3)))"

fun missing_taps :: "'s exec \<Rightarrow> mvm_config \<Rightarrow> int list \<Rightarrow> 's \<Rightarrow> string list \<times> 's" where
  "missing_taps exec c [] s = ([], s)"
| "missing_taps exec c (i # is) s =
     (case exec [''ip'', ''-o'', ''link'', ''show'', TapName c i] s of
        ((err, out), s1) \<Rightarrow>
          (case missing_taps exec c is s1 of
             (rest, s2) \<Rightarrow>
               ((if err \<noteq> None then [TapName c i @ '' (not found)'']
                 else if \<not> linkFlagsUp out then [TapName c i @ '' (administratively down)'']
                 else []) @ rest, s2)))"

definition ValidatePool :: "'s exec \<Rightarrow> mvm_config \<Rightarrow> int \<Rightarrow> 's \<Rightarrow> net_error option \<times> 's" where
  "ValidatePool exec c sz s =
     (case missing_taps exec c (slots sz) s of
        (missing, s') \<Rightarrow> (if missing \<noteq> [] then Some (PoolIncomplete missing) else None, s'))"

definition TeardownPool :: "'s exec \<Rightarrow> mvm_config \<Rightarrow> int \<Rightarrow> 's \<Rightarrow> 's" where
  "TeardownPool exec c sz s =
     (case resolveUplink exec c s of
        (r, s1) \<Rightarrow>
          (let uplink = (case r of Inr u \<Rightarrow> u | Inl _ \<Rightarrow> '''');
               s2 = fold (\<lambda>rl s. snd (run_cmd exec (rule_cmd ''-D'' rl) s)) (sharedRules c uplink) s1
           in fold (\<lambda>i s. snd (run_cmd exec [''ip'', ''link'', ''del'', TapName c i] s)) (slots sz) s2))"

lemmas addressing_defs [mvm_defs] = aggregateSubnet_def TapName_def NetFor_def KernelIPArg_def

subsection \<open>Slots never share an address\<close>

lemma show_int_inject: "0 \<le> i \<Longrightarrow> 0 \<le> j \<Longrightarrow> show_int i = show_int j \<longleftrightarrow> i = j"
  by (auto simp: show_int_def show_nat_inject)

lemma digit_char_val: "d < 10 \<Longrightarrow> (of_char (digit_char d) :: nat) = 48 + d"
  by (rule of_char_digit_char)

lemma hex_digit_val:
  "d < 16 \<Longrightarrow> (of_char (hex_digit (CHR ''a'') d) :: nat) = (if d < 10 then 48 + d else 87 + d)"
  "d < 16 \<Longrightarrow> (of_char (hex_digit (CHR ''A'') d) :: nat) = (if d < 10 then 48 + d else 55 + d)"
  by (auto simp: hex_digit_def of_char_digit_char of_char_of)

lemma hex_digit_inject:
  assumes "d < 16" "e < 16" and a: "a = CHR ''a'' \<or> a = CHR ''A''"
  shows "hex_digit a d = hex_digit a e \<longleftrightarrow> d = e"
proof
  assume eq: "hex_digit a d = hex_digit a e"
  from a show "d = e"
  proof
    assume "a = CHR ''a''"
    with eq hex_digit_val(1) [OF assms(1)] hex_digit_val(1) [OF assms(2)]
    have "(if d < 10 then 48 + d else 87 + d) = (if e < 10 then 48 + e else 87 + e)" by metis
    then show ?thesis by (simp split: if_splits)
  next
    assume "a = CHR ''A''"
    with eq hex_digit_val(2) [OF assms(1)] hex_digit_val(2) [OF assms(2)]
    have "(if d < 10 then 48 + d else 55 + d) = (if e < 10 then 48 + e else 55 + e)" by metis
    then show ?thesis by (simp split: if_splits)
  qed
qed simp

lemma div_mod_eqI:
  fixes x y k :: "'a :: semiring_modulo"
  shows "x div k = y div k \<Longrightarrow> x mod k = y mod k \<Longrightarrow> x = y"
  using div_mult_mod_eq [of x k] div_mult_mod_eq [of y k] by argo

lemma hex2_inject:
  assumes "b < 256" "c < 256" and a: "a = CHR ''a'' \<or> a = CHR ''A''"
  shows "hex2 a b = hex2 a c \<longleftrightarrow> b = c"
proof -
  have "b div 16 < 16" "c div 16 < 16" "b mod 16 < 16" "c mod 16 < 16" using assms by auto
  then have "hex2 a b = hex2 a c \<longleftrightarrow> b div 16 = c div 16 \<and> b mod 16 = c mod 16"
    using a by (simp add: hex2_def hex_digit_inject)
  moreover have "b = c" if "b div 16 = c div 16" "b mod 16 = c mod 16"
    by (rule div_mod_eqI [OF that])
  ultimately show ?thesis by blast
qed

lemma bytes_inject:
  assumes "0 \<le> i" "i < 65536" "0 \<le> j" "j < 65536"
  shows "byte1 i = byte1 j \<and> byte0 i = byte0 j \<longleftrightarrow> i = j"
proof -
  have "i div 256 mod 256 = i div 256" "j div 256 mod 256 = j div 256" using assms by auto
  then have "byte1 i = byte1 j \<and> byte0 i = byte0 j \<longleftrightarrow> i div 256 = j div 256 \<and> i mod 256 = j mod 256"
    using assms by (auto simp: byte1_def byte0_def eq_nat_nat_iff)
  moreover have "i = j" if "i div 256 = j div 256" "i mod 256 = j mod 256"
    by (rule div_mod_eqI [OF that])
  ultimately show ?thesis by blast
qed

lemma hex_bytes_inject:
  assumes "0 \<le> i" "i < 65536" "0 \<le> j" "j < 65536" and a: "a = CHR ''a'' \<or> a = CHR ''A''"
  shows "hex2 a (byte1 i) @ '':'' @ hex2 a (byte0 i) = hex2 a (byte1 j) @ '':'' @ hex2 a (byte0 j) \<longleftrightarrow> i = j"
proof -
  have "byte1 i < 256" "byte1 j < 256" "byte0 i < 256" "byte0 j < 256"
    by (auto simp: byte1_def byte0_def nat_less_iff)
  moreover have "hex2 a (byte1 i) @ '':'' @ hex2 a (byte0 i) = hex2 a (byte1 j) @ '':'' @ hex2 a (byte0 j)
      \<longleftrightarrow> hex2 a (byte1 i) = hex2 a (byte1 j) \<and> hex2 a (byte0 i) = hex2 a (byte0 j)"
    by (simp add: hex2_def)
  ultimately show ?thesis using bytes_inject [OF assms(1-4)] a by (simp add: hex2_inject)
qed

text \<open>
  Further (slot_addresses_distinct). Two different slots of a pool get different TAP devices, different
  host and guest addresses (and no slot's guest address is another's gateway), different kernel
  address arguments, and, below 65536 slots, different MAC addresses; equal slots get the same
  ones, so an address identifies the slot it came from.
\<close>

theorem slot_addresses_distinct:
  assumes "0 \<le> i" "0 \<le> j" "i \<noteq> j"
  shows "TapName c i \<noteq> TapName c j \<and>
    bn_HostIP (NetFor c i) \<noteq> bn_HostIP (NetFor c j) \<and>
    bn_GuestIP (NetFor c i) \<noteq> bn_GuestIP (NetFor c j) \<and>
    bn_GuestIP (NetFor c i) \<noteq> bn_HostIP (NetFor c j) \<and>
    bn_GuestIP (NetFor c i) \<noteq> bn_HostIP (NetFor c i) \<and>
    (i < 65536 \<and> j < 65536 \<longrightarrow> MACForIndex i \<noteq> MACForIndex j)"
proof -
  have ne: "show_int i \<noteq> show_int j" using assms by (simp add: show_int_inject)
  have "MACForIndex i \<noteq> MACForIndex j" if "i < 65536" "j < 65536"
    using assms that hex_bytes_inject [of i j "CHR ''a''"] by (auto simp: MACForIndex_def)
  with ne show ?thesis by (auto simp: NetFor_def TapName_def)
qed

theorem slot_addresses_distinct_witness:
  "TapName \<lparr>cfg_TapPrefix = ''llmboxfc'', cfg_SubnetBase = ''172.16'', cfg_TapGroup = 0, cfg_Uplink = []\<rparr> 3 \<noteq>
   TapName \<lparr>cfg_TapPrefix = ''llmboxfc'', cfg_SubnetBase = ''172.16'', cfg_TapGroup = 0, cfg_Uplink = []\<rparr> 12 \<and>
   MACForIndex 3 \<noteq> MACForIndex 12"
  using slot_addresses_distinct [of 3 12 "\<lparr>cfg_TapPrefix = ''llmboxfc'', cfg_SubnetBase = ''172.16'', cfg_TapGroup = 0, cfg_Uplink = []\<rparr>"]
  by simp

subsection \<open>Egress modes\<close>

lemma ParseEgressMode_String [simp]: "ParseEgressMode (egress_mode_String m) = Inr m"
proof -
  have "ParseEgressMode ''managed'' = Inr EgressManaged" "ParseEgressMode ''external'' = Inr EgressExternal"
    "ParseEgressMode ''disabled'' = Inr EgressDisabled" by code_simp+
  then show ?thesis by (cases m) simp_all
qed

text \<open>
  Further (egress_mode_roundtrip). The flag spelling of a mode parses back to it whatever its letter
  case and surrounding blanks, an unset flag means managed, and a value is accepted only if it
  folds to one of the three spellings or to nothing.
\<close>

theorem egress_mode_roundtrip:
  "ParseEgressMode (egress_mode_String m) = Inr m \<and>
   ParseEgressMode '''' = Inr EgressManaged \<and>
   (to_lower (trim_space s) = egress_mode_String m \<longrightarrow> ParseEgressMode s = Inr m) \<and>
   (isl (ParseEgressMode s) \<longleftrightarrow> to_lower (trim_space s) \<notin> insert '''' (range egress_mode_String))"
proof (intro conjI)
  have all: "UNIV = {EgressManaged, EgressExternal, EgressDisabled}" using egress_mode.exhaust by auto
  have range: "range egress_mode_String = {''managed'', ''external'', ''disabled''}" unfolding all by simp
  show "isl (ParseEgressMode s) \<longleftrightarrow> to_lower (trim_space s) \<notin> insert '''' (range egress_mode_String)"
    unfolding range by (simp add: ParseEgressMode_def Let_def)
  show "to_lower (trim_space s) = egress_mode_String m \<longrightarrow> ParseEgressMode s = Inr m"
    by (cases m) (simp_all add: ParseEgressMode_def)
qed (simp_all, code_simp)

subsection \<open>The pool on a lawful host\<close>

text \<open>
  What the code relies on: \<open>taps\<close> and \<open>rules\<close> read the TAP devices and the rules off the host's
  state. \<^verbatim>\<open>ip link show\<close> and \<^verbatim>\<open>iptables -C\<close> answer whether the object is there and change nothing;
  a successful \<^verbatim>\<open>ip tuntap add\<close> adds the device, a successful \<^verbatim>\<open>iptables -A\<close> appends the rule;
  addresses, link state and the forwarding switch are neither devices nor rules.
\<close>

definition keeps :: "'s exec \<Rightarrow> ('s \<Rightarrow> string set) \<Rightarrow> ('s \<Rightarrow> string list list) \<Rightarrow> string list \<Rightarrow> bool" where
  "keeps exec taps rules cmd \<longleftrightarrow>
     (\<forall>s. taps (snd (exec cmd s)) = taps s \<and> rules (snd (exec cmd s)) = rules s)"

definition host_laws :: "'s exec \<Rightarrow> ('s \<Rightarrow> string set) \<Rightarrow> ('s \<Rightarrow> string list list) \<Rightarrow> bool" where
  "host_laws exec taps rules \<longleftrightarrow>
     (\<forall>n s. snd (exec [''ip'', ''link'', ''show'', n] s) = s \<and>
        (fst (fst (exec [''ip'', ''link'', ''show'', n] s)) = None \<longleftrightarrow> n \<in> taps s)) \<and>
     (\<forall>r s. snd (exec (rule_cmd ''-C'' r) s) = s \<and>
        (fst (fst (exec (rule_cmd ''-C'' r) s)) = None \<longleftrightarrow> r \<in> set (rules s))) \<and>
     (\<forall>c n s. fst (fst (exec (tap_add_cmd c n) s)) = None \<longrightarrow>
        taps (snd (exec (tap_add_cmd c n) s)) = insert n (taps s) \<and>
        rules (snd (exec (tap_add_cmd c n) s)) = rules s) \<and>
     (\<forall>r s. fst (fst (exec (rule_cmd ''-A'' r) s)) = None \<longrightarrow>
        taps (snd (exec (rule_cmd ''-A'' r) s)) = taps s \<and>
        rules (snd (exec (rule_cmd ''-A'' r) s)) = rules s @ [r]) \<and>
     keeps exec taps rules [''ip'', ''route'', ''show'', ''default''] \<and>
     keeps exec taps rules [''sysctl'', ''-w'', ''net.ipv4.ip_forward=1''] \<and>
     (\<forall>a n. keeps exec taps rules [''ip'', ''addr'', ''add'', a, ''dev'', n]) \<and>
     (\<forall>n. keeps exec taps rules [''ip'', ''link'', ''set'', ''dev'', n, ''up''])"

lemma run_cmd_snd [simp]: "snd (run_cmd exec args s) = snd (exec args s)"
  by (auto simp: run_cmd_def split: prod.splits option.splits)

lemma run_cmd_ok [simp]: "fst (run_cmd exec args s) = None \<longleftrightarrow> fst (fst (exec args s)) = None"
  by (auto simp: run_cmd_def split: prod.splits option.splits)

lemma run_cmd_cases:
  "run_cmd exec args s = (r, s') \<longleftrightarrow> fst (run_cmd exec args s) = r \<and> snd (exec args s) = s'"
  by (metis prod.collapse prod.inject run_cmd_snd)

lemma run_cmd_okD:
  "run_cmd exec args s = (None, s') \<Longrightarrow> fst (fst (exec args s)) = None \<and> snd (exec args s) = s'"
  by (auto simp: run_cmd_def split: prod.splits option.splits)

lemma run_cmd_failE:
  assumes "fst (fst (exec args s)) \<noteq> None" "snd (exec args s) = s'"
  obtains e where "run_cmd exec args s = (Some e, s')"
proof -
  obtain r out t where "exec args s = ((r, out), t)" by (metis surj_pair)
  with assms that show thesis by (cases r) (auto simp: run_cmd_def)
qed

lemma keepsD:
  "keeps exec taps rules cmd \<Longrightarrow> taps (snd (exec cmd s)) = taps s \<and> rules (snd (exec cmd s)) = rules s"
  by (simp add: keeps_def)

lemma tap_address_keeps:
  assumes "host_laws exec taps rules"
  shows "taps (snd (tap_address exec n s)) = taps s \<and> rules (snd (tap_address exec n s)) = rules s"
  using assms
  by (auto simp: tap_address_def host_laws_def keeps_def Let_def run_cmd_cases split: prod.split option.split)

lemma ensureTap_spec:
  assumes laws: "host_laws exec taps rules" and ok: "ensureTap exec c n s = (None, s')"
  shows "taps s' = insert (bn_TapName n) (taps s) \<and> rules s' = rules s"
proof -
  let ?show = "[''ip'', ''link'', ''show'', bn_TapName n]"
  from laws have same: "snd (exec ?show s) = s"
    and there: "fst (fst (exec ?show s)) = None \<longleftrightarrow> bn_TapName n \<in> taps s"
    by (simp_all add: host_laws_def)
  show ?thesis
  proof (cases "bn_TapName n \<in> taps s")
    case True
    with there have "run_cmd exec ?show s = (None, s)" by (simp add: run_cmd_cases same)
    with ok have "tap_address exec n s = (None, s')" by (simp add: ensureTap_def)
    with tap_address_keeps [OF laws, of n s] True show ?thesis by auto
  next
    case False
    with there same obtain e where "run_cmd exec ?show s = (Some e, s)" by (metis run_cmd_failE)
    with ok obtain s2 where add: "run_cmd exec (tap_add_cmd c (bn_TapName n)) s = (None, s2)"
      and addr: "tap_address exec n s2 = (None, s')"
      by (auto simp: ensureTap_def split: prod.splits option.splits)
    from run_cmd_okD [OF add] laws have "taps s2 = insert (bn_TapName n) (taps s) \<and> rules s2 = rules s"
      unfolding host_laws_def by metis
    with tap_address_keeps [OF laws, of n s2] addr show ?thesis by simp
  qed
qed

lemma ensureTaps_spec:
  assumes laws: "host_laws exec taps rules"
    and "until_error (\<lambda>i. ensureTap exec c (NetFor c i)) is s = (None, s')"
  shows "taps s' = TapName c ` set is \<union> taps s \<and> rules s' = rules s"
  using assms(2)
proof (induction "is" arbitrary: s)
  case (Cons i "is")
  then obtain s1 where s1: "ensureTap exec c (NetFor c i) s = (None, s1)"
    and rest: "until_error (\<lambda>i. ensureTap exec c (NetFor c i)) is s1 = (None, s')"
    by (auto split: prod.splits option.splits)
  from Cons.IH [OF rest] ensureTap_spec [OF laws s1] show ?case by (simp add: NetFor_def)
qed simp

lemma ensureRule_spec:
  assumes laws: "host_laws exec taps rules" and ok: "ensureRule exec r s = (None, s')"
  shows "taps s' = taps s \<and> rules s' = (if r \<in> set (rules s) then rules s else rules s @ [r])"
proof -
  from laws have same: "snd (exec (rule_cmd ''-C'' r) s) = s"
    and there: "fst (fst (exec (rule_cmd ''-C'' r) s)) = None \<longleftrightarrow> r \<in> set (rules s)"
    by (simp_all add: host_laws_def)
  show ?thesis
  proof (cases "r \<in> set (rules s)")
    case True
    with there have "run_cmd exec (rule_cmd ''-C'' r) s = (None, s)" by (simp add: run_cmd_cases same)
    with ok True show ?thesis by (simp add: ensureRule_def)
  next
    case False
    with there same obtain e where "run_cmd exec (rule_cmd ''-C'' r) s = (Some e, s)" by (metis run_cmd_failE)
    with ok have add: "run_cmd exec (rule_cmd ''-A'' r) s = (None, s')"
      by (auto simp: ensureRule_def split: prod.splits option.splits)
    from run_cmd_okD [OF this] laws False show ?thesis unfolding host_laws_def by metis
  qed
qed

lemma ensureRules_spec:
  assumes laws: "host_laws exec taps rules"
    and "until_error (ensureRule exec) rs s = (None, s')" and "distinct rs"
  shows "taps s' = taps s \<and> rules s' = rules s @ filter (\<lambda>r. r \<notin> set (rules s)) rs"
  using assms(2,3)
proof (induction rs arbitrary: s)
  case (Cons r rs)
  then obtain s1 where s1: "ensureRule exec r s = (None, s1)"
    and rest: "until_error (ensureRule exec) rs s1 = (None, s')"
    by (auto split: prod.splits option.splits)
  have "filter (\<lambda>x. x \<notin> insert r (set (rules s))) rs = filter (\<lambda>x. x \<notin> set (rules s)) rs"
    using Cons.prems(2) by (intro filter_cong) auto
  with Cons.IH [OF rest] ensureRule_spec [OF laws s1] Cons.prems(2) show ?case by (auto split: if_splits)
qed simp

lemma distinct_sharedRules: "distinct (sharedRules c uplink)"
  by (simp add: sharedRules_def Let_def)

lemma resolveUplink_keeps:
  assumes "host_laws exec taps rules"
  shows "taps (snd (resolveUplink exec c s)) = taps s \<and> rules (snd (resolveUplink exec c s)) = rules s"
proof -
  have "keeps exec taps rules [''ip'', ''route'', ''show'', ''default'']" using assms by (simp add: host_laws_def)
  note keep = keepsD [OF this, of s]
  obtain r out t where "exec [''ip'', ''route'', ''show'', ''default''] s = ((r, out), t)" by (metis surj_pair)
  with keep show ?thesis by (cases r) (simp_all add: resolveUplink_def split: option.split)
qed

lemma EnsurePool_spec:
  assumes laws: "host_laws exec taps rules" and ok: "EnsurePool exec c sz s = (None, s')"
  shows "\<exists>uplink s1. resolveUplink exec c s = (Inr uplink, s1) \<and>
    taps s' = TapName c ` set (slots sz) \<union> taps s \<and>
    rules s' = rules s @ filter (\<lambda>r. r \<notin> set (rules s)) (sharedRules c uplink)"
proof -
  let ?fwd = "[''sysctl'', ''-w'', ''net.ipv4.ip_forward=1'']"
  from ok obtain u s1 s2 s3 where u: "resolveUplink exec c s = (Inr u, s1)"
    and s2: "run_cmd exec ?fwd s1 = (None, s2)"
    and s3: "until_error (\<lambda>i. ensureTap exec c (NetFor c i)) (slots sz) s2 = (None, s3)"
    and s4: "until_error (ensureRule exec) (sharedRules c u) s3 = (None, s')"
    by (auto simp: EnsurePool_def split: prod.splits option.splits sum.splits)
  from laws have "keeps exec taps rules ?fwd" by (simp add: host_laws_def)
  from keepsD [OF this, of s1] run_cmd_okD [OF s2] have "taps s2 = taps s1 \<and> rules s2 = rules s1" by simp
  with resolveUplink_keeps [OF laws, of c s] u have "taps s2 = taps s \<and> rules s2 = rules s" by simp
  with ensureTaps_spec [OF laws s3] ensureRules_spec [OF laws s4 distinct_sharedRules] u
  show ?thesis by auto
qed

lemma set_slots: "set (slots sz) = {i. 0 \<le> i \<and> i < sz}"
proof (intro set_eqI iffI)
  fix i assume "i \<in> {i. 0 \<le> i \<and> i < sz}"
  then have "i = int (nat i)" "nat i \<in> {0..<nat sz}" by auto
  then show "i \<in> set (slots sz)" unfolding slots_def set_map set_upt by (rule image_eqI)
qed (auto simp: slots_def)

text \<open>
  Further (ensure_pool_idempotent). On a lawful host, a pool that was ensured successfully has every TAP
  device of its slots and every shared rule, each appended only if it was missing and in the order
  of the source, after the rules that were there. Ensuring the pool again, with the same
  uplink and no more slots, changes neither the devices nor the rules, so restarts never pile up
  duplicates.
\<close>

theorem ensure_pool_idempotent:
  assumes "host_laws exec taps rules" and "EnsurePool exec c sz s = (None, s')"
  shows "(\<forall>i. 0 \<le> i \<and> i < sz \<longrightarrow> TapName c i \<in> taps s') \<and>
    (\<exists>uplink. fst (resolveUplink exec c s) = Inr uplink \<and>
       set (sharedRules c uplink) \<subseteq> set (rules s') \<and>
       rules s' = rules s @ filter (\<lambda>r. r \<notin> set (rules s)) (sharedRules c uplink)) \<and>
    (\<forall>sz' s''. EnsurePool exec c sz' s' = (None, s'') \<and> sz' \<le> sz \<and> cfg_Uplink c \<noteq> [] \<longrightarrow>
       rules s'' = rules s' \<and> taps s'' = taps s')"
proof -
  from EnsurePool_spec [OF assms] obtain u s1 where u: "resolveUplink exec c s = (Inr u, s1)"
    and t: "taps s' = TapName c ` set (slots sz) \<union> taps s"
    and r: "rules s' = rules s @ filter (\<lambda>r. r \<notin> set (rules s)) (sharedRules c u)"
    by blast
  have sub: "set (sharedRules c u) \<subseteq> set (rules s')" unfolding r by auto
  have again: "rules s'' = rules s' \<and> taps s'' = taps s'"
    if e: "EnsurePool exec c sz' s' = (None, s'')" and le: "sz' \<le> sz" and up: "cfg_Uplink c \<noteq> []" for sz' s''
  proof -
    have cfg: "resolveUplink exec c x = (Inr (cfg_Uplink c), x)" for x using up by (simp add: resolveUplink_def)
    then have "u = cfg_Uplink c" using u by simp
    moreover from EnsurePool_spec [OF assms(1) e] cfg
    have "taps s'' = TapName c ` set (slots sz') \<union> taps s'"
      "rules s'' = rules s' @ filter (\<lambda>r. r \<notin> set (rules s')) (sharedRules c (cfg_Uplink c))" by auto
    moreover have "TapName c ` set (slots sz') \<subseteq> taps s'" unfolding t using le by (auto simp: set_slots)
    moreover have "filter (\<lambda>r. r \<notin> set (rules s')) (sharedRules c u) = []"
      using sub by (auto simp: filter_empty_conv)
    ultimately show ?thesis by auto
  qed
  show ?thesis using u sub r again unfolding t by (auto simp: set_slots)
qed

text \<open>A small simulated host: its TAP devices and its rules.\<close>

type_synonym sim_host = "string list \<times> string list list"

definition sim_exec :: "sim_host exec" where
  "sim_exec cmd h =
     (if hd cmd = ''iptables'' then
        (let rest = tl cmd; t = (hd rest = ''-t'');
             verb = (if t then rest ! 2 else hd rest);
             rule = (if t then take 2 rest @ drop 3 rest else tl rest)
         in if verb = ''-C'' then ((if rule \<in> set (snd h) then None else Some ''missing'', []), h)
            else if verb = ''-A'' then ((None, []), (fst h, snd h @ [rule]))
            else ((None, []), (fst h, remove1 rule (snd h))))
      else if take 3 cmd = [''ip'', ''link'', ''show''] then
        ((if cmd ! 3 \<in> set (fst h) then None else Some ''missing'', []), h)
      else if take 3 cmd = [''ip'', ''tuntap'', ''add''] then ((None, []), (cmd ! 4 # fst h, snd h))
      else ((None, []), h))"

lemma rule_cmd_eq:
  "rule_cmd v r = ''iptables'' # (if 2 \<le> length r \<and> r ! 0 = ''-t'' then take 2 r @ v # drop 2 r else v # r)"
  by (auto simp: rule_cmd_def insertVerb_def ruleInsertAt_def)

lemma sim_exec_rule:
  assumes "v \<noteq> ''-t''"
  shows "sim_exec (rule_cmd v r) h =
     (if v = ''-C'' then ((if r \<in> set (snd h) then None else Some ''missing'', []), h)
      else if v = ''-A'' then ((None, []), (fst h, snd h @ [r]))
      else ((None, []), (fst h, remove1 r (snd h))))"
proof (cases "2 \<le> length r \<and> r ! 0 = ''-t''")
  case True
  then obtain x rs where "r = ''-t'' # x # rs"
    by (metis One_nat_def Suc_le_length_iff nth_Cons_0 numeral_2_eq_2)
  then have "rule_cmd v r = [''iptables'', ''-t'', x, v] @ rs" by (simp add: rule_cmd_eq)
  then show ?thesis using \<open>r = _\<close> by (simp add: sim_exec_def Let_def)
next
  case False
  then have "rule_cmd v r = ''iptables'' # v # r" unfolding rule_cmd_eq by (rule if_not_P [THEN arg_cong])
  with assms show ?thesis by (simp add: sim_exec_def Let_def)
qed

lemma sim_host_laws: "host_laws sim_exec (\<lambda>h. set (fst h)) snd"
  by (auto simp: host_laws_def keeps_def sim_exec_rule sim_exec_def [of "[_, _, _, _]"]
      sim_exec_def [of "[_, _, _]"] sim_exec_def [of "[_, _, _, _, _, _]"] tap_add_cmd_def
      sim_exec_def [of "[_, _, _, _, _, _, _]"] sim_exec_def [of "[_, _, _, _, _, _, _, _, _]"])

theorem ensure_pool_idempotent_witness:
  "let c = \<lparr>cfg_TapPrefix = ''llmboxch'', cfg_SubnetBase = ''172.17'', cfg_TapGroup = 7, cfg_Uplink = ''eth0''\<rparr>;
       h = snd (EnsurePool sim_exec c 2 ([], []))
   in ''llmboxch1'' \<in> set (fst h) \<and> snd h = sharedRules c ''eth0'' \<and>
      snd (snd (EnsurePool sim_exec c 2 h)) = snd h"
proof -
  define c where "c = \<lparr>cfg_TapPrefix = ''llmboxch'', cfg_SubnetBase = ''172.17'', cfg_TapGroup = 7, cfg_Uplink = ''eth0''\<rparr>"
  define h where "h = snd (EnsurePool sim_exec c 2 ([], []))"
  have ok: "EnsurePool sim_exec c 2 ([], []) = (None, h)" "fst (EnsurePool sim_exec c 2 h) = None"
    unfolding h_def c_def by code_simp+
  have tap: "TapName c 1 = ''llmboxch1''" and up: "resolveUplink sim_exec c ([], []) = (Inr ''eth0'', ([], []))"
    "cfg_Uplink c = ''eth0''" unfolding c_def by code_simp+
  obtain h2 where again: "EnsurePool sim_exec c 2 h = (None, h2)" using ok(2) by (metis prod.collapse)
  note pool = ensure_pool_idempotent [OF sim_host_laws ok(1)]
  have "''llmboxch1'' \<in> set (fst h)" using pool [THEN conjunct1, rule_format, of 1] by (simp add: tap)
  moreover have "snd h = sharedRules c ''eth0''" using pool [THEN conjunct2, THEN conjunct1] by (simp add: up)
  moreover have "snd h2 = snd h"
    using pool [THEN conjunct2, THEN conjunct2, rule_format, of 2 h2] by (simp add: again up)
  ultimately have "''llmboxch1'' \<in> set (fst h) \<and> snd h = sharedRules c ''eth0'' \<and>
      snd (snd (EnsurePool sim_exec c 2 h)) = snd h" by (simp add: again)
  then show ?thesis unfolding Let_def h_def c_def by blast
qed

subsection \<open>Validation\<close>

definition tap_ready :: "'s exec \<Rightarrow> mvm_config \<Rightarrow> 's \<Rightarrow> int \<Rightarrow> string option" where
  "tap_ready exec c s i =
     (case fst (exec [''ip'', ''-o'', ''link'', ''show'', TapName c i] s) of
        (Some _, _) \<Rightarrow> Some (TapName c i @ '' (not found)'')
      | (None, out) \<Rightarrow> if linkFlagsUp out then None else Some (TapName c i @ '' (administratively down)''))"

lemma missing_taps_spec:
  assumes ro: "\<And>n s. snd (exec [''ip'', ''-o'', ''link'', ''show'', n] s) = s"
  shows "missing_taps exec c is s = (List.map_filter (tap_ready exec c s) is, s)"
proof (induction "is")
  case (Cons i "is")
  obtain r out t where e: "exec [''ip'', ''-o'', ''link'', ''show'', TapName c i] s = ((r, out), t)" by (metis surj_pair)
  with ro [of "TapName c i" s] Cons show ?case
    by (cases r) (auto simp: List.map_filter_simps tap_ready_def)
qed (simp add: List.map_filter_simps)

lemma ValidatePool_spec:
  assumes ro: "\<And>n s. snd (exec [''ip'', ''-o'', ''link'', ''show'', n] s) = s"
  shows "ValidatePool exec c sz s =
    (if \<forall>i \<in> set (slots sz). tap_ready exec c s i = None then None
     else Some (PoolIncomplete (List.map_filter (tap_ready exec c s) (slots sz))), s)"
proof -
  have "List.map_filter (tap_ready exec c s) is = [] \<longleftrightarrow> (\<forall>i \<in> set is. tap_ready exec c s i = None)" for "is"
    by (induction "is") (auto simp: List.map_filter_simps split: option.splits)
  then show ?thesis by (simp add: ValidatePool_def missing_taps_spec [where exec = exec, OF ro])
qed

lemma split_char_plain: "c \<notin> set w \<Longrightarrow> split_char c w = [w]"
  by (induction w) auto

lemma split_char_sep: "c \<notin> set w \<Longrightarrow> split_char c (w @ c # rest) = w # split_char c rest"
  by (induction w) auto

lemma index_byte_first: "c \<notin> set w \<Longrightarrow> index_byte c (w @ c # rest) = Some (length w)"
  by (induction w) auto

text \<open>
  The flag test reads exactly the block between the first angle brackets, split at the commas.
\<close>

lemma linkFlagsUp_block:
  assumes "CHR ''<'' \<notin> set pre" "CHR ''>'' \<notin> set pre" "CHR ''>'' \<notin> set flags"
  shows "linkFlagsUp (pre @ ''<'' @ flags @ ''>'' @ rest) \<longleftrightarrow> ''UP'' \<in> set (split_char (CHR '','') flags)"
proof -
  have "index_byte (CHR ''<'') (pre @ CHR ''<'' # flags @ CHR ''>'' # rest) = Some (length pre)"
    using assms(1) by (rule index_byte_first)
  moreover have "index_byte (CHR ''>'') ((pre @ CHR ''<'' # flags) @ CHR ''>'' # rest) = Some (length (pre @ CHR ''<'' # flags))"
    using assms by (intro index_byte_first) auto
  ultimately show ?thesis by (auto simp: linkFlagsUp_def list_ex_iff)
qed

end
