(* ===== verification/FcState.thy ===== *)
theory FcState
  imports Sandbox Mvmnet
begin

text \<open>
  What the Firecracker backend derives and persists per box: \<^verbatim>\<open>internal/spoke/firecracker/state.go\<close>
  (the metadata, its paths and the state directory), the jailer settings of \<^verbatim>\<open>jailer.go\<close>, the
  addressing of \<^verbatim>\<open>network.go\<close>, the pool set-up of \<^verbatim>\<open>networkpool.go\<close> and the machine sizing of
  \<^verbatim>\<open>provisioner.go\<close>.

  The state directory is the list of its entries: a plain file, or a box directory with what its
  \<^verbatim>\<open>meta.json\<close> parses to, if anything. Failing system calls are arguments of the operations.
\<close>

subsection \<open>Go's \<^verbatim>\<open>path/filepath\<close>\<close>

fun join_char :: "char \<Rightarrow> string list \<Rightarrow> string" where
  "join_char c [] = []"
| "join_char c [w] = w"
| "join_char c (w # v # ws) = w @ [c] @ join_char c (v # ws)"

fun clean_step :: "bool \<Rightarrow> string list \<Rightarrow> string list \<Rightarrow> string list" where
  "clean_step rooted out [] = rev out"
| "clean_step rooted out (w # ws) =
     (if w = '''' \<or> w = ''.'' then clean_step rooted out ws
      else if w = ''..'' then
        (case out of
           [] \<Rightarrow> clean_step rooted (if rooted then [] else [''..'']) ws
         | o1 # os \<Rightarrow> if o1 = ''..'' then clean_step rooted (''..'' # out) ws else clean_step rooted os ws)
      else clean_step rooted (w # out) ws)"

definition filepath_clean :: "string \<Rightarrow> string" where
  "filepath_clean p =
     (let rooted = has_prefix p ''/'';
          out = (if rooted then ''/'' else []) @ join_char (CHR ''/'') (clean_step rooted [] (split_char (CHR ''/'') p))
      in if out = [] then ''.'' else out)"

definition filepath_join :: "string list \<Rightarrow> string" where
  "filepath_join es =
     (case dropWhile (\<lambda>e. e = []) es of
        [] \<Rightarrow> []
      | es' \<Rightarrow> filepath_clean (join_char (CHR ''/'') es'))"

definition filepath_base :: "string \<Rightarrow> string" where
  "filepath_base p =
     (if p = [] then ''.''
      else let q = rev (takeWhile (\<lambda>c. c \<noteq> CHR ''/'') (dropWhile (\<lambda>c. c = CHR ''/'') (rev p)))
           in if q = [] then ''/'' else q)"

subsection \<open>Box metadata\<close>

record box_meta =
  bm_Token :: string
  bm_BoxID :: string
  bm_Description :: string
  bm_Image :: string
  bm_Phase :: string
  bm_Paused :: bool
  bm_Created :: int
  bm_NetIndex :: int
  bm_UID :: int
  bm_GID :: int
  bm_ChrootBase :: string
  bm_ExecBase :: string
  bm_DiskBytes :: int
  bm_Namespace :: string

definition boxDir :: "string \<Rightarrow> string \<Rightarrow> string" where
  "boxDir stateDir token = filepath_join [stateDir, token]"

definition runtimeDir :: "box_meta \<Rightarrow> string \<Rightarrow> string" where
  "runtimeDir m stateDir =
     (if bm_ChrootBase m = [] then boxDir stateDir (bm_Token m)
      else filepath_join [bm_ChrootBase m, bm_ExecBase m, bm_Token m, ''root''])"

definition apiSockPath :: "box_meta \<Rightarrow> string \<Rightarrow> string" where
  "apiSockPath m stateDir = filepath_join [runtimeDir m stateDir, ''fc.sock'']"

definition vsockUDSPath :: "box_meta \<Rightarrow> string \<Rightarrow> string" where
  "vsockUDSPath m stateDir = filepath_join [runtimeDir m stateDir, ''vsock.sock'']"

definition chrootInstanceDir :: "box_meta \<Rightarrow> string" where
  "chrootInstanceDir m =
     (if bm_ChrootBase m = [] then [] else filepath_join [bm_ChrootBase m, bm_ExecBase m, bm_Token m])"

definition namePrefix :: "string \<Rightarrow> string" where
  "namePrefix phase = (if phase = ''pending'' then ''llmbox-pending-'' else ''llmbox-'')"

definition toBox :: "box_meta \<Rightarrow> string \<Rightarrow> box" where
  "toBox m state =
     \<lparr>box_InstanceID = bm_Token m, box_Name = namePrefix (bm_Phase m) @ bm_Token m,
      box_BoxID = bm_BoxID m, box_Description = bm_Description m, box_Spoke = [],
      box_Image = bm_Image m, box_State = state, box_Status = [], box_Phase = bm_Phase m,
      box_LastError = [], box_Created = bm_Created m, box_LastSeen = 0\<rparr>"

subsection \<open>The state directory\<close>

datatype dir_entry = PlainFile | BoxEntry "box_meta option"

type_synonym state_dir = "(string, dir_entry) table"

datatype save_fault = SaveOk | SaveMkdir | SaveWrite | SaveRename

datatype dir_read = DirRead | DirMissing | DirUnreadable

definition mkdir :: "string \<Rightarrow> state_dir \<Rightarrow> state_dir" where
  "mkdir tok d = (if tget d tok = None then tput tok (BoxEntry None) d else d)"

definition save :: "save_fault \<Rightarrow> box_meta \<Rightarrow> state_dir \<Rightarrow> save_fault option \<times> state_dir" where
  "save f m d =
     (case f of
        SaveMkdir \<Rightarrow> (Some SaveMkdir, d)
      | SaveWrite \<Rightarrow> (Some SaveWrite, mkdir (bm_Token m) d)
      | SaveRename \<Rightarrow> (Some SaveRename, mkdir (bm_Token m) d)
      | SaveOk \<Rightarrow> (None, tput (bm_Token m) (BoxEntry (Some m)) (mkdir (bm_Token m) d)))"

fun entry_meta :: "dir_entry \<Rightarrow> box_meta option" where
  "entry_meta PlainFile = None"
| "entry_meta (BoxEntry None) = None"
| "entry_meta (BoxEntry (Some m)) = (if bm_Token m = [] then None else Some m)"

definition entries_metas :: "state_dir \<Rightarrow> box_meta list" where
  "entries_metas d = List.map_filter (\<lambda>(name, e). entry_meta e) (sort_key fst d)"

definition loadMetas :: "dir_read \<Rightarrow> state_dir \<Rightarrow> box_meta list option" where
  "loadMetas r d =
     (case r of DirMissing \<Rightarrow> Some [] | DirUnreadable \<Rightarrow> None | DirRead \<Rightarrow> Some (entries_metas d))"

subsection \<open>Sizing\<close>

definition diskBytesFor :: "limits \<Rightarrow> int \<Rightarrow> int \<Rightarrow> int" where
  "diskBytesFor l requested baseBytes =
     (let want = (if requested \<le> 0 then lim_DiskBytes l else requested);
          want1 = (if lim_MaxDiskBytes l > 0 \<and> want > lim_MaxDiskBytes l then lim_MaxDiskBytes l else want)
      in if want1 < baseBytes then baseBytes else want1)"

text \<open>
  \<^verbatim>\<open>math.Ceil(float64(NanoCPUs) / 1e9)\<close> is written as the integer ceiling: the two agree below
  $2^{22}$ CPUs, where a quotient's distance from the next integer exceeds its rounding error.
\<close>

definition vcpuCount :: "limits \<Rightarrow> int" where
  "vcpuCount l =
     (if lim_NanoCPUs l \<le> 0 then 1
      else let n = (lim_NanoCPUs l + 999999999) div 1000000000;
               n1 = (if n < 1 then 1 else n)
           in if n1 > 1 \<and> n1 mod 2 = 1 then n1 + 1 else n1)"

definition memSizeMib :: "limits \<Rightarrow> int" where
  "memSizeMib l =
     (if lim_MemoryBytes l \<le> 0 then 512
      else let mib = lim_MemoryBytes l div 1048576 in if mib < 128 then 128 else mib)"

definition macForIndex :: "int \<Rightarrow> string" where
  "macForIndex index =
     ''AA:FC:00:00:'' @ hex2 (CHR ''A'') (byte1 index) @ '':'' @ hex2 (CHR ''A'') (byte0 index)"

subsection \<open>Firecracker's addressing and the jailer\<close>

abbreviation defaultPoolSize :: int where "defaultPoolSize \<equiv> 16"
abbreviation defaultFcGID :: int where "defaultFcGID \<equiv> 100000"
abbreviation defaultUIDMin :: int where "defaultUIDMin \<equiv> 100000"
abbreviation defaultUIDMax :: int where "defaultUIDMax \<equiv> 165535"

definition fcNet :: mvm_config where
  "fcNet = \<lparr>cfg_TapPrefix = ''llmboxfc'', cfg_SubnetBase = ''172.16'', cfg_TapGroup = 0, cfg_Uplink = []\<rparr>"

definition fc_netFor :: "int \<Rightarrow> box_net" where
  "fc_netFor index = NetFor fcNet index"

definition newHostEgress :: "string \<Rightarrow> int \<Rightarrow> mvm_config" where
  "newHostEgress uplink tapGroup = fcNet\<lparr>cfg_Uplink := uplink, cfg_TapGroup := tapGroup\<rparr>"

record jailer_config =
  jc_jailerBin :: string
  jc_execFile :: string
  jc_chrootBase :: string
  jc_uidMin :: int
  jc_uidMax :: int
  jc_gid :: int
  jc_cgroupVersion :: string

definition execBase :: "jailer_config \<Rightarrow> string" where
  "execBase jc = filepath_base (jc_execFile jc)"

definition defaultJailerConfig :: "string \<Rightarrow> string \<Rightarrow> jailer_config" where
  "defaultJailerConfig cgroup stateDir =
     \<lparr>jc_jailerBin = ''jailer'', jc_execFile = ''firecracker'',
      jc_chrootBase = filepath_join [stateDir, ''chroot''],
      jc_uidMin = defaultUIDMin, jc_uidMax = defaultUIDMax, jc_gid = defaultFcGID,
      jc_cgroupVersion = cgroup\<rparr>"

record vm_jail =
  vj_UID :: int
  vj_GID :: int
  vj_ID :: string
  vj_NumaNode :: int
  vj_ExecFile :: string
  vj_JailerBinary :: string
  vj_ChrootBaseDir :: string
  vj_CgroupVersion :: string
  vj_Daemonize :: bool
  vj_Kernel :: string

definition jailerCfgFor :: "jailer_config \<Rightarrow> int \<Rightarrow> string \<Rightarrow> string \<Rightarrow> vm_jail" where
  "jailerCfgFor jc uid ident kernelImage =
     \<lparr>vj_UID = uid, vj_GID = jc_gid jc, vj_ID = ident, vj_NumaNode = 0, vj_ExecFile = jc_execFile jc,
      vj_JailerBinary = jc_jailerBin jc, vj_ChrootBaseDir = jc_chrootBase jc,
      vj_CgroupVersion = jc_cgroupVersion jc, vj_Daemonize = True, vj_Kernel = kernelImage\<rparr>"

datatype jailer_problem =
    NoFirecracker string | NoJailer string | NotRoot | NoKVM | BadUIDRange int int | BadGID int

text \<open>\<open>lookPath\<close>, \<open>root\<close> and \<open>kvm\<close> are what the host answers.\<close>

definition checkJailerPrereqs ::
  "(string \<Rightarrow> string option) \<Rightarrow> bool \<Rightarrow> bool \<Rightarrow> jailer_config \<Rightarrow> jailer_problem list \<times> jailer_config"
where
  "checkJailerPrereqs lookPath root kvm jc =
     (let fc = lookPath (jc_execFile jc);
          p1 = (if fc = None then [NoFirecracker (jc_execFile jc)] else []);
          jc1 = (case fc of None \<Rightarrow> jc | Some path \<Rightarrow> jc\<lparr>jc_execFile := path\<rparr>);
          jl = lookPath (jc_jailerBin jc1);
          p2 = (if jl = None then [NoJailer (jc_jailerBin jc1)] else []);
          jc2 = (case jl of None \<Rightarrow> jc1 | Some path \<Rightarrow> jc1\<lparr>jc_jailerBin := path\<rparr>);
          p3 = (if root then [] else [NotRoot]);
          p4 = (if kvm then [] else [NoKVM]);
          p5 = (if jc_uidMin jc2 \<le> 0 \<or> jc_uidMax jc2 < jc_uidMin jc2
                then [BadUIDRange (jc_uidMin jc2) (jc_uidMax jc2)] else []);
          p6 = (if jc_gid jc2 \<le> 0 then [BadGID (jc_gid jc2)] else [])
      in (p1 @ p2 @ p3 @ p4 @ p5 @ p6, jc2))"

subsection \<open>The operator's pool set-up\<close>

record pool_config =
  pc_Size :: int
  pc_TapGroupGID :: int
  pc_Uplink :: string

definition pool_resolve :: "pool_config \<Rightarrow> pool_config" where
  "pool_resolve c =
     (let c1 = (if pc_Size c \<le> 0 then c\<lparr>pc_Size := defaultPoolSize\<rparr> else c)
      in if pc_TapGroupGID c1 \<le> 0 then c1\<lparr>pc_TapGroupGID := defaultFcGID\<rparr> else c1)"

datatype pool_error = PoolNotRoot | PoolFailed net_error

definition SetupNetworkPool ::
  "'h exec \<Rightarrow> bool \<Rightarrow> pool_config \<Rightarrow> 'h \<Rightarrow> pool_error option \<times> 'h"
where
  "SetupNetworkPool exec root cfg h =
     (let c = pool_resolve cfg in
      if \<not> root then (Some PoolNotRoot, h)
      else case EnsurePool exec (newHostEgress (pc_Uplink c) (pc_TapGroupGID c)) (pc_Size c) h of
             (Some e, h') \<Rightarrow> (Some (PoolFailed e), h')
           | (None, h') \<Rightarrow> (None, h'))"

definition TeardownNetworkPool ::
  "'h exec \<Rightarrow> bool \<Rightarrow> pool_config \<Rightarrow> 'h \<Rightarrow> pool_error option \<times> 'h"
where
  "TeardownNetworkPool exec root cfg h =
     (let c = pool_resolve cfg in
      if \<not> root then (Some PoolNotRoot, h)
      else (None, TeardownPool exec (newHostEgress (pc_Uplink c) 0) (pc_Size c) h))"

definition poolFlagHint :: "pool_config \<Rightarrow> string" where
  "poolFlagHint cfg =
     (if pc_Size cfg \<noteq> defaultPoolSize then '' --pool-size '' @ show_int (pc_Size cfg) else []) @
     (if pc_TapGroupGID cfg \<noteq> defaultFcGID then '' --tap-group '' @ show_int (pc_TapGroupGID cfg) else [])"

subsection \<open>Lemmas: paths\<close>

definition plain_name :: "string \<Rightarrow> bool" where
  "plain_name w \<longleftrightarrow> w \<noteq> [] \<and> w \<noteq> ''.'' \<and> w \<noteq> ''..'' \<and> CHR ''/'' \<notin> set w"

lemma split_char_append: "split_char c (u @ c # w) = split_char c u @ split_char c w"
proof (induction u)
  case (Cons x u)
  have "split_char c u \<noteq> []" by (cases u) (auto split: list.splits)
  with Cons show ?case by (auto split: list.splits)
qed simp

lemma join_char_snoc: "join_char c (ws @ [w]) = (if ws = [] then w else join_char c ws @ [c] @ w)"
  by (induction c ws rule: join_char.induct) auto

lemma clean_step_snoc:
  "plain_name w \<Longrightarrow> clean_step rooted out (ws @ [w]) = clean_step rooted out ws @ [w]"
  by (induction rooted out ws rule: clean_step.induct) (auto simp: plain_name_def split: list.splits)

lemma filepath_base_snoc: "plain_name w \<Longrightarrow> p = [] \<or> last p = CHR ''/'' \<Longrightarrow> filepath_base (p @ w) = w"
proof -
  assume w: "plain_name w" and p: "p = [] \<or> last p = CHR ''/''"
  from w have "rev w \<noteq> []" "CHR ''/'' \<notin> set (rev w)" by (auto simp: plain_name_def)
  then have d: "dropWhile (\<lambda>c. c = CHR ''/'') (rev w @ rev p) = rev w @ rev p"
    by (cases "rev w") auto
  from p have "takeWhile (\<lambda>c. c \<noteq> CHR ''/'') (rev w @ rev p) = rev w"
    using \<open>CHR ''/'' \<notin> set (rev w)\<close>
    by (cases p rule: rev_cases) (auto simp: takeWhile_append intro: takeWhile_eq_all_conv [THEN iffD2])
  with d w show ?thesis by (simp add: filepath_base_def plain_name_def)
qed

lemma filepath_clean_snoc:
  assumes "plain_name w" and "split_char (CHR ''/'') q = ws @ [w]"
  shows "\<exists>p. filepath_clean q = p @ w \<and> (p = [] \<or> last p = CHR ''/'')"
proof -
  define rooted where "rooted = has_prefix q ''/''"
  define out where "out = clean_step rooted [] ws"
  have "clean_step rooted [] (split_char (CHR ''/'') q) = out @ [w]"
    using assms by (simp add: clean_step_snoc out_def)
  then have "filepath_clean q = (if rooted then ''/'' else []) @ join_char (CHR ''/'') (out @ [w])"
    using assms(1) by (auto simp: filepath_clean_def rooted_def [symmetric] Let_def join_char_snoc plain_name_def)
  then have "filepath_clean q = ((if rooted then ''/'' else []) @ (if out = [] then [] else join_char (CHR ''/'') out @ ''/'')) @ w"
    by (simp add: join_char_snoc)
  then show ?thesis by (intro exI conjI, assumption) auto
qed

lemma filepath_base_join: "plain_name w \<Longrightarrow> filepath_base (filepath_join (es @ [w])) = w"
proof -
  assume w: "plain_name w"
  then obtain es' where es': "dropWhile (\<lambda>e. e = []) (es @ [w]) = es' @ [w]"
    by (cases "\<forall>e \<in> set es. e = []")
      (auto simp: dropWhile_append plain_name_def dropWhile_eq_Nil_conv intro: exI [of _ "[]"])
  have sp: "split_char (CHR ''/'') w = [w]" using w by (simp add: split_char_plain plain_name_def)
  have "\<exists>ws. split_char (CHR ''/'') (join_char (CHR ''/'') (es' @ [w])) = ws @ [w]"
    by (cases "es' = []") (auto simp: join_char_snoc split_char_append sp)
  with filepath_clean_snoc [OF w] filepath_base_snoc [OF w] es' show ?thesis
    by (auto simp: filepath_join_def split: list.splits) metis
qed

text \<open>
  A box's state directory and its chroot end in its token, so distinct boxes of one spoke never
  share either.
\<close>

lemma boxDir_base: "plain_name tok \<Longrightarrow> filepath_base (boxDir stateDir tok) = tok"
  using filepath_base_join [of tok "[stateDir]"] by (simp add: boxDir_def)

lemma boxDir_inject: "plain_name t \<Longrightarrow> plain_name u \<Longrightarrow> boxDir d t = boxDir d u \<longleftrightarrow> t = u"
  by (metis boxDir_base)

lemma chrootInstanceDir_inject:
  assumes "plain_name (bm_Token m)" "plain_name (bm_Token m')" "bm_ChrootBase m \<noteq> []" "bm_ChrootBase m' \<noteq> []"
    and "chrootInstanceDir m = chrootInstanceDir m'"
  shows "bm_Token m = bm_Token m'"
  using assms filepath_base_join [of "bm_Token m" "[bm_ChrootBase m, bm_ExecBase m]"]
    filepath_base_join [of "bm_Token m'" "[bm_ChrootBase m', bm_ExecBase m']"]
  by (simp add: chrootInstanceDir_def)

subsection \<open>Lemmas: sizes\<close>

text \<open>
  Further (machine_sizing_bounds). The disk of a box is at least the base image, and never beyond the
  operator's ceiling when that ceiling is at least the base image; a request between the two is
  honoured as it is. The vCPU count is one or even, covers the CPU limit, and exceeds it by less than
  two CPUs; the memory is at least 128 MiB and never above a limit of 128 MiB or more.
\<close>

theorem machine_sizing_bounds:
  "base \<le> diskBytesFor l req base \<and>
   (0 < lim_MaxDiskBytes l \<and> base \<le> lim_MaxDiskBytes l \<longrightarrow> diskBytesFor l req base \<le> lim_MaxDiskBytes l) \<and>
   (0 < req \<and> base \<le> req \<and> (lim_MaxDiskBytes l \<le> 0 \<or> req \<le> lim_MaxDiskBytes l) \<longrightarrow> diskBytesFor l req base = req) \<and>
   (vcpuCount l = 1 \<or> 2 \<le> vcpuCount l \<and> even (vcpuCount l)) \<and>
   lim_NanoCPUs l \<le> vcpuCount l * 1000000000 \<and>
   (0 < lim_NanoCPUs l \<longrightarrow> vcpuCount l * 1000000000 < lim_NanoCPUs l + 2000000000) \<and>
   128 \<le> memSizeMib l \<and>
   (134217728 \<le> lim_MemoryBytes l \<longrightarrow> memSizeMib l * 1048576 \<le> lim_MemoryBytes l)"
proof (intro conjI)
  define n where "n = (lim_NanoCPUs l + 999999999) div 1000000000"
  have n: "lim_NanoCPUs l \<le> n * 1000000000" "n * 1000000000 < lim_NanoCPUs l + 1000000000" unfolding n_def by linarith+
  have v: "vcpuCount l = (if lim_NanoCPUs l \<le> 0 then 1 else if n > 1 \<and> n mod 2 = 1 then n + 1 else n)"
    using n by (auto simp: vcpuCount_def n_def [symmetric] Let_def)
  show "vcpuCount l = 1 \<or> 2 \<le> vcpuCount l \<and> even (vcpuCount l)"
  proof (cases "lim_NanoCPUs l \<le> 0")
    case False
    then have "1 \<le> n" using n(1) by linarith
    show ?thesis
    proof (cases "even n")
      case True
      then have "vcpuCount l = n" "n \<noteq> 1" using False by (auto simp: v even_iff_mod_2_eq_zero)
      with True \<open>1 \<le> n\<close> show ?thesis by simp
    next
      case odd: False
      then have "vcpuCount l = (if n > 1 then n + 1 else n)" using False by (simp add: v odd_iff_mod_2_eq_one)
      with odd \<open>1 \<le> n\<close> show ?thesis by simp
    qed
  qed (simp add: v)
  show "lim_NanoCPUs l \<le> vcpuCount l * 1000000000"
    "0 < lim_NanoCPUs l \<longrightarrow> vcpuCount l * 1000000000 < lim_NanoCPUs l + 2000000000" using n unfolding v by auto
qed (auto simp: diskBytesFor_def memSizeMib_def Let_def)

theorem machine_sizing_bounds_witness:
  "diskBytesFor \<lparr>lim_MemoryBytes = 0, lim_NanoCPUs = 2500000000, lim_PidsLimit = 0, lim_MaxBoxes = 0,
     lim_DiskBytes = 0, lim_MaxDiskBytes = 9000\<rparr> 5000 4000 = 5000 \<and>
   vcpuCount \<lparr>lim_MemoryBytes = 0, lim_NanoCPUs = 2500000000, lim_PidsLimit = 0, lim_MaxBoxes = 0,
     lim_DiskBytes = 0, lim_MaxDiskBytes = 9000\<rparr> = 4"
  using machine_sizing_bounds [of 4000 "\<lparr>lim_MemoryBytes = 0, lim_NanoCPUs = 2500000000, lim_PidsLimit = 0,
     lim_MaxBoxes = 0, lim_DiskBytes = 0, lim_MaxDiskBytes = 9000\<rparr>" 5000]
  by (simp add: vcpuCount_def)

end
