(* ===== verification/Firecracker.thy ===== *)
theory Firecracker
  imports FcState
begin

text \<open>
  The Firecracker provisioner, \<^verbatim>\<open>internal/spoke/firecracker/provisioner.go\<close>, \<^verbatim>\<open>rehydrate.go\<close> and
  \<^verbatim>\<open>operator.go\<close>. Instances are shared by pointer in the source: \<open>fp_heap\<close> is the store of them, a
  handle is an index into it, and \<open>fp_boxes\<close> maps the token of a live box to its handle.

  The microVM, the guest, the file system and the random source are outside: what they answer
  is an argument (\<open>boot_env\<close>, \<open>fc_env\<close>), and the calls the code makes on them are appended to
  \<open>fp_calls\<close>. The state directory itself is part of the state, so crashes and restarts can be
  stated.
\<close>

named_theorems fc_defs \<open>definitions of the provisioner's operations\<close>

record drive =
  dv_ID :: string
  dv_Path :: string
  dv_Root :: bool
  dv_ReadOnly :: bool

record fc_config =
  fcc_SocketPath :: string
  fcc_KernelImagePath :: string
  fcc_KernelArgs :: string
  fcc_Drives :: "drive list"
  fcc_VcpuCount :: int
  fcc_MemSizeMib :: int
  fcc_VsockPath :: string
  fcc_Jailer :: vm_jail
  fcc_NIC :: "(string \<times> string) option"

datatype host_call =
    NewMachine string fc_config
  | StartVM string
  | StopVM string
  | HaltVM string
  | ServeAPI string string
  | CloseAPI string
  | ChownSocket string int int
  | RemoveAll string

record fc_instance =
  fi_meta :: box_meta
  fi_vsockUDS :: string
  fi_net :: box_net
  fi_machine :: bool
  fi_api :: bool
  fi_alive :: bool

record 'h fc_prov =
  fp_kernelImage :: string
  fp_defaultRootfs :: string
  fp_payloadImage :: string
  fp_stateDir :: string
  fp_firecrackerBin :: string
  fp_namespace :: string
  fp_limits :: limits
  fp_egress :: mvm_config
  fp_egressMode :: egress_mode
  fp_poolSize :: int
  fp_poolDone :: bool
  fp_poolErr :: "net_error option"
  fp_ports :: bool
  fp_jailer :: jailer_config
  fp_heap :: "fc_instance list"
  fp_boxes :: "(string, nat) table"
  fp_used :: "int set"
  fp_usedUIDs :: "int set"
  fp_disk :: state_dir
  fp_host :: 'h
  fp_calls :: "host_call list"

datatype boot_error = ChrootStuck | CreateFailed | StartFailed | ServeFailed | SocketOwnership | GuestSilent

datatype fc_error =
    FcInvalidBoxID string
  | FcMissingImages
  | FcNetwork net_error
  | FcToken
  | FcNoSlot int
  | FcNoUID int int
  | FcStat
  | FcMkdir
  | FcCopy
  | FcResize int
  | FcOwnership
  | FcBoot boot_error
  | FcSave save_fault
  | FcNotFound string
  | FcUnreadable
  | FcHalt string
  | FcRemove string
  | FcAmbiguous string nat

record boot_env =
  be_rmChroot :: bool
  be_new :: bool
  be_start :: bool
  be_serve :: bool
  be_chown :: bool
  be_guest :: bool

record fc_env =
  fe_token :: "string option"
  fe_now :: int
  fe_baseSize :: "int option"
  fe_mkdir :: bool
  fe_copy :: bool
  fe_truncate :: bool
  fe_chown :: bool
  fe_boot :: boot_env
  fe_save :: save_fault
  fe_rm :: bool

definition log_calls :: "host_call list \<Rightarrow> 'h fc_prov \<Rightarrow> 'h fc_prov" where
  "log_calls cs p = p\<lparr>fp_calls := fp_calls p @ cs\<rparr>"

subsection \<open>Configuration\<close>

definition SetNetworking :: "bool \<Rightarrow> 'h fc_prov \<Rightarrow> 'h fc_prov" where
  "SetNetworking enabled p = p\<lparr>fp_egressMode := (if enabled then EgressManaged else EgressDisabled)\<rparr>"

definition SetEgressMode :: "egress_mode \<Rightarrow> 'h fc_prov \<Rightarrow> 'h fc_prov" where
  "SetEgressMode m p = p\<lparr>fp_egressMode := m\<rparr>"

definition guestNetEnabled :: "'h fc_prov \<Rightarrow> bool" where
  "guestNetEnabled p \<longleftrightarrow> fp_egressMode p \<noteq> EgressDisabled"

definition SetPoolSize :: "int \<Rightarrow> 'h fc_prov \<Rightarrow> 'h fc_prov" where
  "SetPoolSize n p = (if n > 0 then p\<lparr>fp_poolSize := n\<rparr> else p)"

definition SetJailerBinary :: "string \<Rightarrow> 'h fc_prov \<Rightarrow> 'h fc_prov" where
  "SetJailerBinary bin p = (if bin \<noteq> [] then p\<lparr>fp_jailer := (fp_jailer p)\<lparr>jc_jailerBin := bin\<rparr>\<rparr> else p)"

definition SetFirecrackerBinary :: "string \<Rightarrow> 'h fc_prov \<Rightarrow> 'h fc_prov" where
  "SetFirecrackerBinary bin p =
     (if bin \<noteq> [] then p\<lparr>fp_firecrackerBin := bin, fp_jailer := (fp_jailer p)\<lparr>jc_execFile := bin\<rparr>\<rparr> else p)"

definition SetChrootBase :: "string \<Rightarrow> 'h fc_prov \<Rightarrow> 'h fc_prov" where
  "SetChrootBase dir p = (if dir \<noteq> [] then p\<lparr>fp_jailer := (fp_jailer p)\<lparr>jc_chrootBase := dir\<rparr>\<rparr> else p)"

definition SetUIDRange :: "int \<Rightarrow> int \<Rightarrow> 'h fc_prov \<Rightarrow> 'h fc_prov" where
  "SetUIDRange lo hi p =
     (if lo > 0 \<and> hi \<ge> lo then p\<lparr>fp_jailer := (fp_jailer p)\<lparr>jc_uidMin := lo, jc_uidMax := hi\<rparr>\<rparr> else p)"

definition SetTapGroup :: "int \<Rightarrow> 'h fc_prov \<Rightarrow> 'h fc_prov" where
  "SetTapGroup gid p = (if gid > 0 then p\<lparr>fp_jailer := (fp_jailer p)\<lparr>jc_gid := gid\<rparr>\<rparr> else p)"

definition SetCgroupVersion :: "string \<Rightarrow> 'h fc_prov \<Rightarrow> 'h fc_prov" where
  "SetCgroupVersion v p = (if v \<noteq> [] then p\<lparr>fp_jailer := (fp_jailer p)\<lparr>jc_cgroupVersion := v\<rparr>\<rparr> else p)"

definition SetPayloadImage :: "string \<Rightarrow> 'h fc_prov \<Rightarrow> 'h fc_prov" where
  "SetPayloadImage path p = p\<lparr>fp_payloadImage := path\<rparr>"

definition SetPerBoxLimits :: "limits \<Rightarrow> 'h fc_prov \<Rightarrow> 'h fc_prov" where
  "SetPerBoxLimits l p = p\<lparr>fp_limits := l\<rparr>"

definition SetNamespace :: "string \<Rightarrow> 'h fc_prov \<Rightarrow> 'h fc_prov" where
  "SetNamespace ns p = p\<lparr>fp_namespace := ns\<rparr>"

subsection \<open>The egress pool\<close>

definition EnsureNetwork :: "'h exec \<Rightarrow> 'h fc_prov \<Rightarrow> net_error option \<times> 'h fc_prov" where
  "EnsureNetwork exec p =
     (case fp_egressMode p of
        EgressDisabled \<Rightarrow> (None, p)
      | EgressExternal \<Rightarrow>
          if fp_poolDone p then (fp_poolErr p, p)
          else (case ValidatePool exec (fp_egress p) (fp_poolSize p) (fp_host p) of
                  (e, h) \<Rightarrow> (e, p\<lparr>fp_poolDone := True, fp_poolErr := e, fp_host := h\<rparr>))
      | EgressManaged \<Rightarrow>
          if fp_poolDone p then (fp_poolErr p, p)
          else (let eg = (fp_egress p)\<lparr>cfg_TapGroup := jc_gid (fp_jailer p)\<rparr> in
                case EnsurePool exec eg (fp_poolSize p) (fp_host p) of
                  (e, h) \<Rightarrow> (e, p\<lparr>fp_egress := eg, fp_poolDone := True, fp_poolErr := e, fp_host := h\<rparr>)))"

subsection \<open>Slots and user ids\<close>

function alloc_loop :: "int \<Rightarrow> int \<Rightarrow> int set \<Rightarrow> int option" where
  "alloc_loop i hi taken =
     (if i < hi then if i \<notin> taken then Some i else alloc_loop (i + 1) hi taken else None)"
  by pat_completeness auto
termination by (relation "measure (\<lambda>(i, hi, taken). nat (hi - i))") auto

declare alloc_loop.simps [simp del]

definition allocIndexLocked :: "'h fc_prov \<Rightarrow> int option \<times> 'h fc_prov" where
  "allocIndexLocked p =
     (case alloc_loop 0 (fp_poolSize p) (fp_used p) of
        Some i \<Rightarrow> (Some i, p\<lparr>fp_used := insert i (fp_used p)\<rparr>)
      | None \<Rightarrow> (None, p))"

definition allocUIDLocked :: "'h fc_prov \<Rightarrow> int option \<times> 'h fc_prov" where
  "allocUIDLocked p =
     (case alloc_loop (jc_uidMin (fp_jailer p)) (jc_uidMax (fp_jailer p) + 1) (fp_usedUIDs p) of
        Some uid \<Rightarrow> (Some uid, p\<lparr>fp_usedUIDs := insert uid (fp_usedUIDs p)\<rparr>)
      | None \<Rightarrow> (None, p))"

definition freeSlot :: "box_meta \<Rightarrow> 'h fc_prov \<Rightarrow> 'h fc_prov" where
  "freeSlot m p = p\<lparr>fp_used := fp_used p - {bm_NetIndex m}, fp_usedUIDs := fp_usedUIDs p - {bm_UID m}\<rparr>"

subsection \<open>Booting\<close>

definition kernel_args :: "'h fc_prov \<Rightarrow> box_meta \<Rightarrow> string" where
  "kernel_args p m =
     ''console=ttyS0 reboot=k panic=1 pci=off net.ifnames=0 init=/init'' @
     (if guestNetEnabled p then '' '' @ KernelIPArg (fc_netFor (bm_NetIndex m)) else [])"

definition perBoxRootfs :: "'h fc_prov \<Rightarrow> string \<Rightarrow> string" where
  "perBoxRootfs p token = filepath_join [boxDir (fp_stateDir p) token, ''rootfs.ext4'']"

definition vm_drives :: "'h fc_prov \<Rightarrow> box_meta \<Rightarrow> drive list" where
  "vm_drives p m =
     [\<lparr>dv_ID = ''rootfs'', dv_Path = perBoxRootfs p (bm_Token m), dv_Root = True, dv_ReadOnly = False\<rparr>] @
     (if fp_payloadImage p \<noteq> []
      then [\<lparr>dv_ID = ''payload'', dv_Path = fp_payloadImage p, dv_Root = False, dv_ReadOnly = True\<rparr>] else [])"

definition vm_config :: "'h fc_prov \<Rightarrow> box_meta \<Rightarrow> fc_config" where
  "vm_config p m =
     \<lparr>fcc_SocketPath = apiSockPath m (fp_stateDir p), fcc_KernelImagePath = fp_kernelImage p,
      fcc_KernelArgs = kernel_args p m, fcc_Drives = vm_drives p m,
      fcc_VcpuCount = vcpuCount (fp_limits p), fcc_MemSizeMib = memSizeMib (fp_limits p),
      fcc_VsockPath = vsockUDSPath m (fp_stateDir p),
      fcc_Jailer = jailerCfgFor (fp_jailer p) (bm_UID m) (bm_Token m) (fp_kernelImage p),
      fcc_NIC = (if guestNetEnabled p
                 then Some (macForIndex (bm_NetIndex m), bn_TapName (fc_netFor (bm_NetIndex m))) else None)\<rparr>"

definition drop_chroot :: "box_meta \<Rightarrow> host_call list" where
  "drop_chroot m = (if chrootInstanceDir m = [] then [] else [RemoveAll (chrootInstanceDir m)])"

definition bootMachine ::
  "boot_env \<Rightarrow> box_meta \<Rightarrow> 'h fc_prov \<Rightarrow> (boot_error + bool) \<times> 'h fc_prov"
where
  "bootMachine env m p =
     (let tok = bm_Token m;
          started = drop_chroot m @ [NewMachine tok (vm_config p m), StartVM tok];
          served = started @ (if fp_ports p then [ServeAPI tok (bm_BoxID m)] else []);
          owned = served @ (if fp_ports p then [ChownSocket tok (bm_UID m) (bm_GID m)] else [])
      in
      if chrootInstanceDir m \<noteq> [] \<and> \<not> be_rmChroot env then (Inl ChrootStuck, log_calls (drop_chroot m) p)
      else if \<not> be_new env then
        (Inl CreateFailed, log_calls (drop_chroot m @ [NewMachine tok (vm_config p m)] @ drop_chroot m) p)
      else if \<not> be_start env then (Inl StartFailed, log_calls (started @ [StopVM tok] @ drop_chroot m) p)
      else if fp_ports p \<and> \<not> be_serve env then
        (Inl ServeFailed, log_calls (served @ [StopVM tok] @ drop_chroot m) p)
      else if fp_ports p \<and> \<not> be_chown env then
        (Inl SocketOwnership, log_calls (owned @ [StopVM tok, CloseAPI tok] @ drop_chroot m) p)
      else if \<not> be_guest env then
        (Inl GuestSilent, log_calls (owned @ [StopVM tok] @ (if fp_ports p then [CloseAPI tok] else []) @ drop_chroot m) p)
      else (Inr (fp_ports p), log_calls owned p))"

subsection \<open>Provision\<close>

text \<open>\<^verbatim>\<open>os.RemoveAll\<close> of a box directory, whose error the code drops.\<close>

definition remove_box_dir :: "bool \<Rightarrow> string \<Rightarrow> 'h fc_prov \<Rightarrow> 'h fc_prov" where
  "remove_box_dir ok tok p =
     log_calls [RemoveAll (boxDir (fp_stateDir p) tok)]
       (if ok then p\<lparr>fp_disk := tdel tok (fp_disk p)\<rparr> else p)"

definition provision_reserve ::
  "'h exec \<Rightarrow> fc_env \<Rightarrow> create_options \<Rightarrow> 'h fc_prov \<Rightarrow> (fc_error + box_meta) \<times> 'h fc_prov"
where
  "provision_reserve exec env opts p =
     (if co_BoxID opts \<noteq> [] \<and> \<not> ValidBoxID (co_BoxID opts) then (Inl (FcInvalidBoxID (co_BoxID opts)), p)
      else if fp_kernelImage p = [] \<or> fp_defaultRootfs p = [] then (Inl FcMissingImages, p)
      else case EnsureNetwork exec p of
        (Some e, p1) \<Rightarrow> (Inl (FcNetwork e), p1)
      | (None, p1) \<Rightarrow>
          (case fe_token env of
             None \<Rightarrow> (Inl FcToken, p1)
           | Some token \<Rightarrow>
               (case allocIndexLocked p1 of
                  (None, p2) \<Rightarrow> (Inl (FcNoSlot (fp_poolSize p)), p2)
                | (Some index, p2) \<Rightarrow>
                    (case allocUIDLocked p2 of
                       (None, p3) \<Rightarrow>
                         (Inl (FcNoUID (jc_uidMin (fp_jailer p)) (jc_uidMax (fp_jailer p))),
                          p3\<lparr>fp_used := fp_used p3 - {index}\<rparr>)
                     | (Some uid, p3) \<Rightarrow>
                         (Inr \<lparr>bm_Token = token, bm_BoxID = co_BoxID opts, bm_Description = co_Description opts,
                               bm_Image = fp_defaultRootfs p, bm_Phase = ''pending'', bm_Paused = False,
                               bm_Created = fe_now env, bm_NetIndex = index, bm_UID = uid,
                               bm_GID = jc_gid (fp_jailer p), bm_ChrootBase = jc_chrootBase (fp_jailer p),
                               bm_ExecBase = execBase (fp_jailer p), bm_DiskBytes = 0,
                               bm_Namespace = fp_namespace p\<rparr>, p3)))))"

definition stage_rootfs ::
  "fc_env \<Rightarrow> create_options \<Rightarrow> box_meta \<Rightarrow> 'h fc_prov \<Rightarrow> (fc_error + box_meta) \<times> 'h fc_prov"
where
  "stage_rootfs env opts m p =
     (case fe_baseSize env of
        None \<Rightarrow> (Inl FcStat, freeSlot m p)
      | Some base \<Rightarrow>
          if \<not> fe_mkdir env then (Inl FcMkdir, freeSlot m p)
          else
            (let p1 = p\<lparr>fp_disk := mkdir (bm_Token m) (fp_disk p)\<rparr>;
                 undo = (\<lambda>q. freeSlot m (remove_box_dir (fe_rm env) (bm_Token m) q));
                 diskBytes = diskBytesFor (fp_limits p) (co_DiskBytes opts) base
             in
             if \<not> fe_copy env then (Inl FcCopy, undo p1)
             else if diskBytes > base \<and> \<not> fe_truncate env then (Inl (FcResize diskBytes), undo p1)
             else if \<not> fe_chown env then (Inl FcOwnership, undo p1)
             else (Inr (m\<lparr>bm_DiskBytes := diskBytes\<rparr>), p1)))"

definition provision_build ::
  "fc_env \<Rightarrow> create_options \<Rightarrow> box_meta \<Rightarrow> 'h fc_prov \<Rightarrow> (fc_error + box_meta \<times> bool) \<times> 'h fc_prov"
where
  "provision_build env opts m0 p =
     (case stage_rootfs env opts m0 p of
        (Inl e, p1) \<Rightarrow> (Inl e, p1)
      | (Inr m, p1) \<Rightarrow>
          (let undo = (\<lambda>q. freeSlot m (log_calls [RemoveAll (chrootInstanceDir m)]
                                          (remove_box_dir (fe_rm env) (bm_Token m) q)))
           in case bootMachine (fe_boot env) m p1 of
                (Inl e, p2) \<Rightarrow> (Inl (FcBoot e), undo p2)
              | (Inr api, p2) \<Rightarrow>
                  (case save (fe_save env) m (fp_disk p2) of
                     (Some f, d) \<Rightarrow>
                       (Inl (FcSave f),
                        undo (log_calls ([StopVM (bm_Token m)] @ (if api then [CloseAPI (bm_Token m)] else []))
                                (p2\<lparr>fp_disk := d\<rparr>)))
                   | (None, d) \<Rightarrow> (Inr (m, api), p2\<lparr>fp_disk := d\<rparr>))))"

definition provision_commit :: "box_meta \<Rightarrow> bool \<Rightarrow> 'h fc_prov \<Rightarrow> nat \<times> 'h fc_prov" where
  "provision_commit m api p =
     (let inst = \<lparr>fi_meta = m, fi_vsockUDS = vsockUDSPath m (fp_stateDir p), fi_net = fc_netFor (bm_NetIndex m),
                  fi_machine = True, fi_api = api, fi_alive = False\<rparr>;
          r = length (fp_heap p)
      in (r, p\<lparr>fp_heap := fp_heap p @ [inst], fp_boxes := tput (bm_Token m) r (fp_boxes p)\<rparr>))"

definition Provision ::
  "'h exec \<Rightarrow> fc_env \<Rightarrow> create_options \<Rightarrow> 'h fc_prov \<Rightarrow> (fc_error + nat) \<times> 'h fc_prov"
where
  "Provision exec env opts p =
     (case provision_reserve exec env opts p of
        (Inl e, p1) \<Rightarrow> (Inl e, p1)
      | (Inr m0, p1) \<Rightarrow>
          (case provision_build env opts m0 p1 of
             (Inl e, p2) \<Rightarrow> (Inl e, p2)
           | (Inr (m, api), p2) \<Rightarrow> (case provision_commit m api p2 of (r, p3) \<Rightarrow> (Inr r, p3))))"

subsection \<open>Listing and resolving\<close>

definition fc_Meta :: "fc_instance \<Rightarrow> box" where
  "fc_Meta i =
     toBox (fi_meta i)
       (if bm_Paused (fi_meta i) then StatePaused
        else if fi_machine i \<or> fi_alive i then ''running'' else ''stopped'')"

definition fc_List :: "'h fc_prov \<Rightarrow> nat list" where
  "fc_List p =
     filter (\<lambda>r. \<not> (fp_namespace p \<noteq> [] \<and> bm_Namespace (fi_meta (fp_heap p ! r)) \<noteq> fp_namespace p))
       (map snd (fp_boxes p))"

definition handle_matches :: "string \<Rightarrow> box \<Rightarrow> bool" where
  "handle_matches idOrName b \<longleftrightarrow>
     box_InstanceID b = idOrName \<or>
     (box_BoxID b \<noteq> [] \<and> box_BoxID b = idOrName) \<or>
     box_Name b = idOrName \<or>
     has_prefix (box_InstanceID b) idOrName \<or>
     box_Name b = namePrefix ''pending'' @ idOrName \<or>
     box_Name b = namePrefix ''ready'' @ idOrName"

definition fc_Find :: "string \<Rightarrow> 'h fc_prov \<Rightarrow> fc_error + nat" where
  "fc_Find idOrName p =
     (case find (\<lambda>r. handle_matches idOrName (fc_Meta (fp_heap p ! r))) (fc_List p) of
        Some r \<Rightarrow> Inr r
      | None \<Rightarrow> Inl (FcNotFound idOrName))"

definition fc_Close :: "'h fc_prov \<Rightarrow> 'h fc_prov" where
  "fc_Close p =
     log_calls (map (\<lambda>(tok, r). CloseAPI tok) (filter (\<lambda>(tok, r). fi_api (fp_heap p ! r)) (fp_boxes p))) p"

subsection \<open>Operations on a handle\<close>

definition upd_inst :: "nat \<Rightarrow> (fc_instance \<Rightarrow> fc_instance) \<Rightarrow> 'h fc_prov \<Rightarrow> 'h fc_prov" where
  "upd_inst r f p = p\<lparr>fp_heap := (fp_heap p)[r := f (fp_heap p ! r)]\<rparr>"

abbreviation inst_token :: "'h fc_prov \<Rightarrow> nat \<Rightarrow> string" where
  "inst_token p r \<equiv> bm_Token (fi_meta (fp_heap p ! r))"

definition save_inst :: "save_fault \<Rightarrow> nat \<Rightarrow> 'h fc_prov \<Rightarrow> fc_error option \<times> 'h fc_prov" where
  "save_inst f r p =
     (case save f (fi_meta (fp_heap p ! r)) (fp_disk p) of
        (Some e, d) \<Rightarrow> (Some (FcSave e), p\<lparr>fp_disk := d\<rparr>)
      | (None, d) \<Rightarrow> (None, p\<lparr>fp_disk := d\<rparr>))"

definition set_ready :: "fc_instance \<Rightarrow> fc_instance" where
  "set_ready i = i\<lparr>fi_meta := (fi_meta i)\<lparr>bm_Phase := ''ready''\<rparr>\<rparr>"

definition MarkReady :: "save_fault \<Rightarrow> nat \<Rightarrow> 'h fc_prov \<Rightarrow> fc_error option \<times> 'h fc_prov" where
  "MarkReady f r p =
     (let p1 = upd_inst r set_ready p;
          p2 = (case tget (fp_boxes p1) (inst_token p r) of
                  Some l \<Rightarrow> upd_inst l set_ready p1
                | None \<Rightarrow> p1)
      in save_inst f r p2)"

definition stop_calls :: "'h fc_prov \<Rightarrow> nat \<Rightarrow> host_call list" where
  "stop_calls p r =
     (if fi_machine (fp_heap p ! r) then [StopVM (inst_token p r)]
      else if fi_alive (fp_heap p ! r) then [HaltVM (inst_token p r)] else [])"

definition close_api :: "'h fc_prov \<Rightarrow> nat \<Rightarrow> host_call list" where
  "close_api p r = (if fi_api (fp_heap p ! r) then [CloseAPI (inst_token p r)] else [])"

definition Pause :: "save_fault \<Rightarrow> nat \<Rightarrow> 'h fc_prov \<Rightarrow> fc_error option \<times> 'h fc_prov" where
  "Pause f r p =
     (if tget (fp_boxes p) (inst_token p r) = None then (Some (FcNotFound (inst_token p r)), p)
      else save_inst f r
             (upd_inst r (\<lambda>i. i\<lparr>fi_machine := False, fi_alive := False, fi_api := False,
                                 fi_meta := (fi_meta i)\<lparr>bm_Paused := True\<rparr>\<rparr>)
               (log_calls (stop_calls p r @ close_api p r) p)))"

definition Resume :: "boot_env \<Rightarrow> save_fault \<Rightarrow> nat \<Rightarrow> 'h fc_prov \<Rightarrow> fc_error option \<times> 'h fc_prov" where
  "Resume env f r p =
     (if tget (fp_boxes p) (inst_token p r) = None then (Some (FcNotFound (inst_token p r)), p)
      else case bootMachine env (fi_meta (fp_heap p ! r)) p of
             (Inl e, p1) \<Rightarrow> (Some (FcBoot e), p1)
           | (Inr api, p1) \<Rightarrow>
               save_inst f r
                 (upd_inst r (\<lambda>i. i\<lparr>fi_machine := True, fi_api := api, fi_alive := False,
                                     fi_meta := (fi_meta i)\<lparr>bm_Paused := False\<rparr>\<rparr>) p1))"

definition Destroy :: "bool \<Rightarrow> nat \<Rightarrow> 'h fc_prov \<Rightarrow> fc_error option \<times> 'h fc_prov" where
  "Destroy rm r p =
     (let m = fi_meta (fp_heap p ! r);
          present = (tget (fp_boxes p) (bm_Token m) \<noteq> None);
          p1 = freeSlot m (p\<lparr>fp_boxes := tdel (bm_Token m) (fp_boxes p)\<rparr>);
          p2 = log_calls (close_api p r @ stop_calls p r) p1;
          p3 = log_calls (drop_chroot m) (remove_box_dir rm (bm_Token m) p2)
      in (if present then None else Some (FcNotFound (bm_Token m)), p3))"

subsection \<open>Restart\<close>

fun rehydrate_metas ::
  "(string \<Rightarrow> bool) \<Rightarrow> (string \<Rightarrow> bool) \<Rightarrow> box_meta list \<Rightarrow> 'h fc_prov \<Rightarrow> 'h fc_prov"
where
  "rehydrate_metas vmmAlive serveOK [] p = p"
| "rehydrate_metas vmmAlive serveOK (m # ms) p =
     (let uds = vsockUDSPath m (fp_stateDir p);
          inst = \<lparr>fi_meta = m, fi_vsockUDS = uds, fi_net = fc_netFor (bm_NetIndex m), fi_machine = False,
                  fi_api = (fp_ports p \<and> serveOK uds), fi_alive = vmmAlive (apiSockPath m (fp_stateDir p))\<rparr>
      in rehydrate_metas vmmAlive serveOK ms
           (log_calls (if fp_ports p then [ServeAPI (bm_Token m) (bm_BoxID m)] else [])
             (p\<lparr>fp_heap := fp_heap p @ [inst],
                fp_boxes := tput (bm_Token m) (length (fp_heap p)) (fp_boxes p),
                fp_used := insert (bm_NetIndex m) (fp_used p),
                fp_usedUIDs := (if bm_UID m > 0 then insert (bm_UID m) (fp_usedUIDs p) else fp_usedUIDs p)\<rparr>)))"

definition rehydrate ::
  "(string \<Rightarrow> bool) \<Rightarrow> (string \<Rightarrow> bool) \<Rightarrow> dir_read \<Rightarrow> 'h fc_prov \<Rightarrow> fc_error option \<times> 'h fc_prov"
where
  "rehydrate vmmAlive serveOK r p =
     (case loadMetas r (fp_disk p) of
        None \<Rightarrow> (Some FcUnreadable, p)
      | Some ms \<Rightarrow> (None, rehydrate_metas vmmAlive serveOK ms p))"

definition NewProvisioner ::
  "string \<Rightarrow> (string \<Rightarrow> bool) \<Rightarrow> (string \<Rightarrow> bool) \<Rightarrow> dir_read \<Rightarrow> string \<Rightarrow> string \<Rightarrow> string \<Rightarrow> bool \<Rightarrow>
   state_dir \<Rightarrow> 'h \<Rightarrow> fc_error + 'h fc_prov"
where
  "NewProvisioner cgroup vmmAlive serveOK r kernelImage defaultRootfs stateDir ports disk host =
     (let sd = (if stateDir = [] then ''/run/llmbox/firecracker'' else stateDir);
          p = \<lparr>fp_kernelImage = kernelImage, fp_defaultRootfs = defaultRootfs, fp_payloadImage = [],
               fp_stateDir = sd, fp_firecrackerBin = ''firecracker'', fp_namespace = [],
               fp_limits = \<lparr>lim_MemoryBytes = 0, lim_NanoCPUs = 0, lim_PidsLimit = 0, lim_MaxBoxes = 0,
                            lim_DiskBytes = 0, lim_MaxDiskBytes = 0\<rparr>,
               fp_egress = newHostEgress [] 0, fp_egressMode = EgressManaged, fp_poolSize = defaultPoolSize,
               fp_poolDone = False, fp_poolErr = None, fp_ports = ports, fp_jailer = defaultJailerConfig cgroup sd,
               fp_heap = [], fp_boxes = [], fp_used = {}, fp_usedUIDs = {}, fp_disk = disk, fp_host = host,
               fp_calls = []\<rparr>
      in case rehydrate vmmAlive serveOK r p of
           (Some e, p1) \<Rightarrow> Inl e
         | (None, p1) \<Rightarrow> Inr p1)"

end
