(* ===== verification/FcLeases.thy ===== *)
theory FcLeases
  imports Firecracker
begin

text \<open>
  What the Firecracker provisioner promises about pool slots, user ids and persisted boxes: an
  abstract machine of leases (\<open>lease_step\<close>), the provisioner under any interleaving of creates,
  handle operations, crashes and restarts (\<open>fc_step\<close>), and the proof that the second refines the
  first.
\<close>

subsection \<open>The abstract lease machine\<close>

text \<open>
  A lease is a box's identity with its slot and user id. \<open>ls_pending\<close> holds the creates in flight,
  \<open>ls_live\<close> the boxes of the running provisioner, \<open>ls_saved\<close> what the state directory remembers.
\<close>

record leases =
  ls_pending :: "box_meta set"
  ls_live :: "box_meta set"
  ls_saved :: "box_meta set"

definition held :: "leases \<Rightarrow> box_meta set" where
  "held l = ls_pending l \<union> ls_live l"

definition lease_inv :: "leases \<Rightarrow> bool" where
  "lease_inv l \<longleftrightarrow>
     inj_on bm_Token (held l) \<and> inj_on bm_NetIndex (held l) \<and> inj_on bm_UID (held l) \<and>
     ls_live l \<subseteq> ls_saved l \<and> ls_saved l \<subseteq> held l \<and> ls_pending l \<inter> ls_live l = {}"

inductive lease_step :: "leases \<Rightarrow> leases \<Rightarrow> bool" where
  ls_reserve: "bm_Token m \<notin> bm_Token ` held l \<Longrightarrow> bm_NetIndex m \<notin> bm_NetIndex ` held l \<Longrightarrow>
     bm_UID m \<notin> bm_UID ` held l \<Longrightarrow> lease_step l (l\<lparr>ls_pending := insert m (ls_pending l)\<rparr>)"
| ls_save: "m \<in> ls_pending l \<Longrightarrow> lease_step l (l\<lparr>ls_saved := insert m (ls_saved l)\<rparr>)"
| ls_abort: "m \<in> ls_pending l \<Longrightarrow> m \<notin> ls_saved l \<Longrightarrow> lease_step l (l\<lparr>ls_pending := ls_pending l - {m}\<rparr>)"
| ls_commit: "m \<in> ls_pending l \<Longrightarrow> m \<in> ls_saved l \<Longrightarrow>
     lease_step l (l\<lparr>ls_pending := ls_pending l - {m}, ls_live := insert m (ls_live l)\<rparr>)"
| ls_destroy: "m \<in> ls_live l \<Longrightarrow>
     lease_step l (l\<lparr>ls_live := ls_live l - {m}, ls_saved := ls_saved l - {m}\<rparr>)"
| ls_restart: "lease_step l (l\<lparr>ls_pending := {}, ls_live := ls_saved l\<rparr>)"

lemma inj_on_insert_new: "inj_on f A \<Longrightarrow> f x \<notin> f ` A \<Longrightarrow> inj_on f (insert x A)"
  unfolding inj_on_insert by blast

lemma lease_step_inv: "lease_step l l' \<Longrightarrow> lease_inv l \<Longrightarrow> lease_inv l'"
proof (induction rule: lease_step.induct)
  case (ls_reserve m l)
  have "held (l\<lparr>ls_pending := insert m (ls_pending l)\<rparr>) = insert m (held l)" by (auto simp: held_def)
  moreover have "m \<notin> held l" using ls_reserve by auto
  ultimately show ?case using ls_reserve unfolding lease_inv_def
    by (auto simp: inj_on_insert_new held_def)
next
  case (ls_save m l)
  then show ?case by (auto simp: lease_inv_def held_def)
next
  case (ls_abort m l)
  have "held (l\<lparr>ls_pending := ls_pending l - {m}\<rparr>) \<subseteq> held l" by (auto simp: held_def)
  with ls_abort show ?case unfolding lease_inv_def by (auto simp: held_def intro: inj_on_subset)
next
  case (ls_commit m l)
  then have "held (l\<lparr>ls_pending := ls_pending l - {m}, ls_live := insert m (ls_live l)\<rparr>) = held l"
    by (auto simp: held_def)
  with ls_commit show ?case unfolding lease_inv_def by auto
next
  case (ls_destroy m l)
  have "held (l\<lparr>ls_live := ls_live l - {m}, ls_saved := ls_saved l - {m}\<rparr>) \<subseteq> held l" by (auto simp: held_def)
  with ls_destroy show ?case unfolding lease_inv_def by (auto simp: held_def intro: inj_on_subset)
next
  case (ls_restart l)
  then have "held (l\<lparr>ls_pending := {}, ls_live := ls_saved l\<rparr>) \<subseteq> held l" by (auto simp: lease_inv_def held_def)
  with ls_restart show ?case unfolding lease_inv_def by (auto simp: held_def intro: inj_on_subset)
qed

subsection \<open>Allocation\<close>

lemma alloc_loop_spec:
  "(alloc_loop lo hi taken = None \<longleftrightarrow> {lo..<hi} \<subseteq> taken) \<and>
   (alloc_loop lo hi taken = Some i \<longleftrightarrow>
      lo \<le> i \<and> i < hi \<and> i \<notin> taken \<and> {lo..<i} \<subseteq> taken)"
proof (induction lo hi taken rule: alloc_loop.induct)
  case (1 lo hi taken)
  note simps = alloc_loop.simps [of lo hi taken]
  show ?case
  proof (cases "lo < hi \<and> lo \<in> taken")
    case True
    then have step: "alloc_loop lo hi taken = alloc_loop (lo + 1) hi taken" using simps by simp
    have range: "{lo..<j} = insert lo {lo + 1..<j}" if "lo < j" for j using that by auto
    then have "{lo..<hi} \<subseteq> taken \<longleftrightarrow> {lo + 1..<hi} \<subseteq> taken" using True by simp
    moreover have "lo \<le> i \<and> i < hi \<and> i \<notin> taken \<and> {lo..<i} \<subseteq> taken \<longleftrightarrow>
        lo + 1 \<le> i \<and> i < hi \<and> i \<notin> taken \<and> {lo + 1..<i} \<subseteq> taken"
    proof (cases "lo < i")
      case True
      then show ?thesis using \<open>lo < hi \<and> lo \<in> taken\<close> by (simp add: range)
    next
      case False
      then show ?thesis using \<open>lo < hi \<and> lo \<in> taken\<close> by (cases "i = lo") simp_all
    qed
    ultimately show ?thesis using 1 True unfolding step by simp
  next
    case False
    show ?thesis
    proof (cases "lo < hi")
      case True
      with False have free: "lo \<notin> taken" by simp
      with True simps have "alloc_loop lo hi taken = Some lo" by simp
      moreover have "lo \<in> {lo..<hi}" "lo < i \<Longrightarrow> lo \<in> {lo..<i}" using True by auto
      ultimately show ?thesis using free True by (cases "lo < i") auto
    next
      case False
      with simps show ?thesis by simp
    qed
  qed
qed

subsection \<open>The provisioner as a lease machine\<close>

text \<open>A create in flight: its reservation, and once its metadata is saved the state of its listener.\<close>

type_synonym flight = "box_meta \<times> bool option"

definition ident :: "box_meta \<Rightarrow> box_meta" where
  "ident m = m\<lparr>bm_Phase := [], bm_Paused := False, bm_DiskBytes := 0\<rparr>"

definition disk_meta :: "state_dir \<Rightarrow> string \<Rightarrow> box_meta option" where
  "disk_meta d t = (case tget d t of Some (BoxEntry (Some m)) \<Rightarrow> Some m | _ \<Rightarrow> None)"

definition disk_id :: "state_dir \<Rightarrow> string \<Rightarrow> box_meta option" where
  "disk_id d t = map_option ident (disk_meta d t)"

definition live_id :: "'h fc_prov \<Rightarrow> string \<Rightarrow> box_meta option" where
  "live_id p t = map_option (\<lambda>r. ident (fi_meta (fp_heap p ! r))) (tget (fp_boxes p) t)"

definition abs_leases :: "flight list \<Rightarrow> 'h fc_prov \<Rightarrow> leases" where
  "abs_leases fl p =
     \<lparr>ls_pending = ident ` fst ` set fl, ls_live = ran (live_id p), ls_saved = ran (disk_id (fp_disk p))\<rparr>"

definition drop_flight :: "string \<Rightarrow> flight list \<Rightarrow> flight list" where
  "drop_flight t fl = filter (\<lambda>(m, b). bm_Token m \<noteq> t) fl"

definition fresh_token :: "string \<Rightarrow> flight list \<Rightarrow> 'h fc_prov \<Rightarrow> bool" where
  "fresh_token t fl p \<longleftrightarrow>
     t \<noteq> [] \<and> t \<notin> bm_Token ` fst ` set fl \<and> tget (fp_boxes p) t = None \<and> tget (fp_disk p) t = None"

definition live_handle :: "nat \<Rightarrow> 'h fc_prov \<Rightarrow> bool" where
  "live_handle r p \<longleftrightarrow> tget (fp_boxes p) (inst_token p r) = Some r"

definition fc_restart :: "(string \<Rightarrow> bool) \<Rightarrow> (string \<Rightarrow> bool) \<Rightarrow> 'h fc_prov \<Rightarrow> 'h fc_prov" where
  "fc_restart vmmAlive serveOK p =
     snd (rehydrate vmmAlive serveOK DirRead
       (p\<lparr>fp_heap := [], fp_boxes := [], fp_used := {}, fp_usedUIDs := {},
          fp_poolDone := False, fp_poolErr := None\<rparr>))"

text \<open>
  One step of the provisioner. A create is three steps (its two critical sections and the work
  between them); a crash loses the creates in flight; handles are those of live boxes, and a
  destroy manages to remove the state directory.
\<close>

inductive fc_step :: "'h exec \<Rightarrow> flight list \<times> 'h fc_prov \<Rightarrow> flight list \<times> 'h fc_prov \<Rightarrow> bool"
  for exec :: "'h exec"
where
  st_reserve: "provision_reserve exec env opts p = (Inr m, p') \<Longrightarrow> fresh_token (bm_Token m) fl p \<Longrightarrow>
    fc_step exec (fl, p) ((m, None) # fl, p')"
| st_refuse: "provision_reserve exec env opts p = (Inl e, p') \<Longrightarrow> fc_step exec (fl, p) (fl, p')"
| st_build: "(m, None) \<in> set fl \<Longrightarrow> provision_build env opts m p = (Inr (m', api), p') \<Longrightarrow>
    fc_step exec (fl, p) ((m', Some api) # drop_flight (bm_Token m) fl, p')"
| st_abort: "(m, None) \<in> set fl \<Longrightarrow> provision_build env opts m p = (Inl e, p') \<Longrightarrow>
    fc_step exec (fl, p) (drop_flight (bm_Token m) fl, p')"
| st_commit: "(m, Some api) \<in> set fl \<Longrightarrow>
    fc_step exec (fl, p) (drop_flight (bm_Token m) fl, snd (provision_commit m api p))"
| st_ready: "live_handle r p \<Longrightarrow> fc_step exec (fl, p) (fl, snd (MarkReady f r p))"
| st_pause: "live_handle r p \<Longrightarrow> fc_step exec (fl, p) (fl, snd (Pause f r p))"
| st_resume: "live_handle r p \<Longrightarrow> fc_step exec (fl, p) (fl, snd (Resume env f r p))"
| st_destroy: "live_handle r p \<Longrightarrow> fc_step exec (fl, p) (fl, snd (Destroy True r p))"
| st_restart: "fc_step exec (fl, p) ([], fc_restart vmmAlive serveOK p)"

text \<open>What the representation satisfies beside the abstract invariant.\<close>

definition disk_ok :: "state_dir \<Rightarrow> bool" where
  "disk_ok d \<longleftrightarrow> keys_distinct d \<and> (\<forall>t m. disk_meta d t = Some m \<longrightarrow> bm_Token m = t \<and> t \<noteq> [])"

definition heap_ok :: "'h fc_prov \<Rightarrow> bool" where
  "heap_ok p \<longleftrightarrow> keys_distinct (fp_boxes p) \<and>
     (\<forall>t r. tget (fp_boxes p) t = Some r \<longrightarrow> r < length (fp_heap p) \<and> inst_token p r = t)"

definition flights_ok :: "flight list \<Rightarrow> state_dir \<Rightarrow> bool" where
  "flights_ok fl d \<longleftrightarrow> distinct (map (\<lambda>(m, b). bm_Token m) fl) \<and>
     (\<forall>m b. (m, b) \<in> set fl \<longrightarrow> bm_Token m \<noteq> [] \<and>
        disk_id d (bm_Token m) = (if b = None then None else Some (ident m)))"

definition in_pool :: "'h fc_prov \<Rightarrow> box_meta \<Rightarrow> bool" where
  "in_pool p m \<longleftrightarrow> 0 \<le> bm_NetIndex m \<and> bm_NetIndex m < fp_poolSize p \<and>
     jc_uidMin (fp_jailer p) \<le> bm_UID m \<and> bm_UID m \<le> jc_uidMax (fp_jailer p)"

definition pool_ok :: "flight list \<Rightarrow> 'h fc_prov \<Rightarrow> bool" where
  "pool_ok fl p \<longleftrightarrow> 0 < jc_uidMin (fp_jailer p) \<and>
     fp_used p = bm_NetIndex ` held (abs_leases fl p) \<and>
     fp_usedUIDs p = bm_UID ` held (abs_leases fl p) \<and>
     (\<forall>m \<in> held (abs_leases fl p). in_pool p m)"

definition fc_inv :: "flight list \<times> 'h fc_prov \<Rightarrow> bool" where
  "fc_inv = (\<lambda>(fl, p). disk_ok (fp_disk p) \<and> heap_ok p \<and> flights_ok fl (fp_disk p) \<and> pool_ok fl p \<and>
     lease_inv (abs_leases fl p))"

subsubsection \<open>Identities, disk and flights\<close>

lemma ident_simps [simp]:
  "bm_Token (ident m) = bm_Token m" "bm_NetIndex (ident m) = bm_NetIndex m" "bm_UID (ident m) = bm_UID m"
  "ident (m\<lparr>bm_Phase := ph\<rparr>) = ident m" "ident (m\<lparr>bm_Paused := b\<rparr>) = ident m"
  "ident (m\<lparr>bm_DiskBytes := k\<rparr>) = ident m"
  by (simp_all add: ident_def)

lemma in_pool_ident [simp]: "in_pool p (ident m) = in_pool p m"
  by (simp add: in_pool_def)

lemma disk_meta_mkdir [simp]: "disk_meta (mkdir t d) = disk_meta d"
  by (rule ext) (simp add: disk_meta_def mkdir_def)

lemma disk_meta_tdel [simp]: "disk_meta (tdel t d) = (disk_meta d)(t := None)"
  by (rule ext) (simp add: disk_meta_def)

lemma disk_meta_save:
  "disk_meta (snd (save f m d)) = (if f = SaveOk then (disk_meta d)(bm_Token m \<mapsto> m) else disk_meta d)"
  by (rule ext) (cases f; simp add: save_def disk_meta_def mkdir_def)

lemma keys_distinct_disk [simp]:
  "keys_distinct d \<Longrightarrow> keys_distinct (mkdir t d)" "keys_distinct d \<Longrightarrow> keys_distinct (snd (save f m d))"
  by (cases f; simp add: save_def mkdir_def)+

lemma disk_id_eq: "disk_id d = map_option ident \<circ> disk_meta d"
  by (rule ext) (simp add: disk_id_def)

lemma set_drop_flight: "set (drop_flight t fl) = {(m, b) \<in> set fl. bm_Token m \<noteq> t}"
  by (auto simp: drop_flight_def)

lemma flight_unique:
  assumes "flights_ok fl d" "(m, b) \<in> set fl" "(m', b') \<in> set fl" "bm_Token m = bm_Token m'"
  shows "m = m' \<and> b = b'"
proof -
  have "inj_on (\<lambda>(m, b). bm_Token m) (set fl)" using assms(1) by (simp add: flights_ok_def distinct_map)
  from inj_onD [OF this, of "(m, b)" "(m', b')"] assms show ?thesis by simp
qed

lemma pending_drop:
  assumes "flights_ok fl d" "(m, b) \<in> set fl"
  shows "ident ` fst ` set (drop_flight (bm_Token m) fl) = ident ` fst ` set fl - {ident m}"
proof (intro set_eqI iffI)
  fix x assume "x \<in> ident ` fst ` set (drop_flight (bm_Token m) fl)"
  then obtain m' b' where x: "x = ident m'" "(m', b') \<in> set fl" "bm_Token m' \<noteq> bm_Token m"
    unfolding set_drop_flight by fastforce
  then have "x \<noteq> ident m" using ident_simps(1) by metis
  with x show "x \<in> ident ` fst ` set fl - {ident m}" by force
next
  fix x assume "x \<in> ident ` fst ` set fl - {ident m}"
  then obtain m' b' where x: "x = ident m'" "(m', b') \<in> set fl" "x \<noteq> ident m" by fastforce
  then have "bm_Token m' \<noteq> bm_Token m" using flight_unique [OF assms(1) x(2) assms(2)] by blast
  with x have "(m', b') \<in> set (drop_flight (bm_Token m) fl)" by (simp add: set_drop_flight)
  with x(1) show "x \<in> ident ` fst ` set (drop_flight (bm_Token m) fl)" by force
qed

lemma ran_del:
  assumes keyed: "\<And>t x. M t = Some x \<Longrightarrow> bm_Token x = t" and x: "M t = Some x"
  shows "ran (M(t := None)) = ran M - {x}"
proof (intro set_eqI iffI)
  fix y assume "y \<in> ran (M(t := None))"
  then obtain u where "M u = Some y" "u \<noteq> t" by (auto simp: ran_def split: if_splits)
  with keyed x show "y \<in> ran M - {x}" by (metis DiffI ranI singletonD)
next
  fix y assume "y \<in> ran M - {x}"
  then obtain u where "M u = Some y" "y \<noteq> x" by (auto simp: ran_def)
  with x have "u \<noteq> t" by auto
  with \<open>M u = Some y\<close> show "y \<in> ran (M(t := None))" by (auto simp: ran_def intro: exI [of _ u])
qed

subsubsection \<open>What each operation does to the bookkeeping\<close>

text \<open>The part of the provisioner the leases depend on.\<close>

definition core ::
  "'h fc_prov \<Rightarrow> fc_instance list \<times> (string, nat) table \<times> int set \<times> int set \<times> state_dir \<times> int \<times> jailer_config"
where
  "core p = (fp_heap p, fp_boxes p, fp_used p, fp_usedUIDs p, fp_disk p, fp_poolSize p, fp_jailer p)"

lemma core_log_calls [simp]: "core (log_calls cs p) = core p"
  by (simp add: core_def log_calls_def)

lemma core_EnsureNetwork: "core (snd (EnsureNetwork exec p)) = core p"
  by (auto simp: EnsureNetwork_def core_def Let_def split: egress_mode.split prod.split)

lemma core_bootMachine: "core (snd (bootMachine env m p)) = core p"
  by (auto simp: bootMachine_def Let_def)

lemma core_freeSlot:
  "core (freeSlot m p) = (fp_heap p, fp_boxes p, fp_used p - {bm_NetIndex m}, fp_usedUIDs p - {bm_UID m},
     fp_disk p, fp_poolSize p, fp_jailer p)"
  by (simp add: core_def freeSlot_def)

lemma core_remove_box_dir:
  "core (remove_box_dir ok t p) = (fp_heap p, fp_boxes p, fp_used p, fp_usedUIDs p,
     if ok then tdel t (fp_disk p) else fp_disk p, fp_poolSize p, fp_jailer p)"
  by (simp add: remove_box_dir_def) (simp add: core_def)

lemma provision_reserve_ok:
  assumes "provision_reserve exec env opts p = (Inr m, p')"
  shows "core p' = (fp_heap p, fp_boxes p, insert (bm_NetIndex m) (fp_used p), insert (bm_UID m) (fp_usedUIDs p),
      fp_disk p, fp_poolSize p, fp_jailer p) \<and>
    bm_NetIndex m \<notin> fp_used p \<and> bm_UID m \<notin> fp_usedUIDs p \<and> in_pool p m \<and>
    fe_token env = Some (bm_Token m) \<and> bm_BoxID m = co_BoxID opts \<and> bm_Phase m = ''pending'' \<and>
    bm_Namespace m = fp_namespace p \<and> {0..<bm_NetIndex m} \<subseteq> fp_used p"
proof -
  from assms obtain p1 where net: "EnsureNetwork exec p = (None, p1)"
    by (auto simp: provision_reserve_def split: if_splits prod.splits option.splits)
  have c: "core p1 = core p" using core_EnsureNetwork [of exec p] net by simp
  from assms net obtain tok i uid where tok: "fe_token env = Some tok"
    and i: "alloc_loop 0 (fp_poolSize p1) (fp_used p1) = Some i"
    and uid: "alloc_loop (jc_uidMin (fp_jailer p1)) (jc_uidMax (fp_jailer p1) + 1) (fp_usedUIDs p1) = Some uid"
    and m: "bm_Token m = tok" "bm_NetIndex m = i" "bm_UID m = uid" "bm_BoxID m = co_BoxID opts"
      "bm_Phase m = ''pending''" "bm_Namespace m = fp_namespace p"
    and p': "p' = p1\<lparr>fp_used := insert i (fp_used p1), fp_usedUIDs := insert uid (fp_usedUIDs p1)\<rparr>"
    by (auto simp: provision_reserve_def allocIndexLocked_def allocUIDLocked_def split: if_splits option.splits)
  have "core p' = (fp_heap p, fp_boxes p, insert i (fp_used p), insert uid (fp_usedUIDs p),
      fp_disk p, fp_poolSize p, fp_jailer p)" using c by (simp add: p' core_def)
  moreover have "0 \<le> i" "i < fp_poolSize p" "i \<notin> fp_used p" "{0..<i} \<subseteq> fp_used p"
    using i c alloc_loop_spec [of 0 "fp_poolSize p" "fp_used p"] by (auto simp: core_def)
  moreover have "jc_uidMin (fp_jailer p) \<le> uid" "uid < jc_uidMax (fp_jailer p) + 1" "uid \<notin> fp_usedUIDs p"
    using uid c alloc_loop_spec [of "jc_uidMin (fp_jailer p)" "jc_uidMax (fp_jailer p) + 1" "fp_usedUIDs p"]
    by (auto simp: core_def)
  ultimately show ?thesis using m tok by (simp add: in_pool_def)
qed

lemma provision_reserve_err:
  assumes "provision_reserve exec env opts p = (Inl e, p')"
  shows "core p' = core p"
proof -
  obtain r p1 where net: "EnsureNetwork exec p = (r, p1)" by fastforce
  have c: "core p1 = core p" using core_EnsureNetwork [of exec p] net by simp
  have "p' = p \<or> p' = p1 \<or> (\<exists>i. i \<notin> fp_used p1 \<and> p' = p1\<lparr>fp_used := insert i (fp_used p1) - {i}\<rparr>)"
    using assms net alloc_loop_spec [of 0 "fp_poolSize p1" "fp_used p1"]
    by (auto simp: provision_reserve_def allocIndexLocked_def allocUIDLocked_def split: if_splits option.splits)
  then show ?thesis using c by (auto simp: core_def)
qed

lemma stage_rootfs_ok:
  assumes "stage_rootfs env opts m p = (Inr m', p')"
  shows "(\<exists>k. m' = m\<lparr>bm_DiskBytes := k\<rparr>) \<and> p' = p\<lparr>fp_disk := mkdir (bm_Token m) (fp_disk p)\<rparr>"
  using assms by (auto simp: stage_rootfs_def Let_def split: option.splits if_splits)

lemma provision_build_ok:
  assumes "provision_build env opts m p = (Inr (m', api), p')"
  shows "(\<exists>k. m' = m\<lparr>bm_DiskBytes := k\<rparr>) \<and>
    core p' = (fp_heap p, fp_boxes p, fp_used p, fp_usedUIDs p,
      snd (save SaveOk m' (mkdir (bm_Token m) (fp_disk p))), fp_poolSize p, fp_jailer p)"
proof -
  from assms obtain p1 where st: "stage_rootfs env opts m p = (Inr m', p1)"
    by (auto simp: provision_build_def Let_def split: prod.splits sum.splits option.splits)
  with assms obtain p2 d where boot: "bootMachine (fe_boot env) m' p1 = (Inr api, p2)"
    and sv: "save (fe_save env) m' (fp_disk p2) = (None, d)" and p': "p' = p2\<lparr>fp_disk := d\<rparr>"
    by (auto simp: provision_build_def Let_def split: prod.splits sum.splits option.splits)
  have "fe_save env = SaveOk" using sv by (cases "fe_save env") (auto simp: save_def)
  moreover have "core p2 = core p1" using core_bootMachine [of "fe_boot env" m' p1] boot by simp
  ultimately show ?thesis using stage_rootfs_ok [OF st] sv p' by (simp add: core_def)
qed

text \<open>A build that fails gives the reservation back and leaves no metadata behind.\<close>

definition cleaned :: "box_meta \<Rightarrow> 'h fc_prov \<Rightarrow> 'h fc_prov \<Rightarrow> bool" where
  "cleaned m p p' \<longleftrightarrow>
     (\<exists>d. core p' = (fp_heap p, fp_boxes p, fp_used p - {bm_NetIndex m}, fp_usedUIDs p - {bm_UID m}, d,
            fp_poolSize p, fp_jailer p) \<and>
          (keys_distinct (fp_disk p) \<longrightarrow> keys_distinct d) \<and>
          (disk_meta d = disk_meta (fp_disk p) \<or> disk_meta d = (disk_meta (fp_disk p))(bm_Token m := None)))"

lemma cleanedI:
  assumes "core q = (fp_heap p, fp_boxes p, fp_used p, fp_usedUIDs p, d, fp_poolSize p, fp_jailer p)"
    and "keys_distinct (fp_disk p) \<Longrightarrow> keys_distinct d" and "disk_meta d = disk_meta (fp_disk p)"
    and "bm_NetIndex m' = bm_NetIndex m" "bm_UID m' = bm_UID m" "bm_Token m' = bm_Token m"
  shows "cleaned m p (freeSlot m' q)" "cleaned m p (freeSlot m' (remove_box_dir ok (bm_Token m') q))"
    "cleaned m p (freeSlot m' (log_calls cs (remove_box_dir ok (bm_Token m') q)))"
proof -
  have q: "fp_disk q = d" "fp_heap q = fp_heap p" "fp_boxes q = fp_boxes p" "fp_used q = fp_used p"
    "fp_usedUIDs q = fp_usedUIDs p" "fp_poolSize q = fp_poolSize p" "fp_jailer q = fp_jailer p"
    using assms(1) by (simp_all add: core_def)
  show "cleaned m p (freeSlot m' q)"
    unfolding cleaned_def core_freeSlot q assms using assms by blast
  have r: "cleaned m p (freeSlot m' x)" if "core x = core (remove_box_dir ok (bm_Token m') q)" for x
  proof -
    have "core x = (fp_heap p, fp_boxes p, fp_used p, fp_usedUIDs p, if ok then tdel (bm_Token m) d else d,
        fp_poolSize p, fp_jailer p)" using that by (simp add: core_remove_box_dir q assms(6))
    then have "core (freeSlot m' x) = (fp_heap p, fp_boxes p, fp_used p - {bm_NetIndex m}, fp_usedUIDs p - {bm_UID m},
        if ok then tdel (bm_Token m) d else d, fp_poolSize p, fp_jailer p)"
      using assms(4,5) by (simp add: core_freeSlot) (simp add: core_def)
    then show ?thesis unfolding cleaned_def
      by (intro exI conjI, assumption) (use assms(2,3) in \<open>auto simp: disk_meta_tdel\<close>)
  qed
  show "cleaned m p (freeSlot m' (remove_box_dir ok (bm_Token m') q))"
    "cleaned m p (freeSlot m' (log_calls cs (remove_box_dir ok (bm_Token m') q)))"
    by (rule r; simp)+
qed

lemma stage_rootfs_err:
  assumes "stage_rootfs env opts m p = (Inl e, p')"
  shows "cleaned m p p'"
proof -
  define p1 where "p1 = p\<lparr>fp_disk := mkdir (bm_Token m) (fp_disk p)\<rparr>"
  have "p' = freeSlot m p \<or> p' = freeSlot m (remove_box_dir (fe_rm env) (bm_Token m) p1)"
    using assms by (auto simp: stage_rootfs_def Let_def p1_def split: option.splits if_splits)
  moreover have "cleaned m p (freeSlot m p)"
    by (rule cleanedI(1) [where d = "fp_disk p"]) (simp_all add: core_def)
  moreover have "cleaned m p (freeSlot m (remove_box_dir (fe_rm env) (bm_Token m) p1))"
    by (rule cleanedI(2) [where d = "mkdir (bm_Token m) (fp_disk p)"]) (simp_all add: core_def p1_def)
  ultimately show ?thesis by blast
qed

lemma provision_build_err:
  assumes "provision_build env opts m p = (Inl e, p')"
  shows "cleaned m p p'"
proof (cases "stage_rootfs env opts m p")
  case (Pair r p1)
  show ?thesis
  proof (cases r)
    case (Inl e')
    with assms Pair have "p' = p1" by (simp add: provision_build_def)
    with Pair Inl show ?thesis using stage_rootfs_err by metis
  next
    case (Inr m')
    obtain k where m': "m' = m\<lparr>bm_DiskBytes := k\<rparr>" and p1: "p1 = p\<lparr>fp_disk := mkdir (bm_Token m) (fp_disk p)\<rparr>"
      using stage_rootfs_ok Pair Inr by metis
    define undo where
      "undo q = freeSlot m' (log_calls [RemoveAll (chrootInstanceDir m')] (remove_box_dir (fe_rm env) (bm_Token m') q))" for q :: "'a fc_prov"
    obtain b p2 where boot: "bootMachine (fe_boot env) m' p1 = (b, p2)" by fastforce
    have c2: "core p2 = core p1" using core_bootMachine [of "fe_boot env" m' p1] boot by simp
    have d2: "fp_disk p2 = mkdir (bm_Token m) (fp_disk p)" using c2 by (simp add: core_def p1)
    define sv where "sv = save (fe_save env) m' (fp_disk p2)"
    have faulty: "disk_meta (snd sv) = disk_meta (fp_disk p)" if "fst sv \<noteq> None"
      using that by (cases "fe_save env") (auto simp: sv_def save_def d2)
    have dist: "keys_distinct (fp_disk p) \<Longrightarrow> keys_distinct (snd sv)" by (simp add: sv_def d2)
    from assms Pair Inr boot have cases:
      "p' = undo p2 \<or> (fst sv \<noteq> None \<and> (\<exists>cs. p' = undo (log_calls cs (p2\<lparr>fp_disk := snd sv\<rparr>))))"
      by (auto simp: provision_build_def Let_def undo_def sv_def split: sum.splits prod.splits option.splits)
    have same: "bm_NetIndex m' = bm_NetIndex m" "bm_UID m' = bm_UID m" "bm_Token m' = bm_Token m"
      by (simp_all add: m')
    have a: "cleaned m p (undo p2)" unfolding undo_def
      by (rule cleanedI(3) [where d = "mkdir (bm_Token m) (fp_disk p)"])
        (use c2 same in \<open>simp_all add: core_def p1\<close>)
    have b: "cleaned m p (undo (log_calls cs (p2\<lparr>fp_disk := snd sv\<rparr>)))" if "fst sv \<noteq> None" for cs
      unfolding undo_def
      by (rule cleanedI(3) [where d = "snd sv"])
        (use c2 same dist faulty [OF that] in \<open>simp_all add: core_def p1 log_calls_def\<close>)
    from cases a b show ?thesis by blast
  qed
qed

lemma live_id_cong: "fp_heap p' = fp_heap p \<Longrightarrow> fp_boxes p' = fp_boxes p \<Longrightarrow> live_id p' = live_id p"
  by (rule ext) (simp add: live_id_def)

lemma in_pool_cong: "fp_poolSize p' = fp_poolSize p \<Longrightarrow> fp_jailer p' = fp_jailer p \<Longrightarrow> in_pool p' m = in_pool p m"
  by (simp add: in_pool_def)

lemma heap_ok_cong: "fp_heap p' = fp_heap p \<Longrightarrow> fp_boxes p' = fp_boxes p \<Longrightarrow> heap_ok p' = heap_ok p"
  by (simp add: heap_ok_def)

lemma live_keyed: "heap_ok p \<Longrightarrow> live_id p t = Some m \<Longrightarrow> bm_Token m = t"
  by (auto simp: live_id_def heap_ok_def)

lemma disk_keyed: "disk_ok d \<Longrightarrow> disk_id d t = Some m \<Longrightarrow> bm_Token m = t \<and> t \<noteq> []"
  by (auto simp: disk_id_def disk_ok_def)

lemma abs_simps [simp]:
  "ls_pending (abs_leases fl p) = ident ` fst ` set fl" "ls_live (abs_leases fl p) = ran (live_id p)"
  "ls_saved (abs_leases fl p) = ran (disk_id (fp_disk p))"
  by (simp_all add: abs_leases_def)

lemma core_eq_inv:
  assumes "core p' = core p"
  shows "abs_leases fl p' = abs_leases fl p \<and> fc_inv (fl, p') = fc_inv (fl, p)"
proof -
  have same: "fp_heap p' = fp_heap p" "fp_boxes p' = fp_boxes p" "fp_used p' = fp_used p"
    "fp_usedUIDs p' = fp_usedUIDs p" "fp_disk p' = fp_disk p" "fp_poolSize p' = fp_poolSize p" "fp_jailer p' = fp_jailer p"
    using assms by (simp_all add: core_def)
  have a: "abs_leases fl p' = abs_leases fl p" using same live_id_cong [of p' p] by (simp add: abs_leases_def)
  moreover have "in_pool p' = in_pool p" using same by (auto simp: in_pool_def)
  ultimately show ?thesis using same heap_ok_cong [of p' p] by (simp add: fc_inv_def pool_ok_def)
qed

subsection \<open>Refinement\<close>

text \<open>
  \<open>simulated\<close> says that a step is one of the lease machine, or none, and that the representation
  stays well formed.
\<close>

definition rep_ok :: "flight list \<Rightarrow> 'h fc_prov \<Rightarrow> bool" where
  "rep_ok fl p \<longleftrightarrow> disk_ok (fp_disk p) \<and> heap_ok p \<and> flights_ok fl (fp_disk p) \<and> pool_ok fl p"

definition simulated :: "flight list \<times> 'h fc_prov \<Rightarrow> flight list \<times> 'h fc_prov \<Rightarrow> bool" where
  "simulated s s' \<longleftrightarrow>
     (abs_leases (fst s') (snd s') = abs_leases (fst s) (snd s) \<or>
      lease_step (abs_leases (fst s) (snd s)) (abs_leases (fst s') (snd s'))) \<and>
     rep_ok (fst s') (snd s')"

lemma fc_inv_rep: "fc_inv (fl, p) \<longleftrightarrow> rep_ok fl p \<and> lease_inv (abs_leases fl p)"
  by (auto simp: fc_inv_def rep_ok_def)

lemma simulated_core: "fc_inv (fl, p) \<Longrightarrow> core p' = core p \<Longrightarrow> simulated (fl, p) (fl, p')"
  using core_eq_inv [of p' p fl] by (auto simp: simulated_def fc_inv_rep)

lemma sim_reserve:
  assumes inv: "fc_inv (fl, p)" and res: "provision_reserve exec env opts p = (Inr m, p')"
    and fresh: "fresh_token (bm_Token m) fl p"
  shows "simulated (fl, p) ((m, None) # fl, p')"
proof -
  note ok = provision_reserve_ok [OF res]
  have same: "fp_heap p' = fp_heap p" "fp_boxes p' = fp_boxes p" "fp_disk p' = fp_disk p"
    "fp_used p' = insert (bm_NetIndex m) (fp_used p)" "fp_usedUIDs p' = insert (bm_UID m) (fp_usedUIDs p)"
    "fp_poolSize p' = fp_poolSize p" "fp_jailer p' = fp_jailer p"
    using ok by (simp_all add: core_def)
  let ?l = "abs_leases fl p" and ?l' = "abs_leases ((m, None) # fl) p'"
  have rep: "rep_ok fl p" and li: "lease_inv ?l" using inv by (simp_all add: fc_inv_rep)
  have l': "?l' = ?l\<lparr>ls_pending := insert (ident m) (ls_pending ?l)\<rparr>"
    using same live_id_cong [of p' p] by (simp add: abs_leases_def)
  then have held': "held ?l' = insert (ident m) (held ?l)" by (simp add: held_def)
  have used: "fp_used p = bm_NetIndex ` held ?l" "fp_usedUIDs p = bm_UID ` held ?l"
    using rep by (simp_all add: rep_ok_def pool_ok_def)
  have tok: "bm_Token m \<notin> bm_Token ` held ?l"
  proof
    assume "bm_Token m \<in> bm_Token ` held ?l"
    then obtain x where x: "x \<in> held ?l" "bm_Token x = bm_Token m" by auto
    have "x \<notin> ident ` fst ` set fl" using fresh x(2) by (auto simp: fresh_token_def image_iff)
    with x(1) obtain t where t: "live_id p t = Some x" by (auto simp: held_def ran_def)
    then have "t = bm_Token m" using live_keyed rep x(2) by (metis rep_ok_def)
    with t fresh show False by (simp add: live_id_def fresh_token_def)
  qed
  have "lease_step ?l ?l'" unfolding l'
    by (rule ls_reserve) (use tok ok used in simp_all)
  moreover have "disk_id (fp_disk p) (bm_Token m) = None"
    using fresh by (simp add: fresh_token_def disk_id_def disk_meta_def)
  then have "flights_ok ((m, None) # fl) (fp_disk p)"
    using rep fresh by (auto simp: rep_ok_def flights_ok_def fresh_token_def image_iff)
  moreover have "pool_ok ((m, None) # fl) p'"
    using rep ok same unfolding pool_ok_def held' rep_ok_def by (simp add: in_pool_cong [of p' p])
  ultimately show ?thesis
    using rep same heap_ok_cong [of p' p] by (simp add: simulated_def rep_ok_def)
qed

lemma flights_ok_drop:
  assumes "flights_ok fl d" and "\<And>t. t \<noteq> bm_Token m \<Longrightarrow> disk_id d' t = disk_id d t"
  shows "flights_ok (drop_flight (bm_Token m) fl) d'"
proof -
  have "distinct (map (\<lambda>(m, b). bm_Token m) (drop_flight (bm_Token m) fl))"
    using assms(1) unfolding drop_flight_def flights_ok_def by (simp add: distinct_map_filter)
  moreover have "bm_Token x \<noteq> [] \<and> disk_id d' (bm_Token x) = (if b = None then None else Some (ident x))"
    if "(x, b) \<in> set (drop_flight (bm_Token m) fl)" for x b
  proof -
    from that have x: "(x, b) \<in> set fl" "bm_Token x \<noteq> bm_Token m" by (auto simp: set_drop_flight)
    have "bm_Token x \<noteq> [] \<and> disk_id d (bm_Token x) = (if b = None then None else Some (ident x))"
      using assms(1) x(1) unfolding flights_ok_def by blast
    with assms(2) [OF x(2)] show ?thesis by simp
  qed
  ultimately show ?thesis unfolding flights_ok_def by blast
qed

lemma pool_ok_cong:
  assumes "pool_ok fl p" "held (abs_leases fl' p') = held (abs_leases fl p)"
    "fp_used p' = fp_used p" "fp_usedUIDs p' = fp_usedUIDs p" "fp_poolSize p' = fp_poolSize p" "fp_jailer p' = fp_jailer p"
  shows "pool_ok fl' p'"
  using assms in_pool_cong [of p' p] by (simp add: pool_ok_def)

lemma sim_build:
  assumes inv: "fc_inv (fl, p)" and m: "(m, None) \<in> set fl"
    and build: "provision_build env opts m p = (Inr (m', api), p')"
  shows "simulated (fl, p) ((m', Some api) # drop_flight (bm_Token m) fl, p')"
proof -
  let ?t = "bm_Token m" and ?fl' = "(m', Some api) # drop_flight (bm_Token m) fl"
  define d' where "d' = snd (save SaveOk m' (mkdir ?t (fp_disk p)))"
  obtain k where m': "m' = m\<lparr>bm_DiskBytes := k\<rparr>"
    and c: "core p' = (fp_heap p, fp_boxes p, fp_used p, fp_usedUIDs p, d', fp_poolSize p, fp_jailer p)"
    using provision_build_ok [OF build] unfolding d'_def by blast
  then have same: "fp_heap p' = fp_heap p" "fp_boxes p' = fp_boxes p" "fp_used p' = fp_used p"
    "fp_usedUIDs p' = fp_usedUIDs p" "fp_disk p' = d'" "fp_poolSize p' = fp_poolSize p" "fp_jailer p' = fp_jailer p"
    by (simp_all add: core_def)
  let ?l = "abs_leases fl p" and ?l' = "abs_leases ?fl' p'"
  have rep: "disk_ok (fp_disk p)" "heap_ok p" "flights_ok fl (fp_disk p)" "pool_ok fl p"
    using inv by (simp_all add: fc_inv_rep rep_ok_def)
  have tok: "bm_Token m' = ?t" "ident m' = ident m" by (simp_all add: m')
  have dm: "disk_meta d' = (disk_meta (fp_disk p))(?t \<mapsto> m')" unfolding d'_def disk_meta_save by (simp add: tok)
  then have did: "disk_id d' = (disk_id (fp_disk p))(?t \<mapsto> ident m)" by (auto simp: disk_id_eq tok)
  have none: "disk_id (fp_disk p) ?t = None" and ne: "?t \<noteq> []" using rep(3) m by (auto simp: flights_ok_def)
  have pending: "ident m \<in> ident ` fst ` set fl" using m by force
  then have pend: "ident ` fst ` set ?fl' = ident ` fst ` set fl"
    using pending_drop [OF rep(3) m] pending by (auto simp: tok)
  then have l': "?l' = ?l\<lparr>ls_saved := insert (ident m) (ls_saved ?l)\<rparr>"
    using live_id_cong [OF same(1,2)] none by (simp add: abs_leases_def same did)
  have "lease_step ?l ?l'" unfolding l' by (rule ls_save) (use m in force)
  moreover have "disk_ok d'" using rep(1) ne unfolding disk_ok_def dm by (auto simp: tok d'_def)
  moreover have "flights_ok (drop_flight ?t fl) d'" by (rule flights_ok_drop [OF rep(3)]) (simp add: did)
  then have "flights_ok ?fl' d'" using ne
    by (auto simp: flights_ok_def tok did drop_flight_def)
  moreover have "pool_ok ?fl' p'" by (rule pool_ok_cong [OF rep(4)]) (simp_all add: l' held_def same)
  ultimately show ?thesis using rep heap_ok_cong [OF same(1,2)] by (simp add: simulated_def rep_ok_def same)
qed

lemma held_image_diff: "inj_on f A \<Longrightarrow> x \<in> A \<Longrightarrow> f ` A - {f x} = f ` (A - {x})"
  by (auto simp: inj_on_def)

lemma pool_ok_remove:
  assumes pool: "pool_ok fl p" and li: "lease_inv (abs_leases fl p)" and x: "ident m \<in> held (abs_leases fl p)"
    and held': "held (abs_leases fl' p') = held (abs_leases fl p) - {ident m}"
    and same: "fp_used p' = fp_used p - {bm_NetIndex m}" "fp_usedUIDs p' = fp_usedUIDs p - {bm_UID m}"
      "fp_poolSize p' = fp_poolSize p" "fp_jailer p' = fp_jailer p"
  shows "pool_ok fl' p'"
proof -
  have "inj_on bm_NetIndex (held (abs_leases fl p))" "inj_on bm_UID (held (abs_leases fl p))"
    using li by (simp_all add: lease_inv_def)
  from held_image_diff [OF this(1) x] held_image_diff [OF this(2) x] pool same in_pool_cong [OF same(3,4)]
  show ?thesis unfolding pool_ok_def held' by simp
qed

lemma sim_abort:
  assumes inv: "fc_inv (fl, p)" and m: "(m, None) \<in> set fl"
    and build: "provision_build env opts m p = (Inl e, p')"
  shows "simulated (fl, p) (drop_flight (bm_Token m) fl, p')"
proof -
  let ?t = "bm_Token m" and ?fl' = "drop_flight (bm_Token m) fl"
  obtain d where c: "core p' = (fp_heap p, fp_boxes p, fp_used p - {bm_NetIndex m}, fp_usedUIDs p - {bm_UID m}, d,
      fp_poolSize p, fp_jailer p)" and kd: "keys_distinct (fp_disk p) \<longrightarrow> keys_distinct d"
    and dm: "disk_meta d = disk_meta (fp_disk p) \<or> disk_meta d = (disk_meta (fp_disk p))(?t := None)"
    using provision_build_err [OF build] unfolding cleaned_def by blast
  have same: "fp_heap p' = fp_heap p" "fp_boxes p' = fp_boxes p" "fp_used p' = fp_used p - {bm_NetIndex m}"
    "fp_usedUIDs p' = fp_usedUIDs p - {bm_UID m}" "fp_disk p' = d" "fp_poolSize p' = fp_poolSize p" "fp_jailer p' = fp_jailer p"
    using c by (simp_all add: core_def)
  let ?l = "abs_leases fl p" and ?l' = "abs_leases ?fl' p'"
  have rep: "disk_ok (fp_disk p)" "heap_ok p" "flights_ok fl (fp_disk p)" "pool_ok fl p" "lease_inv ?l"
    using inv by (simp_all add: fc_inv_rep rep_ok_def)
  have none: "disk_id (fp_disk p) ?t = None" using rep(3) m by (auto simp: flights_ok_def)
  then have "disk_meta (fp_disk p) ?t = None" by (simp add: disk_id_def)
  with dm have dm: "disk_meta d = disk_meta (fp_disk p)" by (auto simp: fun_upd_idem)
  then have did: "disk_id d = disk_id (fp_disk p)" by (simp add: disk_id_eq)
  have l': "?l' = ?l\<lparr>ls_pending := ls_pending ?l - {ident m}\<rparr>"
    using live_id_cong [OF same(1,2)] pending_drop [OF rep(3) m] by (simp add: abs_leases_def same did)
  have notsaved: "ident m \<notin> ls_saved ?l"
  proof
    assume "ident m \<in> ls_saved ?l"
    then obtain u where "disk_id (fp_disk p) u = Some (ident m)" by (auto simp: ran_def)
    with disk_keyed [OF rep(1) this] none show False by simp
  qed
  have pend: "ident m \<in> ls_pending ?l" using m by force
  have "lease_step ?l ?l'" unfolding l' by (rule ls_abort [OF pend notsaved])
  moreover have "disk_ok d" using rep(1) kd by (simp add: disk_ok_def dm)
  moreover have "flights_ok ?fl' d" by (rule flights_ok_drop [OF rep(3)]) (simp add: did)
  moreover have "ident m \<notin> ls_live ?l" using pend rep(5) unfolding lease_inv_def by blast
  then have "held ?l' = held ?l - {ident m}" unfolding l' by (auto simp: held_def)
  then have "pool_ok ?fl' p'"
    using pool_ok_remove [OF rep(4,5) _ _ same(3,4,6,7)] pend by (simp add: held_def)
  ultimately show ?thesis using rep heap_ok_cong [OF same(1,2)] by (simp add: simulated_def rep_ok_def same)
qed

lemma sim_commit:
  assumes inv: "fc_inv (fl, p)" and m: "(m, Some api) \<in> set fl"
  shows "simulated (fl, p) (drop_flight (bm_Token m) fl, snd (provision_commit m api p))"
proof -
  let ?t = "bm_Token m" and ?fl' = "drop_flight (bm_Token m) fl" and ?r = "length (fp_heap p)"
  define p' where "p' = snd (provision_commit m api p)"
  let ?l = "abs_leases fl p" and ?l' = "abs_leases ?fl' p'"
  have rep: "disk_ok (fp_disk p)" "heap_ok p" "flights_ok fl (fp_disk p)" "pool_ok fl p" "lease_inv ?l"
    using inv by (simp_all add: fc_inv_rep rep_ok_def)
  obtain i where i: "fi_meta i = m" and p': "p' = p\<lparr>fp_heap := fp_heap p @ [i], fp_boxes := tput ?t ?r (fp_boxes p)\<rparr>"
    using that [of "\<lparr>fi_meta = m, fi_vsockUDS = vsockUDSPath m (fp_stateDir p), fi_net = fc_netFor (bm_NetIndex m),
        fi_machine = True, fi_api = api, fi_alive = False\<rparr>"]
    by (simp add: p'_def provision_commit_def Let_def)
  have heap: "heap_ok p'" using rep(2) unfolding heap_ok_def p' by (auto simp: nth_append i less_SucI)
  have lid: "live_id p' = (live_id p)(?t \<mapsto> ident m)"
  proof
    fix u show "live_id p' u = ((live_id p)(?t \<mapsto> ident m)) u"
      using rep(2) by (cases "tget (fp_boxes p) u") (auto simp: live_id_def p' nth_append i heap_ok_def)
  qed
  have pend: "ident m \<in> ls_pending ?l" using m by force
  have "disk_id (fp_disk p) ?t = Some (ident m)" using rep(3) m unfolding flights_ok_def by fastforce
  then have saved: "ident m \<in> ls_saved ?l" by (simp add: ranI)
  have new: "live_id p ?t = None"
  proof (rule ccontr)
    assume "live_id p ?t \<noteq> None"
    then obtain x where x: "live_id p ?t = Some x" by blast
    then have "x \<in> held ?l" "ident m \<in> held ?l" "bm_Token x = bm_Token (ident m)"
      using pend live_keyed [OF rep(2) x] by (auto simp: held_def intro: ranI)
    with rep(5) have "x = ident m" unfolding lease_inv_def by (metis inj_onD)
    then have "ident m \<in> ls_live ?l" using ranI [of "live_id p" ?t x] x by simp
    with pend rep(5) show False unfolding lease_inv_def by blast
  qed
  have l': "?l' = ?l\<lparr>ls_pending := ls_pending ?l - {ident m}, ls_live := insert (ident m) (ls_live ?l)\<rparr>"
    using pending_drop [OF rep(3) m] new by (simp add: abs_leases_def lid) (simp add: p')
  have "lease_step ?l ?l'" unfolding l' by (rule ls_commit [OF pend saved])
  moreover have "flights_ok ?fl' (fp_disk p)" by (rule flights_ok_drop [OF rep(3)]) simp
  moreover have "held ?l' = held ?l" unfolding l' using pend by (auto simp: held_def)
  then have "pool_ok ?fl' p'" by (rule pool_ok_cong [OF rep(4)]) (simp_all add: p')
  ultimately show ?thesis using rep(1) heap unfolding p'_def [symmetric]
    by (simp add: simulated_def rep_ok_def) (simp add: p')
qed

lemma sim_stutter:
  assumes inv: "fc_inv (fl, p)" and same: "live_id p' = live_id p" "disk_id (fp_disk p') = disk_id (fp_disk p)"
    "fp_used p' = fp_used p" "fp_usedUIDs p' = fp_usedUIDs p" "fp_poolSize p' = fp_poolSize p" "fp_jailer p' = fp_jailer p"
    and ok: "heap_ok p'" "disk_ok (fp_disk p')"
  shows "simulated (fl, p) (fl, p')"
proof -
  have l: "abs_leases fl p' = abs_leases fl p" by (simp add: abs_leases_def same)
  have rep: "flights_ok fl (fp_disk p)" "pool_ok fl p" using inv by (simp_all add: fc_inv_rep rep_ok_def)
  have "pool_ok fl p'" by (rule pool_ok_cong [OF rep(2)]) (simp_all add: l same)
  moreover have "flights_ok fl (fp_disk p')" using rep(1) by (simp add: flights_ok_def same)
  ultimately show ?thesis using ok by (simp add: simulated_def rep_ok_def l)
qed

lemma upd_inst_frame [simp]:
  "fp_used (upd_inst r f p) = fp_used p" "fp_usedUIDs (upd_inst r f p) = fp_usedUIDs p"
  "fp_poolSize (upd_inst r f p) = fp_poolSize p" "fp_jailer (upd_inst r f p) = fp_jailer p"
  "fp_disk (upd_inst r f p) = fp_disk p" "fp_boxes (upd_inst r f p) = fp_boxes p"
  "length (fp_heap (upd_inst r f p)) = length (fp_heap p)"
  by (simp_all add: upd_inst_def)

lemma upd_inst_ident:
  assumes "\<And>i. ident (fi_meta (f i)) = ident (fi_meta i)"
  shows "ident (fi_meta (fp_heap (upd_inst r f p) ! k)) = ident (fi_meta (fp_heap p ! k))"
  by (cases "r < length (fp_heap p)"; cases "k = r") (auto simp: upd_inst_def assms list_update_beyond)

lemma upd_inst_token:
  "(\<And>i. ident (fi_meta (f i)) = ident (fi_meta i)) \<Longrightarrow> inst_token (upd_inst r f p) k = inst_token p k"
  using upd_inst_ident [of f r p k] by (metis ident_simps(1))

lemma upd_inst_ok:
  assumes "\<And>i. ident (fi_meta (f i)) = ident (fi_meta i)"
  shows "live_id (upd_inst r f p) = live_id p" "heap_ok (upd_inst r f p) = heap_ok p"
proof -
  show "live_id (upd_inst r f p) = live_id p" by (rule ext) (simp add: live_id_def upd_inst_ident [of f, OF assms])
  show "heap_ok (upd_inst r f p) = heap_ok p" by (simp add: heap_ok_def upd_inst_token [of f, OF assms])
qed

lemma save_inst_frame:
  "core (snd (save_inst f r p)) = (fp_heap p, fp_boxes p, fp_used p, fp_usedUIDs p,
     snd (save f (fi_meta (fp_heap p ! r)) (fp_disk p)), fp_poolSize p, fp_jailer p)"
  by (auto simp: save_inst_def core_def split: prod.split option.split)

text \<open>An update of a live instance that keeps its identity, followed by a save, is a stutter.\<close>

lemma sim_update_save:
  assumes inv: "fc_inv (fl, p)" and live: "live_handle r p"
    and q: "live_id q = live_id p" "heap_ok q" "fp_boxes q = fp_boxes p" "fp_used q = fp_used p"
      "fp_usedUIDs q = fp_usedUIDs p" "fp_disk q = fp_disk p" "fp_poolSize q = fp_poolSize p" "fp_jailer q = fp_jailer p"
  shows "simulated (fl, p) (fl, snd (save_inst f r q))"
proof -
  let ?m = "fi_meta (fp_heap q ! r)" and ?t = "inst_token p r"
  define d' where "d' = snd (save f ?m (fp_disk p))"
  define p' where "p' = snd (save_inst f r q)"
  have same: "fp_heap p' = fp_heap q" "fp_boxes p' = fp_boxes p" "fp_used p' = fp_used p"
    "fp_usedUIDs p' = fp_usedUIDs p" "fp_disk p' = d'" "fp_poolSize p' = fp_poolSize p" "fp_jailer p' = fp_jailer p"
    using save_inst_frame [of f r q] by (simp_all add: p'_def core_def q d'_def)
  have rep: "disk_ok (fp_disk p)" "heap_ok p" "lease_inv (abs_leases fl p)" using inv by (simp_all add: fc_inv_rep rep_ok_def)
  have box: "tget (fp_boxes p) ?t = Some r" using live by (simp add: live_handle_def)
  then have "live_id q ?t = Some (ident ?m)" by (simp add: live_id_def q(3))
  then have l: "live_id p ?t = Some (ident ?m)" by (simp add: q(1))
  have tok: "bm_Token ?m = ?t" using live_keyed [OF rep(2) l] by simp
  have "ident ?m \<in> ls_saved (abs_leases fl p)" using ranI [of "live_id p", OF l] rep(3) by (auto simp: lease_inv_def)
  then obtain u where "disk_id (fp_disk p) u = Some (ident ?m)" by (auto simp: ran_def)
  with disk_keyed [OF rep(1) this] tok have saved: "disk_id (fp_disk p) ?t = Some (ident ?m)" and ne: "?t \<noteq> []" by auto
  have dm: "disk_meta d' = (if f = SaveOk then (disk_meta (fp_disk p))(?t \<mapsto> ?m) else disk_meta (fp_disk p))"
    unfolding d'_def disk_meta_save by (simp add: tok)
  have "disk_id d' = disk_id (fp_disk p)" using saved by (auto simp: disk_id_eq dm)
  moreover have "disk_ok d'" using rep(1) ne unfolding disk_ok_def dm by (auto simp: tok d'_def)
  moreover have "live_id p' = live_id p" using live_id_cong [of p' q] q same by simp
  moreover have "heap_ok p'" using heap_ok_cong [of p' q] q same by simp
  ultimately show ?thesis unfolding p'_def [symmetric] using sim_stutter [OF inv] same by metis
qed

lemma sim_ready:
  assumes inv: "fc_inv (fl, p)" and live: "live_handle r p"
  shows "simulated (fl, p) (fl, snd (MarkReady f r p))"
proof -
  have id: "ident (fi_meta (set_ready i)) = ident (fi_meta i)" for i by (simp add: set_ready_def)
  have tok: "tget (fp_boxes (upd_inst r set_ready p)) (inst_token p r) = Some r"
    using live by (simp add: live_handle_def)
  have "heap_ok p" using inv by (simp add: fc_inv_rep rep_ok_def)
  then show ?thesis unfolding MarkReady_def Let_def tok option.case
    by (intro sim_update_save [OF inv live]) (simp_all add: upd_inst_ok id)
qed

lemma core_upd:
  "core q = core p \<Longrightarrow> core (upd_inst r f q) = core (upd_inst r f p)"
  by (simp add: core_def upd_inst_def)

lemma sim_boot_save:
  assumes inv: "fc_inv (fl, p)" and live: "live_handle r p" and c: "core q = core p"
    and id: "\<And>i. ident (fi_meta (f i)) = ident (fi_meta i)"
  shows "simulated (fl, p) (fl, snd (save_inst sf r (upd_inst r f q)))"
proof -
  have same: "fp_heap q = fp_heap p" "fp_boxes q = fp_boxes p" "fp_used q = fp_used p"
    "fp_usedUIDs q = fp_usedUIDs p" "fp_disk q = fp_disk p" "fp_poolSize q = fp_poolSize p" "fp_jailer q = fp_jailer p"
    using c by (simp_all add: core_def)
  have "heap_ok p" using inv by (simp add: fc_inv_rep rep_ok_def)
  then show ?thesis
    by (intro sim_update_save [OF inv live])
      (simp_all add: upd_inst_ok [of f, OF id] live_id_cong [OF same(1,2)] heap_ok_cong [OF same(1,2)] same)
qed

lemma sim_pause:
  assumes inv: "fc_inv (fl, p)" and live: "live_handle r p"
  shows "simulated (fl, p) (fl, snd (Pause f r p))"
proof -
  have "tget (fp_boxes p) (inst_token p r) \<noteq> None" using live by (simp add: live_handle_def)
  then show ?thesis unfolding Pause_def by (simp only: if_False) (rule sim_boot_save [OF inv live]; simp)
qed

lemma sim_resume:
  assumes inv: "fc_inv (fl, p)" and live: "live_handle r p"
  shows "simulated (fl, p) (fl, snd (Resume env f r p))"
proof -
  have present: "tget (fp_boxes p) (inst_token p r) = Some r" using live by (simp add: live_handle_def)
  obtain b p1 where boot: "bootMachine env (fi_meta (fp_heap p ! r)) p = (b, p1)" by fastforce
  have c: "core p1 = core p" using core_bootMachine [of env "fi_meta (fp_heap p ! r)" p] boot by simp
  show ?thesis
  proof (cases b)
    case (Inl e)
    then have "snd (Resume env f r p) = p1" using present boot by (simp add: Resume_def)
    then show ?thesis using simulated_core [OF inv c] by simp
  next
    case (Inr api)
    then have "snd (Resume env f r p) = snd (save_inst f r
        (upd_inst r (\<lambda>i. i\<lparr>fi_machine := True, fi_api := api, fi_alive := False,
                            fi_meta := (fi_meta i)\<lparr>bm_Paused := False\<rparr>\<rparr>) p1))"
      using present boot by (simp add: Resume_def)
    then show ?thesis by (simp only:) (rule sim_boot_save [OF inv live c]; simp)
  qed
qed

lemma core_Destroy:
  "core (snd (Destroy rm r p)) =
     (let m = fi_meta (fp_heap p ! r) in
      (fp_heap p, tdel (bm_Token m) (fp_boxes p), fp_used p - {bm_NetIndex m}, fp_usedUIDs p - {bm_UID m},
       if rm then tdel (bm_Token m) (fp_disk p) else fp_disk p, fp_poolSize p, fp_jailer p))"
  by (simp add: Destroy_def Let_def core_remove_box_dir) (simp add: log_calls_def freeSlot_def)

lemma sim_destroy:
  assumes inv: "fc_inv (fl, p)" and live: "live_handle r p"
  shows "simulated (fl, p) (fl, snd (Destroy True r p))"
proof -
  let ?m = "fi_meta (fp_heap p ! r)" and ?t = "inst_token p r"
  define p' where "p' = snd (Destroy True r p)"
  have same: "fp_heap p' = fp_heap p" "fp_boxes p' = tdel ?t (fp_boxes p)" "fp_used p' = fp_used p - {bm_NetIndex ?m}"
    "fp_usedUIDs p' = fp_usedUIDs p - {bm_UID ?m}" "fp_disk p' = tdel ?t (fp_disk p)"
    "fp_poolSize p' = fp_poolSize p" "fp_jailer p' = fp_jailer p"
    using core_Destroy [of True r p] by (simp_all add: p'_def core_def Let_def)
  let ?l = "abs_leases fl p" and ?l' = "abs_leases fl p'"
  have rep: "disk_ok (fp_disk p)" "heap_ok p" "flights_ok fl (fp_disk p)" "pool_ok fl p" "lease_inv ?l"
    using inv by (simp_all add: fc_inv_rep rep_ok_def)
  have box: "live_id p ?t = Some (ident ?m)" using live by (simp add: live_handle_def live_id_def)
  have mem: "ident ?m \<in> ls_live ?l" using ranI [of "live_id p", OF box] by simp
  then obtain u where "disk_id (fp_disk p) u = Some (ident ?m)" using rep(5) by (auto simp: lease_inv_def ran_def)
  with disk_keyed [OF rep(1) this] have disk: "disk_id (fp_disk p) ?t = Some (ident ?m)" by auto
  have lid: "live_id p' = (live_id p)(?t := None)" by (rule ext) (simp add: live_id_def same)
  have did: "disk_id (fp_disk p') = (disk_id (fp_disk p))(?t := None)" by (auto simp: disk_id_eq same)
  have "ran (live_id p') = ran (live_id p) - {ident ?m}" unfolding lid
    by (rule ran_del [where M = "live_id p", OF live_keyed [OF rep(2)] box])
  moreover have "ran (disk_id (fp_disk p')) = ran (disk_id (fp_disk p)) - {ident ?m}" unfolding did
    by (rule ran_del [where M = "disk_id (fp_disk p)", OF disk_keyed [OF rep(1), THEN conjunct1] disk])
  ultimately have l': "?l' = ?l\<lparr>ls_live := ls_live ?l - {ident ?m}, ls_saved := ls_saved ?l - {ident ?m}\<rparr>"
    by (simp add: abs_leases_def)
  have "lease_step ?l ?l'" unfolding l' by (rule ls_destroy [OF mem])
  moreover have notpend: "ident ?m \<notin> ls_pending ?l" using mem rep(5) unfolding lease_inv_def by blast
  then have "held ?l' = held ?l - {ident ?m}" unfolding l' by (auto simp: held_def)
  then have "pool_ok fl p'"
    using pool_ok_remove [OF rep(4,5) _ _ same(3,4,6,7)] mem by (simp add: held_def)
  moreover have "flights_ok fl (fp_disk p')"
  proof -
    have "bm_Token x \<noteq> ?t" if "(x, b) \<in> set fl" for x b
    proof
      assume "bm_Token x = ?t"
      moreover have "ident x \<in> held ?l" "ident ?m \<in> held ?l" using that mem by (force simp: held_def)+
      ultimately have "ident x = ident ?m" using rep(5) unfolding lease_inv_def by (metis ident_simps(1) inj_onD)
      moreover have "ident x \<in> ls_pending ?l" using that by force
      ultimately show False using notpend by simp
    qed
    with rep(3) show ?thesis unfolding flights_ok_def did by fastforce
  qed
  moreover have "heap_ok p'" using rep(2) by (auto simp: heap_ok_def same)
  moreover have "disk_ok (fp_disk p')" using rep(1) by (auto simp: disk_ok_def same)
  ultimately show ?thesis unfolding p'_def [symmetric] by (simp add: simulated_def rep_ok_def)
qed

subsubsection \<open>Restart\<close>

lemma mem_map_filter: "y \<in> set (List.map_filter f xs) \<longleftrightarrow> (\<exists>x \<in> set xs. f x = Some y)"
  by (induction xs) (auto simp: List.map_filter_simps split: option.split)

lemma set_entries_metas:
  assumes "disk_ok d"
  shows "set (entries_metas d) = ran (disk_meta d)"
proof -
  have kd: "keys_distinct d" using assms by (simp add: disk_ok_def)
  have mem: "(n, BoxEntry (Some m)) \<in> set d \<longleftrightarrow> disk_meta d n = Some m" for n m
    unfolding mem_tget [OF kd] disk_meta_def by (auto split: option.split dir_entry.split)
  have ne: "disk_meta d n = Some m \<Longrightarrow> bm_Token m \<noteq> []" for n m using assms by (auto simp: disk_ok_def)
  have "entry_meta e = Some m \<longleftrightarrow> e = BoxEntry (Some m) \<and> bm_Token m \<noteq> []" for e m
    by (cases e rule: entry_meta.cases) auto
  then have "m \<in> set (entries_metas d) \<longleftrightarrow> (\<exists>n. (n, BoxEntry (Some m)) \<in> set d \<and> bm_Token m \<noteq> [])" for m
    unfolding entries_metas_def mem_map_filter set_sort by (auto simp: case_prod_beta) force
  then have "m \<in> set (entries_metas d) \<longleftrightarrow> m \<in> ran (disk_meta d)" for m
    unfolding mem ran_def using ne by blast
  then show ?thesis by blast
qed

lemma distinct_entries_tokens:
  assumes "disk_ok d"
  shows "distinct (map bm_Token (entries_metas d))"
proof -
  have kd: "keys_distinct (sort_key fst d)" using assms by (simp add: disk_ok_def keys_distinct_def distinct_map)
  have tok: "(n, e) \<in> set (sort_key fst d) \<Longrightarrow> entry_meta e = Some m \<Longrightarrow> bm_Token m = n" for n e m
    using assms by (cases e rule: entry_meta.cases)
      (auto simp: disk_ok_def mem_tget disk_meta_def split: if_splits)
  have "distinct (map bm_Token (List.map_filter (\<lambda>(n, e). entry_meta e) xs)) \<and>
      set (map bm_Token (List.map_filter (\<lambda>(n, e). entry_meta e) xs)) \<subseteq> fst ` set xs"
    if "keys_distinct xs" "\<And>n e m. (n, e) \<in> set xs \<Longrightarrow> entry_meta e = Some m \<Longrightarrow> bm_Token m = n" for xs
    using that
  proof (induction xs)
    case (Cons x xs)
    obtain n e where x: "x = (n, e)" by fastforce
    have IH: "distinct (map bm_Token (List.map_filter (\<lambda>(n, e). entry_meta e) xs)) \<and>
      set (map bm_Token (List.map_filter (\<lambda>(n, e). entry_meta e) xs)) \<subseteq> fst ` set xs"
      using Cons.prems by (intro Cons.IH) (auto simp: keys_distinct_def)
    show ?case
    proof (cases "entry_meta e")
      case None
      with IH show ?thesis by (auto simp: x List.map_filter_simps)
    next
      case (Some m)
      then have "bm_Token m = n" using Cons.prems(2) [of n e m] by (simp add: x)
      with IH Cons.prems(1) Some show ?thesis by (auto simp: x List.map_filter_simps keys_distinct_def)
    qed
  qed (simp add: List.map_filter_simps)
  note gen = this
  have "distinct (map bm_Token (List.map_filter (\<lambda>(n, e). entry_meta e) (sort_key fst d)))"
    by (rule gen [THEN conjunct1, OF kd]) (rule tok)
  then show ?thesis unfolding entries_metas_def .
qed

text \<open>Loading one more persisted box.\<close>

lemma load_one:
  assumes "heap_ok p" "live_id p (bm_Token m) = None" "fi_meta i = m"
    and q: "fp_heap q = fp_heap p @ [i]" "fp_boxes q = tput (bm_Token m) (length (fp_heap p)) (fp_boxes p)"
  shows "heap_ok q \<and> live_id q = (live_id p)(bm_Token m \<mapsto> ident m)"
proof
  show "heap_ok q" using assms(1) by (auto simp: heap_ok_def q nth_append assms(3) less_SucI)
  show "live_id q = (live_id p)(bm_Token m \<mapsto> ident m)"
  proof
    fix u show "live_id q u = ((live_id p)(bm_Token m \<mapsto> ident m)) u"
      using assms(1) by (cases "tget (fp_boxes p) u") (auto simp: live_id_def q nth_append assms(3) heap_ok_def)
  qed
qed

lemma rehydrate_metas_spec:
  assumes "heap_ok p" and "distinct (map bm_Token ms)" and "\<And>m. m \<in> set ms \<Longrightarrow> live_id p (bm_Token m) = None"
    and "\<And>m. m \<in> set ms \<Longrightarrow> 0 < bm_UID m"
  shows "heap_ok (rehydrate_metas alive serveOK ms p) \<and>
    ran (live_id (rehydrate_metas alive serveOK ms p)) = ran (live_id p) \<union> ident ` set ms \<and>
    fp_used (rehydrate_metas alive serveOK ms p) = fp_used p \<union> bm_NetIndex ` set ms \<and>
    fp_usedUIDs (rehydrate_metas alive serveOK ms p) = fp_usedUIDs p \<union> bm_UID ` set ms \<and>
    fp_disk (rehydrate_metas alive serveOK ms p) = fp_disk p \<and>
    fp_poolSize (rehydrate_metas alive serveOK ms p) = fp_poolSize p \<and>
    fp_jailer (rehydrate_metas alive serveOK ms p) = fp_jailer p \<and>
    fp_namespace (rehydrate_metas alive serveOK ms p) = fp_namespace p"
  using assms
proof (induction ms arbitrary: p)
  case (Cons m ms)
  define i where "i = \<lparr>fi_meta = m, fi_vsockUDS = vsockUDSPath m (fp_stateDir p), fi_net = fc_netFor (bm_NetIndex m),
     fi_machine = False, fi_api = (fp_ports p \<and> serveOK (vsockUDSPath m (fp_stateDir p))),
     fi_alive = alive (apiSockPath m (fp_stateDir p))\<rparr>"
  define q where "q = log_calls (if fp_ports p then [ServeAPI (bm_Token m) (bm_BoxID m)] else [])
     (p\<lparr>fp_heap := fp_heap p @ [i], fp_boxes := tput (bm_Token m) (length (fp_heap p)) (fp_boxes p),
        fp_used := insert (bm_NetIndex m) (fp_used p),
        fp_usedUIDs := (if bm_UID m > 0 then insert (bm_UID m) (fp_usedUIDs p) else fp_usedUIDs p)\<rparr>)"
  have step: "rehydrate_metas alive serveOK (m # ms) p = rehydrate_metas alive serveOK ms q"
    by (simp add: q_def i_def Let_def)
  have uid: "0 < bm_UID m" and new: "live_id p (bm_Token m) = None" using Cons.prems by auto
  have fields: "fp_heap q = fp_heap p @ [i]" "fp_boxes q = tput (bm_Token m) (length (fp_heap p)) (fp_boxes p)"
    "fp_used q = insert (bm_NetIndex m) (fp_used p)" "fp_usedUIDs q = insert (bm_UID m) (fp_usedUIDs p)"
    "fp_disk q = fp_disk p" "fp_poolSize q = fp_poolSize p" "fp_jailer q = fp_jailer p" "fp_namespace q = fp_namespace p"
    using uid by (simp_all add: q_def log_calls_def)
  have one: "heap_ok q" "live_id q = (live_id p)(bm_Token m \<mapsto> ident m)"
    using load_one [OF Cons.prems(1) new _ fields(1,2)] by (simp_all add: i_def)
  have rest: "live_id q (bm_Token x) = None" if "x \<in> set ms" for x
    using that Cons.prems(2,3) by (auto simp: one image_iff)
  note IH = Cons.IH [OF one(1) _ rest Cons.prems(4)]
  have "ran (live_id q) = insert (ident m) (ran (live_id p))" using new by (simp add: one)
  with IH Cons.prems(2) fields show ?case unfolding step by auto
qed simp

lemma sim_restart:
  assumes inv: "fc_inv (fl, p)"
  shows "simulated (fl, p) ([], fc_restart alive serveOK p)"
proof -
  define q where "q = p\<lparr>fp_heap := [], fp_boxes := [], fp_used := {}, fp_usedUIDs := {},
          fp_poolDone := False, fp_poolErr := None\<rparr>"
  define ms where "ms = entries_metas (fp_disk p)"
  define p' where "p' = fc_restart alive serveOK p"
  let ?l = "abs_leases fl p" and ?l' = "abs_leases [] p'"
  have rep: "disk_ok (fp_disk p)" "pool_ok fl p" "lease_inv ?l" using inv by (simp_all add: fc_inv_rep rep_ok_def)
  have p': "p' = rehydrate_metas alive serveOK ms q"
    by (simp add: p'_def fc_restart_def rehydrate_def loadMetas_def q_def ms_def)
  have empty: "heap_ok q" "live_id q = Map.empty" by (auto simp: q_def heap_ok_def live_id_def)
  have saved: "ident ` set ms = ls_saved ?l"
    by (auto simp: ms_def set_entries_metas [OF rep(1)] disk_id_def ran_def)
  have pool: "in_pool p m" if "m \<in> set ms" for m
  proof -
    have "ident m \<in> held ?l" using that saved rep(3) by (auto simp: lease_inv_def)
    then have "in_pool p (ident m)" using rep(2) unfolding pool_ok_def by blast
    then show ?thesis by simp
  qed
  have "0 < bm_UID m" if "m \<in> set ms" for m using pool [OF that] rep(2) by (auto simp: pool_ok_def in_pool_def)
  note spec = rehydrate_metas_spec [OF empty(1), where ms = ms and alive = alive and serveOK = serveOK,
      OF distinct_entries_tokens [OF rep(1), folded ms_def] _ this, folded p']
  have same: "heap_ok p'" "ran (live_id p') = ls_saved ?l" "fp_used p' = bm_NetIndex ` set ms"
    "fp_usedUIDs p' = bm_UID ` set ms" "fp_disk p' = fp_disk p" "fp_poolSize p' = fp_poolSize p" "fp_jailer p' = fp_jailer p"
    using spec saved by (simp_all add: empty(2)) (simp_all add: q_def)
  have l': "?l' = ?l\<lparr>ls_pending := {}, ls_live := ls_saved ?l\<rparr>" by (simp add: abs_leases_def same)
  have "lease_step ?l ?l'" unfolding l' by (rule ls_restart)
  moreover have held': "held ?l' = ident ` set ms" unfolding l' by (simp add: held_def saved)
  then have "bm_NetIndex ` set ms = bm_NetIndex ` held ?l'" "bm_UID ` set ms = bm_UID ` held ?l'" by (auto simp: image_image)
  then have "pool_ok [] p'" using pool rep(2) unfolding pool_ok_def held'
    by (simp add: same in_pool_cong [OF same(6,7)])
  moreover have "flights_ok [] (fp_disk p)" by (simp add: flights_ok_def)
  ultimately show ?thesis unfolding p'_def [symmetric] using same rep(1) by (simp add: simulated_def rep_ok_def)
qed

text \<open>Every step is simulated, so every step keeps the invariant.\<close>

lemma fc_step_simulated: "fc_step exec s s' \<Longrightarrow> fc_inv s \<Longrightarrow> simulated s s'"
proof (induction rule: fc_step.induct)
  case (st_refuse env opts p e p' fl)
  then show ?case using simulated_core provision_reserve_err by metis
qed (simp_all add: sim_reserve sim_build sim_abort sim_commit sim_ready sim_pause sim_resume sim_destroy sim_restart)

lemma fc_step_inv: "fc_step exec s s' \<Longrightarrow> fc_inv s \<Longrightarrow> fc_inv s'"
  using fc_step_simulated [of exec s s'] lease_step_inv
  by (cases s; cases s') (auto simp: simulated_def fc_inv_rep)

subsection \<open>Properties\<close>

text \<open>The provisioner of a spoke whose state directory holds no box yet, and its closure.\<close>

definition fc_start :: "'h fc_prov \<Rightarrow> bool" where
  "fc_start p \<longleftrightarrow> fp_heap p = [] \<and> fp_boxes p = [] \<and> fp_used p = {} \<and> fp_usedUIDs p = {} \<and>
     keys_distinct (fp_disk p) \<and> list_all (\<lambda>(n, e). e = PlainFile \<or> e = BoxEntry None) (fp_disk p) \<and>
     0 < jc_uidMin (fp_jailer p)"

inductive fc_reach :: "'h exec \<Rightarrow> flight list \<times> 'h fc_prov \<Rightarrow> bool" for exec :: "'h exec" where
  start: "fc_start p \<Longrightarrow> fc_reach exec ([], p)"
| step: "fc_reach exec s \<Longrightarrow> fc_step exec s s' \<Longrightarrow> fc_reach exec s'"

lemma fc_start_inv: "fc_start p \<Longrightarrow> fc_inv ([], p)"
proof -
  assume s: "fc_start p"
  have none: "disk_meta (fp_disk p) = Map.empty"
  proof
    fix t show "disk_meta (fp_disk p) t = None"
      using s tget_mem [of "fp_disk p" t]
      by (fastforce simp: disk_meta_def fc_start_def list_all_iff split: option.split dir_entry.split)
  qed
  have empty: "live_id p = Map.empty" "disk_id (fp_disk p) = Map.empty"
    using s none by (auto simp: live_id_def disk_id_eq fc_start_def)
  with s none show ?thesis
    by (auto simp: fc_inv_def disk_ok_def heap_ok_def flights_ok_def pool_ok_def lease_inv_def held_def abs_leases_def fc_start_def)
qed

lemma fc_reach_inv: "fc_reach exec s \<Longrightarrow> fc_inv s"
  by (induction rule: fc_reach.induct) (auto intro: fc_start_inv fc_step_inv)

text \<open>
  C35 (alloc_lowest_free). The scans for a slot and for a user id always end: each reserves the
  lowest free number of its range, and reports exhaustion exactly when the whole range is taken.
\<close>

theorem alloc_lowest_free:
  "(fst (allocIndexLocked p) = None \<longleftrightarrow> {0..<fp_poolSize p} \<subseteq> fp_used p) \<and>
   (fst (allocIndexLocked p) = Some i \<longleftrightarrow>
      0 \<le> i \<and> i < fp_poolSize p \<and> i \<notin> fp_used p \<and> {0..<i} \<subseteq> fp_used p) \<and>
   fp_used (snd (allocIndexLocked p)) = fp_used p \<union> set_option (fst (allocIndexLocked p)) \<and>
   (fst (allocUIDLocked p) = None \<longleftrightarrow> {jc_uidMin (fp_jailer p)..jc_uidMax (fp_jailer p)} \<subseteq> fp_usedUIDs p) \<and>
   (fst (allocUIDLocked p) = Some u \<longleftrightarrow>
      jc_uidMin (fp_jailer p) \<le> u \<and> u \<le> jc_uidMax (fp_jailer p) \<and> u \<notin> fp_usedUIDs p \<and>
      {jc_uidMin (fp_jailer p)..<u} \<subseteq> fp_usedUIDs p) \<and>
   fp_usedUIDs (snd (allocUIDLocked p)) = fp_usedUIDs p \<union> set_option (fst (allocUIDLocked p))"
proof -
  have range: "{lo..hi} = {lo..<hi + 1}" for lo hi :: int by auto
  have fst: "fst (allocIndexLocked p) = alloc_loop 0 (fp_poolSize p) (fp_used p)"
    "fst (allocUIDLocked p) = alloc_loop (jc_uidMin (fp_jailer p)) (jc_uidMax (fp_jailer p) + 1) (fp_usedUIDs p)"
    by (simp_all add: allocIndexLocked_def allocUIDLocked_def split: option.split)
  have snd: "fp_used (snd (allocIndexLocked p)) = fp_used p \<union> set_option (fst (allocIndexLocked p))"
    "fp_usedUIDs (snd (allocUIDLocked p)) = fp_usedUIDs p \<union> set_option (fst (allocUIDLocked p))"
    by (simp_all add: allocIndexLocked_def allocUIDLocked_def split: option.split)
  show ?thesis unfolding snd fst range using alloc_loop_spec [of 0 "fp_poolSize p" "fp_used p" i]
    alloc_loop_spec [of "jc_uidMin (fp_jailer p)" "jc_uidMax (fp_jailer p) + 1" "fp_usedUIDs p" u] by simp
qed

end
