(* ===== verification/FcLifecycle.thy ===== *)
theory FcLifecycle
  imports FcLeases
begin

text \<open>
  Whole operations of the Firecracker provisioner: what a create leaves behind when it succeeds
  and when it fails, what a restart recovers, who may see which box, and the executions in which
  the code does not keep its promises.
\<close>

subsection \<open>Creates as sequences of steps\<close>

lemma provision_cases:
  assumes "Provision exec env opts p = (res, p')"
  obtains (refused) e where "provision_reserve exec env opts p = (Inl e, p')" "res = Inl e"
  | (failed) m p1 e where "provision_reserve exec env opts p = (Inr m, p1)" "provision_build env opts m p1 = (Inl e, p')"
      "res = Inl e"
  | (created) m p1 m' api p2 where "provision_reserve exec env opts p = (Inr m, p1)"
      "provision_build env opts m p1 = (Inr (m', api), p2)" "p' = snd (provision_commit m' api p2)"
      "res = Inr (length (fp_heap p2))"
proof (cases "provision_reserve exec env opts p")
  case (Pair r p1)
  show thesis
  proof (cases r)
    case (Inl e)
    with assms Pair show thesis by (intro refused [of e]) (auto simp: Provision_def)
  next
    case (Inr m)
    obtain b p2 where b: "provision_build env opts m p1 = (b, p2)" by fastforce
    show thesis
    proof (cases b)
      case (Inl e)
      with assms Pair Inr b show thesis by (intro failed [of m p1 e]) (auto simp: Provision_def)
    next
      case bb: (Inr x)
      obtain m' api where x: "x = (m', api)" by fastforce
      with assms Pair Inr b bb show thesis
        by (intro created [of m p1 m' api p2]) (auto simp: Provision_def provision_commit_def Let_def)
    qed
  qed
qed

lemma provision_steps:
  assumes prov: "Provision exec env opts p = (res, p')"
    and fresh: "\<And>t. fe_token env = Some t \<Longrightarrow> fresh_token t [] p"
  shows "(fc_step exec)\<^sup>*\<^sup>* ([], p) ([], p')"
  using prov
proof (cases rule: provision_cases)
  case (refused e)
  then show ?thesis using st_refuse by (metis r_into_rtranclp)
next
  case (failed m p1 e)
  have f: "fresh_token (bm_Token m) [] p" using provision_reserve_ok [OF failed(1)] fresh by simp
  have "fc_step exec ([], p) ([(m, None)], p1)" by (rule st_reserve [OF failed(1) f])
  moreover have "fc_step exec ([(m, None)], p1) ([], p')"
    using st_abort [OF _ failed(2), of "[(m, None)]"] by (simp add: drop_flight_def)
  ultimately show ?thesis by (meson converse_rtranclp_into_rtranclp r_into_rtranclp)
next
  case (created m p1 m' api p2)
  have f: "fresh_token (bm_Token m) [] p" using provision_reserve_ok [OF created(1)] fresh by simp
  have "fc_step exec ([], p) ([(m, None)], p1)" by (rule st_reserve [OF created(1) f])
  moreover have "fc_step exec ([(m, None)], p1) ([(m', Some api)], p2)"
    using st_build [OF _ created(2), of "[(m, None)]"] by (simp add: drop_flight_def)
  moreover have "fc_step exec ([(m', Some api)], p2) ([], p')"
    using st_commit [of m' api "[(m', Some api)]" exec p2] created(3) by (simp add: drop_flight_def)
  ultimately show ?thesis by (meson converse_rtranclp_into_rtranclp r_into_rtranclp)
qed

lemma fc_reach_steps: "(fc_step exec)\<^sup>*\<^sup>* s s' \<Longrightarrow> fc_reach exec s \<Longrightarrow> fc_reach exec s'"
  by (induction rule: rtranclp_induct) (auto intro: fc_reach.step)

lemma fc_inv_steps: "(fc_step exec)\<^sup>*\<^sup>* s s' \<Longrightarrow> fc_inv s \<Longrightarrow> fc_inv s'"
  by (induction rule: rtranclp_induct) (auto intro: fc_step_inv)

lemma provision_reach:
  assumes "fc_reach exec ([], p)" "Provision exec env opts p = (res, p')"
    and "\<And>t. fe_token env = Some t \<Longrightarrow> fresh_token t [] p"
  shows "fc_reach exec ([], p')"
  by (rule fc_reach_steps [OF provision_steps [OF assms(2,3)] assms(1)])

subsection \<open>A sample spoke\<close>

definition sample_exec :: "unit exec" where
  "sample_exec cmd h = ((None, []), h)"

definition sample_prov :: "unit fc_prov" where
  "sample_prov =
     \<lparr>fp_kernelImage = ''/k'', fp_defaultRootfs = ''/r'', fp_payloadImage = [], fp_stateDir = ''/s'',
      fp_firecrackerBin = ''fc'', fp_namespace = [],
      fp_limits = \<lparr>lim_MemoryBytes = 0, lim_NanoCPUs = 0, lim_PidsLimit = 0, lim_MaxBoxes = 0, lim_DiskBytes = 0,
                   lim_MaxDiskBytes = 0\<rparr>,
      fp_egress = fcNet, fp_egressMode = EgressDisabled, fp_poolSize = 2, fp_poolDone = False, fp_poolErr = None,
      fp_ports = True,
      fp_jailer = \<lparr>jc_jailerBin = ''j'', jc_execFile = ''/b/fc'', jc_chrootBase = ''/s/c'', jc_uidMin = 10, jc_uidMax = 12,
                   jc_gid = 10, jc_cgroupVersion = ''2''\<rparr>,
      fp_heap = [], fp_boxes = [], fp_used = {}, fp_usedUIDs = {}, fp_disk = [], fp_host = (), fp_calls = []\<rparr>"

definition sample_env :: "string \<Rightarrow> fc_env" where
  "sample_env tok =
     \<lparr>fe_token = Some tok, fe_now = 1, fe_baseSize = Some 100, fe_mkdir = True, fe_copy = True, fe_truncate = True,
      fe_chown = True,
      fe_boot = \<lparr>be_rmChroot = True, be_new = True, be_start = True, be_serve = True, be_chown = True, be_guest = True\<rparr>,
      fe_save = SaveOk, fe_rm = True\<rparr>"

definition sample_opts :: "string \<Rightarrow> create_options" where
  "sample_opts b = \<lparr>co_BoxID = b, co_Description = [], co_SpokeName = [], co_Files = [], co_DiskBytes = 0\<rparr>"

definition sample_create :: "string \<Rightarrow> string \<Rightarrow> unit fc_prov \<Rightarrow> unit fc_prov" where
  "sample_create tok b p = snd (Provision sample_exec (sample_env tok) (sample_opts b) p)"

definition sample_two :: "unit fc_prov" where
  "sample_two = sample_create ''bb'' ''web'' (sample_create ''aa'' ''db'' sample_prov)"

lemma sample_reach: "fc_reach sample_exec ([], sample_prov)"
  by (rule fc_reach.start) (simp add: fc_start_def sample_prov_def)

lemma sample_create_reach:
  "fc_reach sample_exec ([], p) \<Longrightarrow> fresh_token tok [] p \<Longrightarrow> fc_reach sample_exec ([], sample_create tok b p)"
  using provision_reach [of sample_exec p "sample_env tok" "sample_opts b"]
  by (metis fc_env.select_convs(1) option.inject prod.collapse sample_create_def sample_env_def)

lemma sample_two_reach: "fc_reach sample_exec ([], sample_two)"
proof -
  have f: "fresh_token ''aa'' [] sample_prov" "fresh_token ''bb'' [] (sample_create ''aa'' ''db'' sample_prov)"
    unfolding fresh_token_def by code_simp+
  show ?thesis unfolding sample_two_def
    by (rule sample_create_reach [OF sample_create_reach [OF sample_reach f(1)] f(2)])
qed

lemma sample_two_boxes: "fp_boxes sample_two = [(''aa'', 0), (''bb'', 1)]"
  by code_simp

subsection \<open>Slots and user ids\<close>





subsection \<open>All or nothing\<close>

text \<open>Whether the last machine call for a token left its VMM running.\<close>

definition vm_up :: "string \<Rightarrow> host_call list \<Rightarrow> bool" where
  "vm_up t cs = foldl (\<lambda>b c. if c = StartVM t then True else if c = StopVM t then False else b) False cs"

lemma vm_up_append:
  "vm_up t (cs @ ds) = foldl (\<lambda>b c. if c = StartVM t then True else if c = StopVM t then False else b) (vm_up t cs) ds"
  by (simp add: vm_up_def)

lemma calls_log [simp]: "fp_calls (log_calls cs p) = fp_calls p @ cs"
  by (simp add: log_calls_def)

lemma vm_up_drop_chroot [simp]: "vm_up t (cs @ drop_chroot m) = vm_up t cs"
  "vm_up t ((cs @ drop_chroot m) @ ds) = vm_up t (cs @ ds)"
  by (simp_all add: vm_up_append drop_chroot_def)

lemma calls_freeSlot [simp]: "fp_calls (freeSlot m p) = fp_calls p"
  by (simp add: freeSlot_def)

lemma vm_up_remove_box_dir [simp]: "vm_up t (fp_calls (remove_box_dir ok tok p)) = vm_up t (fp_calls p)"
  by (simp add: remove_box_dir_def vm_up_append)

lemma boot_vm_up:
  assumes "bootMachine env m p = (r, p')"
  shows "vm_up t (fp_calls p') =
    (if t = bm_Token m then (case r of Inr _ \<Rightarrow> True | Inl ChrootStuck \<Rightarrow> vm_up t (fp_calls p)
       | Inl CreateFailed \<Rightarrow> vm_up t (fp_calls p) | _ \<Rightarrow> False)
     else vm_up t (fp_calls p))"
  using assms by (auto simp: bootMachine_def Let_def vm_up_append drop_chroot_def split: if_splits)

lemma stage_calls:
  assumes "stage_rootfs env opts m p = (r, p')"
  shows "vm_up t (fp_calls p') = vm_up t (fp_calls p)"
  using assms by (auto simp: stage_rootfs_def Let_def split: option.splits if_splits)

lemma build_vm_up:
  assumes "provision_build env opts m p = (r, p')" and "\<not> vm_up (bm_Token m) (fp_calls p)"
  shows "vm_up t (fp_calls p') = (if t = bm_Token m then \<not> isl r else vm_up t (fp_calls p))"
proof (cases "stage_rootfs env opts m p")
  case (Pair s p1)
  show ?thesis
  proof (cases s)
    case (Inl e)
    with assms Pair stage_calls [OF Pair, of t] show ?thesis by (auto simp: provision_build_def)
  next
    case (Inr m')
    then obtain k where m': "m' = m\<lparr>bm_DiskBytes := k\<rparr>" using stage_rootfs_ok Pair by metis
    obtain b p2 where boot: "bootMachine (fe_boot env) m' p1 = (b, p2)" by fastforce
    note up = boot_vm_up [OF boot, of t]
    have tok: "bm_Token m' = bm_Token m" by (simp add: m')
    show ?thesis
    proof (cases b)
      case (Inl e)
      have "vm_up t (fp_calls p') = vm_up t (fp_calls p2)" "isl r"
        using assms(1) Pair Inr boot Inl by (auto simp: provision_build_def Let_def vm_up_append split: prod.splits)
      then show ?thesis using up assms(2) stage_calls [OF Pair, of t] Inl tok
        by (cases e) (auto split: if_splits)
    next
      case ok: (Inr api)
      show ?thesis
      proof (cases "save (fe_save env) m' (fp_disk p2)")
        case sv: (Pair f d)
        then show ?thesis
          using assms(1) Pair Inr boot ok up stage_calls [OF Pair, of t] tok
          by (cases f) (auto simp: provision_build_def Let_def vm_up_append split: if_splits)
      qed
    qed
  qed
qed

lemma reserve_calls:
  assumes "provision_reserve exec env opts p = (r, p')"
  shows "fp_calls p' = fp_calls p"
proof -
  have "fp_calls (snd (EnsureNetwork exec p)) = fp_calls p"
    by (auto simp: EnsureNetwork_def Let_def split: egress_mode.split prod.split)
  with assms show ?thesis
    by (auto simp: provision_reserve_def allocIndexLocked_def allocUIDLocked_def split: if_splits prod.splits option.splits)
qed

lemma provision_outcome:
  assumes "Provision exec env opts p = (res, p')" and "fe_token env = Some t"
    and "tget (fp_disk p) t = None" and "\<not> vm_up t (fp_calls p)"
  shows "case res of
      Inl e \<Rightarrow> fp_heap p' = fp_heap p \<and> fp_boxes p' = fp_boxes p \<and> fp_used p' = fp_used p \<and>
        fp_usedUIDs p' = fp_usedUIDs p \<and> disk_meta (fp_disk p') = disk_meta (fp_disk p) \<and>
        (\<forall>u. vm_up u (fp_calls p') = vm_up u (fp_calls p))
    | Inr r \<Rightarrow> \<exists>i. fi_machine i \<and> fp_heap p' = fp_heap p @ [i] \<and> r = length (fp_heap p) \<and>
        fp_boxes p' = tput t r (fp_boxes p) \<and>
        bm_Token (fi_meta i) = t \<and> bm_BoxID (fi_meta i) = co_BoxID opts \<and> bm_Phase (fi_meta i) = ''pending'' \<and>
        bm_Namespace (fi_meta i) = fp_namespace p \<and>
        bm_NetIndex (fi_meta i) \<notin> fp_used p \<and> {0..<bm_NetIndex (fi_meta i)} \<subseteq> fp_used p \<and>
        fp_used p' = insert (bm_NetIndex (fi_meta i)) (fp_used p) \<and>
        disk_meta (fp_disk p') = (disk_meta (fp_disk p))(t \<mapsto> fi_meta i) \<and>
        (\<forall>u. vm_up u (fp_calls p') = (u = t \<or> vm_up u (fp_calls p)))"
  using assms(1)
proof (cases rule: provision_cases)
  case (refused e)
  then show ?thesis using provision_reserve_err [OF refused(1)] reserve_calls [OF refused(1)] by (simp add: core_def)
next
  case (failed m p1 e)
  note ok = provision_reserve_ok [OF failed(1)] and calls = reserve_calls [OF failed(1)]
  have t: "bm_Token m = t" using ok assms(2) by simp
  have p1: "fp_heap p1 = fp_heap p" "fp_boxes p1 = fp_boxes p" "fp_disk p1 = fp_disk p"
    "fp_used p1 = insert (bm_NetIndex m) (fp_used p)" "fp_usedUIDs p1 = insert (bm_UID m) (fp_usedUIDs p)"
    using ok by (simp_all add: core_def)
  obtain d where c: "core p' = (fp_heap p1, fp_boxes p1, fp_used p1 - {bm_NetIndex m}, fp_usedUIDs p1 - {bm_UID m}, d,
      fp_poolSize p1, fp_jailer p1)"
    and d: "disk_meta d = disk_meta (fp_disk p) \<or> disk_meta d = (disk_meta (fp_disk p))(t := None)"
    using provision_build_err [OF failed(2)] unfolding cleaned_def p1(3) t by blast
  have "disk_meta (fp_disk p) t = None" using assms(3) by (simp add: disk_meta_def)
  with d have "disk_meta d = disk_meta (fp_disk p)" by (auto simp: fun_upd_idem)
  moreover have "vm_up u (fp_calls p') = vm_up u (fp_calls p)" for u
    using build_vm_up [OF failed(2), of u] assms(4) by (simp add: calls t)
  ultimately show ?thesis using c ok failed(3) by (simp add: core_def p1)
next
  case (created m p1 m' api p2)
  note ok = provision_reserve_ok [OF created(1)] and calls = reserve_calls [OF created(1)]
  have t: "bm_Token m = t" using ok assms(2) by simp
  have p1: "fp_heap p1 = fp_heap p" "fp_boxes p1 = fp_boxes p" "fp_disk p1 = fp_disk p"
    "fp_used p1 = insert (bm_NetIndex m) (fp_used p)" using ok by (simp_all add: core_def)
  obtain k where m': "m' = m\<lparr>bm_DiskBytes := k\<rparr>"
    and c: "core p2 = (fp_heap p1, fp_boxes p1, fp_used p1, fp_usedUIDs p1,
      snd (save SaveOk m' (mkdir (bm_Token m) (fp_disk p1))), fp_poolSize p1, fp_jailer p1)"
    using provision_build_ok [OF created(2)] by blast
  have p2: "fp_heap p2 = fp_heap p" "fp_boxes p2 = fp_boxes p" "fp_used p2 = insert (bm_NetIndex m) (fp_used p)"
    "fp_disk p2 = snd (save SaveOk m' (mkdir t (fp_disk p)))" using c by (simp_all add: core_def p1 t)
  have "disk_meta (fp_disk p2) = (disk_meta (fp_disk p))(t \<mapsto> m')"
    unfolding p2 disk_meta_save by (simp add: m' t)
  moreover have "vm_up u (fp_calls p2) = (u = t \<or> vm_up u (fp_calls p))" for u
    using build_vm_up [OF created(2), of u] assms(4) by (simp add: calls t)
  ultimately show ?thesis using created(3,4) ok t p2
    by (simp add: provision_commit_def Let_def m')
qed

text \<open>
  C10 (provision_all_or_nothing). A create whose token is new either fails and leaves no trace (no box,
  no slot or user id held, no metadata that a restart would load, no VMM left running), whichever
  step failed; or it succeeds, and then exactly one box was added: it carries the requested box id
  in the pending phase, holds the lowest free slot, is persisted and its VMM runs.
\<close>

theorem provision_all_or_nothing:
  assumes "Provision exec env opts p = (res, p')" and "fe_token env = Some t"
    and "tget (fp_disk p) t = None" and "\<not> vm_up t (fp_calls p)"
  shows "case res of
      Inl e \<Rightarrow> fp_heap p' = fp_heap p \<and> fp_boxes p' = fp_boxes p \<and> fp_used p' = fp_used p \<and>
        fp_usedUIDs p' = fp_usedUIDs p \<and> disk_meta (fp_disk p') = disk_meta (fp_disk p) \<and>
        (\<forall>u. vm_up u (fp_calls p') = vm_up u (fp_calls p))
    | Inr r \<Rightarrow> \<exists>i. fi_machine i \<and> fp_heap p' = fp_heap p @ [i] \<and> r = length (fp_heap p) \<and>
        fp_boxes p' = tput t r (fp_boxes p) \<and>
        bm_Token (fi_meta i) = t \<and> bm_BoxID (fi_meta i) = co_BoxID opts \<and> bm_Phase (fi_meta i) = ''pending'' \<and>
        bm_Namespace (fi_meta i) = fp_namespace p \<and>
        bm_NetIndex (fi_meta i) \<notin> fp_used p \<and> {0..<bm_NetIndex (fi_meta i)} \<subseteq> fp_used p \<and>
        fp_used p' = insert (bm_NetIndex (fi_meta i)) (fp_used p) \<and>
        disk_meta (fp_disk p') = (disk_meta (fp_disk p))(t \<mapsto> fi_meta i) \<and>
        (\<forall>u. vm_up u (fp_calls p') = (u = t \<or> vm_up u (fp_calls p)))"
  using provision_outcome [OF assms] .

theorem provision_all_or_nothing_witness:
  "(let p' = snd (Provision sample_exec ((sample_env ''aa'')\<lparr>fe_save := SaveRename\<rparr>) (sample_opts ''db'') sample_prov)
    in fp_boxes p' = [] \<and> fp_used p' = {} \<and> \<not> vm_up ''aa'' (fp_calls p')) \<and>
   vm_up ''aa'' (fp_calls (sample_create ''aa'' ''db'' sample_prov))"
proof -
  have pre: "fe_token (sample_env x) = Some x" "tget (fp_disk sample_prov) x = None" "\<not> vm_up x (fp_calls sample_prov)"
    "fp_boxes sample_prov = []" "fp_used sample_prov = {}" for x
    by (simp_all add: sample_env_def sample_prov_def vm_up_def)
  have res: "fst (Provision sample_exec ((sample_env ''aa'')\<lparr>fe_save := SaveRename\<rparr>) (sample_opts ''db'') sample_prov) = Inl (FcSave SaveRename)"
    "fst (Provision sample_exec (sample_env ''aa'') (sample_opts ''db'') sample_prov) = Inr 0" by code_simp+
  obtain p1 where p1: "Provision sample_exec ((sample_env ''aa'')\<lparr>fe_save := SaveRename\<rparr>) (sample_opts ''db'') sample_prov = (Inl (FcSave SaveRename), p1)"
    using res(1) by (metis prod.collapse)
  obtain p2 where p2: "Provision sample_exec (sample_env ''aa'') (sample_opts ''db'') sample_prov = (Inr 0, p2)"
    using res(2) by (metis prod.collapse)
  have "fe_token ((sample_env ''aa'')\<lparr>fe_save := SaveRename\<rparr>) = Some ''aa''" by (simp add: pre)
  from provision_all_or_nothing [OF p1 this pre(2,3)] provision_all_or_nothing [OF p2 pre(1,2,3)]
  show ?thesis by (auto simp: p1 p2 Let_def sample_create_def pre)
qed

subsection \<open>Restart\<close>

lemma rehydrate_insts:
  "i \<in> set (fp_heap (rehydrate_metas alive serveOK ms p)) \<Longrightarrow>
   i \<in> set (fp_heap p) \<or>
   (fi_meta i \<in> set ms \<and> \<not> fi_machine i \<and> fi_alive i = alive (apiSockPath (fi_meta i) (fp_stateDir p)))"
proof (induction ms arbitrary: p)
  case (Cons m ms)
  obtain j q where q: "rehydrate_metas alive serveOK (m # ms) p = rehydrate_metas alive serveOK ms q"
    "fp_heap q = fp_heap p @ [j]" "fp_stateDir q = fp_stateDir p"
    and j: "fi_meta j = m" "\<not> fi_machine j" "fi_alive j = alive (apiSockPath m (fp_stateDir p))"
    by (simp add: Let_def log_calls_def)
  from Cons.IH [of q] Cons.prems q j show ?case by auto
qed simp

lemma rehydrate_disk: "fp_disk (rehydrate_metas alive serveOK ms p) = fp_disk p"
  by (induction ms arbitrary: p) (simp_all add: Let_def log_calls_def)

lemma keyed_eq:
  assumes "\<And>t x. M t = Some x \<Longrightarrow> bm_Token x = t" "\<And>t x. N t = Some x \<Longrightarrow> bm_Token x = t" "ran M = ran N"
  shows "M = N"
proof
  fix t
  have "M t = Some x \<longleftrightarrow> N t = Some x" for x
  proof -
    have "M t = Some x \<longleftrightarrow> x \<in> ran M \<and> bm_Token x = t" using assms(1) by (auto simp: ran_def)
    also have "\<dots> \<longleftrightarrow> N t = Some x" unfolding assms(3) using assms(2) by (auto simp: ran_def)
    finally show ?thesis .
  qed
  then show "M t = N t" by (metis not_Some_eq)
qed

lemma restart_disk: "fp_disk (fc_restart alive serveOK p) = fp_disk p"
  by (simp add: fc_restart_def rehydrate_def loadMetas_def rehydrate_disk)

lemma restart_live_id:
  assumes inv: "fc_inv ([], p)"
  shows "live_id (fc_restart alive serveOK p) = live_id p"
proof -
  define p' where "p' = fc_restart alive serveOK p"
  have "fc_inv ([], p')" unfolding p'_def by (rule fc_step_inv [OF st_restart inv])
  then have inv': "heap_ok p'" "lease_inv (abs_leases [] p')" by (simp_all add: fc_inv_def)
  have rep: "heap_ok p" "lease_inv (abs_leases [] p)" using inv by (simp_all add: fc_inv_def)
  have disk: "fp_disk p' = fp_disk p" by (simp add: p'_def restart_disk)
  have "ran (live_id p') = ran (disk_id (fp_disk p'))" "ran (live_id p) = ran (disk_id (fp_disk p))"
    using inv'(2) rep(2) by (auto simp: lease_inv_def held_def)
  then have "live_id p' = live_id p" unfolding disk
    by (intro keyed_eq [OF live_keyed [OF inv'(1)] live_keyed [OF rep(1)]]) simp_all
  then show ?thesis by (simp add: p'_def)
qed

text \<open>
  C27 (fc_restart_recovers). Restarting a spoke with no create in flight recovers every box: the same
  tokens with the same identity, the same reserved slots and user ids, and for each box the
  metadata last persisted (its phase and whether it was paused), reported running exactly
  if its orphaned VMM still answers.
\<close>

theorem fc_restart_recovers:
  assumes "fc_reach exec ([], p)"
  shows "let p' = fc_restart alive serveOK p in
    live_id p' = live_id p \<and> fp_used p' = fp_used p \<and> fp_usedUIDs p' = fp_usedUIDs p \<and> fp_disk p' = fp_disk p \<and>
    (\<forall>t r. tget (fp_boxes p') t = Some r \<longrightarrow>
       disk_meta (fp_disk p) t = Some (fi_meta (fp_heap p' ! r)) \<and> \<not> fi_machine (fp_heap p' ! r) \<and>
       fi_alive (fp_heap p' ! r) = alive (apiSockPath (fi_meta (fp_heap p' ! r)) (fp_stateDir p)))"
proof -
  define p' where "p' = fc_restart alive serveOK p"
  note inv = fc_reach_inv [OF assms]
  let ?l = "abs_leases [] p" and ?l' = "abs_leases [] p'"
  have "fc_step exec ([], p) ([], p')" unfolding p'_def by (rule st_restart)
  from fc_step_inv [OF this inv] have inv': "rep_ok [] p'" "lease_inv ?l'" by (simp_all add: fc_inv_rep)
  have rep: "heap_ok p" "pool_ok [] p" "disk_ok (fp_disk p)" "lease_inv ?l" using inv by (simp_all add: fc_inv_rep rep_ok_def)
  have heap': "heap_ok p'" "pool_ok [] p'" using inv' by (simp_all add: rep_ok_def)
  define q where "q = p\<lparr>fp_heap := [], fp_boxes := [], fp_used := {}, fp_usedUIDs := {},
          fp_poolDone := False, fp_poolErr := None\<rparr>"
  have p': "p' = rehydrate_metas alive serveOK (entries_metas (fp_disk p)) q"
    by (simp add: p'_def fc_restart_def rehydrate_def loadMetas_def q_def)
  have disk: "fp_disk p' = fp_disk p" unfolding p' rehydrate_disk by (simp add: q_def)
  have live: "live_id p' = live_id p" unfolding p'_def by (rule restart_live_id [OF inv])
  then have "?l' = ?l" by (simp add: abs_leases_def disk)
  then have used: "fp_used p' = fp_used p" "fp_usedUIDs p' = fp_usedUIDs p" using rep(2) heap'(2) by (simp_all add: pool_ok_def)
  have insts: "disk_meta (fp_disk p) t = Some (fi_meta (fp_heap p' ! r)) \<and> \<not> fi_machine (fp_heap p' ! r) \<and>
       fi_alive (fp_heap p' ! r) = alive (apiSockPath (fi_meta (fp_heap p' ! r)) (fp_stateDir p))"
    if "tget (fp_boxes p') t = Some r" for t r
  proof -
    let ?i = "fp_heap p' ! r"
    have r: "r < length (fp_heap p')" "bm_Token (fi_meta ?i) = t" using that heap'(1) by (auto simp: heap_ok_def)
    then have "?i \<in> set (fp_heap p')" by simp
    from rehydrate_insts [OF this [unfolded p']]
    have i: "fi_meta ?i \<in> set (entries_metas (fp_disk p))" "\<not> fi_machine ?i"
      "fi_alive ?i = alive (apiSockPath (fi_meta ?i) (fp_stateDir p))" unfolding p' [symmetric] by (simp_all add: q_def)
    then obtain u where "disk_meta (fp_disk p) u = Some (fi_meta ?i)"
      by (auto simp: set_entries_metas [OF rep(3)] ran_def)
    moreover from this have "u = t" using rep(3) r(2) by (auto simp: disk_ok_def)
    ultimately show ?thesis using i by simp
  qed
  show ?thesis unfolding Let_def p'_def [symmetric] using live used disk insts by blast
qed

theorem fc_restart_recovers_witness:
  "fp_used (fc_restart (\<lambda>_. True) (\<lambda>_. True) sample_two) = fp_used sample_two \<and>
   live_id (fc_restart (\<lambda>_. True) (\<lambda>_. True) sample_two) = live_id sample_two"
  using fc_restart_recovers [OF sample_two_reach, of "\<lambda>_. True" "\<lambda>_. True"] unfolding Let_def by blast

subsection \<open>Host networking\<close>

text \<open>No operation changes the namespace, and only readying the pool changes the host.\<close>

lemma host_simps [simp]:
  "fp_host (log_calls cs p) = fp_host p" "fp_host (freeSlot m p) = fp_host p"
  "fp_host (remove_box_dir ok tok p) = fp_host p"
  by (simp_all add: log_calls_def freeSlot_def remove_box_dir_def)

lemma stage_host: "stage_rootfs env opts m p = (r, p') \<Longrightarrow> fp_host p' = fp_host p"
  by (auto simp: stage_rootfs_def Let_def split: option.splits if_splits)

lemma boot_host: "bootMachine env m p = (r, p') \<Longrightarrow> fp_host p' = fp_host p"
  by (auto simp: bootMachine_def Let_def split: if_splits)

lemma build_host:
  assumes "provision_build env opts m p = (r, p')"
  shows "fp_host p' = fp_host p"
proof -
  obtain s p1 where s: "stage_rootfs env opts m p = (s, p1)" by fastforce
  note h = stage_host [OF s]
  show ?thesis
  proof (cases s)
    case (Inl e)
    with assms s h show ?thesis by (simp add: provision_build_def)
  next
    case (Inr m')
    obtain b p2 where b: "bootMachine (fe_boot env) m' p1 = (b, p2)" by fastforce
    from assms s Inr b boot_host [OF b] h show ?thesis
      by (auto simp: provision_build_def Let_def split: sum.splits prod.splits option.splits)
  qed
qed

lemma reserve_host:
  assumes "provision_reserve exec env opts p = (r, p')"
  shows "fp_host p' = fp_host p \<or> fp_host p' = fp_host (snd (EnsureNetwork exec p))"
  using assms
  by (auto simp: provision_reserve_def allocIndexLocked_def allocUIDLocked_def split: if_splits prod.splits option.splits)

lemma provision_host:
  "fp_host (snd (Provision exec env opts p)) = fp_host p \<or>
   fp_host (snd (Provision exec env opts p)) = fp_host (snd (EnsureNetwork exec p))"
proof -
  obtain res p' where pr: "Provision exec env opts p = (res, p')" by fastforce
  then show ?thesis
  proof (cases rule: provision_cases)
    case (refused e)
    then show ?thesis using reserve_host [OF refused(1)] pr by simp
  next
    case (failed m p1 e)
    then show ?thesis using reserve_host [OF failed(1)] build_host [OF failed(2)] pr by simp
  next
    case (created m p1 m' api p2)
    then show ?thesis using reserve_host [OF created(1)] build_host [OF created(2)] pr
      by (simp add: provision_commit_def Let_def)
  qed
qed

lemma host_save_inst: "fp_host (snd (save_inst f r p)) = fp_host p"
  by (auto simp: save_inst_def split: prod.split option.split)

lemma host_upd_inst: "fp_host (upd_inst r f p) = fp_host p"
  by (simp add: upd_inst_def)

lemma host_rehydrate_metas: "fp_host (rehydrate_metas vmmAlive serveOK ms p) = fp_host p"
  by (induction ms arbitrary: p) (simp_all add: Let_def)

text \<open>Only the readying of the pool runs host commands: every operation on an existing box leaves the host alone.\<close>

lemma handle_ops_host:
  "fp_host (snd (MarkReady f r p)) = fp_host p" "fp_host (snd (Pause f r p)) = fp_host p"
  "fp_host (snd (Resume benv f r p)) = fp_host p" "fp_host (snd (Destroy rm r p)) = fp_host p"
  "fp_host (fc_restart vmmAlive serveOK p) = fp_host p"
proof -
  show "fp_host (snd (Resume benv f r p)) = fp_host p"
    using boot_host [OF prod.collapse [symmetric], of benv "fi_meta (fp_heap p ! r)" p]
    by (auto simp: Resume_def host_save_inst host_upd_inst split: prod.split sum.split)
qed (auto simp: MarkReady_def Pause_def Destroy_def fc_restart_def rehydrate_def loadMetas_def Let_def host_save_inst host_upd_inst
    host_rehydrate_metas remove_box_dir_def freeSlot_def split: option.split)

text \<open>
  C33 (external_mode_read_only). A spoke whose egress pool is provisioned out of band, or that has none,
  never changes host networking: if \<^verbatim>\<open>ip -o link show\<close> only reads, neither readying the pool nor
  creating, marking ready, pausing, resuming or destroying a box nor a restart changes the host. An
  external pool is accepted exactly when every slot's TAP device exists and is administratively up,
  and the verdict of the first check is final.
\<close>

theorem external_mode_read_only:
  assumes "\<And>n h. snd (exec [''ip'', ''-o'', ''link'', ''show'', n] h) = h" and "fp_egressMode p \<noteq> EgressManaged"
  shows "fp_host (snd (EnsureNetwork exec p)) = fp_host p \<and>
    fp_host (snd (Provision exec env opts p)) = fp_host p \<and>
    fp_host (snd (MarkReady f r p)) = fp_host p \<and> fp_host (snd (Pause f r p)) = fp_host p \<and>
    fp_host (snd (Resume benv f r p)) = fp_host p \<and> fp_host (snd (Destroy rm r p)) = fp_host p \<and>
    fp_host (fc_restart vmmAlive serveOK p) = fp_host p \<and>
    (fp_egressMode p = EgressExternal \<and> \<not> fp_poolDone p \<longrightarrow> (fst (EnsureNetwork exec p) = None \<longleftrightarrow>
       (\<forall>i. 0 \<le> i \<and> i < fp_poolSize p \<longrightarrow> tap_ready exec (fp_egress p) (fp_host p) i = None))) \<and>
    EnsureNetwork exec (snd (EnsureNetwork exec p)) = EnsureNetwork exec p"
proof -
  note validate = ValidatePool_spec [where exec = exec, OF assms(1), of "fp_egress p" "fp_poolSize p" "fp_host p"]
  have host: "fp_host (snd (EnsureNetwork exec p)) = fp_host p"
    using assms(2) by (cases "fp_egressMode p") (simp_all add: EnsureNetwork_def validate)
  moreover have "fp_host (snd (Provision exec env opts p)) = fp_host p" using provision_host [of exec env opts p] host by metis
  moreover have "fp_egressMode p = EgressExternal \<and> \<not> fp_poolDone p \<longrightarrow> (fst (EnsureNetwork exec p) = None \<longleftrightarrow>
       (\<forall>i. 0 \<le> i \<and> i < fp_poolSize p \<longrightarrow> tap_ready exec (fp_egress p) (fp_host p) i = None))"
    by (auto simp: EnsureNetwork_def validate set_slots)
  moreover have "EnsureNetwork exec (snd (EnsureNetwork exec p)) = EnsureNetwork exec p"
    using assms(2) by (cases "fp_egressMode p") (auto simp: EnsureNetwork_def validate)
  ultimately show ?thesis using handle_ops_host by blast
qed

text \<open>A host that remembers every command but the reading one, and a spoke with an external pool on it.\<close>

definition spy_exec :: "string list list exec" where
  "spy_exec c h = (if take 4 c = [''ip'', ''-o'', ''link'', ''show''] then ((None, ''3: tap0: <BROADCAST,UP> mtu''), h)
     else ((None, []), c # h))"

definition spied_prov :: "egress_mode \<Rightarrow> string list list fc_prov" where
  "spied_prov mode =
     \<lparr>fp_kernelImage = ''/k'', fp_defaultRootfs = ''/r'', fp_payloadImage = [], fp_stateDir = ''/s'',
      fp_firecrackerBin = ''fc'', fp_namespace = [], fp_limits = fp_limits sample_prov,
      fp_egress = fcNet, fp_egressMode = mode, fp_poolSize = 2, fp_poolDone = False, fp_poolErr = None,
      fp_ports = True, fp_jailer = fp_jailer sample_prov,
      fp_heap = [], fp_boxes = [], fp_used = {}, fp_usedUIDs = {}, fp_disk = [], fp_host = [], fp_calls = []\<rparr>"

theorem external_mode_read_only_witness:
  "fst (EnsureNetwork spy_exec (spied_prov EgressExternal)) = None \<and>
   fp_host (snd (Provision spy_exec (sample_env ''aa'') (sample_opts ''db'') (spied_prov EgressExternal))) = [] \<and>
   fp_host (snd (EnsureNetwork spy_exec (spied_prov EgressManaged))) \<noteq> []"
proof -
  have "linkFlagsUp ''3: tap0: <BROADCAST,UP> mtu''" by code_simp
  then have "tap_ready spy_exec c h i = None" for c h i by (simp add: tap_ready_def spy_exec_def)
  moreover have "snd (spy_exec [''ip'', ''-o'', ''link'', ''show'', n] h) = h" for n h by (simp add: spy_exec_def)
  moreover have "fp_host (snd (EnsureNetwork spy_exec (spied_prov EgressManaged))) \<noteq> []" by code_simp
  ultimately show ?thesis
    using external_mode_read_only [of spy_exec "spied_prov EgressExternal" "sample_env ''aa''" "sample_opts ''db''"]
    by (simp add: spied_prov_def)
qed

subsection \<open>Where the promises break\<close>

text \<open>
  A destroy through a handle whose box is gone already answers that the box is not found, but it
  has freed the slot and the user id of its old box first, whoever holds them by then. Two
  destroys of one box with a create between them are enough for two live boxes to share a slot.
\<close>

lemma stale_destroy_shares_slot:
  "let p1 = snd (Destroy True 0 (sample_create ''aa'' ''db'' sample_prov));
       p2 = sample_create ''bb'' ''web'' p1;
       p3 = snd (Destroy True 0 p2);
       p4 = sample_create ''cc'' ''api'' p3
   in fst (Destroy True 0 p2) = Some (FcNotFound ''aa'') \<and> fp_boxes p4 = [(''bb'', 1), (''cc'', 2)] \<and>
      bm_NetIndex (fi_meta (fp_heap p4 ! 1)) = bm_NetIndex (fi_meta (fp_heap p4 ! 2)) \<and>
      bm_UID (fi_meta (fp_heap p4 ! 1)) = bm_UID (fi_meta (fp_heap p4 ! 2))"
  by code_simp

text \<open>
  A lookup also accepts any prefix of a token, before a later box of exactly that box id: a box id
  that looks like the start of another box's token resolves to that other box, and the empty name
  resolves to any box at all.
\<close>

lemma find_prefix_hits_other_box:
  "let p = sample_create ''ff'' ''db'' (sample_create ''db1c'' ''web'' sample_prov)
   in fc_Find ''db'' p = Inr 0 \<and> bm_BoxID (fi_meta (fp_heap p ! 0)) = ''web'' \<and>
      bm_BoxID (fi_meta (fp_heap p ! 1)) = ''db'' \<and> fc_Find [] p = Inr 0"
  by code_simp

text \<open>
  The metadata is written only after the guest answered. A crash before that leaves a started VMM
  whose slot and user id the restarted spoke considers free.
\<close>

lemma crash_mid_boot_frees_slot:
  assumes "fc_reach exec (fl, p)" "(m, None) \<in> set fl"
  shows "bm_NetIndex m \<notin> fp_used (fc_restart alive serveOK p)"
proof
  define p' where "p' = fc_restart alive serveOK p"
  let ?l = "abs_leases fl p"
  assume used: "bm_NetIndex m \<in> fp_used (fc_restart alive serveOK p)"
  note inv = fc_reach_inv [OF assms(1)]
  have rep: "disk_ok (fp_disk p)" "flights_ok fl (fp_disk p)" "lease_inv ?l" using inv by (simp_all add: fc_inv_rep rep_ok_def)
  have "fc_step exec (fl, p) ([], p')" unfolding p'_def by (rule st_restart)
  from fc_step_inv [OF this inv] have inv': "pool_ok [] p'" "lease_inv (abs_leases [] p')" by (simp_all add: fc_inv_rep rep_ok_def)
  have "fp_disk p' = fp_disk p" by (simp add: p'_def fc_restart_def rehydrate_def loadMetas_def rehydrate_disk)
  then have "held (abs_leases [] p') = ls_saved ?l" using inv'(2) by (auto simp: lease_inv_def held_def)
  with used inv'(1) obtain x where x: "x \<in> ls_saved ?l" "bm_NetIndex x = bm_NetIndex (ident m)"
    by (auto simp: pool_ok_def p'_def)
  have "ident m \<in> held ?l" using assms(2) by (force simp: held_def)
  moreover have "x \<in> held ?l" using x(1) rep(3) unfolding lease_inv_def by blast
  ultimately have "x = ident m" using rep(3) x(2) unfolding lease_inv_def by (metis inj_onD)
  with x(1) obtain u where "disk_id (fp_disk p) u = Some (ident m)" by (auto simp: ran_def)
  with disk_keyed [OF rep(1) this] have "disk_id (fp_disk p) (bm_Token m) \<noteq> None" by simp
  moreover have "disk_id (fp_disk p) (bm_Token m) = None" using rep(2) assms(2) unfolding flights_ok_def by fastforce
  ultimately show False by simp
qed

end
