(* ===== verification/FcOperator.thy ===== *)
theory FcOperator
  imports FcLifecycle
begin

text \<open>
  The operator's commands on a host's state directory, \<^verbatim>\<open>internal/spoke/firecracker/operator.go\<close>:
  listing, destroying one box and destroying all of them without a running spoke. \<open>alive\<close> and
  \<open>haltOK\<close> answer for a VMM's API socket, \<open>rmOK\<close> for the removal of a directory.
\<close>

record vm_status =
  vs_Token :: string
  vs_BoxID :: string
  vs_Namespace :: string
  vs_Phase :: string
  vs_Paused :: bool
  vs_Running :: bool
  vs_NetIndex :: int
  vs_Created :: int

definition op_dir :: "string \<Rightarrow> string" where
  "op_dir stateDir = (if stateDir = [] then ''/run/llmbox/firecracker'' else stateDir)"

definition ListVMs :: "(string \<Rightarrow> bool) \<Rightarrow> string \<Rightarrow> dir_read \<Rightarrow> state_dir \<Rightarrow> fc_error + vm_status list" where
  "ListVMs alive stateDir r d =
     (case loadMetas r d of
        None \<Rightarrow> Inl FcUnreadable
      | Some metas \<Rightarrow>
          Inr (sort_key vs_Created (map (\<lambda>m.
            \<lparr>vs_Token = bm_Token m, vs_BoxID = bm_BoxID m, vs_Namespace = bm_Namespace m, vs_Phase = bm_Phase m,
             vs_Paused = bm_Paused m, vs_Running = alive (apiSockPath m (op_dir stateDir)),
             vs_NetIndex = bm_NetIndex m, vs_Created = bm_Created m\<rparr>) metas)))"

fun resolve_loop :: "string \<Rightarrow> box_meta list \<Rightarrow> box_meta list \<Rightarrow> fc_error + box_meta" where
  "resolve_loop key prefixed [] =
     (case prefixed of
        [m] \<Rightarrow> Inr m
      | [] \<Rightarrow> Inl (FcNotFound key)
      | _ \<Rightarrow> Inl (FcAmbiguous key (length prefixed)))"
| "resolve_loop key prefixed (m # ms) =
     (if bm_Token m = key \<or> (bm_BoxID m \<noteq> [] \<and> bm_BoxID m = key) then Inr m
      else resolve_loop key (if has_prefix (bm_Token m) key then prefixed @ [m] else prefixed) ms)"

definition resolveMeta :: "box_meta list \<Rightarrow> string \<Rightarrow> fc_error + box_meta" where
  "resolveMeta metas idOrToken = resolve_loop idOrToken [] metas"

definition op_destroyBox ::
  "(string \<Rightarrow> bool) \<Rightarrow> (string \<Rightarrow> bool) \<Rightarrow> (string \<Rightarrow> bool) \<Rightarrow> string \<Rightarrow> box_meta \<Rightarrow> state_dir \<Rightarrow> fc_error option \<times> state_dir"
where
  "op_destroyBox alive haltOK rmOK stateDir m d =
     (let sock = apiSockPath m stateDir in
      if alive sock \<and> \<not> haltOK sock then (Some (FcHalt (bm_Token m)), d)
      else if \<not> rmOK (boxDir stateDir (bm_Token m)) then (Some (FcRemove (bm_Token m)), d)
      else if chrootInstanceDir m \<noteq> [] \<and> \<not> rmOK (chrootInstanceDir m)
        then (Some (FcRemove (bm_Token m)), tdel (bm_Token m) d)
      else (None, tdel (bm_Token m) d))"

definition destroyed_status :: "box_meta \<Rightarrow> vm_status" where
  "destroyed_status m =
     \<lparr>vs_Token = bm_Token m, vs_BoxID = bm_BoxID m, vs_Namespace = bm_Namespace m, vs_Phase = bm_Phase m,
      vs_Paused = False, vs_Running = False, vs_NetIndex = 0, vs_Created = 0\<rparr>"

definition DestroyVM ::
  "(string \<Rightarrow> bool) \<Rightarrow> (string \<Rightarrow> bool) \<Rightarrow> (string \<Rightarrow> bool) \<Rightarrow> string \<Rightarrow> string \<Rightarrow> dir_read \<Rightarrow> state_dir \<Rightarrow>
   (fc_error + vm_status) \<times> state_dir"
where
  "DestroyVM alive haltOK rmOK stateDir idOrToken r d =
     (case loadMetas r d of
        None \<Rightarrow> (Inl FcUnreadable, d)
      | Some metas \<Rightarrow>
          (case resolveMeta metas idOrToken of
             Inl e \<Rightarrow> (Inl e, d)
           | Inr m \<Rightarrow>
               (case op_destroyBox alive haltOK rmOK (op_dir stateDir) m d of
                  (Some e, d') \<Rightarrow> (Inl e, d')
                | (None, d') \<Rightarrow> (Inr (destroyed_status m), d'))))"

fun destroy_each ::
  "(string \<Rightarrow> bool) \<Rightarrow> (string \<Rightarrow> bool) \<Rightarrow> (string \<Rightarrow> bool) \<Rightarrow> string \<Rightarrow> box_meta list \<Rightarrow> state_dir \<Rightarrow>
   vm_status list \<times> fc_error list \<times> state_dir"
where
  "destroy_each alive haltOK rmOK stateDir [] d = ([], [], d)"
| "destroy_each alive haltOK rmOK stateDir (m # ms) d =
     (case op_destroyBox alive haltOK rmOK stateDir m d of
        (Some e, d1) \<Rightarrow>
          (case destroy_each alive haltOK rmOK stateDir ms d1 of (ok, errs, d2) \<Rightarrow> (ok, e # errs, d2))
      | (None, d1) \<Rightarrow>
          (case destroy_each alive haltOK rmOK stateDir ms d1 of (ok, errs, d2) \<Rightarrow> (destroyed_status m # ok, errs, d2)))"

definition DestroyAllVMs ::
  "(string \<Rightarrow> bool) \<Rightarrow> (string \<Rightarrow> bool) \<Rightarrow> (string \<Rightarrow> bool) \<Rightarrow> string \<Rightarrow> dir_read \<Rightarrow> state_dir \<Rightarrow>
   vm_status list \<times> fc_error list \<times> state_dir"
where
  "DestroyAllVMs alive haltOK rmOK stateDir r d =
     (case loadMetas r d of
        None \<Rightarrow> ([], [FcUnreadable], d)
      | Some metas \<Rightarrow> destroy_each alive haltOK rmOK (op_dir stateDir) (sort_key bm_Created metas) d)"

subsection \<open>Resolution and removal\<close>

lemma resolve_loop_ok:
  assumes "resolve_loop key pre ms = Inr m"
    and "\<And>x. x \<in> set pre \<Longrightarrow> has_prefix (bm_Token x) key"
  shows "(m \<in> set ms \<and> (bm_Token m = key \<or> bm_BoxID m \<noteq> [] \<and> bm_BoxID m = key)) \<or>
    (m \<in> set pre \<union> set ms \<and> has_prefix (bm_Token m) key \<and> set pre \<union> {x \<in> set ms. has_prefix (bm_Token x) key} = {m})"
  using assms
proof (induction key pre ms rule: resolve_loop.induct)
  case (1 key pre)
  from 1(1) have "pre = [m]" by (cases pre rule: remdups_adj.cases) auto
  with 1(2) show ?case by simp
next
  case (2 key pre x ms)
  show ?case
  proof (cases "bm_Token x = key \<or> (bm_BoxID x \<noteq> [] \<and> bm_BoxID x = key)")
    case True
    with 2(2) have "m = x" by simp
    with True show ?thesis by simp
  next
    case False
    define pre' where "pre' = (if has_prefix (bm_Token x) key then pre @ [x] else pre)"
    have all: "y \<in> set pre' \<Longrightarrow> has_prefix (bm_Token y) key" for y
      using 2(3) by (auto simp: pre'_def split: if_splits)
    have "resolve_loop key pre' ms = Inr m" using 2(2) False by (simp add: pre'_def)
    from 2(1) [OF False, folded pre'_def, OF this all]
    consider "m \<in> set ms \<and> (bm_Token m = key \<or> bm_BoxID m \<noteq> [] \<and> bm_BoxID m = key)"
      | "m \<in> set pre' \<union> set ms" "has_prefix (bm_Token m) key"
        "set pre' \<union> {y \<in> set ms. has_prefix (bm_Token y) key} = {m}" by blast
    then show ?thesis
    proof cases
      case 1
      then show ?thesis by simp
    next
      case 2
      have "set pre' \<union> {y \<in> set ms. has_prefix (bm_Token y) key} =
          set pre \<union> {y \<in> set (x # ms). has_prefix (bm_Token y) key}" by (auto simp: pre'_def)
      moreover have "m \<in> set pre \<union> set (x # ms)" using 2(1) by (auto simp: pre'_def split: if_splits)
      ultimately show ?thesis using 2 by (intro disjI2 conjI) simp_all
    qed
  qed
qed

lemma op_destroy_ok:
  assumes "op_destroyBox alive haltOK rmOK sd m d = (r, d')"
  shows "d' = d \<or> d' = tdel (bm_Token m) d"
    and "r = None \<Longrightarrow> d' = tdel (bm_Token m) d \<and> (alive (apiSockPath m sd) \<longrightarrow> haltOK (apiSockPath m sd))"
  using assms by (auto simp: op_destroyBox_def Let_def split: if_splits)

text \<open>
  Further (operator_destroys_one). A destroy by the operator that succeeds names a box that matched
  exactly by token or box id, or whose token is the only one with the given prefix; it removes that
  box's metadata and no other, and only after a VMM that still answered was halted. One that fails
  removes no other box's metadata either.
\<close>

theorem operator_destroys_one:
  assumes "disk_ok d" and "DestroyVM alive haltOK rmOK stateDir key DirRead d = (res, d')"
  shows "(\<forall>st. res = Inr st \<longrightarrow> (\<exists>m. disk_meta d (vs_Token st) = Some m \<and>
       (bm_Token m = key \<or> (bm_BoxID m \<noteq> [] \<and> bm_BoxID m = key) \<or>
        (has_prefix (bm_Token m) key \<and>
         (\<forall>t x. disk_meta d t = Some x \<and> has_prefix t key \<longrightarrow> x = m))) \<and>
       disk_meta d' = (disk_meta d)(vs_Token st := None) \<and>
       (alive (apiSockPath m (op_dir stateDir)) \<longrightarrow> haltOK (apiSockPath m (op_dir stateDir))))) \<and>
     (\<exists>t. disk_meta d' = disk_meta d \<or> disk_meta d' = (disk_meta d)(t := None))"
proof -
  have metas: "loadMetas DirRead d = Some (entries_metas d)" by (simp add: loadMetas_def)
  have mem: "m \<in> set (entries_metas d) \<longleftrightarrow> disk_meta d (bm_Token m) = Some m" for m
    unfolding set_entries_metas [OF assms(1)] using assms(1) by (auto simp: disk_ok_def ran_def)
  have keyed: "disk_meta d t = Some x \<Longrightarrow> bm_Token x = t" for t x using assms(1) by (simp add: disk_ok_def)
  show ?thesis
  proof (cases "resolveMeta (entries_metas d) key")
    case (Inl e)
    then show ?thesis using assms(2) by (auto simp: DestroyVM_def metas)
  next
    case (Inr m)
    obtain b d1 where b: "op_destroyBox alive haltOK rmOK (op_dir stateDir) m d = (b, d1)" by fastforce
    have d': "d' = d1" and res: "res = (case b of Some e \<Rightarrow> Inl e | None \<Rightarrow> Inr (destroyed_status m))"
      using assms(2) Inr b by (auto simp: DestroyVM_def metas split: option.splits)
    have "(m \<in> set (entries_metas d) \<and> (bm_Token m = key \<or> bm_BoxID m \<noteq> [] \<and> bm_BoxID m = key)) \<or>
      (m \<in> set (entries_metas d) \<and> has_prefix (bm_Token m) key \<and> {x \<in> set (entries_metas d). has_prefix (bm_Token x) key} = {m})"
      using resolve_loop_ok [of key "[]" "entries_metas d" m] Inr by (simp add: resolveMeta_def)
    then have m: "disk_meta d (bm_Token m) = Some m"
      "bm_Token m = key \<or> (bm_BoxID m \<noteq> [] \<and> bm_BoxID m = key) \<or>
        (has_prefix (bm_Token m) key \<and> (\<forall>t x. disk_meta d t = Some x \<and> has_prefix t key \<longrightarrow> x = m))"
      using mem keyed by auto
    have eff: "disk_meta d1 = disk_meta d \<or> disk_meta d1 = (disk_meta d)(bm_Token m := None)"
      using op_destroy_ok(1) [OF b] by auto
    have ok: "disk_meta d' = (disk_meta d)(vs_Token st := None) \<and> vs_Token st = bm_Token m \<and>
        (alive (apiSockPath m (op_dir stateDir)) \<longrightarrow> haltOK (apiSockPath m (op_dir stateDir)))" if "res = Inr st" for st
      using that res op_destroy_ok(2) [OF b] d' by (auto simp: destroyed_status_def split: option.splits)
    then have "\<forall>st. res = Inr st \<longrightarrow> (\<exists>m. disk_meta d (vs_Token st) = Some m \<and>
       (bm_Token m = key \<or> (bm_BoxID m \<noteq> [] \<and> bm_BoxID m = key) \<or>
        (has_prefix (bm_Token m) key \<and>
         (\<forall>t x. disk_meta d t = Some x \<and> has_prefix t key \<longrightarrow> x = m))) \<and>
       disk_meta d' = (disk_meta d)(vs_Token st := None) \<and>
       (alive (apiSockPath m (op_dir stateDir)) \<longrightarrow> haltOK (apiSockPath m (op_dir stateDir))))"
      using m by metis
    with eff show ?thesis unfolding d' by blast
  qed
qed

theorem operator_destroys_one_witness:
  "disk_meta (snd (DestroyVM (\<lambda>_. True) (\<lambda>_. True) (\<lambda>_. True) ''/s'' ''a'' DirRead (fp_disk sample_two))) =
     (disk_meta (fp_disk sample_two))(''aa'' := None)"
proof -
  have "fc_inv ([], sample_two)" by (rule fc_reach_inv [OF sample_two_reach])
  then have ok: "disk_ok (fp_disk sample_two)" by (simp add: fc_inv_rep rep_ok_def)
  obtain res d' where r: "DestroyVM (\<lambda>_. True) (\<lambda>_. True) (\<lambda>_. True) ''/s'' ''a'' DirRead (fp_disk sample_two) = (res, d')" by fastforce
  have "map_sum (\<lambda>_. ()) vs_Token (fst (DestroyVM (\<lambda>_. True) (\<lambda>_. True) (\<lambda>_. True) ''/s'' ''a'' DirRead (fp_disk sample_two))) = Inr ''aa''"
    by code_simp
  with r obtain st where "res = Inr st" "vs_Token st = ''aa''" by (cases res) auto
  with operator_destroys_one [OF ok r] r show ?thesis by auto
qed

text \<open>
  Destroying everything: what is reported destroyed is gone, what failed to halt is kept, and the
  sweep goes on past failures.
\<close>

lemma destroy_each_spec:
  "destroy_each alive haltOK rmOK sd ms d = (ok, errs, d') \<Longrightarrow>
   (\<forall>st \<in> set ok. disk_meta d' (vs_Token st) = None) \<and>
   length ok + length errs = length ms \<and>
   (\<forall>t. t \<notin> bm_Token ` set ms \<longrightarrow> disk_meta d' t = disk_meta d t) \<and>
   (\<forall>t. disk_meta d t = None \<longrightarrow> disk_meta d' t = None)"
proof (induction ms arbitrary: d ok errs d')
  case (Cons m ms)
  obtain b d1 where b: "op_destroyBox alive haltOK rmOK sd m d = (b, d1)" by fastforce
  obtain ok1 errs1 d2 where r: "destroy_each alive haltOK rmOK sd ms d1 = (ok1, errs1, d2)" by (metis prod_cases3)
  have d1: "d1 = d \<or> d1 = tdel (bm_Token m) d" by (rule op_destroy_ok(1) [OF b])
  note IH = Cons.IH [OF r]
  show ?case
  proof (cases b)
    case None
    then have "d1 = tdel (bm_Token m) d" using op_destroy_ok(2) [OF b] by simp
    with None Cons.prems b r IH show ?thesis by (auto simp: destroyed_status_def)
  next
    case (Some e)
    with Cons.prems b r IH d1 show ?thesis by auto
  qed
qed simp

end
