(* ===== verification/Json.thy ===== *)
theory Json
  imports Prelude
begin

text \<open>
  What the program uses of Go's \<^verbatim>\<open>encoding/json\<close>, \<^verbatim>\<open>encoding/base64\<close> and \<^verbatim>\<open>unicode/utf8\<close>: marshalling a
  struct into a JSON value under its field tags and unmarshalling one into the zero value of a
  struct. JSON texts are represented by the value they denote.

  Marshalling writes a field under its name, leaves out an \<^verbatim>\<open>omitempty\<close> field that is zero,
  replaces every byte of a string that is not part of a well-formed UTF-8 sequence by U+FFFD, and
  writes a byte slice in base64; an empty list stands for Go's nil and becomes \<^verbatim>\<open>null\<close>.
  Unmarshalling matches keys without regard to letter case, ignores keys it does not know, takes
  \<^verbatim>\<open>null\<close> and an absent key as zero, lets the last of several equal keys win, and fails on a value of
  the wrong kind or a number out of range. A pair of such functions that round-trips is a \<open>codec\<close>.
\<close>

named_theorems json_keys \<open>the field names, in lower case\<close>

datatype json =
    JNull
  | JBool bool
  | JNum int
  | JOther
  | JStr string
  | JArr "json list"
  | JObj "(string \<times> json) list"

subsection \<open>Strings\<close>

abbreviation byte_of :: "char \<Rightarrow> nat" where
  "byte_of \<equiv> of_char"

definition cont_byte :: "char \<Rightarrow> bool" where
  "cont_byte c \<longleftrightarrow> 128 \<le> byte_of c \<and> byte_of c \<le> 191"

text \<open>
  As in the table of \<^verbatim>\<open>unicode/utf8\<close>, the first byte gives the length of a sequence (0 when no sequence
  starts with it) and the range of its second byte.
\<close>

definition rune_shape :: "nat \<Rightarrow> nat \<times> nat \<times> nat" where
  "rune_shape b =
     (if b < 128 then (1, 0, 0)
      else if 194 \<le> b \<and> b \<le> 223 then (2, 128, 191)
      else if b = 224 then (3, 160, 191)
      else if 225 \<le> b \<and> b \<le> 236 \<or> b = 238 \<or> b = 239 then (3, 128, 191)
      else if b = 237 then (3, 128, 159)
      else if b = 240 then (4, 144, 191)
      else if 241 \<le> b \<and> b \<le> 243 then (4, 128, 191)
      else if b = 244 then (4, 128, 143)
      else (0, 0, 0))"

definition rune_fits :: "nat \<times> nat \<times> nat \<Rightarrow> string \<Rightarrow> bool" where
  "rune_fits sh cs =
     (case sh of (k, lo, hi) \<Rightarrow>
        k - 1 \<le> length cs \<and> list_all cont_byte (take (k - 1) cs) \<and>
        (1 < k \<longrightarrow> lo \<le> byte_of (hd cs) \<and> byte_of (hd cs) \<le> hi))"

text \<open>The length of the well-formed UTF-8 sequence a string starts with; 0 when there is none.\<close>

definition rune_len :: "char \<Rightarrow> string \<Rightarrow> nat" where
  "rune_len c cs = (let sh = rune_shape (byte_of c) in if rune_fits sh cs then fst sh else 0)"

definition replacement :: string where
  "replacement = [char_of (239 :: nat), char_of (191 :: nat), char_of (189 :: nat)]"

fun to_utf8 :: "string \<Rightarrow> string" where
  "to_utf8 [] = []"
| "to_utf8 (c # cs) =
     (let n = rune_len c cs
      in if n = 0 then replacement @ to_utf8 cs else c # take (n - 1) cs @ to_utf8 (drop (n - 1) cs))"

definition utf8 :: "string \<Rightarrow> bool" where
  "utf8 s \<longleftrightarrow> to_utf8 s = s"

definition ascii :: "string \<Rightarrow> bool" where
  "ascii s \<longleftrightarrow> list_all (\<lambda>c. byte_of c < 128) s"

lemma ascii_utf8: "ascii s \<Longrightarrow> utf8 s"
proof -
  have "list_all (\<lambda>c. byte_of c < 128) s \<Longrightarrow> to_utf8 s = s"
    by (induction s) (simp_all add: rune_len_def rune_shape_def rune_fits_def)
  then show "ascii s \<Longrightarrow> utf8 s" by (simp add: ascii_def utf8_def)
qed

lemma utf8_Nil [simp]: "utf8 []"
  by (simp add: utf8_def)

text \<open>Replacement makes a string UTF-8 and triples its length at most.\<close>

lemma rune_len_take:
  assumes "rune_len c cs \<noteq> 0"
  shows "rune_len c (take (rune_len c cs - 1) cs @ ys) = rune_len c cs" and "rune_len c cs - 1 \<le> length cs"
proof -
  obtain k lo hi where sh: "rune_shape (byte_of c) = (k, lo, hi)" by (cases "rune_shape (byte_of c)")
  have k: "k \<noteq> 0" "rune_fits (k, lo, hi) cs" "rune_len c cs = k"
    using assms by (auto simp: rune_len_def sh Let_def split: if_splits)
  then have "take (k - 1) (take (k - 1) cs @ ys) = take (k - 1) cs" "k - 1 \<le> length cs" by (auto simp: rune_fits_def)
  moreover have "1 < k \<Longrightarrow> hd (take (k - 1) cs @ ys) = hd cs" using \<open>k - 1 \<le> length cs\<close> by (cases cs; cases "k - 1") auto
  ultimately have "rune_fits (k, lo, hi) (take (k - 1) cs @ ys)" using k(2) by (simp add: rune_fits_def)
  with k sh \<open>k - 1 \<le> length cs\<close> show "rune_len c (take (rune_len c cs - 1) cs @ ys) = rune_len c cs"
    "rune_len c cs - 1 \<le> length cs" by (simp_all add: rune_len_def)
qed

lemma to_utf8_replacement: "to_utf8 (replacement @ s) = replacement @ to_utf8 s"
proof -
  have "rune_len (char_of (239 :: nat)) (char_of (191 :: nat) # char_of (189 :: nat) # s) = 3"
    by (simp add: rune_len_def rune_shape_def rune_fits_def cont_byte_def take_Cons' of_char_of)
  then show ?thesis by (simp add: replacement_def)
qed

lemma utf8_to_utf8 [simp]: "utf8 (to_utf8 s)"
proof -
  have "to_utf8 (to_utf8 s) = to_utf8 s"
  proof (induction s rule: to_utf8.induct)
    case (2 c cs)
    show ?case
    proof (cases "rune_len c cs = 0")
      case True
      with 2 show ?thesis by (simp add: to_utf8_replacement)
    next
      case False
      let ?n = "rune_len c cs - 1"
      have "to_utf8 (c # take ?n cs @ to_utf8 (drop ?n cs)) = c # take ?n cs @ to_utf8 (to_utf8 (drop ?n cs))"
        using rune_len_take(1) [OF False, of "to_utf8 (drop ?n cs)"] rune_len_take(2) [OF False] False by (simp add: Let_def)
      with False 2 show ?thesis by (simp add: Let_def)
    qed
  qed simp
  then show ?thesis by (simp add: utf8_def)
qed

lemma length_to_utf8: "length (to_utf8 s) \<le> 3 * length s"
proof (induction s rule: to_utf8.induct)
  case (2 c cs)
  show ?case
  proof (cases "rune_len c cs = 0")
    case True
    with 2 show ?thesis by (simp add: replacement_def)
  next
    case False
    with 2 rune_len_take(2) [OF False] show ?thesis by (simp add: Let_def)
  qed
qed simp

subsection \<open>Base64\<close>

definition b64_char :: "nat \<Rightarrow> char" where
  "b64_char n =
     (if n < 26 then char_of (n + 65) else if n < 52 then char_of (n + 71) else if n < 62 then char_of (n - 4)
      else if n = 62 then CHR ''+'' else CHR ''/'')"

definition b64_val :: "char \<Rightarrow> nat option" where
  "b64_val c =
     (let b = byte_of c in
      if 65 \<le> b \<and> b \<le> 90 then Some (b - 65)
      else if 97 \<le> b \<and> b \<le> 122 then Some (b - 71)
      else if 48 \<le> b \<and> b \<le> 57 then Some (b + 4)
      else if b = 43 then Some 62 else if b = 47 then Some 63 else None)"

fun b64_enc :: "string \<Rightarrow> string" where
  "b64_enc [] = []"
| "b64_enc [a] = [b64_char (byte_of a div 4), b64_char (byte_of a mod 4 * 16), CHR ''='', CHR ''='']"
| "b64_enc [a, b] =
     [b64_char (byte_of a div 4), b64_char (byte_of a mod 4 * 16 + byte_of b div 16),
      b64_char (byte_of b mod 16 * 4), CHR ''='']"
| "b64_enc (a # b # c # ds) =
     [b64_char (byte_of a div 4), b64_char (byte_of a mod 4 * 16 + byte_of b div 16),
      b64_char (byte_of b mod 16 * 4 + byte_of c div 64), b64_char (byte_of c mod 64)] @ b64_enc ds"

fun b64_dec :: "string \<Rightarrow> string option" where
  "b64_dec [] = Some []"
| "b64_dec (p # q # r # s # ts) =
     (case (b64_val p, b64_val q) of
        (Some x, Some y) \<Rightarrow>
          (let a = char_of (x * 4 + y div 16) in
           if r = CHR ''='' \<and> s = CHR ''='' then (if ts = [] then Some [a] else None)
           else
             (case b64_val r of
                None \<Rightarrow> None
              | Some z \<Rightarrow>
                  (let b = char_of (y mod 16 * 16 + z div 4) in
                   if s = CHR ''='' then (if ts = [] then Some [a, b] else None)
                   else
                     (case b64_val s of
                        None \<Rightarrow> None
                      | Some w \<Rightarrow> map_option (\<lambda>rest. a # b # char_of (z mod 4 * 64 + w) # rest) (b64_dec ts)))))
      | _ \<Rightarrow> None)"
| "b64_dec _ = None"

lemma byte_of_char: "n < 256 \<Longrightarrow> byte_of (char_of n) = n"
  by (simp add: of_char_of)

lemma b64_val_char: "n < 64 \<Longrightarrow> b64_val (b64_char n) = Some n"
  by (auto simp: b64_val_def b64_char_def Let_def byte_of_char)

lemma b64_char_pad: "n < 64 \<Longrightarrow> b64_char n \<noteq> CHR ''=''"
proof
  assume "n < 64" "b64_char n = CHR ''=''"
  then have "b64_val (CHR ''='') = Some n" using b64_val_char [of n] by simp
  then show False by (simp add: b64_val_def Let_def)
qed

lemma sextets:
  fixes a b c :: nat
  assumes "a < 256" "b < 256" "c < 256"
  shows "a div 4 < 64" "a mod 4 * 16 < 64" "a mod 4 * 16 + b div 16 < 64" "b mod 16 * 4 < 64"
    "b mod 16 * 4 + c div 64 < 64" "c mod 64 < 64"
    "a div 4 * 4 + (a mod 4 * 16 + b div 16) div 16 = a" "a div 4 * 4 + a mod 4 * 16 div 16 = a"
    "(a mod 4 * 16 + b div 16) mod 16 * 16 + (b mod 16 * 4 + c div 64) div 4 = b"
    "(a mod 4 * 16 + b div 16) mod 16 * 16 + b mod 16 * 4 div 4 = b"
    "(b mod 16 * 4 + c div 64) mod 4 * 64 + c mod 64 = c"
proof -
  have q: "b div 16 < 16" "c div 64 < 4" "a div 4 < 64" "a mod 4 < 4" "b mod 16 < 16" using assms by auto
  then show "a div 4 < 64" "a mod 4 * 16 < 64" "a mod 4 * 16 + b div 16 < 64" "b mod 16 * 4 < 64"
    "b mod 16 * 4 + c div 64 < 64" "c mod 64 < 64" by simp_all
  show "a div 4 * 4 + (a mod 4 * 16 + b div 16) div 16 = a" "a div 4 * 4 + a mod 4 * 16 div 16 = a"
    "(a mod 4 * 16 + b div 16) mod 16 * 16 + (b mod 16 * 4 + c div 64) div 4 = b"
    "(a mod 4 * 16 + b div 16) mod 16 * 16 + b mod 16 * 4 div 4 = b"
    "(b mod 16 * 4 + c div 64) mod 4 * 64 + c mod 64 = c" using q by simp_all
qed

lemma b64_roundtrip: "b64_dec (b64_enc s) = Some s"
proof (induction s rule: b64_enc.induct)
  case (2 a)
  show ?case using sextets [of "byte_of a" 0 0] by (simp add: b64_val_char)
next
  case (3 a b)
  show ?case using sextets [of "byte_of a" "byte_of b" 0]
    by (simp add: b64_val_char b64_char_pad)
next
  case (4 a b c ds)
  show ?case using sextets [of "byte_of a" "byte_of b" "byte_of c"] 4
    by (simp add: b64_val_char b64_char_pad)
qed simp


subsection \<open>Marshalling\<close>

definition enc_str :: "string \<Rightarrow> json" where
  "enc_str s = JStr (to_utf8 s)"

definition enc_bytes :: "string \<Rightarrow> json" where
  "enc_bytes s = (if s = [] then JNull else JStr (b64_enc s))"

definition enc_list :: "('a \<Rightarrow> json) \<Rightarrow> 'a list \<Rightarrow> json" where
  "enc_list e xs = (if xs = [] then JNull else JArr (map e xs))"

definition always :: "string \<Rightarrow> ('a \<Rightarrow> json) \<Rightarrow> 'a \<Rightarrow> (string \<times> json) list" where
  "always k e v = [(k, e v)]"

definition omitempty :: "string \<Rightarrow> ('a \<Rightarrow> json) \<Rightarrow> 'a \<Rightarrow> 'a \<Rightarrow> (string \<times> json) list" where
  "omitempty k e z v = (if v = z then [] else [(k, e v)])"

subsection \<open>Unmarshalling\<close>

definition int64 :: "int \<Rightarrow> bool" where
  "int64 n \<longleftrightarrow> - (2 ^ 63) \<le> n \<and> n < 2 ^ 63"

definition uint64 :: "int \<Rightarrow> bool" where
  "uint64 n \<longleftrightarrow> 0 \<le> n \<and> n < 2 ^ 64"

definition uint16 :: "int \<Rightarrow> bool" where
  "uint16 n \<longleftrightarrow> 0 \<le> n \<and> n < 2 ^ 16"

fun dec_str :: "json \<Rightarrow> string option" where
  "dec_str (JStr s) = Some s"
| "dec_str JNull = Some []"
| "dec_str _ = None"

fun dec_bool :: "json \<Rightarrow> bool option" where
  "dec_bool (JBool b) = Some b"
| "dec_bool JNull = Some False"
| "dec_bool _ = None"

fun dec_int :: "(int \<Rightarrow> bool) \<Rightarrow> json \<Rightarrow> int option" where
  "dec_int ok (JNum n) = (if ok n then Some n else None)"
| "dec_int ok JNull = Some 0"
| "dec_int ok _ = None"

fun dec_bytes :: "json \<Rightarrow> string option" where
  "dec_bytes (JStr s) = b64_dec s"
| "dec_bytes JNull = Some []"
| "dec_bytes _ = None"

fun collect :: "('a \<Rightarrow> 'b option) \<Rightarrow> 'a list \<Rightarrow> 'b list option" where
  "collect f [] = Some []"
| "collect f (x # xs) =
     (case f x of None \<Rightarrow> None | Some y \<Rightarrow> map_option (\<lambda>ys. y # ys) (collect f xs))"

fun dec_list :: "(json \<Rightarrow> 'a option) \<Rightarrow> json \<Rightarrow> 'a list option" where
  "dec_list d (JArr xs) = collect d xs"
| "dec_list d JNull = Some []"
| "dec_list d _ = None"

fun field :: "string \<Rightarrow> (json \<Rightarrow> 'a option) \<Rightarrow> 'a \<Rightarrow> (string \<times> json) list \<Rightarrow> 'a option" where
  "field k d z [] = Some z"
| "field k d z ((k', v) # es) =
     (if equal_fold k' k
      then (case d v of None \<Rightarrow> None | Some x \<Rightarrow> field k d (if v = JNull then z else x) es)
      else field k d z es)"

fun obj_fields :: "json \<Rightarrow> (string \<times> json) list option" where
  "obj_fields (JObj es) = Some es"
| "obj_fields JNull = Some []"
| "obj_fields _ = None"

subsection \<open>Round trips\<close>

text \<open>
  Decoding one field of an object that is a list of encoded fields: other fields are skipped, and a
  field left out because it is zero reads back as zero.
\<close>

lemma field_skip:
  assumes "to_lower k' \<noteq> to_lower k"
  shows "field k d z (always k' e v @ es) = field k d z es" "field k d z (omitempty k' e y v @ es) = field k d z es"
  using assms by (simp_all add: always_def omitempty_def equal_fold_def)

lemma field_hit:
  assumes "d (e v) = Some v" "e v = JNull \<longrightarrow> v = z"
  shows "field k d z (always k e v @ es) = field k d v es" "field k d z (omitempty k e z v @ es) = field k d v es"
  using assms by (auto simp: always_def omitempty_def)

lemmas field_simps = field_skip field_hit

locale codec =
  fixes enc :: "'a \<Rightarrow> json" and dec :: "json \<Rightarrow> 'a option" and ok :: "'a \<Rightarrow> bool"
  assumes roundtrip: "ok v \<Longrightarrow> dec (enc v) = Some v"
    and not_null: "enc v \<noteq> JNull"
begin

lemma collect_roundtrip: "list_all ok vs \<Longrightarrow> collect dec (map enc vs) = Some vs"
  by (induction vs) (simp_all add: roundtrip)

lemma list_roundtrip: "list_all ok vs \<Longrightarrow> dec_list dec (enc_list enc vs) = Some vs"
  by (simp add: enc_list_def collect_roundtrip)

lemma inject: "ok v \<Longrightarrow> ok w \<Longrightarrow> enc v = enc w \<Longrightarrow> v = w"
  by (metis option.inject roundtrip)

end

interpretation str: codec enc_str dec_str utf8
  by unfold_locales (simp_all add: enc_str_def utf8_def)

interpretation number: codec JNum "dec_int ok" ok for ok
  by unfold_locales simp_all

interpretation boolean: codec JBool dec_bool "\<lambda>_. True"
  by unfold_locales simp_all

lemma bytes_roundtrip: "dec_bytes (enc_bytes s) = Some s"
  by (simp add: enc_bytes_def b64_roundtrip)

lemma enc_null [simp]:
  "enc_str s \<noteq> JNull" "enc_bytes s = JNull \<longleftrightarrow> s = []" "enc_list e xs = JNull \<longleftrightarrow> xs = []"
  by (simp_all add: enc_str_def enc_bytes_def enc_list_def)

lemmas leaf_roundtrips = str.roundtrip number.roundtrip boolean.roundtrip bytes_roundtrip str.list_roundtrip

text \<open>A string that is not UTF-8 does not survive the trip.\<close>

lemma binary_not_preserved: "dec_str (enc_str [char_of (255 :: nat)]) = Some replacement"
  by code_simp

end
