(* ===== verification/Wire.thy ===== *)
theory Wire
  imports Json Sandbox "HOL-Library.Monad_Syntax"
begin

text \<open>
  The cluster protocol of \<^verbatim>\<open>internal/shared/cluster/proto.go\<close>: the frame envelope, the payload of
  every verb in both directions, and \<^verbatim>\<open>encodePayload\<close>/\<^verbatim>\<open>decodePayload\<close>. Each payload is a \<open>codec\<close>: an
  encoder written from the struct's field tags, a decoder, and the values it carries unchanged
  (strings in UTF-8, integers of their width).
\<close>

subsection \<open>Frames\<close>

datatype frame_type =
    FrameEnroll | FrameWelcome | FrameReq | FrameResp | FrameErr
  | FrameStreamOpen | FrameStreamData | FrameStreamClose
  | FrameSpokeReq | FrameSpokeResp
  | FrameUnknown string

text \<open>\<open>None\<close> is the empty \<^verbatim>\<open>json.RawMessage\<close>, which marshals to nothing and does not decode.\<close>

type_synonym payload = "json option"

record wire_frame =
  fr_Type :: frame_type
  fr_ID :: int
  fr_Method :: string
  fr_Payload :: payload
  fr_Data :: string
  fr_Error :: string

definition zero_frame :: "frame_type \<Rightarrow> int \<Rightarrow> wire_frame" where
  "zero_frame t i = \<lparr>fr_Type = t, fr_ID = i, fr_Method = [], fr_Payload = None, fr_Data = [], fr_Error = []\<rparr>"

fun frame_tag :: "frame_type \<Rightarrow> string" where
  "frame_tag FrameEnroll = ''enroll''"
| "frame_tag FrameWelcome = ''welcome''"
| "frame_tag FrameReq = ''req''"
| "frame_tag FrameResp = ''resp''"
| "frame_tag FrameErr = ''err''"
| "frame_tag FrameStreamOpen = ''stream_open''"
| "frame_tag FrameStreamData = ''stream_data''"
| "frame_tag FrameStreamClose = ''stream_close''"
| "frame_tag FrameSpokeReq = ''spoke_req''"
| "frame_tag FrameSpokeResp = ''spoke_resp''"
| "frame_tag (FrameUnknown s) = s"

definition known_types :: "frame_type list" where
  "known_types = [FrameEnroll, FrameWelcome, FrameReq, FrameResp, FrameErr, FrameStreamOpen, FrameStreamData,
     FrameStreamClose, FrameSpokeReq, FrameSpokeResp]"

definition frame_type_of :: "string \<Rightarrow> frame_type" where
  "frame_type_of s = (case find (\<lambda>t. frame_tag t = s) known_types of Some t \<Rightarrow> t | None \<Rightarrow> FrameUnknown s)"

definition enc_frame :: "wire_frame \<Rightarrow> json" where
  "enc_frame f = JObj (
     always ''type'' enc_str (frame_tag (fr_Type f)) @
     omitempty ''id'' JNum 0 (fr_ID f) @
     omitempty ''method'' enc_str [] (fr_Method f) @
     (case fr_Payload f of None \<Rightarrow> [] | Some j \<Rightarrow> [(''payload'', j)]) @
     omitempty ''data'' enc_bytes [] (fr_Data f) @
     omitempty ''error'' enc_str [] (fr_Error f) @ [])"

text \<open>A raw message keeps whatever value it is given, \<^verbatim>\<open>null\<close> included.\<close>

fun raw_field :: "string \<Rightarrow> payload \<Rightarrow> (string \<times> json) list \<Rightarrow> payload" where
  "raw_field k z [] = z"
| "raw_field k z ((k', v) # es) = raw_field k (if equal_fold k' k then Some v else z) es"

definition dec_frame :: "json \<Rightarrow> wire_frame option" where
  "dec_frame j = do {
     es \<leftarrow> obj_fields j;
     t \<leftarrow> field ''type'' dec_str [] es;
     i \<leftarrow> field ''id'' (dec_int uint64) 0 es;
     m \<leftarrow> field ''method'' dec_str [] es;
     d \<leftarrow> field ''data'' dec_bytes [] es;
     e \<leftarrow> field ''error'' dec_str [] es;
     Some \<lparr>fr_Type = frame_type_of t, fr_ID = i, fr_Method = m, fr_Payload = raw_field ''payload'' None es, fr_Data = d,
           fr_Error = e\<rparr> }"

definition frame_ok :: "wire_frame \<Rightarrow> bool" where
  "frame_ok f \<longleftrightarrow> fr_Type f \<in> set known_types \<and> uint64 (fr_ID f) \<and> utf8 (fr_Method f) \<and> utf8 (fr_Error f)"

lemma frame_keys [json_keys]:
  "to_lower ''type'' = ''type''" "to_lower ''id'' = ''id''" "to_lower ''method'' = ''method''"
  "to_lower ''payload'' = ''payload''" "to_lower ''data'' = ''data''" "to_lower ''error'' = ''error''"
  by code_simp+

lemma frame_tag_ascii: "t \<in> set known_types \<Longrightarrow> utf8 (frame_tag t) \<and> frame_type_of (frame_tag t) = t"
proof -
  have "list_all (\<lambda>t. utf8 (frame_tag t) \<and> frame_type_of (frame_tag t) = t) known_types" by code_simp
  then show "t \<in> set known_types \<Longrightarrow> utf8 (frame_tag t) \<and> frame_type_of (frame_tag t) = t"
    by (simp add: list_all_iff)
qed

lemma raw_field_append: "raw_field k z (xs @ ys) = raw_field k (raw_field k z xs) ys"
  by (induction k z xs rule: raw_field.induct) simp_all

lemma raw_field_other:
  assumes "to_lower k' \<noteq> to_lower k"
  shows "raw_field k z (always k' e v @ es) = raw_field k z es" "raw_field k z (omitempty k' e y v @ es) = raw_field k z es"
    "field k d x ((case p of None \<Rightarrow> [] | Some j \<Rightarrow> [(k', j)]) @ es) = field k d x es"
  using assms by (auto simp: always_def omitempty_def equal_fold_def split: option.split)

lemma raw_field_same: "raw_field k None ((case p of None \<Rightarrow> [] | Some j \<Rightarrow> [(k, j)]) @ es) = raw_field k p es"
  by (simp split: option.split)

interpretation wire_frame: codec enc_frame dec_frame frame_ok
proof
  fix f assume "frame_ok f"
  then show "dec_frame (enc_frame f) = Some f"
    using frame_tag_ascii [of "fr_Type f"]
    by (simp add: dec_frame_def enc_frame_def frame_ok_def field_simps json_keys leaf_roundtrips raw_field_other
        raw_field_same del: append_Nil2)
qed (simp add: enc_frame_def)


subsection \<open>The types of the sandbox package\<close>

definition enc_publish_port :: "publish_port \<Rightarrow> json" where
  "enc_publish_port p = JObj (always ''port'' JNum (pp_Port p) @ omitempty ''description'' enc_str [] (pp_Description p) @ [])"

definition dec_publish_port :: "json \<Rightarrow> publish_port option" where
  "dec_publish_port j = do {
     es \<leftarrow> obj_fields j;
     p \<leftarrow> field ''port'' (dec_int int64) 0 es;
     d \<leftarrow> field ''description'' dec_str [] es;
     Some \<lparr>pp_Port = p, pp_Description = d\<rparr> }"

definition publish_port_ok :: "publish_port \<Rightarrow> bool" where
  "publish_port_ok p \<longleftrightarrow> int64 (pp_Port p) \<and> utf8 (pp_Description p)"

definition enc_inject_file :: "inject_file \<Rightarrow> json" where
  "enc_inject_file f = JObj (
     always ''Path'' enc_str (if_Path f) @ always ''Content'' enc_bytes (if_Content f) @
     always ''Mode'' JNum (if_Mode f) @ always ''UID'' JNum (if_UID f) @ always ''GID'' JNum (if_GID f) @ [])"

definition dec_inject_file :: "json \<Rightarrow> inject_file option" where
  "dec_inject_file j = do {
     es \<leftarrow> obj_fields j;
     p \<leftarrow> field ''Path'' dec_str [] es;
     c \<leftarrow> field ''Content'' dec_bytes [] es;
     m \<leftarrow> field ''Mode'' (dec_int int64) 0 es;
     u \<leftarrow> field ''UID'' (dec_int int64) 0 es;
     g \<leftarrow> field ''GID'' (dec_int int64) 0 es;
     Some \<lparr>if_Path = p, if_Content = c, if_Mode = m, if_UID = u, if_GID = g\<rparr> }"

definition inject_file_ok :: "inject_file \<Rightarrow> bool" where
  "inject_file_ok f \<longleftrightarrow> utf8 (if_Path f) \<and> int64 (if_Mode f) \<and> int64 (if_UID f) \<and> int64 (if_GID f)"

definition enc_create_options :: "create_options \<Rightarrow> json" where
  "enc_create_options c = JObj (
     always ''BoxID'' enc_str (co_BoxID c) @ always ''Description'' enc_str (co_Description c) @
     always ''SpokeName'' enc_str (co_SpokeName c) @ always ''Files'' (enc_list enc_inject_file) (co_Files c) @
     always ''DiskBytes'' JNum (co_DiskBytes c) @ [])"

definition dec_create_options :: "json \<Rightarrow> create_options option" where
  "dec_create_options j = do {
     es \<leftarrow> obj_fields j;
     b \<leftarrow> field ''BoxID'' dec_str [] es;
     d \<leftarrow> field ''Description'' dec_str [] es;
     s \<leftarrow> field ''SpokeName'' dec_str [] es;
     f \<leftarrow> field ''Files'' (dec_list dec_inject_file) [] es;
     n \<leftarrow> field ''DiskBytes'' (dec_int int64) 0 es;
     Some \<lparr>co_BoxID = b, co_Description = d, co_SpokeName = s, co_Files = f, co_DiskBytes = n\<rparr> }"

definition create_options_ok :: "create_options \<Rightarrow> bool" where
  "create_options_ok c \<longleftrightarrow> utf8 (co_BoxID c) \<and> utf8 (co_Description c) \<and> utf8 (co_SpokeName c) \<and>
     list_all inject_file_ok (co_Files c) \<and> int64 (co_DiskBytes c)"

definition enc_domain_rule :: "domain_rule \<Rightarrow> json" where
  "enc_domain_rule r = JObj (always ''pattern'' enc_str (dr_Pattern r) @ always ''ttl_seconds'' JNum (dr_TTLSeconds r) @ [])"

definition dec_domain_rule :: "json \<Rightarrow> domain_rule option" where
  "dec_domain_rule j = do {
     es \<leftarrow> obj_fields j;
     p \<leftarrow> field ''pattern'' dec_str [] es;
     t \<leftarrow> field ''ttl_seconds'' (dec_int int64) 0 es;
     Some \<lparr>dr_Pattern = p, dr_TTLSeconds = t\<rparr> }"

definition domain_rule_ok :: "domain_rule \<Rightarrow> bool" where
  "domain_rule_ok r \<longleftrightarrow> utf8 (dr_Pattern r) \<and> int64 (dr_TTLSeconds r)"

definition enc_network_policy :: "network_policy \<Rightarrow> json" where
  "enc_network_policy p = JObj (
     always ''enabled'' JBool (np_Enabled p) @ omitempty ''rules'' (enc_list enc_domain_rule) [] (np_Rules p) @ [])"

definition dec_network_policy :: "json \<Rightarrow> network_policy option" where
  "dec_network_policy j = do {
     es \<leftarrow> obj_fields j;
     e \<leftarrow> field ''enabled'' dec_bool False es;
     r \<leftarrow> field ''rules'' (dec_list dec_domain_rule) [] es;
     Some \<lparr>np_Enabled = e, np_Rules = r\<rparr> }"

definition network_policy_ok :: "network_policy \<Rightarrow> bool" where
  "network_policy_ok p \<longleftrightarrow> list_all domain_rule_ok (np_Rules p)"

definition enc_exec_result :: "exec_result \<Rightarrow> json" where
  "enc_exec_result r = JObj (
     always ''stdout'' enc_str (er_Stdout r) @ always ''stderr'' enc_str (er_Stderr r) @
     always ''exit_code'' JNum (er_ExitCode r) @ [])"

definition dec_exec_result :: "json \<Rightarrow> exec_result option" where
  "dec_exec_result j = do {
     es \<leftarrow> obj_fields j;
     out \<leftarrow> field ''stdout'' dec_str [] es;
     err \<leftarrow> field ''stderr'' dec_str [] es;
     c \<leftarrow> field ''exit_code'' (dec_int int64) 0 es;
     Some \<lparr>er_Stdout = out, er_Stderr = err, er_ExitCode = c\<rparr> }"

definition exec_result_ok :: "exec_result \<Rightarrow> bool" where
  "exec_result_ok r \<longleftrightarrow> utf8 (er_Stdout r) \<and> utf8 (er_Stderr r) \<and> int64 (er_ExitCode r)"

definition enc_box :: "box \<Rightarrow> json" where
  "enc_box b = JObj (
     always ''instance_id'' enc_str (box_InstanceID b) @ always ''name'' enc_str (box_Name b) @
     omitempty ''box_id'' enc_str [] (box_BoxID b) @ omitempty ''description'' enc_str [] (box_Description b) @
     omitempty ''spoke'' enc_str [] (box_Spoke b) @ always ''image'' enc_str (box_Image b) @
     always ''state'' enc_str (box_State b) @ always ''status'' enc_str (box_Status b) @
     omitempty ''phase'' enc_str [] (box_Phase b) @ omitempty ''last_error'' enc_str [] (box_LastError b) @
     always ''created'' JNum (box_Created b) @ omitempty ''last_seen'' JNum 0 (box_LastSeen b) @ [])"

definition dec_box :: "json \<Rightarrow> box option" where
  "dec_box j = do {
     es \<leftarrow> obj_fields j;
     i \<leftarrow> field ''instance_id'' dec_str [] es;
     n \<leftarrow> field ''name'' dec_str [] es;
     b \<leftarrow> field ''box_id'' dec_str [] es;
     d \<leftarrow> field ''description'' dec_str [] es;
     s \<leftarrow> field ''spoke'' dec_str [] es;
     im \<leftarrow> field ''image'' dec_str [] es;
     st \<leftarrow> field ''state'' dec_str [] es;
     su \<leftarrow> field ''status'' dec_str [] es;
     ph \<leftarrow> field ''phase'' dec_str [] es;
     le \<leftarrow> field ''last_error'' dec_str [] es;
     cr \<leftarrow> field ''created'' (dec_int int64) 0 es;
     ls \<leftarrow> field ''last_seen'' (dec_int int64) 0 es;
     Some \<lparr>box_InstanceID = i, box_Name = n, box_BoxID = b, box_Description = d, box_Spoke = s, box_Image = im,
           box_State = st, box_Status = su, box_Phase = ph, box_LastError = le, box_Created = cr, box_LastSeen = ls\<rparr> }"

definition box_ok :: "box \<Rightarrow> bool" where
  "box_ok b \<longleftrightarrow> list_all utf8 [box_InstanceID b, box_Name b, box_BoxID b, box_Description b, box_Spoke b, box_Image b,
     box_State b, box_Status b, box_Phase b, box_LastError b] \<and> int64 (box_Created b) \<and> int64 (box_LastSeen b)"

lemma sandbox_keys [json_keys]:
  "to_lower ''port'' = ''port''" "to_lower ''description'' = ''description''"
  "to_lower ''Path'' = ''path''" "to_lower ''Content'' = ''content''" "to_lower ''Mode'' = ''mode''"
  "to_lower ''UID'' = ''uid''" "to_lower ''GID'' = ''gid''"
  "to_lower ''BoxID'' = ''boxid''" "to_lower ''Description'' = ''description''" "to_lower ''SpokeName'' = ''spokename''"
  "to_lower ''Files'' = ''files''" "to_lower ''DiskBytes'' = ''diskbytes''"
  "to_lower ''pattern'' = ''pattern''" "to_lower ''ttl_seconds'' = ''ttl_seconds''"
  "to_lower ''enabled'' = ''enabled''" "to_lower ''rules'' = ''rules''"
  "to_lower ''stdout'' = ''stdout''" "to_lower ''stderr'' = ''stderr''" "to_lower ''exit_code'' = ''exit_code''"
  "to_lower ''instance_id'' = ''instance_id''" "to_lower ''name'' = ''name''" "to_lower ''box_id'' = ''box_id''"
  "to_lower ''spoke'' = ''spoke''" "to_lower ''image'' = ''image''" "to_lower ''state'' = ''state''"
  "to_lower ''status'' = ''status''" "to_lower ''phase'' = ''phase''" "to_lower ''last_error'' = ''last_error''"
  "to_lower ''created'' = ''created''" "to_lower ''last_seen'' = ''last_seen''"
  by code_simp+

interpretation publish_port: codec enc_publish_port dec_publish_port publish_port_ok
  by unfold_locales (simp_all add: dec_publish_port_def enc_publish_port_def publish_port_ok_def field_simps json_keys
      leaf_roundtrips del: append_Nil2)

interpretation inject_file: codec enc_inject_file dec_inject_file inject_file_ok
  by unfold_locales (simp_all add: dec_inject_file_def enc_inject_file_def inject_file_ok_def field_simps json_keys
      leaf_roundtrips del: append_Nil2)

interpretation create_options: codec enc_create_options dec_create_options create_options_ok
  by unfold_locales (simp_all add: dec_create_options_def enc_create_options_def create_options_ok_def field_simps json_keys
      leaf_roundtrips inject_file.list_roundtrip del: append_Nil2)

interpretation domain_rule: codec enc_domain_rule dec_domain_rule domain_rule_ok
  by unfold_locales (simp_all add: dec_domain_rule_def enc_domain_rule_def domain_rule_ok_def field_simps json_keys
      leaf_roundtrips del: append_Nil2)

interpretation network_policy: codec enc_network_policy dec_network_policy network_policy_ok
  by unfold_locales (simp_all add: dec_network_policy_def enc_network_policy_def network_policy_ok_def field_simps json_keys
      leaf_roundtrips domain_rule.list_roundtrip del: append_Nil2)

interpretation exec_result: codec enc_exec_result dec_exec_result exec_result_ok
  by unfold_locales (simp_all add: dec_exec_result_def enc_exec_result_def exec_result_ok_def field_simps json_keys
      leaf_roundtrips del: append_Nil2)

interpretation box: codec enc_box dec_box box_ok
  by unfold_locales (simp_all add: dec_box_def enc_box_def box_ok_def field_simps json_keys
      leaf_roundtrips del: append_Nil2)


subsection \<open>Verb payloads\<close>

definition encodePayload :: "('a \<Rightarrow> json) \<Rightarrow> 'a \<Rightarrow> payload" where
  "encodePayload e v = Some (e v)"

definition decodePayload :: "(json \<Rightarrow> 'a option) \<Rightarrow> payload \<Rightarrow> 'a option" where
  "decodePayload d p = (case p of None \<Rightarrow> None | Some j \<Rightarrow> d j)"

context codec
begin

lemma payload_roundtrip: "ok v \<Longrightarrow> decodePayload dec (encodePayload enc v) = Some v"
  by (simp add: decodePayload_def encodePayload_def roundtrip)

end

definition enc_createReq :: "create_options \<Rightarrow> json" where
  "enc_createReq opts = JObj (always ''opts'' enc_create_options opts @ [])"

definition dec_createReq :: "json \<Rightarrow> create_options option" where
  "dec_createReq j = do {
     es \<leftarrow> obj_fields j;
     field ''opts'' dec_create_options
       \<lparr>co_BoxID = [], co_Description = [], co_SpokeName = [], co_Files = [], co_DiskBytes = 0\<rparr> es }"

text \<open>The response to a create carries the result under the field names of \<^verbatim>\<open>createResp\<close>.\<close>

definition enc_createResp :: "create_result \<Rightarrow> json" where
  "enc_createResp r = JObj (
     always ''id'' enc_str (cr_InstanceID r) @
     omitempty ''init_script_failed'' JBool False (cr_InitScriptFailed r) @
     omitempty ''init_script_output'' enc_str [] (cr_InitScriptOutput r) @
     omitempty ''publish_ports'' (enc_list enc_publish_port) [] (cr_PublishPorts r) @ [])"

definition dec_createResp :: "json \<Rightarrow> create_result option" where
  "dec_createResp j = do {
     es \<leftarrow> obj_fields j;
     i \<leftarrow> field ''id'' dec_str [] es;
     f \<leftarrow> field ''init_script_failed'' dec_bool False es;
     out \<leftarrow> field ''init_script_output'' dec_str [] es;
     ps \<leftarrow> field ''publish_ports'' (dec_list dec_publish_port) [] es;
     Some \<lparr>cr_InstanceID = i, cr_InitScriptFailed = f, cr_InitScriptOutput = out, cr_PublishPorts = ps\<rparr> }"

definition create_result_ok :: "create_result \<Rightarrow> bool" where
  "create_result_ok r \<longleftrightarrow> utf8 (cr_InstanceID r) \<and> utf8 (cr_InitScriptOutput r) \<and> list_all publish_port_ok (cr_PublishPorts r)"

definition enc_listResp :: "box list \<Rightarrow> json" where
  "enc_listResp bs = JObj (always ''boxes'' (enc_list enc_box) bs @ [])"

definition dec_listResp :: "json \<Rightarrow> box list option" where
  "dec_listResp j = do { es \<leftarrow> obj_fields j; field ''boxes'' (dec_list dec_box) [] es }"

text \<open>\<^verbatim>\<open>destroyReq\<close>, \<^verbatim>\<open>pauseReq\<close> and \<^verbatim>\<open>resumeReq\<close> have the same single field.\<close>

definition enc_idReq :: "string \<Rightarrow> json" where
  "enc_idReq n = JObj (always ''id_or_name'' enc_str n @ [])"

definition dec_idReq :: "json \<Rightarrow> string option" where
  "dec_idReq j = do { es \<leftarrow> obj_fields j; field ''id_or_name'' dec_str [] es }"

definition enc_execReq :: "string \<times> string list \<Rightarrow> json" where
  "enc_execReq r = JObj (always ''id_or_name'' enc_str (fst r) @ always ''cmd'' (enc_list enc_str) (snd r) @ [])"

definition dec_execReq :: "json \<Rightarrow> (string \<times> string list) option" where
  "dec_execReq j = do {
     es \<leftarrow> obj_fields j;
     n \<leftarrow> field ''id_or_name'' dec_str [] es;
     c \<leftarrow> field ''cmd'' (dec_list dec_str) [] es;
     Some (n, c) }"

definition enc_setPolicyReq :: "string \<times> network_policy \<Rightarrow> json" where
  "enc_setPolicyReq r = JObj (always ''box_id'' enc_str (fst r) @ always ''policy'' enc_network_policy (snd r) @ [])"

definition dec_setPolicyReq :: "json \<Rightarrow> (string \<times> network_policy) option" where
  "dec_setPolicyReq j = do {
     es \<leftarrow> obj_fields j;
     b \<leftarrow> field ''box_id'' dec_str [] es;
     p \<leftarrow> field ''policy'' dec_network_policy \<lparr>np_Enabled = False, np_Rules = []\<rparr> es;
     Some (b, p) }"

subsection \<open>Box-port payloads\<close>

record box_port_info =
  bp_Port :: int
  bp_URL :: string
  bp_Description :: string

definition enc_box_port :: "box_port_info \<Rightarrow> json" where
  "enc_box_port b = JObj (
     always ''port'' JNum (bp_Port b) @ always ''url'' enc_str (bp_URL b) @
     omitempty ''description'' enc_str [] (bp_Description b) @ [])"

definition dec_box_port :: "json \<Rightarrow> box_port_info option" where
  "dec_box_port j = do {
     es \<leftarrow> obj_fields j;
     p \<leftarrow> field ''port'' (dec_int int64) 0 es;
     u \<leftarrow> field ''url'' dec_str [] es;
     d \<leftarrow> field ''description'' dec_str [] es;
     Some \<lparr>bp_Port = p, bp_URL = u, bp_Description = d\<rparr> }"

definition box_port_ok :: "box_port_info \<Rightarrow> bool" where
  "box_port_ok b \<longleftrightarrow> int64 (bp_Port b) \<and> utf8 (bp_URL b) \<and> utf8 (bp_Description b)"

record open_req =
  oq_BoxID :: string
  oq_Port :: int
  oq_Description :: string

definition enc_openBoxPortReq :: "open_req \<Rightarrow> json" where
  "enc_openBoxPortReq r = JObj (
     always ''box_id'' enc_str (oq_BoxID r) @ always ''port'' JNum (oq_Port r) @
     omitempty ''description'' enc_str [] (oq_Description r) @ [])"

definition dec_openBoxPortReq :: "json \<Rightarrow> open_req option" where
  "dec_openBoxPortReq j = do {
     es \<leftarrow> obj_fields j;
     b \<leftarrow> field ''box_id'' dec_str [] es;
     p \<leftarrow> field ''port'' (dec_int int64) 0 es;
     d \<leftarrow> field ''description'' dec_str [] es;
     Some \<lparr>oq_BoxID = b, oq_Port = p, oq_Description = d\<rparr> }"

definition open_req_ok :: "open_req \<Rightarrow> bool" where
  "open_req_ok r \<longleftrightarrow> utf8 (oq_BoxID r) \<and> int64 (oq_Port r) \<and> utf8 (oq_Description r)"

definition enc_openBoxPortResp :: "box_port_info \<Rightarrow> json" where
  "enc_openBoxPortResp b = JObj (always ''port'' enc_box_port b @ [])"

definition dec_openBoxPortResp :: "json \<Rightarrow> box_port_info option" where
  "dec_openBoxPortResp j = do {
     es \<leftarrow> obj_fields j; field ''port'' dec_box_port \<lparr>bp_Port = 0, bp_URL = [], bp_Description = []\<rparr> es }"

definition enc_closeBoxPortReq :: "string \<times> int \<Rightarrow> json" where
  "enc_closeBoxPortReq r = JObj (always ''box_id'' enc_str (fst r) @ always ''port'' JNum (snd r) @ [])"

definition dec_closeBoxPortReq :: "json \<Rightarrow> (string \<times> int) option" where
  "dec_closeBoxPortReq j = do {
     es \<leftarrow> obj_fields j;
     b \<leftarrow> field ''box_id'' dec_str [] es;
     p \<leftarrow> field ''port'' (dec_int int64) 0 es;
     Some (b, p) }"

definition enc_listBoxPortsReq :: "string \<Rightarrow> json" where
  "enc_listBoxPortsReq b = JObj (always ''box_id'' enc_str b @ [])"

definition dec_listBoxPortsReq :: "json \<Rightarrow> string option" where
  "dec_listBoxPortsReq j = do { es \<leftarrow> obj_fields j; field ''box_id'' dec_str [] es }"

definition enc_listBoxPortsResp :: "box_port_info list \<Rightarrow> json" where
  "enc_listBoxPortsResp ps = JObj (always ''ports'' (enc_list enc_box_port) ps @ [])"

definition dec_listBoxPortsResp :: "json \<Rightarrow> box_port_info list option" where
  "dec_listBoxPortsResp j = do { es \<leftarrow> obj_fields j; field ''ports'' (dec_list dec_box_port) [] es }"

record dns_audit_req =
  dq_BoxID :: string
  dq_Domain :: string
  dq_Verdict :: string
  dq_UnixSec :: int

definition enc_dnsAuditReq :: "dns_audit_req \<Rightarrow> json" where
  "enc_dnsAuditReq r = JObj (
     always ''box_id'' enc_str (dq_BoxID r) @ always ''domain'' enc_str (dq_Domain r) @
     always ''verdict'' enc_str (dq_Verdict r) @ always ''unix_sec'' JNum (dq_UnixSec r) @ [])"

definition dec_dnsAuditReq :: "json \<Rightarrow> dns_audit_req option" where
  "dec_dnsAuditReq j = do {
     es \<leftarrow> obj_fields j;
     b \<leftarrow> field ''box_id'' dec_str [] es;
     d \<leftarrow> field ''domain'' dec_str [] es;
     v \<leftarrow> field ''verdict'' dec_str [] es;
     u \<leftarrow> field ''unix_sec'' (dec_int int64) 0 es;
     Some \<lparr>dq_BoxID = b, dq_Domain = d, dq_Verdict = v, dq_UnixSec = u\<rparr> }"

definition dns_audit_req_ok :: "dns_audit_req \<Rightarrow> bool" where
  "dns_audit_req_ok r \<longleftrightarrow> utf8 (dq_BoxID r) \<and> utf8 (dq_Domain r) \<and> utf8 (dq_Verdict r) \<and> int64 (dq_UnixSec r)"

record stream_open_req =
  so_BoxID :: string
  so_Port :: int
  so_PTY :: bool
  so_PTYCmd :: "string list"
  so_PTYCols :: int
  so_PTYRows :: int

definition enc_streamOpenReq :: "stream_open_req \<Rightarrow> json" where
  "enc_streamOpenReq r = JObj (
     always ''box_id'' enc_str (so_BoxID r) @ always ''port'' JNum (so_Port r) @
     omitempty ''pty'' JBool False (so_PTY r) @ omitempty ''pty_cmd'' (enc_list enc_str) [] (so_PTYCmd r) @
     omitempty ''pty_cols'' JNum 0 (so_PTYCols r) @ omitempty ''pty_rows'' JNum 0 (so_PTYRows r) @ [])"

definition dec_streamOpenReq :: "json \<Rightarrow> stream_open_req option" where
  "dec_streamOpenReq j = do {
     es \<leftarrow> obj_fields j;
     b \<leftarrow> field ''box_id'' dec_str [] es;
     p \<leftarrow> field ''port'' (dec_int int64) 0 es;
     t \<leftarrow> field ''pty'' dec_bool False es;
     c \<leftarrow> field ''pty_cmd'' (dec_list dec_str) [] es;
     w \<leftarrow> field ''pty_cols'' (dec_int uint16) 0 es;
     h \<leftarrow> field ''pty_rows'' (dec_int uint16) 0 es;
     Some \<lparr>so_BoxID = b, so_Port = p, so_PTY = t, so_PTYCmd = c, so_PTYCols = w, so_PTYRows = h\<rparr> }"

definition stream_open_req_ok :: "stream_open_req \<Rightarrow> bool" where
  "stream_open_req_ok r \<longleftrightarrow> utf8 (so_BoxID r) \<and> int64 (so_Port r) \<and> list_all utf8 (so_PTYCmd r) \<and>
     uint16 (so_PTYCols r) \<and> uint16 (so_PTYRows r)"

subsection \<open>Every payload is a codec\<close>

lemma verb_keys [json_keys]:
  "to_lower ''opts'' = ''opts''" "to_lower ''init_script_failed'' = ''init_script_failed''"
  "to_lower ''init_script_output'' = ''init_script_output''" "to_lower ''publish_ports'' = ''publish_ports''"
  "to_lower ''boxes'' = ''boxes''" "to_lower ''id_or_name'' = ''id_or_name''" "to_lower ''cmd'' = ''cmd''"
  "to_lower ''policy'' = ''policy''" "to_lower ''url'' = ''url''" "to_lower ''ports'' = ''ports''"
  "to_lower ''domain'' = ''domain''" "to_lower ''verdict'' = ''verdict''" "to_lower ''unix_sec'' = ''unix_sec''"
  "to_lower ''pty'' = ''pty''" "to_lower ''pty_cmd'' = ''pty_cmd''" "to_lower ''pty_cols'' = ''pty_cols''"
  "to_lower ''pty_rows'' = ''pty_rows''"
  by code_simp+

interpretation createReq: codec enc_createReq dec_createReq create_options_ok
  by unfold_locales (simp_all add: dec_createReq_def enc_createReq_def field_simps json_keys
      leaf_roundtrips create_options.roundtrip create_options.not_null del: append_Nil2)

interpretation createResp: codec enc_createResp dec_createResp create_result_ok
  by unfold_locales (simp_all add: dec_createResp_def enc_createResp_def create_result_ok_def field_simps json_keys
      leaf_roundtrips publish_port.list_roundtrip del: append_Nil2)

interpretation listResp: codec enc_listResp dec_listResp "list_all box_ok"
  by unfold_locales (simp_all add: dec_listResp_def enc_listResp_def field_simps json_keys
      leaf_roundtrips box.list_roundtrip del: append_Nil2)

interpretation idReq: codec enc_idReq dec_idReq utf8
  by unfold_locales (simp_all add: dec_idReq_def enc_idReq_def field_simps json_keys
      leaf_roundtrips del: append_Nil2)

interpretation execReq: codec enc_execReq dec_execReq "\<lambda>r. utf8 (fst r) \<and> list_all utf8 (snd r)"
  by unfold_locales (simp_all add: dec_execReq_def enc_execReq_def field_simps json_keys
      leaf_roundtrips del: append_Nil2)

interpretation setPolicyReq: codec enc_setPolicyReq dec_setPolicyReq "\<lambda>r. utf8 (fst r) \<and> network_policy_ok (snd r)"
  by unfold_locales (simp_all add: dec_setPolicyReq_def enc_setPolicyReq_def field_simps json_keys
      leaf_roundtrips network_policy.roundtrip network_policy.not_null del: append_Nil2)

interpretation box_port: codec enc_box_port dec_box_port box_port_ok
  by unfold_locales (simp_all add: dec_box_port_def enc_box_port_def box_port_ok_def field_simps json_keys
      leaf_roundtrips del: append_Nil2)

interpretation openBoxPortReq: codec enc_openBoxPortReq dec_openBoxPortReq open_req_ok
  by unfold_locales (simp_all add: dec_openBoxPortReq_def enc_openBoxPortReq_def open_req_ok_def field_simps json_keys
      leaf_roundtrips del: append_Nil2)

interpretation openBoxPortResp: codec enc_openBoxPortResp dec_openBoxPortResp box_port_ok
  by unfold_locales (simp_all add: dec_openBoxPortResp_def enc_openBoxPortResp_def field_simps json_keys
      leaf_roundtrips box_port.roundtrip box_port.not_null del: append_Nil2)

interpretation closeBoxPortReq: codec enc_closeBoxPortReq dec_closeBoxPortReq "\<lambda>r. utf8 (fst r) \<and> int64 (snd r)"
  by unfold_locales (simp_all add: dec_closeBoxPortReq_def enc_closeBoxPortReq_def field_simps json_keys
      leaf_roundtrips del: append_Nil2)

interpretation listBoxPortsReq: codec enc_listBoxPortsReq dec_listBoxPortsReq utf8
  by unfold_locales (simp_all add: dec_listBoxPortsReq_def enc_listBoxPortsReq_def field_simps json_keys
      leaf_roundtrips del: append_Nil2)

interpretation listBoxPortsResp: codec enc_listBoxPortsResp dec_listBoxPortsResp "list_all box_port_ok"
  by unfold_locales (simp_all add: dec_listBoxPortsResp_def enc_listBoxPortsResp_def field_simps json_keys
      leaf_roundtrips box_port.list_roundtrip del: append_Nil2)

interpretation dnsAuditReq: codec enc_dnsAuditReq dec_dnsAuditReq dns_audit_req_ok
  by unfold_locales (simp_all add: dec_dnsAuditReq_def enc_dnsAuditReq_def dns_audit_req_ok_def field_simps json_keys
      leaf_roundtrips del: append_Nil2)

interpretation streamOpenReq: codec enc_streamOpenReq dec_streamOpenReq stream_open_req_ok
  by unfold_locales (simp_all add: dec_streamOpenReq_def enc_streamOpenReq_def stream_open_req_ok_def field_simps json_keys
      leaf_roundtrips del: append_Nil2)

end
