(* ===== verification/Recording.thy ===== *)
theory Recording
  imports Netfw
begin

text \<open>
  The in-memory programmer of \<^verbatim>\<open>internal/spoke/netfw/recording.go\<close>, which the source calls the
  reference for what a real programmer must end up with, and its proof that it meets the
  contract \<open>egress_firewall\<close>. Through that instance the pinner's guarantees become theorems
  about \<open>Pin\<close> and \<open>Sweep\<close> over this programmer.
\<close>

record box_state =
  bs_spec :: box_spec
  bs_allow :: "addr set"

type_synonym recording = "string \<rightharpoonup> box_state"

definition NewRecordingProgrammer :: recording where
  "NewRecordingProgrammer = Map.empty"

definition zero_spec :: box_spec where
  "zero_spec = \<lparr>spec_Source = (NoAddr, 0), spec_DNS = NoAddr\<rparr>"

definition rec_Baseline :: "string \<Rightarrow> box_spec \<Rightarrow> recording \<Rightarrow> string option \<times> recording" where
  "rec_Baseline boxID spec r = (None, r(boxID \<mapsto> \<lparr>bs_spec = spec, bs_allow = {}\<rparr>))"

definition rec_Spec :: "recording \<Rightarrow> string \<Rightarrow> box_spec option" where
  "rec_Spec r boxID = map_option bs_spec (r boxID)"

definition rec_Allow :: "string \<Rightarrow> addr \<Rightarrow> recording \<Rightarrow> string option \<times> recording" where
  "rec_Allow boxID ip r =
     (let b = (case r boxID of None \<Rightarrow> \<lparr>bs_spec = zero_spec, bs_allow = {}\<rparr> | Some b \<Rightarrow> b)
      in (None, r(boxID \<mapsto> b\<lparr>bs_allow := insert ip (bs_allow b)\<rparr>)))"

definition rec_Revoke :: "string \<Rightarrow> addr \<Rightarrow> recording \<Rightarrow> string option \<times> recording" where
  "rec_Revoke boxID ip r =
     (case r boxID of
        None \<Rightarrow> (None, r)
      | Some b \<Rightarrow> (None, r(boxID \<mapsto> b\<lparr>bs_allow := bs_allow b - {ip}\<rparr>)))"

definition rec_Teardown :: "string \<Rightarrow> recording \<Rightarrow> string option \<times> recording" where
  "rec_Teardown boxID r = (None, r(boxID := None))"

definition rec_Allowed :: "recording \<Rightarrow> string \<Rightarrow> addr \<Rightarrow> bool" where
  "rec_Allowed r boxID ip = (case r boxID of None \<Rightarrow> False | Some b \<Rightarrow> ip \<in> bs_allow b)"

definition rec_AllowList :: "recording \<Rightarrow> string \<Rightarrow> addr list" where
  "rec_AllowList r boxID = (case r boxID of None \<Rightarrow> [] | Some b \<Rightarrow> sorted_list_of_set (bs_allow b))"

definition recording_programmer :: "recording programmer" where
  "recording_programmer =
     \<lparr>prog_Baseline = rec_Baseline, prog_Allow = rec_Allow, prog_Revoke = rec_Revoke,
      prog_Teardown = rec_Teardown\<rparr>"

definition rec_opened :: "recording \<Rightarrow> pin_key set" where
  "rec_opened r = {(b, ip). rec_Allowed r b ip}"

lemmas recording_defs =
  recording_programmer_def rec_opened_def rec_Allowed_def rec_Baseline_def rec_Allow_def
  rec_Revoke_def rec_Teardown_def

lemma rec_Revoke_opened: "rec_opened (snd (rec_Revoke b ip r)) = rec_opened r - {(b, ip)}"
  by (auto simp: recording_defs split: option.splits if_splits)

lemma rec_Allow_opened: "rec_opened (snd (rec_Allow b ip r)) = insert (b, ip) (rec_opened r)"
  by (auto simp: recording_defs Let_def split: option.splits if_splits)

lemma rec_Teardown_opened: "rec_opened (snd (rec_Teardown b r)) = {k \<in> rec_opened r. fst k \<noteq> b}"
  by (auto simp: recording_defs split: option.splits if_splits)

lemma rec_Baseline_opened: "rec_opened (snd (rec_Baseline b sp r)) = {k \<in> rec_opened r. fst k \<noteq> b}"
  by (auto simp: recording_defs split: option.splits if_splits)

interpretation recfw: egress_firewall recording_programmer rec_opened
proof
  fix b ip sp and e :: string and r and fw fw' :: recording
  show "prog_Allow recording_programmer b ip fw = (None, fw') \<Longrightarrow>
    rec_opened fw' = insert (b, ip) (rec_opened fw)"
    using rec_Allow_opened [of b ip fw] by (simp add: recording_programmer_def)
  show "prog_Revoke recording_programmer b ip fw = (None, fw') \<Longrightarrow>
    rec_opened fw' = rec_opened fw - {(b, ip)}"
    using rec_Revoke_opened [of b ip fw] by (simp add: recording_programmer_def)
  show "prog_Baseline recording_programmer b sp fw = (r, fw') \<Longrightarrow> rec_opened fw' \<subseteq> rec_opened fw"
    using rec_Baseline_opened [of b sp fw] by (auto simp: recording_programmer_def)
  show "prog_Teardown recording_programmer b fw = (None, fw') \<Longrightarrow>
    rec_opened fw' = {k \<in> rec_opened fw. fst k \<noteq> b}"
    using rec_Teardown_opened [of b fw] by (simp add: recording_programmer_def)
  show "prog_Allow recording_programmer b ip fw = (Some e, fw') \<Longrightarrow> rec_opened fw' = rec_opened fw"
    by (simp add: recording_programmer_def rec_Allow_def Let_def)
  show "prog_Revoke recording_programmer b ip fw = (Some e, fw') \<Longrightarrow> rec_opened fw' = rec_opened fw"
    by (simp add: recording_programmer_def rec_Revoke_def split: option.splits)
  show "prog_Teardown recording_programmer b fw = (Some e, fw') \<Longrightarrow> rec_opened fw' \<subseteq> rec_opened fw"
    by (simp add: recording_programmer_def rec_Teardown_def)
qed

lemma revoke_all_recording: "fst (revoke_all recording_programmer ks fe r) = fe"
proof (induction ks arbitrary: r)
  case (Cons k ks)
  then show ?case
    by (auto simp: recording_programmer_def rec_Revoke_def split: option.splits)
qed simp

lemma Sweep_recording_ok: "fst (Sweep recording_programmer now pins r) = None"
  using revoke_all_recording [of "sort (expired_pins now pins)" None r]
  by (auto simp: Sweep_def Let_def split: prod.splits)

text \<open>
  Further (sweep_closes_expired). Over the recording programmer, if every open (box, address) pair
  has a pin, then after a sweep at time \<open>now\<close> every pair that is still open has a pin whose
  deadline lies strictly after \<open>now\<close>, every pin left is one that had not expired, and the
  sweep closed exactly the expired ones: no address outlives its TTL past the next sweep.
\<close>

theorem sweep_closes_expired:
  assumes "keys_distinct pins" and "\<forall>b ip. rec_Allowed r b ip \<longrightarrow> tget pins (b, ip) \<noteq> None"
    and "Sweep recording_programmer now pins r = (e, pins', r')"
  shows "e = None \<and>
    (\<forall>b ip. rec_Allowed r' b ip \<longleftrightarrow>
       rec_Allowed r b ip \<and> (\<exists>d. tget pins (b, ip) = Some d \<and> now < d)) \<and>
    (\<forall>b ip. tget pins' (b, ip) =
       (case tget pins (b, ip) of None \<Rightarrow> None | Some d \<Rightarrow> if now < d then Some d else None))"
proof (intro conjI)
  show e: "e = None" using Sweep_recording_ok [of now pins r] assms(3) by simp
  have "rec_opened r' = {k \<in> rec_opened r. \<forall>d. tget pins k = Some d \<longrightarrow> now < d}"
    using recfw.sweep_ok_opened assms(1,3) e by blast
  then show "\<forall>b ip. rec_Allowed r' b ip \<longleftrightarrow>
      rec_Allowed r b ip \<and> (\<exists>d. tget pins (b, ip) = Some d \<and> now < d)"
    using assms(2) by (fastforce simp: rec_opened_def set_eq_iff)
  show "\<forall>b ip. tget pins' (b, ip) =
      (case tget pins (b, ip) of None \<Rightarrow> None | Some d \<Rightarrow> if now < d then Some d else None)"
    using Sweep_pins [OF assms(1,3)] by blast
qed

theorem sweep_closes_expired_witness:
  "\<forall>b ip. rec_Allowed (snd (snd (Sweep recording_programmer 10 [((''web'', Addr4 1), 5)]
      [''web'' \<mapsto> \<lparr>bs_spec = zero_spec, bs_allow = {Addr4 1}\<rparr>]))) b ip \<longleftrightarrow> False"
proof -
  let ?r = "[''web'' \<mapsto> \<lparr>bs_spec = zero_spec, bs_allow = {Addr4 1}\<rparr>]"
  let ?p = "[((''web'', Addr4 1), 5)]"
  have a: "keys_distinct ?p" by (simp add: keys_distinct_def)
  have b: "\<forall>b ip. rec_Allowed ?r b ip \<longrightarrow> tget ?p (b, ip) \<noteq> None"
    by (auto simp: rec_Allowed_def split: option.splits if_splits)
  obtain e p' r' where s: "Sweep recording_programmer 10 ?p ?r = (e, p', r')" by (metis prod_cases3)
  from sweep_closes_expired [OF a b s] show ?thesis by (auto simp: s)
qed

end
