(* ===== verification/Dnsd.thy ===== *)
theory Dnsd
  imports Recording Netaddr
begin

text \<open>
  The enforcing DNS resolver, \<^verbatim>\<open>internal/spoke/dnsd\<close>: domain matching and the static policy
  (\<^verbatim>\<open>allowlist.go\<close>), the query handler (\<^verbatim>\<open>dnsd.go\<close>), the upstream address rule and the box map
  (\<^verbatim>\<open>resolver.go\<close>). DNS messages are records of the fields the code reads and writes; the
  message library's \<^verbatim>\<open>SetRcode\<close> is the parameter \<open>setRcode\<close> and the upstream exchange is the
  parameter \<open>resolve\<close> (\<open>None\<close> is an error or a nil reply). One handler call reads the clock once.
\<close>

subsection \<open>Policy\<close>

record rule =
  rule_Pattern :: string
  rule_TTL :: duration

type_synonym policy = "string \<rightharpoonup> rule list"

definition NewStaticPolicy :: policy where
  "NewStaticPolicy = Map.empty"

definition policy_Set :: "string \<Rightarrow> rule list \<Rightarrow> policy \<Rightarrow> policy" where
  "policy_Set boxID rules p = (if rules = [] then p(boxID := None) else p(boxID \<mapsto> rules))"

definition policy_Remove :: "string \<Rightarrow> policy \<Rightarrow> policy" where
  "policy_Remove boxID p = p(boxID := None)"

definition normalizeName :: "string \<Rightarrow> string" where
  "normalizeName qname = trim_suffix (to_lower qname) ''.''"

definition matchDomain :: "string \<Rightarrow> string \<Rightarrow> bool" where
  "matchDomain pattern name =
     (let p = normalizeName pattern in
      if has_prefix p ''*.'' then has_suffix name (''.'' @ drop 2 p) else name = p)"

fun first_match :: "rule list \<Rightarrow> string \<Rightarrow> duration option" where
  "first_match [] name = None"
| "first_match (r # rs) name =
     (if matchDomain (rule_Pattern r) name then Some (rule_TTL r) else first_match rs name)"

definition policy_Allowed :: "policy \<Rightarrow> string \<Rightarrow> string \<Rightarrow> duration option" where
  "policy_Allowed p boxID qname =
     first_match (case p boxID of None \<Rightarrow> [] | Some rs \<Rightarrow> rs) (normalizeName qname)"

subsection \<open>Messages and audit events\<close>

datatype rr = RR_A "8 word list" | RR_AAAA "8 word list" | RR_Other

record question =
  q_Name :: string
  q_Qtype :: "16 word"

record dns_msg =
  dm_Id :: "16 word"
  dm_Rcode :: int
  dm_Truncated :: bool
  dm_Question :: "question list"
  dm_Answer :: "rr list"

abbreviation RcodeFormatError :: int where "RcodeFormatError \<equiv> 1"
abbreviation RcodeServerFailure :: int where "RcodeServerFailure \<equiv> 2"
abbreviation RcodeNameError :: int where "RcodeNameError \<equiv> 3"
abbreviation RcodeRefused :: int where "RcodeRefused \<equiv> 5"

datatype verdict = VerdictAllowed | VerdictBlocked | VerdictError | VerdictRefused

record event =
  ev_BoxID :: string
  ev_QName :: string
  ev_QType :: "16 word"
  ev_Verdict :: verdict
  ev_IPs :: "addr list"
  ev_Time :: time

fun be_word :: "'a::len word \<Rightarrow> 8 word list \<Rightarrow> 'a word" where
  "be_word acc [] = acc"
| "be_word acc (b # bs) = be_word (acc * 256 + ucast b) bs"

definition addrFromSlice :: "8 word list \<Rightarrow> addr option" where
  "addrFromSlice bs =
     (if length bs = 4 then Some (Addr4 (be_word 0 bs))
      else if length bs = 16 then Some (Addr6 (be_word 0 bs)) else None)"

definition rr_addr :: "rr \<Rightarrow> addr option" where
  "rr_addr r = (case r of RR_A bs \<Rightarrow> map_option unmap (addrFromSlice bs)
                        | RR_AAAA bs \<Rightarrow> map_option unmap (addrFromSlice bs)
                        | RR_Other \<Rightarrow> None)"

definition answerIPs :: "dns_msg \<Rightarrow> addr list" where
  "answerIPs m = uniq [] (List.map_filter rr_addr (dm_Answer m))"

subsection \<open>The box map\<close>

type_synonym boxmap = "addr \<rightharpoonup> string"

definition mapboxes_Set :: "addr \<Rightarrow> string \<Rightarrow> boxmap \<Rightarrow> boxmap" where
  "mapboxes_Set ip boxID m = m(ip \<mapsto> boxID)"

definition mapboxes_Remove :: "addr \<Rightarrow> boxmap \<Rightarrow> boxmap" where
  "mapboxes_Remove ip m = m(ip := None)"

definition mapboxes_Box :: "boxmap \<Rightarrow> addr \<Rightarrow> string option" where
  "mapboxes_Box m ip = m ip"

subsection \<open>The handler\<close>

record 'fw dns_state =
  ds_pins :: pins
  ds_fw :: 'fw
  ds_audit :: "event list"

definition record_event :: "time \<Rightarrow> event \<Rightarrow> 'fw dns_state \<Rightarrow> 'fw dns_state" where
  "record_event now ev st = st\<lparr>ds_audit := ds_audit st @ [ev\<lparr>ev_Time := now\<rparr>]\<rparr>"

fun pin_all ::
  "'fw programmer \<Rightarrow> time \<Rightarrow> string \<Rightarrow> duration \<Rightarrow> addr list \<Rightarrow> pins \<Rightarrow> 'fw \<Rightarrow>
   string option \<times> pins \<times> 'fw"
where
  "pin_all prog now boxID ttl [] pins fw = (None, pins, fw)"
| "pin_all prog now boxID ttl (ip # ips) pins fw =
     (case Pin prog now boxID ip ttl pins fw of
        (None, pins', fw') \<Rightarrow> pin_all prog now boxID ttl ips pins' fw'
      | (Some e, pins', fw') \<Rightarrow> (Some e, pins', fw'))"

definition mk_event :: "string \<Rightarrow> question \<Rightarrow> verdict \<Rightarrow> addr list \<Rightarrow> event" where
  "mk_event boxID q v ips =
     \<lparr>ev_BoxID = boxID, ev_QName = q_Name q, ev_QType = q_Qtype q, ev_Verdict = v, ev_IPs = ips,
      ev_Time = 0\<rparr>"

definition Handle ::
  "(dns_msg \<Rightarrow> int \<Rightarrow> dns_msg) \<Rightarrow> (dns_msg \<Rightarrow> dns_msg option) \<Rightarrow> 'fw programmer option \<Rightarrow> time \<Rightarrow>
   boxmap \<Rightarrow> policy \<Rightarrow> addr \<Rightarrow> dns_msg \<Rightarrow> 'fw dns_state \<Rightarrow> dns_msg \<times> 'fw dns_state"
where
  "Handle setRcode resolve pinner now boxes policy clientIP r st =
     (case dm_Question r of
        [] \<Rightarrow> (setRcode r RcodeFormatError, st)
      | q # _ \<Rightarrow>
         (case mapboxes_Box boxes clientIP of
            None \<Rightarrow> (setRcode r RcodeRefused, record_event now (mk_event [] q VerdictRefused []) st)
          | Some boxID \<Rightarrow>
             (case policy_Allowed policy boxID (q_Name q) of
                None \<Rightarrow> (setRcode r RcodeNameError,
                         record_event now (mk_event boxID q VerdictBlocked []) st)
              | Some ttl \<Rightarrow>
                 (case resolve r of
                    None \<Rightarrow> (setRcode r RcodeServerFailure,
                             record_event now (mk_event boxID q VerdictError []) st)
                  | Some resp \<Rightarrow>
                     (let ips = answerIPs resp;
                          (e, pins', fw') =
                            (case pinner of
                               None \<Rightarrow> (None, ds_pins st, ds_fw st)
                             | Some prog \<Rightarrow> pin_all prog now boxID ttl ips (ds_pins st) (ds_fw st));
                          st' = st\<lparr>ds_pins := pins', ds_fw := fw'\<rparr>
                      in case e of
                           Some _ \<Rightarrow> (setRcode r RcodeServerFailure,
                                      record_event now (mk_event boxID q VerdictError []) st')
                         | None \<Rightarrow> (resp\<lparr>dm_Id := dm_Id r\<rparr>,
                                    record_event now (mk_event boxID q VerdictAllowed ips) st'))))))"

subsection \<open>Upstream resolver\<close>

definition validPort :: "string \<Rightarrow> bool" where
  "validPort p = (case atoi p of None \<Rightarrow> False | Some n \<Rightarrow> 1 \<le> n \<and> n \<le> 65535)"

datatype upstream_error = UpstreamEmpty | UpstreamInvalid string

definition NormalizeUpstream ::
  "(string \<Rightarrow> string option) \<Rightarrow> string \<Rightarrow> upstream_error + string"
where
  "NormalizeUpstream parseAddr raw =
     (let s = trim_space raw in
      if s = [] then Inl UpstreamEmpty
      else if CHR ''/'' \<in> set s \<or> CHR '' '' \<in> set s then Inl (UpstreamInvalid raw)
      else case split_host_port s of
             Some (host, port) \<Rightarrow>
               if host = [] \<or> \<not> validPort port then Inl (UpstreamInvalid raw) else Inr s
           | None \<Rightarrow>
               (case parseAddr s of
                  Some canon \<Rightarrow> Inr (join_host_port canon ''53'')
                | None \<Rightarrow> Inr (join_host_port s ''53'')))"

definition Resolve ::
  "(dns_msg \<Rightarrow> dns_msg option) \<Rightarrow> (dns_msg \<Rightarrow> dns_msg option) \<Rightarrow> dns_msg \<Rightarrow> dns_msg option"
where
  "Resolve udp tcp q =
     (case udp q of
        None \<Rightarrow> None
      | Some resp \<Rightarrow>
          if dm_Truncated resp then (case tcp q of Some t \<Rightarrow> Some t | None \<Rightarrow> Some resp)
          else Some resp)"

subsection \<open>Matching\<close>

lemma has_prefix_wild: "has_prefix p ''*.'' \<longleftrightarrow> (\<exists>d. p = ''*.'' @ d)"
  by (simp add: has_prefix_iff)

lemma matchDomain_wild:
  "normalizeName p = ''*.'' @ d \<Longrightarrow> matchDomain p name \<longleftrightarrow> (\<exists>u. name = u @ ''.'' @ d)"
  by (simp add: matchDomain_def has_suffix_iff Let_def)

lemma matchDomain_exact:
  "\<not> has_prefix (normalizeName p) ''*.'' \<Longrightarrow> matchDomain p name \<longleftrightarrow> name = normalizeName p"
  by (simp add: matchDomain_def Let_def)

lemma first_match_None: "first_match rs n = None \<longleftrightarrow> (\<forall>r \<in> set rs. \<not> matchDomain (rule_Pattern r) n)"
  by (induction rs) auto

lemma first_match_Some:
  "first_match rs n = Some t \<Longrightarrow> \<exists>r \<in> set rs. matchDomain (rule_Pattern r) n \<and> rule_TTL r = t"
  by (induction rs) (auto split: if_splits)

lemma has_suffix_dot: "has_suffix s ''.'' \<longleftrightarrow> s \<noteq> [] \<and> last s = CHR ''.''"
  by (cases s rule: rev_cases) (auto simp: has_suffix_iff)

lemma last_to_lower: "s \<noteq> [] \<Longrightarrow> last (to_lower s) = lower_char (last s)"
  by (simp add: to_lower_def last_map)

lemma normalizeName_eq:
  "normalizeName s = (if s \<noteq> [] \<and> lower_char (last s) = CHR ''.'' then butlast (to_lower s) else to_lower s)"
  by (cases "s = []")
    (auto simp: normalizeName_def trim_suffix_def has_suffix_dot butlast_conv_take last_to_lower)

text \<open>
  Further (matchDomain_wildcard). The rule language: a wildcard rule \<^verbatim>\<open>*.d\<close> matches exactly the names
  that end in \<^verbatim>\<open>.d\<close>, so it never matches the apex \<open>d\<close> itself nor a longer name that only shares
  the suffix without the label boundary, and any other rule matches its own normalised name and
  nothing else.
\<close>

theorem matchDomain_wildcard:
  "(\<forall>d. normalizeName p = ''*.'' @ d \<longrightarrow>
      (\<forall>n. matchDomain p n \<longleftrightarrow> (\<exists>u. n = u @ ''.'' @ d)) \<and> \<not> matchDomain p d) \<and>
   ((\<forall>d. normalizeName p \<noteq> ''*.'' @ d) \<longrightarrow> (\<forall>n. matchDomain p n \<longleftrightarrow> n = normalizeName p))"
proof -
  have "\<not> matchDomain p d" if "normalizeName p = ''*.'' @ d" for d
  proof
    assume "matchDomain p d"
    with that obtain u where "d = u @ ''.'' @ d" by (auto simp: matchDomain_wild)
    then have "length d = length (u @ ''.'' @ d)" by metis
    then show False by simp
  qed
  then show ?thesis by (auto simp: matchDomain_wild matchDomain_exact has_prefix_iff)
qed

theorem matchDomain_wildcard_witness:
  "matchDomain ''*.Example.com.'' ''api.example.com'' \<and> \<not> matchDomain ''*.Example.com.'' ''example.com'' \<and>
   \<not> matchDomain ''*.Example.com.'' ''badexample.com'' \<and> matchDomain ''Example.com'' ''example.com''"
proof -
  have n: "normalizeName ''*.Example.com.'' = ''*.'' @ ''example.com''" by code_simp
  have m: "normalizeName ''Example.com'' = ''example.com''" by code_simp
  have "\<forall>d. normalizeName ''Example.com'' \<noteq> ''*.'' @ d" by (simp add: m)
  then have "matchDomain ''Example.com'' ''example.com''"
    using matchDomain_wildcard [of "''Example.com''"] m by metis
  moreover have "matchDomain ''*.Example.com.'' ''api.example.com''"
    using matchDomain_wildcard [of "''*.Example.com.''"] n by fastforce
  moreover have "\<not> matchDomain ''*.Example.com.'' ''badexample.com''" by code_simp
  ultimately show ?thesis using matchDomain_wildcard [of "''*.Example.com.''"] n by metis
qed

subsection \<open>The handler\<close>

lemma answerIPs_distinct: "distinct (answerIPs m)"
  by (simp add: answerIPs_def distinct_uniq)

lemma set_answerIPs: "set (answerIPs m) = {a. \<exists>r \<in> set (dm_Answer m). rr_addr r = Some a}"
  by (force simp: answerIPs_def set_uniq List.map_filter_def)

lemma pin_all_pins:
  assumes "pin_all prog now b ttl ips pins fw = (None, pins', fw')"
  shows "tget pins' k = (if fst k = b \<and> snd k \<in> set ips then Some (now + ttl) else tget pins k)"
  using assms
proof (induction ips arbitrary: pins fw)
  case (Cons ip ips)
  from Cons.prems obtain p1 f1 where
    p: "Pin prog now b ip ttl pins fw = (None, p1, f1)"
    and "pin_all prog now b ttl ips p1 f1 = (None, pins', fw')"
    by (auto split: prod.splits option.splits)
  with Cons.IH Pin_success [OF p] show ?case by (cases k) auto
qed simp

context egress_firewall
begin

lemma pin_all_opened:
  assumes "pin_all prog now b ttl ips pins fw = (e, pins', fw')"
  shows "opened fw \<subseteq> opened fw' \<and> opened fw' \<subseteq> opened fw \<union> {b} \<times> set ips"
  using assms
proof (induction ips arbitrary: pins fw)
  case (Cons ip ips)
  obtain e1 p1 f1 where p: "Pin prog now b ip ttl pins fw = (e1, p1, f1)" by (metis prod_cases3)
  note s = pin_opened_subset [OF p]
  show ?case
  proof (cases e1)
    case None
    with p Cons.prems have "pin_all prog now b ttl ips p1 f1 = (e, pins', fw')" by simp
    from Cons.IH [OF this] s show ?thesis by fastforce
  next
    case (Some x)
    with p Cons.prems s show ?thesis by auto
  qed
qed simp

lemma pin_all_tracked:
  "tracked pins fw \<Longrightarrow> pin_all prog now b ttl ips pins fw = (e, pins', fw') \<Longrightarrow> tracked pins' fw'"
proof (induction ips arbitrary: pins fw)
  case (Cons ip ips)
  obtain e1 p1 f1 where p: "Pin prog now b ip ttl pins fw = (e1, p1, f1)" by (metis prod_cases3)
  note s = pin_tracked [OF Cons.prems(1) p]
  with Cons.IH p Cons.prems(2) show ?case by (cases e1) auto
qed simp

lemma handle_tracked:
  assumes "tracked (ds_pins st) (ds_fw st)"
    and "Handle setRcode resolve (Some prog) now boxes policy c r st = (m, st')"
  shows "tracked (ds_pins st') (ds_fw st')"
  using assms
  by (auto simp: Handle_def record_event_def Let_def split: list.splits option.splits prod.splits
      dest: pin_all_tracked)

lemma handle_opened:
  assumes "Handle setRcode resolve (Some prog) now boxes policy c r st = (m, st')"
    and "k \<in> opened (ds_fw st')" and "k \<notin> opened (ds_fw st)"
  shows "\<exists>q qs b ttl resp. dm_Question r = q # qs \<and> boxes c = Some b \<and>
    policy_Allowed policy b (q_Name q) = Some ttl \<and> resolve r = Some resp \<and>
    fst k = b \<and> snd k \<in> set (answerIPs resp)"
proof -
  from assms obtain q qs b ttl resp where
    h: "dm_Question r = q # qs" "boxes c = Some b" "policy_Allowed policy b (q_Name q) = Some ttl"
      "resolve r = Some resp"
    by (auto simp: Handle_def record_event_def mapboxes_Box_def Let_def
        split: list.splits option.splits)
  obtain e p1 f1 where
    p: "pin_all prog now b ttl (answerIPs resp) (ds_pins st) (ds_fw st) = (e, p1, f1)"
    by (metis prod_cases3)
  with h assms(1) have "ds_fw st' = f1"
    by (auto simp: Handle_def record_event_def mapboxes_Box_def Let_def split: option.splits)
  with pin_all_opened [OF p] assms(2,3) h show ?thesis by fastforce
qed

end

text \<open>
  C7 (handle_deny_by_default). A query of a known box for a name that no rule of that box matches
  is answered NXDOMAIN without consulting the upstream resolver, leaves the pins and the firewall
  as they were, and appends exactly one audit event with the verdict blocked; the same query from
  an address that belongs to no box is answered REFUSED with the verdict refused, whatever the
  policy says.
\<close>

theorem handle_deny_by_default:
  assumes "dm_Question r = q # qs"
    and "\<forall>b rules. boxes c = Some b \<and> policy b = Some rules \<longrightarrow>
      (\<forall>ru \<in> set rules. \<not> matchDomain (rule_Pattern ru) (normalizeName (q_Name q)))"
    and "Handle setRcode resolve pinner now boxes policy c r st = (m, st')"
  shows "ds_pins st' = ds_pins st \<and> ds_fw st' = ds_fw st \<and>
    (\<exists>ev. ds_audit st' = ds_audit st @ [ev] \<and> ev_QName ev = q_Name q \<and> ev_Time ev = now \<and> ev_IPs ev = [] \<and>
      (case boxes c of
         None \<Rightarrow> m = setRcode r RcodeRefused \<and> ev_Verdict ev = VerdictRefused \<and> ev_BoxID ev = []
       | Some b \<Rightarrow> m = setRcode r RcodeNameError \<and> ev_Verdict ev = VerdictBlocked \<and> ev_BoxID ev = b))"
proof (cases "boxes c")
  case None
  with assms show ?thesis
    by (auto simp: Handle_def mapboxes_Box_def record_event_def mk_event_def)
next
  case (Some b)
  with assms(2) have "policy_Allowed policy b (q_Name q) = None"
    by (cases "policy b") (auto simp: policy_Allowed_def first_match_None)
  with assms(1,3) Some show ?thesis
    by (auto simp: Handle_def mapboxes_Box_def record_event_def mk_event_def)
qed

theorem handle_deny_by_default_witness:
  "ds_pins (snd (Handle (\<lambda>m c. m\<lparr>dm_Rcode := c\<rparr>) (\<lambda>m. Some m) (Some recording_programmer) 7
      [Addr4 1 \<mapsto> ''web''] [''web'' \<mapsto> [\<lparr>rule_Pattern = ''*.ok.com'', rule_TTL = 30\<rparr>]] (Addr4 1)
      \<lparr>dm_Id = 1, dm_Rcode = 0, dm_Truncated = False, dm_Question = [\<lparr>q_Name = ''ok.com.'', q_Qtype = 1\<rparr>], dm_Answer = []\<rparr>
      \<lparr>ds_pins = [], ds_fw = NewRecordingProgrammer, ds_audit = []\<rparr>)) = []"
proof -
  let ?sr = "\<lambda>m c. m\<lparr>dm_Rcode := c\<rparr>"
  let ?q = "\<lparr>q_Name = ''ok.com.'', q_Qtype = 1\<rparr>"
  let ?r = "\<lparr>dm_Id = 1, dm_Rcode = 0, dm_Truncated = False, dm_Question = [?q], dm_Answer = []\<rparr>"
  let ?st = "\<lparr>ds_pins = [], ds_fw = NewRecordingProgrammer, ds_audit = []\<rparr>"
  let ?pol = "[''web'' \<mapsto> [\<lparr>rule_Pattern = ''*.ok.com'', rule_TTL = 30\<rparr>]]"
  have q: "dm_Question ?r = ?q # []" by simp
  have n: "\<not> matchDomain ''*.ok.com'' (normalizeName ''ok.com.'')" by code_simp
  have d: "\<forall>b rules. [Addr4 1 \<mapsto> ''web''] (Addr4 1) = Some b \<and> ?pol b = Some rules \<longrightarrow>
      (\<forall>ru \<in> set rules. \<not> matchDomain (rule_Pattern ru) (normalizeName (q_Name ?q)))"
    using n by (auto split: if_splits)
  obtain m st' where h: "Handle ?sr (\<lambda>m. Some m) (Some recording_programmer) 7 [Addr4 1 \<mapsto> ''web''] ?pol (Addr4 1) ?r ?st
      = (m, st')" by fastforce
  from handle_deny_by_default [OF q d h] show ?thesis by (simp add: h)
qed

text \<open>
  C1 (handle_opens_only_answers). Over the recording programmer, whatever one query makes newly
  reachable is an address of the upstream's answer to that query, opened for the box the query
  came from, and only when a rule of that box matches the queried name. When the reply returned
  is the upstream's, every address of the answer is pinned for the box until \<open>now\<close> plus the TTL
  of that rule; every other pin keeps its deadline.
\<close>

theorem handle_opens_only_answers:
  assumes "Handle setRcode resolve (Some recording_programmer) now boxes policy c r st = (m, st')"
  shows "(\<forall>b ip. rec_Allowed (ds_fw st') b ip \<and> \<not> rec_Allowed (ds_fw st) b ip \<longrightarrow>
      boxes c = Some b \<and>
      (\<exists>q qs rules ru resp. dm_Question r = q # qs \<and> policy b = Some rules \<and> ru \<in> set rules \<and>
         matchDomain (rule_Pattern ru) (normalizeName (q_Name q)) \<and>
         resolve r = Some resp \<and> ip \<in> set (answerIPs resp))) \<and>
    (\<forall>b q qs ttl resp ev. dm_Question r = q # qs \<and> boxes c = Some b \<and>
       policy_Allowed policy b (q_Name q) = Some ttl \<and> resolve r = Some resp \<and>
       ds_audit st' = ds_audit st @ [ev] \<and> ev_Verdict ev = VerdictAllowed \<longrightarrow>
       m = resp\<lparr>dm_Id := dm_Id r\<rparr> \<and> ev_IPs ev = answerIPs resp \<and>
       (\<forall>b' ip. tget (ds_pins st') (b', ip) =
          (if b' = b \<and> ip \<in> set (answerIPs resp) then Some (now + ttl) else tget (ds_pins st) (b', ip))))"
    (is "?opens \<and> ?pins")
proof
  show ?opens
  proof (intro allI impI)
    fix b ip assume "rec_Allowed (ds_fw st') b ip \<and> \<not> rec_Allowed (ds_fw st) b ip"
    with recfw.handle_opened [OF assms, of "(b, ip)"] obtain q qs ttl resp where
      h: "dm_Question r = q # qs" "boxes c = Some b" "policy_Allowed policy b (q_Name q) = Some ttl"
        "resolve r = Some resp" "ip \<in> set (answerIPs resp)"
      by (auto simp: rec_opened_def)
    from h(3) obtain rules where "policy b = Some rules"
      "first_match rules (normalizeName (q_Name q)) = Some ttl"
      by (auto simp: policy_Allowed_def split: option.splits)
    with h first_match_Some show "boxes c = Some b \<and>
      (\<exists>q qs rules ru resp. dm_Question r = q # qs \<and> policy b = Some rules \<and> ru \<in> set rules \<and>
         matchDomain (rule_Pattern ru) (normalizeName (q_Name q)) \<and>
         resolve r = Some resp \<and> ip \<in> set (answerIPs resp))" by fast
  qed
  show ?pins
    using assms
    by (auto simp: Handle_def mapboxes_Box_def record_event_def mk_event_def Let_def pin_all_pins
        split: option.splits prod.splits)
qed

text \<open>A concrete exchange, used by the witnesses below.\<close>

definition sample_query :: dns_msg where
  "sample_query = \<lparr>dm_Id = 9, dm_Rcode = 0, dm_Truncated = False,
     dm_Question = [\<lparr>q_Name = ''A.ok.com.'', q_Qtype = 1\<rparr>], dm_Answer = []\<rparr>"

definition sample_reply :: dns_msg where
  "sample_reply = sample_query\<lparr>dm_Answer := [RR_A [10, 0, 0, 7], RR_Other, RR_A [10, 0, 0, 7]]\<rparr>"

definition sample_run :: "dns_msg \<times> recording dns_state" where
  "sample_run = Handle (\<lambda>m c. m\<lparr>dm_Rcode := c\<rparr>) (\<lambda>m. Some sample_reply) (Some recording_programmer) 7
     [Addr4 1 \<mapsto> ''web''] [''web'' \<mapsto> [\<lparr>rule_Pattern = ''*.ok.com'', rule_TTL = 30\<rparr>]] (Addr4 1)
     sample_query \<lparr>ds_pins = [], ds_fw = NewRecordingProgrammer, ds_audit = []\<rparr>"

theorem handle_opens_only_answers_witness:
  "tget (ds_pins (snd sample_run)) (''web'', Addr4 0x0A000007) = Some 37"
proof -
  let ?pol = "[''web'' \<mapsto> [\<lparr>rule_Pattern = ''*.ok.com'', rule_TTL = 30\<rparr>]]"
  let ?st = "\<lparr>ds_pins = [], ds_fw = NewRecordingProgrammer, ds_audit = []\<rparr> :: recording dns_state"
  let ?q = "\<lparr>q_Name = ''A.ok.com.'', q_Qtype = 1\<rparr>"
  obtain m st' where h: "sample_run = (m, st')" by fastforce
  have al: "policy_Allowed ?pol ''web'' (q_Name ?q) = Some 30" by code_simp
  have ips: "answerIPs sample_reply = [Addr4 0x0A000007]" by code_simp
  have au: "ds_audit st' = ds_audit ?st @
      [\<lparr>ev_BoxID = ''web'', ev_QName = ''A.ok.com.'', ev_QType = 1, ev_Verdict = VerdictAllowed,
        ev_IPs = [Addr4 0x0A000007], ev_Time = 7\<rparr>]"
    using h al ips
    by (auto simp: sample_run_def Handle_def sample_query_def mapboxes_Box_def record_event_def
        mk_event_def Pin_def recording_programmer_def rec_Allow_def Let_def)
  from handle_opens_only_answers [OF h [unfolded sample_run_def]] al ips au
  show ?thesis by (auto simp: h sample_query_def)
qed

text \<open>
  Further (handle_audits_every_query). Every query with a question leaves exactly one audit record,
  stamped with the clock and naming the first question, whatever the outcome; a query without a
  question is answered FORMERR and changes nothing. A pin failure is answered SERVFAIL and
  audited as an error, never with the upstream's answer.
\<close>

theorem handle_audits_every_query:
  assumes "Handle setRcode resolve pinner now boxes policy c r st = (m, st')"
  shows "(dm_Question r = [] \<longrightarrow> m = setRcode r RcodeFormatError \<and> st' = st) \<and>
    (\<forall>q qs. dm_Question r = q # qs \<longrightarrow>
      (\<exists>ev. ds_audit st' = ds_audit st @ [ev] \<and> ev_QName ev = q_Name q \<and> ev_QType ev = q_Qtype q \<and>
        ev_Time ev = now \<and> ev_BoxID ev = (case boxes c of None \<Rightarrow> [] | Some b \<Rightarrow> b) \<and>
        (case ev_Verdict ev of
           VerdictRefused \<Rightarrow> m = setRcode r RcodeRefused
         | VerdictBlocked \<Rightarrow> m = setRcode r RcodeNameError
         | VerdictError \<Rightarrow> m = setRcode r RcodeServerFailure
         | VerdictAllowed \<Rightarrow> (\<exists>resp. resolve r = Some resp \<and> m = resp\<lparr>dm_Id := dm_Id r\<rparr>))))"
  using assms
  by (auto simp: Handle_def mapboxes_Box_def record_event_def mk_event_def Let_def
      split: option.splits prod.splits list.splits)

theorem handle_audits_every_query_witness:
  "\<exists>ev. ds_audit (snd sample_run) = [ev] \<and> ev_QName ev = ''A.ok.com.'' \<and> ev_Time ev = 7 \<and> ev_BoxID ev = ''web''"
proof -
  obtain m st' where h: "sample_run = (m, st')" by fastforce
  from handle_audits_every_query [OF h [unfolded sample_run_def]] show ?thesis
    by (auto simp: h sample_query_def)
qed

subsection \<open>Upstream addresses\<close>

lemma trim_space_id: "list_all (\<lambda>c. \<not> is_space c) s \<Longrightarrow> trim_space s = s"
proof -
  assume "list_all (\<lambda>c. \<not> is_space c) s"
  then have "dropWhile is_space s = s" "dropWhile is_space (rev s) = rev s"
    by (auto simp: dropWhile_eq_self_iff list_all_iff hd_rev)
  then show ?thesis
    by (simp add: trim_space_def trim_func_def trim_left_func_def trim_right_func_def)
qed

lemma is_space_blank: "is_space (CHR '' '')"
  by (simp add: is_space_def)

text \<open>
  Further (NormalizeUpstream_default_port). A bare host name or address without colon, slash, bracket
  or blank is completed with port 53, and the result is accepted back unchanged: normalising is
  idempotent there. A host:port value is kept as given exactly
  when its port is a decimal number from 1 to 65535.
\<close>

theorem NormalizeUpstream_default_port:
  assumes "h \<noteq> []" and "list_all (\<lambda>c. \<not> is_space c \<and> c \<noteq> CHR ''/'' \<and> c \<noteq> CHR '':'') h"
    and "plain_host h"
    and parse: "\<And>a canon. parseAddr a = Some canon \<Longrightarrow> CHR '':'' \<notin> set a \<Longrightarrow> canon = a"
  shows "NormalizeUpstream parseAddr h = Inr (h @ '':53'') \<and>
    NormalizeUpstream parseAddr (h @ '':53'') = Inr (h @ '':53'') \<and>
    (\<forall>n. NormalizeUpstream parseAddr (h @ '':'' @ show_nat n) =
       (if 1 \<le> n \<and> n \<le> 65535 then Inr (h @ '':'' @ show_nat n)
        else Inl (UpstreamInvalid (h @ '':'' @ show_nat n))))"
proof -
  from assms(2) have h: "CHR ''/'' \<notin> set h" "CHR '' '' \<notin> set h" "CHR '':'' \<notin> set h"
    "list_all (\<lambda>c. \<not> is_space c) h"
    using is_space_blank by (auto simp: list_all_iff)
  have no: "split_host_port h = None" using h(3) by (simp add: split_host_port_def)
  have bare: "NormalizeUpstream parseAddr h = Inr (h @ '':53'')"
    using assms(1) h no
    by (auto simp: NormalizeUpstream_def trim_space_id join_host_port_def Let_def
        dest: parse split: option.splits)
  have port: "NormalizeUpstream parseAddr (h @ '':'' @ show_nat n) =
      (if 1 \<le> n \<and> n \<le> 65535 then Inr (h @ '':'' @ show_nat n)
       else Inl (UpstreamInvalid (h @ '':'' @ show_nat n)))" for n
  proof -
    have d: "list_all is_digit (show_nat n)" using show_nat_digits by blast
    then have s: "plain_host (show_nat n)" "CHR '':'' \<notin> set (show_nat n)"
      "CHR ''/'' \<notin> set (show_nat n)" "CHR '' '' \<notin> set (show_nat n)"
      "list_all (\<lambda>c. \<not> is_space c) (show_nat n)"
      by (auto simp: plain_host_def list_all_iff is_digit_def is_space_def)
    have t: "trim_space (h @ '':'' @ show_nat n) = h @ '':'' @ show_nat n"
      using h s by (intro trim_space_id) (auto simp: is_space_def)
    have sp: "split_host_port (h @ '':'' @ show_nat n) = Some (h, show_nat n)"
      using split_join_host_port [OF assms(1,3) s(1,2)] h(3) by (simp add: join_host_port_def)
    show ?thesis
      using h s assms(1) unfolding NormalizeUpstream_def t Let_def sp
      by (auto simp: validPort_def atoi_show_nat)
  qed
  have "show_nat 53 = ''53''" by code_simp
  with bare port [of 53] port show ?thesis by simp
qed

theorem NormalizeUpstream_default_port_witness:
  "NormalizeUpstream (\<lambda>a. None) ''pihole.lan'' = Inr ''pihole.lan:53''"
proof -
  have "list_all (\<lambda>c. \<not> is_space c \<and> c \<noteq> CHR ''/'' \<and> c \<noteq> CHR '':'') ''pihole.lan''"
    "plain_host ''pihole.lan''" by code_simp+
  with NormalizeUpstream_default_port [of "''pihole.lan''" "\<lambda>a. None"] show ?thesis by simp
qed

text \<open>The fall-through accepts strings that are neither a host, an address nor a pair.\<close>

lemma NormalizeUpstream_accepts_malformed:
  "NormalizeUpstream (\<lambda>a. None) ''host:53:53'' = Inr ''[host:53:53]:53''"
  "NormalizeUpstream (\<lambda>a. None) ''[::1'' = Inr ''[[::1]:53''"
  by code_simp+

end
