(* ===== verification/Isolation.thy ===== *)
theory Isolation
  imports Dnsd
begin

text \<open>
  The spoke's isolation enforcer, \<^verbatim>\<open>internal/spoke/isolation/isolation.go\<close>: it holds the policy,
  the client-address map, the pins and the firewall together. \<open>enf_step\<close> is one atomic operation
  of a running enforcer (a box configured or released, a policy pushed, a query answered, a sweep
  of the pins), in any order; \<open>enf_reachable\<close> is its closure from a fresh enforcer.
\<close>

record 'fw enforcer =
  enf_policy :: policy
  enf_boxes :: boxmap
  enf_pins :: pins
  enf_fw :: 'fw
  enf_guestIPs :: "string \<rightharpoonup> addr"
  enf_audit :: "event list"

datatype isolation_error =
    ProgrammerRequired
  | ResolverRequired
  | BaselineFailed string string
  | TeardownFailed string string

definition New ::
  "'fw programmer option \<Rightarrow> (dns_msg \<Rightarrow> dns_msg option) option \<Rightarrow> (string \<Rightarrow> dns_msg \<Rightarrow> dns_msg option) \<Rightarrow>
   string \<Rightarrow> 'fw \<Rightarrow> isolation_error + ('fw programmer \<times> (dns_msg \<Rightarrow> dns_msg option) \<times> 'fw enforcer)"
where
  "New programmer resolver forward upstream fw =
     (case programmer of
        None \<Rightarrow> Inl ProgrammerRequired
      | Some prog \<Rightarrow>
          (let e = \<lparr>enf_policy = NewStaticPolicy, enf_boxes = Map.empty, enf_pins = [], enf_fw = fw,
                    enf_guestIPs = Map.empty, enf_audit = []\<rparr>
           in case resolver of
                Some res \<Rightarrow> Inr (prog, res, e)
              | None \<Rightarrow> if upstream = [] then Inl ResolverRequired
                         else Inr (prog, forward upstream, e)))"

text \<open>\<^verbatim>\<open>time.Duration(r.TTLSeconds) * time.Second\<close> is a product of 64-bit integers.\<close>

definition ttl_duration :: "int \<Rightarrow> duration" where
  "ttl_duration secs = sint (word_of_int secs * word_of_int second :: 64 word)"

definition rulesFromPolicy :: "network_policy \<Rightarrow> rule list" where
  "rulesFromPolicy pol =
     (if \<not> np_Enabled pol then []
      else map (\<lambda>r. \<lparr>rule_Pattern = dr_Pattern r, rule_TTL = ttl_duration (dr_TTLSeconds r)\<rparr>)
             (np_Rules pol))"

definition SetNetworkPolicy :: "string \<Rightarrow> network_policy \<Rightarrow> 'fw enforcer \<Rightarrow> 'fw enforcer" where
  "SetNetworkPolicy boxID pol e = e\<lparr>enf_policy := policy_Set boxID (rulesFromPolicy pol) (enf_policy e)\<rparr>"

definition Configure ::
  "'fw programmer \<Rightarrow> string \<Rightarrow> box_spec \<Rightarrow> addr \<Rightarrow> rule list \<Rightarrow> 'fw enforcer \<Rightarrow>
   isolation_error option \<times> 'fw enforcer"
where
  "Configure prog boxID spec guestIP rules e =
     (case prog_Baseline prog boxID spec (enf_fw e) of
        (Some err, fw') \<Rightarrow> (Some (BaselineFailed boxID err), e\<lparr>enf_fw := fw'\<rparr>)
      | (None, fw') \<Rightarrow>
          (None, e\<lparr>enf_fw := fw',
                   enf_boxes := mapboxes_Set guestIP boxID (enf_boxes e),
                   enf_policy := policy_Set boxID rules (enf_policy e),
                   enf_guestIPs := (enf_guestIPs e)(boxID \<mapsto> guestIP)\<rparr>))"

definition Release ::
  "'fw programmer \<Rightarrow> string \<Rightarrow> 'fw enforcer \<Rightarrow> isolation_error option \<times> 'fw enforcer"
where
  "Release prog boxID e =
     (let e1 = e\<lparr>enf_policy := policy_Remove boxID (enf_policy e)\<rparr>;
          e2 = e1\<lparr>enf_guestIPs := (enf_guestIPs e1)(boxID := None)\<rparr>;
          e3 = (case enf_guestIPs e1 boxID of
                  None \<Rightarrow> e2
                | Some ip \<Rightarrow> e2\<lparr>enf_boxes := mapboxes_Remove ip (enf_boxes e2)\<rparr>);
          e4 = e3\<lparr>enf_pins := Forget boxID (enf_pins e3)\<rparr>
      in case prog_Teardown prog boxID (enf_fw e4) of
           (None, fw') \<Rightarrow> (None, e4\<lparr>enf_fw := fw'\<rparr>)
         | (Some err, fw') \<Rightarrow> (Some (TeardownFailed boxID err), e4\<lparr>enf_fw := fw'\<rparr>))"

definition enf_Handle ::
  "(dns_msg \<Rightarrow> int \<Rightarrow> dns_msg) \<Rightarrow> (dns_msg \<Rightarrow> dns_msg option) \<Rightarrow> 'fw programmer \<Rightarrow> time \<Rightarrow> addr \<Rightarrow>
   dns_msg \<Rightarrow> 'fw enforcer \<Rightarrow> dns_msg \<times> 'fw enforcer"
where
  "enf_Handle setRcode resolve prog now clientIP r e =
     (let (m, st) = Handle setRcode resolve (Some prog) now (enf_boxes e) (enf_policy e) clientIP r
                      \<lparr>ds_pins = enf_pins e, ds_fw = enf_fw e, ds_audit = enf_audit e\<rparr>
      in (m, e\<lparr>enf_pins := ds_pins st, enf_fw := ds_fw st, enf_audit := ds_audit st\<rparr>))"

definition enf_Sweep :: "'fw programmer \<Rightarrow> time \<Rightarrow> 'fw enforcer \<Rightarrow> 'fw enforcer" where
  "enf_Sweep prog now e =
     (let (err, pins', fw') = Sweep prog now (enf_pins e) (enf_fw e)
      in e\<lparr>enf_pins := pins', enf_fw := fw'\<rparr>)"

datatype enf_op =
    OpConfigure string box_spec addr "rule list"
  | OpRelease string
  | OpPolicy string network_policy
  | OpQuery time addr dns_msg
  | OpSweep time

fun run_op ::
  "(dns_msg \<Rightarrow> int \<Rightarrow> dns_msg) \<Rightarrow> (dns_msg \<Rightarrow> dns_msg option) \<Rightarrow> 'fw programmer \<Rightarrow> enf_op \<Rightarrow>
   'fw enforcer \<Rightarrow> 'fw enforcer"
where
  "run_op setRcode resolve prog (OpConfigure b spec ip rules) e = snd (Configure prog b spec ip rules e)"
| "run_op setRcode resolve prog (OpRelease b) e = snd (Release prog b e)"
| "run_op setRcode resolve prog (OpPolicy b pol) e = SetNetworkPolicy b pol e"
| "run_op setRcode resolve prog (OpQuery now c r) e = snd (enf_Handle setRcode resolve prog now c r e)"
| "run_op setRcode resolve prog (OpSweep now) e = enf_Sweep prog now e"

fun run_ops ::
  "(dns_msg \<Rightarrow> int \<Rightarrow> dns_msg) \<Rightarrow> (dns_msg \<Rightarrow> dns_msg option) \<Rightarrow> 'fw programmer \<Rightarrow> enf_op list \<Rightarrow>
   'fw enforcer \<Rightarrow> 'fw enforcer"
where
  "run_ops setRcode resolve prog [] e = e"
| "run_ops setRcode resolve prog (oper # ops) e =
     run_ops setRcode resolve prog ops (run_op setRcode resolve prog oper e)"

fun sets_policy_of :: "string \<Rightarrow> enf_op \<Rightarrow> bool" where
  "sets_policy_of b (OpConfigure b' spec ip rules) = (b' = b)"
| "sets_policy_of b (OpPolicy b' pol) = (b' = b)"
| "sets_policy_of b _ = False"

definition fresh_enforcer :: "'fw \<Rightarrow> 'fw enforcer" where
  "fresh_enforcer fw =
     \<lparr>enf_policy = NewStaticPolicy, enf_boxes = Map.empty, enf_pins = [], enf_fw = fw,
      enf_guestIPs = Map.empty, enf_audit = []\<rparr>"

inductive enf_reachable ::
  "(dns_msg \<Rightarrow> int \<Rightarrow> dns_msg) \<Rightarrow> (dns_msg \<Rightarrow> dns_msg option) \<Rightarrow> recording enforcer \<Rightarrow> bool"
  for setRcode resolve
where
  start: "enf_reachable setRcode resolve (fresh_enforcer NewRecordingProgrammer)"
| step: "enf_reachable setRcode resolve e \<Longrightarrow>
    enf_reachable setRcode resolve (run_op setRcode resolve recording_programmer oper e)"

subsection \<open>Invariant: whatever is open has a pin\<close>

lemma tracked_rec: "recfw.tracked pins r \<longleftrightarrow>
    keys_distinct pins \<and> (\<forall>b ip. rec_Allowed r b ip \<longrightarrow> tget pins (b, ip) \<noteq> None)"
  by (auto simp: recfw.tracked_def rec_opened_def)

lemma Configure_tracked:
  assumes "recfw.tracked (enf_pins e) (enf_fw e)"
  shows "recfw.tracked (enf_pins (snd (Configure recording_programmer b sp ip rules e)))
           (enf_fw (snd (Configure recording_programmer b sp ip rules e)))"
  using assms
  by (auto simp: Configure_def recording_programmer_def rec_Baseline_def tracked_rec rec_Allowed_def
      split: if_splits)

lemma Release_tracked:
  assumes "recfw.tracked (enf_pins e) (enf_fw e)"
  shows "recfw.tracked (enf_pins (snd (Release recording_programmer b e)))
           (enf_fw (snd (Release recording_programmer b e)))"
  using assms
  by (auto simp: Release_def recording_programmer_def rec_Teardown_def tracked_rec rec_Allowed_def
      Let_def Forget_tget split: if_splits option.splits)

lemma enf_Handle_tracked:
  assumes "recfw.tracked (enf_pins e) (enf_fw e)"
  shows "recfw.tracked (enf_pins (snd (enf_Handle sr res recording_programmer now c r e)))
           (enf_fw (snd (enf_Handle sr res recording_programmer now c r e)))"
proof -
  let ?st = "\<lparr>ds_pins = enf_pins e, ds_fw = enf_fw e, ds_audit = enf_audit e\<rparr>"
  obtain m st where h: "Handle sr res (Some recording_programmer) now (enf_boxes e) (enf_policy e) c r ?st = (m, st)"
    by fastforce
  have "recfw.tracked (ds_pins ?st) (ds_fw ?st)" using assms by simp
  from recfw.handle_tracked [OF this h] h show ?thesis by (simp add: enf_Handle_def)
qed

lemma enf_Sweep_tracked:
  assumes "recfw.tracked (enf_pins e) (enf_fw e)"
  shows "recfw.tracked (enf_pins (enf_Sweep recording_programmer now e))
           (enf_fw (enf_Sweep recording_programmer now e))"
proof -
  obtain err p f where s: "Sweep recording_programmer now (enf_pins e) (enf_fw e) = (err, p, f)"
    by (metis prod_cases3)
  then have "err = None" using Sweep_recording_ok [of now "enf_pins e" "enf_fw e"] by simp
  with s recfw.sweep_tracked [OF assms] show ?thesis by (auto simp: enf_Sweep_def)
qed

lemma run_op_tracked:
  "recfw.tracked (enf_pins e) (enf_fw e) \<Longrightarrow>
     recfw.tracked (enf_pins (run_op sr res recording_programmer oper e))
       (enf_fw (run_op sr res recording_programmer oper e))"
  by (cases oper)
    (simp_all add: Configure_tracked Release_tracked enf_Handle_tracked enf_Sweep_tracked SetNetworkPolicy_def)

lemma enf_reachable_tracked:
  "enf_reachable sr res e \<Longrightarrow> recfw.tracked (enf_pins e) (enf_fw e)"
proof (induction rule: enf_reachable.induct)
  case start
  then show ?case
    by (simp add: fresh_enforcer_def tracked_rec NewRecordingProgrammer_def rec_Allowed_def)
qed (rule run_op_tracked)



subsection \<open>A box without a policy stays closed\<close>

text \<open>
  \<open>drained b D e\<close>: box \<open>b\<close> has no rules, and each of its pins and open addresses is bounded by
  the deadline \<open>D\<close>. Every operation that does not set a policy for \<open>b\<close> keeps it.
\<close>

definition drained :: "string \<Rightarrow> time \<Rightarrow> recording enforcer \<Rightarrow> bool" where
  "drained b D e \<longleftrightarrow> enf_policy e b = None \<and> recfw.tracked (enf_pins e) (enf_fw e) \<and>
     (\<forall>ip d. tget (enf_pins e) (b, ip) = Some d \<longrightarrow> d \<le> D)"

lemma policy_Allowed_no_rules: "pol b = None \<Longrightarrow> policy_Allowed pol b n = None"
  by (simp add: policy_Allowed_def)

lemma pin_all_other_box:
  "pin_all prog now b ttl ips pins fw = (e, pins', fw') \<Longrightarrow> b \<noteq> b' \<Longrightarrow> tget pins' (b', ip) = tget pins (b', ip)"
proof (induction ips arbitrary: pins fw)
  case (Cons i ips)
  obtain e1 p1 f1 where p: "Pin prog now b i ttl pins fw = (e1, p1, f1)" by (metis prod_cases3)
  with Cons show ?case
    by (cases e1) (auto dest: Pin_success Pin_failure)
qed simp

lemma Handle_pins_of_closed_box:
  assumes "policy b = None" and "Handle sr res (Some prog) now boxes policy c r st = (m, st')"
  shows "tget (ds_pins st') (b, ip) = tget (ds_pins st) (b, ip)"
proof (cases "boxes c = Some b")
  case True
  with assms show ?thesis
    by (auto simp: Handle_def mapboxes_Box_def record_event_def policy_Allowed_no_rules
        split: list.splits)
next
  case False
  with assms(2) show ?thesis
    by (auto simp: Handle_def mapboxes_Box_def record_event_def Let_def
        split: list.splits option.splits prod.splits dest: pin_all_other_box)
qed

lemma drained_enf_Handle:
  assumes "drained b D e"
  shows "drained b D (snd (enf_Handle sr res recording_programmer now c r e))"
proof -
  let ?st = "\<lparr>ds_pins = enf_pins e, ds_fw = enf_fw e, ds_audit = enf_audit e\<rparr>"
  obtain m st where h: "Handle sr res (Some recording_programmer) now (enf_boxes e) (enf_policy e) c r ?st = (m, st)"
    by fastforce
  from assms have "enf_policy e b = None" by (simp add: drained_def)
  from Handle_pins_of_closed_box [OF this h] assms h
    enf_Handle_tracked [of e sr res now c r]
  show ?thesis by (auto simp: drained_def enf_Handle_def)
qed

lemma drained_enf_Sweep:
  assumes "drained b D e"
  shows "drained b D (enf_Sweep recording_programmer now e)"
proof -
  obtain err p f where s: "Sweep recording_programmer now (enf_pins e) (enf_fw e) = (err, p, f)"
    by (metis prod_cases3)
  from assms have "keys_distinct (enf_pins e)" by (simp add: drained_def recfw.tracked_def)
  from Sweep_pins [OF this s] s assms enf_Sweep_tracked [of e now] show ?thesis
    by (auto simp: drained_def enf_Sweep_def split: option.splits if_splits)
qed

lemma drained_Release:
  assumes "drained b D e"
  shows "drained b D (snd (Release recording_programmer b' e))"
  using assms Release_tracked [of e b']
  by (auto simp: drained_def Release_def recording_programmer_def rec_Teardown_def policy_Remove_def
      Let_def Forget_tget recfw.tracked_def split: option.splits)

lemma drained_run_op:
  assumes "drained b D e" and "\<not> sets_policy_of b oper"
  shows "drained b D (run_op sr res recording_programmer oper e)"
proof (cases oper)
  case (OpConfigure b' sp ip rules)
  with assms Configure_tracked [of e b' sp ip rules] show ?thesis
    by (auto simp: drained_def Configure_def recording_programmer_def rec_Baseline_def policy_Set_def)
next
  case (OpPolicy b' pol)
  with assms show ?thesis by (auto simp: drained_def SetNetworkPolicy_def policy_Set_def)
qed (use assms in \<open>simp_all add: drained_Release drained_enf_Handle drained_enf_Sweep\<close>)

lemma drained_run_ops:
  "drained b D e \<Longrightarrow> list_all (\<lambda>oper. \<not> sets_policy_of b oper) ops \<Longrightarrow>
     drained b D (run_ops sr res recording_programmer ops e)"
  by (induction ops arbitrary: e) (auto simp: drained_run_op)

lemma drained_sweep_closes:
  assumes "drained b D e" and "D \<le> now"
  shows "\<not> rec_Allowed (enf_fw (enf_Sweep recording_programmer now e)) b ip"
proof -
  obtain err p f where s: "Sweep recording_programmer now (enf_pins e) (enf_fw e) = (err, p, f)"
    by (metis prod_cases3)
  then have "err = None" using Sweep_recording_ok [of now "enf_pins e" "enf_fw e"] by simp
  with s assms(1) have "rec_opened f =
      {k \<in> rec_opened (enf_fw e). \<forall>d. tget (enf_pins e) k = Some d \<longrightarrow> now < d}"
    using recfw.sweep_ok_opened by (auto simp: drained_def recfw.tracked_def)
  then have f: "rec_Allowed f b ip \<Longrightarrow> rec_Allowed (enf_fw e) b ip \<and>
      (\<forall>d. tget (enf_pins e) (b, ip) = Some d \<longrightarrow> now < d)"
    by (auto simp: rec_opened_def set_eq_iff)
  have "\<not> rec_Allowed f b ip"
  proof
    assume "rec_Allowed f b ip"
    with f assms(1) obtain d where "tget (enf_pins e) (b, ip) = Some d" "now < d"
      by (fastforce simp: drained_def tracked_rec)
    with assms show False by (fastforce simp: drained_def)
  qed
  with s show ?thesis by (simp add: enf_Sweep_def)
qed

lemma released_closed:
  assumes t: "recfw.tracked (enf_pins e) (enf_fw e)"
    and ops: "list_all (\<lambda>oper. \<not> sets_policy_of b oper) ops"
  shows "\<not> rec_Allowed (enf_fw (run_ops setRcode resolve recording_programmer ops
      (snd (Release recording_programmer b e)))) b ip"
proof -
  let ?e = "snd (Release recording_programmer b e)"
  have none: "tget (enf_pins ?e) (b, i) = None" for i
    using t by (auto simp: Release_def recording_programmer_def rec_Teardown_def Let_def Forget_tget
        recfw.tracked_def split: option.splits)
  then have "drained b D ?e" for D
    using Release_tracked [OF t, of b]
    by (auto simp: drained_def Release_def recording_programmer_def rec_Teardown_def Let_def
        policy_Remove_def split: option.splits)
  then have d: "drained b D (run_ops setRcode resolve recording_programmer ops ?e)" for D
    using ops by (rule drained_run_ops)
  show ?thesis
  proof
    assume a: "rec_Allowed (enf_fw (run_ops setRcode resolve recording_programmer ops ?e)) b ip"
    with d obtain dl where p: "tget (enf_pins (run_ops setRcode resolve recording_programmer ops ?e)) (b, ip) = Some dl"
      by (fastforce simp: drained_def tracked_rec)
    with d [of "dl - 1"] show False by (auto simp: drained_def)
  qed
qed





subsection \<open>The TTL conversion\<close>

lemma sint_word_of_int_exact:
  "- (2 ^ 63) \<le> n \<Longrightarrow> n < 2 ^ 63 \<Longrightarrow> sint (word_of_int n :: 64 word) = n"
  by (simp add: sint_sbintrunc' signed_take_bit_int_eq_self)

text \<open>
  Further (ttl_duration_bounds). The conversion of a rule's TTL from seconds is exact up to 9223372036
  seconds (about 292 years), and wraps beyond it: the next value is negative, so a pin made
  with it has already expired when it is made.
\<close>

theorem ttl_duration_bounds:
  "(\<forall>s. 0 \<le> s \<and> s \<le> 9223372036 \<longrightarrow> ttl_duration s = s * second) \<and>
   ttl_duration 9223372037 = -9223372036709551616"
proof
  show "\<forall>s. 0 \<le> s \<and> s \<le> 9223372036 \<longrightarrow> ttl_duration s = s * second"
  proof (intro allI impI)
    fix s :: int assume "0 \<le> s \<and> s \<le> 9223372036"
    then have "ttl_duration s = sint (word_of_int (s * second) :: 64 word)"
      by (simp add: ttl_duration_def)
    also have "\<dots> = s * second"
      using \<open>0 \<le> s \<and> s \<le> 9223372036\<close> by (intro sint_word_of_int_exact) auto
    finally show "ttl_duration s = s * second" .
  qed
  show "ttl_duration 9223372037 = -9223372036709551616" by code_simp
qed

theorem ttl_duration_bounds_witness: "ttl_duration 30 = 30 * second"
  using ttl_duration_bounds by simp

subsection \<open>Reconfiguring a box\<close>

text \<open>
  A box configured again under another guest address keeps its old address in the client map,
  and releasing it removes only the last one.
\<close>

lemma reconfigure_leaves_stale_mapping:
  assumes "ip1 \<noteq> ip2"
  shows "enf_boxes (snd (Release recording_programmer b
      (snd (Configure recording_programmer b sp ip2 rs
        (snd (Configure recording_programmer b sp ip1 rs e)))))) ip1 = Some b"
  using assms
  by (simp add: Configure_def Release_def recording_programmer_def rec_Baseline_def rec_Teardown_def
      mapboxes_Set_def mapboxes_Remove_def)

end
