(* ===== verification/JsonText.thy ===== *)
theory JsonText
  imports Json Netaddr
begin

text \<open>
  The JSON texts of Go's \<^verbatim>\<open>encoding/json\<close>: \<open>json_text\<close> is what \<^verbatim>\<open>json.Marshal\<close> writes for a value (compact,
  with the escapes of its HTML-safe string encoder) and \<open>json_parse\<close> is what \<^verbatim>\<open>json.Unmarshal\<close> reads (white
  space, every escape including surrogate pairs, numbers, replacement of bytes that are not UTF-8).
  The result is \<open>json_roundtrip\<close>: a text that was written reads back as the value, and \<open>json_parse\<close>,
  which recurses on fuel, has enough of it on every input (\<open>parse_fuel\<close>).

  \<open>JOther\<close> stands for every number that is not written as an integer; no struct of the program has
  such a field. A byte that is not UTF-8 is written as the bytes of U+FFFD, where Go writes its
  six-character escape, and nesting is not limited, where Go refuses ten thousand levels.
\<close>

subsection \<open>Writing\<close>

definition quote_char :: char where
  "quote_char = CHR 0x22"

definition backslash :: char where
  "backslash = CHR 0x5C"

definition hex_char :: "nat \<Rightarrow> char" where
  "hex_char n = (if n < 10 then char_of (48 + n) else char_of (87 + n))"

definition short_escapes :: "(nat \<times> nat) list" where
  "short_escapes = [(34, 34), (92, 92), (8, 98), (12, 102), (10, 110), (13, 114), (9, 116)]"

definition esc_char :: "char \<Rightarrow> string" where
  "esc_char c =
     (case map_of short_escapes (byte_of c) of
        Some e \<Rightarrow> [backslash, char_of e]
      | None \<Rightarrow>
          if byte_of c < 32 \<or> byte_of c = 60 \<or> byte_of c = 62 \<or> byte_of c = 38
          then [backslash, CHR ''u'', CHR ''0'', CHR ''0'', hex_char (byte_of c div 16), hex_char (byte_of c mod 16)]
          else [c])"

text \<open>U+2028 and U+2029, line separators in JavaScript, are escaped as well.\<close>

fun esc_str :: "string \<Rightarrow> string" where
  "esc_str [] = []"
| "esc_str (c # cs) =
     (if byte_of c = 226 \<and> take 1 cs = [char_of (128 :: nat)] \<and> drop 1 cs \<noteq> [] \<and>
         (byte_of (cs ! 1) = 168 \<or> byte_of (cs ! 1) = 169)
      then [backslash, CHR ''u'', CHR ''2'', CHR ''0'', CHR ''2'', hex_char (byte_of (cs ! 1) - 160)] @ esc_str (drop 2 cs)
      else esc_char c @ esc_str cs)"

definition quote_str :: "string \<Rightarrow> string" where
  "quote_str s = quote_char # esc_str s @ [quote_char]"

fun commas :: "string list \<Rightarrow> string" where
  "commas [] = []"
| "commas [s] = s"
| "commas (s # t # ts) = s @ CHR '','' # commas (t # ts)"

fun json_text :: "json \<Rightarrow> string" where
  "json_text JNull = ''null''"
| "json_text (JBool b) = (if b then ''true'' else ''false'')"
| "json_text (JNum n) = show_int n"
| "json_text JOther = ''0.5''"
| "json_text (JStr s) = quote_str s"
| "json_text (JArr js) = ''['' @ commas (map json_text js) @ '']''"
| "json_text (JObj es) = ''{'' @ commas (map (\<lambda>(k, j). quote_str k @ CHR '':'' # json_text j) es) @ ''}''"

subsection \<open>Reading\<close>

definition json_space :: "char \<Rightarrow> bool" where
  "json_space c \<longleftrightarrow> byte_of c \<in> {32, 9, 10, 13}"

definition skip_ws :: "string \<Rightarrow> string" where
  "skip_ws s = dropWhile json_space s"

definition hex_val :: "char \<Rightarrow> nat option" where
  "hex_val c =
     (let b = byte_of c in
      if 48 \<le> b \<and> b \<le> 57 then Some (b - 48)
      else if 97 \<le> b \<and> b \<le> 102 then Some (b - 87)
      else if 65 \<le> b \<and> b \<le> 70 then Some (b - 55)
      else None)"

text \<open>\<^verbatim>\<open>getu4\<close>: the code unit of an escape of four hexadecimal digits.\<close>

definition getu4 :: "string \<Rightarrow> nat option" where
  "getu4 s =
     (if length s \<ge> 6 \<and> s ! 0 = backslash \<and> s ! 1 = CHR ''u''
      then (case (hex_val (s ! 2), hex_val (s ! 3), hex_val (s ! 4), hex_val (s ! 5)) of
              (Some a, Some b, Some c, Some d) \<Rightarrow> Some (a * 4096 + b * 256 + c * 16 + d)
            | _ \<Rightarrow> None)
      else None)"

definition encode_rune :: "nat \<Rightarrow> string" where
  "encode_rune r =
     (if r < 128 then [char_of r]
      else if r < 2048 then [char_of (192 + r div 64), char_of (128 + r mod 64)]
      else if r < 65536 then [char_of (224 + r div 4096), char_of (128 + r div 64 mod 64), char_of (128 + r mod 64)]
      else [char_of (240 + r div 262144), char_of (128 + r div 4096 mod 64), char_of (128 + r div 64 mod 64),
            char_of (128 + r mod 64)])"

text \<open>One character of a string literal: the bytes it stands for and the text after it.\<close>

definition lexeme :: "string \<Rightarrow> (string \<times> string) option" where
  "lexeme s =
     (if s = [] \<or> byte_of (hd s) < 32 then None
      else if hd s \<noteq> backslash then Some ([hd s], tl s)
      else if tl s = [] then None
      else if s ! 1 = CHR ''u'' then
        (case getu4 s of
           None \<Rightarrow> None
         | Some r \<Rightarrow>
             if 55296 \<le> r \<and> r < 57344
             then (case getu4 (drop 6 s) of
                     Some q \<Rightarrow>
                       if r < 56320 \<and> 56320 \<le> q \<and> q < 57344
                       then Some (encode_rune ((r - 55296) * 1024 + (q - 56320) + 65536), drop 12 s)
                       else Some (replacement, drop 6 s)
                   | None \<Rightarrow> Some (replacement, drop 6 s))
             else Some (encode_rune r, drop 6 s))
      else if byte_of (s ! 1) = 47 then Some (''/'', drop 2 s)
      else (case find (\<lambda>(_, e). e = byte_of (s ! 1)) short_escapes of
              Some (b, _) \<Rightarrow> Some ([char_of b], drop 2 s)
            | None \<Rightarrow> None))"

lemma lexeme_shorter: "lexeme s = Some (d, t) \<Longrightarrow> length t < length s"
  by (cases s) (auto simp: lexeme_def getu4_def split: if_splits option.splits)

function parse_chars :: "string \<Rightarrow> (string \<times> string) option" where
  "parse_chars s =
     (if s \<noteq> [] \<and> hd s = quote_char then Some ([], tl s)
      else (case lexeme s of
              None \<Rightarrow> None
            | Some (d, t) \<Rightarrow> map_option (\<lambda>(cs, u). (d @ cs, u)) (parse_chars t)))"
  by pat_completeness auto
termination by (relation "measure length") (auto dest: lexeme_shorter)

declare parse_chars.simps [simp del]

definition parse_str :: "string \<Rightarrow> (string \<times> string) option" where
  "parse_str s = map_option (\<lambda>(cs, u). (to_utf8 cs, u)) (parse_chars s)"

text \<open>A number, its digits as the grammar wants them; only an integer has a value here.\<close>

definition parse_frac :: "string \<Rightarrow> (bool \<times> string) option" where
  "parse_frac s =
     (if s \<noteq> [] \<and> hd s = CHR ''.''
      then (if takeWhile is_digit (tl s) = [] then None else Some (True, dropWhile is_digit (tl s)))
      else Some (False, s))"

definition parse_exp :: "string \<Rightarrow> (bool \<times> string) option" where
  "parse_exp s =
     (if s \<noteq> [] \<and> (hd s = CHR ''e'' \<or> hd s = CHR ''E'')
      then (let t = (if tl s \<noteq> [] \<and> (hd (tl s) = CHR ''+'' \<or> hd (tl s) = CHR ''-'') then tl (tl s) else tl s)
            in if takeWhile is_digit t = [] then None else Some (True, dropWhile is_digit t))
      else Some (False, s))"

definition parse_num :: "string \<Rightarrow> (json \<times> string) option" where
  "parse_num s =
     (let neg = (s \<noteq> [] \<and> hd s = CHR ''-'');
          s1 = (if neg then tl s else s);
          ds = takeWhile is_digit s1
      in
      if ds = [] \<or> (hd ds = CHR ''0'' \<and> tl ds \<noteq> []) then None
      else (case parse_frac (dropWhile is_digit s1) of
              None \<Rightarrow> None
            | Some (f, s2) \<Rightarrow>
                (case parse_exp s2 of
                   None \<Rightarrow> None
                 | Some (e, s3) \<Rightarrow>
                     Some (if f \<or> e then JOther
                           else JNum (if neg then - int (digits_val 0 ds) else int (digits_val 0 ds)), s3))))"

definition starts :: "char \<Rightarrow> string \<Rightarrow> bool" where
  "starts c s \<longleftrightarrow> s \<noteq> [] \<and> hd s = c"

fun parse_value :: "nat \<Rightarrow> string \<Rightarrow> (json \<times> string) option"
  and parse_elems :: "nat \<Rightarrow> string \<Rightarrow> (json list \<times> string) option"
  and parse_members :: "nat \<Rightarrow> string \<Rightarrow> ((string \<times> json) list \<times> string) option"
where
  "parse_value 0 s = None"
| "parse_value (Suc n) s =
     (let t = skip_ws s in
      if starts (CHR ''{'') t
      then (if starts (CHR ''}'') (skip_ws (tl t)) then Some (JObj [], tl (skip_ws (tl t)))
            else map_option (\<lambda>(es, u). (JObj es, u)) (parse_members n (tl t)))
      else if starts (CHR ''['') t
      then (if starts (CHR '']'') (skip_ws (tl t)) then Some (JArr [], tl (skip_ws (tl t)))
            else map_option (\<lambda>(js, u). (JArr js, u)) (parse_elems n (tl t)))
      else if starts quote_char t then map_option (\<lambda>(cs, u). (JStr cs, u)) (parse_str (tl t))
      else if has_prefix t ''null'' then Some (JNull, drop 4 t)
      else if has_prefix t ''true'' then Some (JBool True, drop 4 t)
      else if has_prefix t ''false'' then Some (JBool False, drop 5 t)
      else parse_num t)"
| "parse_elems 0 s = None"
| "parse_elems (Suc n) s =
     (case parse_value n s of
        None \<Rightarrow> None
      | Some (j, t) \<Rightarrow>
          (let u = skip_ws t in
           if starts (CHR '']'') u then Some ([j], tl u)
           else if starts (CHR '','') u then map_option (\<lambda>(js, v). (j # js, v)) (parse_elems n (tl u))
           else None))"
| "parse_members 0 s = None"
| "parse_members (Suc n) s =
     (let k0 = skip_ws s in
      if \<not> starts quote_char k0 then None
      else (case parse_str (tl k0) of
              None \<Rightarrow> None
            | Some (k, r) \<Rightarrow>
                if \<not> starts (CHR '':'') (skip_ws r) then None
                else (case parse_value n (tl (skip_ws r)) of
                        None \<Rightarrow> None
                      | Some (j, t) \<Rightarrow>
                          (let u = skip_ws t in
                           if starts (CHR ''}'') u then Some ([(k, j)], tl u)
                           else if starts (CHR '','') u
                           then map_option (\<lambda>(es, v). ((k, j) # es, v)) (parse_members n (tl u))
                           else None))))"

definition json_parse :: "string \<Rightarrow> json option" where
  "json_parse s =
     (case parse_value (2 * length s + 1) s of
        Some (j, r) \<Rightarrow> if skip_ws r = [] then Some j else None
      | None \<Rightarrow> None)"

subsection \<open>The fuel is enough\<close>

lemma skip_ws_length: "length (skip_ws s) \<le> length s"
  by (simp add: skip_ws_def length_dropWhile_le)

lemma starts_iff: "starts c s \<longleftrightarrow> (\<exists>t. s = c # t)"
  by (cases s) (auto simp: starts_def)

lemma parse_chars_shorter: "parse_chars s = Some (cs, u) \<Longrightarrow> length u < length s"
proof (induction s arbitrary: cs u rule: parse_chars.induct)
  case (1 s)
  show ?case
  proof (cases "s \<noteq> [] \<and> hd s = quote_char")
    case True
    with 1 show ?thesis by (cases s) (auto simp: parse_chars.simps)
  next
    case False
    with 1 obtain d t v where l: "lexeme s = Some (d, t)" "parse_chars t = Some (v, u)"
      by (auto simp: parse_chars.simps [of s] split: option.splits if_splits)
    from 1(1) [OF False l(1) refl l(2)] lexeme_shorter [OF l(1)] show ?thesis by simp
  qed
qed

lemma parse_str_shorter: "parse_str s = Some (cs, u) \<Longrightarrow> length u < length s"
  by (auto simp: parse_str_def dest: parse_chars_shorter)

lemma parse_frac_length: "parse_frac s = Some (f, t) \<Longrightarrow> length t \<le> length s"
  by (cases s) (auto simp: parse_frac_def le_SucI length_dropWhile_le split: if_splits)

lemma parse_exp_length: "parse_exp s = Some (f, t) \<Longrightarrow> length t \<le> length s"
proof -
  assume a: "parse_exp s = Some (f, t)"
  have "length (dropWhile is_digit (tl (tl s))) \<le> length s" "length (dropWhile is_digit (tl s)) \<le> length s"
    using length_dropWhile_le [of is_digit "tl (tl s)"] length_dropWhile_le [of is_digit "tl s"] by auto
  with a show ?thesis by (auto simp: parse_exp_def Let_def split: if_splits)
qed

lemma dropWhile_shorter: "takeWhile P s \<noteq> [] \<Longrightarrow> length (dropWhile P s) < length s"
  by (cases s) (auto simp: less_Suc_eq_le length_dropWhile_le split: if_splits)

lemma parse_num_shorter: "parse_num s = Some (j, t) \<Longrightarrow> length t < length s"
proof -
  assume a: "parse_num s = Some (j, t)"
  define s1 where "s1 = (if s \<noteq> [] \<and> hd s = CHR ''-'' then tl s else s)"
  from a obtain f s2 e where *: "takeWhile is_digit s1 \<noteq> []" "parse_frac (dropWhile is_digit s1) = Some (f, s2)"
    "parse_exp s2 = Some (e, t)"
    by (auto simp: parse_num_def Let_def s1_def [symmetric] split: if_splits option.splits)
  have "length t \<le> length (dropWhile is_digit s1)"
    using parse_frac_length [OF *(2)] parse_exp_length [OF *(3)] by simp
  also have "\<dots> < length s1" using *(1) by (rule dropWhile_shorter)
  also have "\<dots> \<le> length s" by (simp add: s1_def)
  finally show ?thesis .
qed

lemma starts_tl: "starts c s \<Longrightarrow> length (tl s) < length s"
  by (cases s) (auto simp: starts_def)

lemma skip_tl: "starts c (skip_ws s) \<Longrightarrow> length (tl (skip_ws s)) < length s"
  using starts_tl [of c "skip_ws s"] skip_ws_length [of s] by simp

lemma skip_num: "parse_num (skip_ws s) = Some (j, t) \<Longrightarrow> length t < length s"
  using parse_num_shorter [of "skip_ws s" j t] skip_ws_length [of s] by simp

lemma skip_prefix: "has_prefix (skip_ws s) p \<Longrightarrow> p \<noteq> [] \<Longrightarrow> length (drop (length p) (skip_ws s)) < length s"
  using skip_ws_length [of s] by (cases p) (auto simp: has_prefix_iff)

lemma parse_shorter:
  "parse_value n s = Some (j, t) \<Longrightarrow> length t < length s"
  "parse_elems n s = Some (js, t) \<Longrightarrow> length t < length s"
  "parse_members n s = Some (es, t) \<Longrightarrow> length t < length s"
proof (induction n s and n s and n s arbitrary: j t and js t and es t
    rule: parse_value_parse_elems_parse_members.induct)
  case (2 n s)
  have w: "starts c (skip_ws s) \<Longrightarrow> starts d (skip_ws (tl (skip_ws s))) \<Longrightarrow>
      length (tl (skip_ws (tl (skip_ws s)))) < length s" for c d
    using skip_tl [of d "tl (skip_ws s)"] skip_tl [of c s] by simp
  have q: "starts c (skip_ws s) \<Longrightarrow> parse_str (tl (skip_ws s)) = Some (cs, u) \<Longrightarrow> length u < length s" for c cs u
    using parse_str_shorter [of "tl (skip_ws s)" cs u] skip_tl [of c s] by simp
  have l: "has_prefix (skip_ws s) ''null'' \<Longrightarrow> length (drop 4 (skip_ws s)) < length s"
    "has_prefix (skip_ws s) ''true'' \<Longrightarrow> length (drop 4 (skip_ws s)) < length s"
    "has_prefix (skip_ws s) ''false'' \<Longrightarrow> length (drop 5 (skip_ws s)) < length s"
    using skip_prefix [of s "''null''"] skip_prefix [of s "''true''"] skip_prefix [of s "''false''"] by simp_all
  show ?case
  proof (cases "starts (CHR ''{'') (skip_ws s)")
    case True
    then show ?thesis
      using 2(1) [OF refl True] 2(3) w [of _ "CHR ''}''"] skip_tl [OF True]
      by (fastforce simp: Let_def split: if_splits)
  next
    case o: False
    show ?thesis
    proof (cases "starts (CHR ''['') (skip_ws s)")
      case True
      then show ?thesis
        using 2(2) [OF refl o True] 2(3) o w [of _ "CHR '']''"] skip_tl [OF True]
        by (fastforce simp: Let_def split: if_splits)
    next
      case False
      then show ?thesis using 2(3) o q l skip_num
        by (auto simp: Let_def split: if_splits)
    qed
  qed
next
  case (4 n s)
  from 4(3) obtain k r where v: "parse_value n s = Some (k, r)" by (auto split: option.splits)
  have lr: "length r < length s" using 4(1) v by blast
  show ?case
  proof (cases "starts (CHR '']'') (skip_ws r)")
    case True
    with 4(3) v lr skip_tl [OF True] show ?thesis by (simp add: Let_def)
  next
    case False
    with 4(3) v obtain ks where c: "starts (CHR '','') (skip_ws r)" "parse_elems n (tl (skip_ws r)) = Some (ks, t)"
      by (auto simp: Let_def split: if_splits)
    have "length t < length (tl (skip_ws r))" using 4(2) [OF v refl refl False c(1) c(2)] .
    then show ?thesis using lr skip_tl [OF c(1)] by simp
  qed
next
  case (6 n s)
  from 6(3) obtain k r where q: "starts quote_char (skip_ws s)" "parse_str (tl (skip_ws s)) = Some (k, r)"
    and col: "starts (CHR '':'') (skip_ws r)"
    by (auto simp: Let_def split: if_splits option.splits)
  from 6(3) q col obtain v r2 where v: "parse_value n (tl (skip_ws r)) = Some (v, r2)"
    by (auto simp: Let_def split: if_splits option.splits)
  have "length r2 < length (tl (skip_ws r))" using 6(1) [OF refl _ q(2) refl _ v] q col by simp
  then have lr: "length r2 < length s"
    using skip_tl [OF col] parse_str_shorter [OF q(2)] skip_tl [OF q(1)] by simp
  show ?case
  proof (cases "starts (CHR ''}'') (skip_ws r2)")
    case True
    with 6(3) q col v lr skip_tl [OF True] show ?thesis by (simp add: Let_def)
  next
    case False
    with 6(3) q col v obtain ks where c: "starts (CHR '','') (skip_ws r2)" "parse_members n (tl (skip_ws r2)) = Some (ks, t)"
      by (auto simp: Let_def split: if_splits)
    have "length t < length (tl (skip_ws r2))" using 6(2) [OF refl _ q(2) refl _ v refl refl False c(1) c(2)] q col by simp
    then show ?thesis using lr skip_tl [OF c(1)] by simp
  qed
qed simp_all

lemma parse_more_fuel:
  "2 * length s < n \<Longrightarrow> parse_value (Suc n) s = parse_value n s"
  "2 * length s + 1 < n \<Longrightarrow> parse_elems (Suc n) s = parse_elems n s"
  "2 * length s + 1 < n \<Longrightarrow> parse_members (Suc n) s = parse_members n s"
proof (induction n s and n s and n s rule: parse_value_parse_elems_parse_members.induct)
  case (2 n s)
  have f: "starts c (skip_ws s) \<Longrightarrow> 2 * length (tl (skip_ws s)) + 1 < n" for c
    using skip_tl [of c s] 2(3) by simp
  show ?case
  proof (cases "starts (CHR ''{'') (skip_ws s)")
    case True
    show ?thesis
    proof (cases "starts (CHR ''}'') (skip_ws (tl (skip_ws s)))")
      case e: True
      with True show ?thesis by (simp add: Let_def)
    next
      case False
      with True 2(1) [OF refl True False f [OF True]] show ?thesis by (simp add: Let_def)
    qed
  next
    case o: False
    show ?thesis
    proof (cases "starts (CHR ''['') (skip_ws s) \<and> \<not> starts (CHR '']'') (skip_ws (tl (skip_ws s)))")
      case True
      then have *: "starts (CHR ''['') (skip_ws s)" "\<not> starts (CHR '']'') (skip_ws (tl (skip_ws s)))" by auto
      show ?thesis using o * 2(2) [OF refl o * f [OF *(1)]] by (simp add: Let_def)
    next
      case False
      with o show ?thesis by (simp add: Let_def)
    qed
  qed
next
  case (4 n s)
  have v: "parse_value (Suc n) s = parse_value n s" using 4(1,3) by simp
  show ?case
  proof (cases "parse_value n s")
    case None
    with v show ?thesis by simp
  next
    case (Some p)
    obtain j r where p: "p = (j, r)" by (cases p)
    with Some have s: "parse_value n s = Some (j, r)" by simp
    have "starts (CHR '','') (skip_ws r) \<Longrightarrow> 2 * length (tl (skip_ws r)) + 1 < n"
      using parse_shorter(1) [OF s] skip_tl [of "CHR '',''" r] 4(3) by simp
    then show ?thesis using v s 4(2) [OF s refl refl] by (simp add: Let_def)
  qed
next
  case (6 n s)
  show ?case
  proof (cases "starts quote_char (skip_ws s)")
    case q: True
    show ?thesis
    proof (cases "parse_str (tl (skip_ws s))")
      case None
      with q show ?thesis by (simp add: Let_def)
    next
      case (Some kr)
      obtain k r where kr: "kr = (k, r)" by (cases kr)
      with Some have ps: "parse_str (tl (skip_ws s)) = Some (k, r)" by simp
      have lr: "length r < length s" using parse_str_shorter [OF ps] skip_tl [OF q] by simp
      show ?thesis
      proof (cases "starts (CHR '':'') (skip_ws r)")
        case c: True
        have lv: "length (tl (skip_ws r)) < length s" using lr skip_tl [OF c] by simp
        have v: "parse_value (Suc n) (tl (skip_ws r)) = parse_value n (tl (skip_ws r))"
          using 6(1) [OF refl _ ps refl] q c lv 6(3) by simp
        show ?thesis
        proof (cases "parse_value n (tl (skip_ws r))")
          case None
          with v q ps c show ?thesis by (simp add: Let_def)
        next
          case (Some jr)
          obtain j r2 where jr: "jr = (j, r2)" by (cases jr)
          with Some have pv: "parse_value n (tl (skip_ws r)) = Some (j, r2)" by simp
          have "starts (CHR '','') (skip_ws r2) \<Longrightarrow> 2 * length (tl (skip_ws r2)) + 1 < n"
            using parse_shorter(1) [OF pv] lv skip_tl [of "CHR '',''" r2] 6(3) by simp
          then show ?thesis using v q ps c pv 6(2) [OF refl _ ps refl _ pv refl refl] by (simp add: Let_def)
        qed
      qed (use q ps in \<open>simp add: Let_def\<close>)
    qed
  qed (simp add: Let_def)
qed simp_all

lemma parse_fuel: "2 * length s < n \<Longrightarrow> parse_value n s = parse_value (2 * length s + 1) s"
proof (induction n)
  case (Suc n)
  then show ?case
  proof (cases "2 * length s < n")
    case True
    with Suc parse_more_fuel(1) [OF True] show ?thesis by simp
  qed (simp add: not_less_less_Suc_eq)
qed simp

subsection \<open>What is written reads back\<close>

lemma hex_val_char: "n < 16 \<Longrightarrow> hex_val (hex_char n) = Some n"
  by (auto simp: hex_val_def hex_char_def Let_def byte_of_char)

lemma lexeme_unit:
  assumes "getu4 s = Some r" "r < 55296"
  shows "lexeme s = Some (encode_rune r, drop 6 s)"
proof -
  from assms(1) have s: "length s \<ge> 6" "s ! 0 = backslash" "s ! 1 = CHR ''u''"
    by (auto simp: getu4_def split: if_splits)
  then have "s \<noteq> []" "hd s = backslash" "tl s \<noteq> []" by (cases s; cases "tl s"; simp)+
  with s assms show ?thesis by (simp add: lexeme_def backslash_def)
qed

lemma getu4_hex:
  "a < 16 \<Longrightarrow> b < 16 \<Longrightarrow> c < 16 \<Longrightarrow> d < 16 \<Longrightarrow>
   getu4 (backslash # CHR ''u'' # hex_char a # hex_char b # hex_char c # hex_char d # t) =
     Some (a * 4096 + b * 256 + c * 16 + d)"
  by (simp add: getu4_def hex_val_char numeral_eq_Suc)

lemma hex_digits: "hex_char 0 = CHR ''0''" "hex_char 2 = CHR ''2''"
  by code_simp+

lemma short_letters:
  "char_of (34 :: nat) = CHR 0x22" "char_of (92 :: nat) = CHR 0x5C" "char_of (98 :: nat) = CHR ''b''"
  "char_of (102 :: nat) = CHR ''f''" "char_of (110 :: nat) = CHR ''n''" "char_of (114 :: nat) = CHR ''r''"
  "char_of (116 :: nat) = CHR ''t''"
  by code_simp+

lemma lexeme_short: "(b, e) \<in> set short_escapes \<Longrightarrow> lexeme (backslash # char_of e # t) = Some ([char_of b], t)"
  by (auto simp: short_escapes_def lexeme_def backslash_def short_letters)

lemma lexeme_esc_char: "lexeme (esc_char c @ t) = Some ([c], t)"
proof -
  have c: "c = char_of (byte_of c)" by simp
  consider (short) e where "map_of short_escapes (byte_of c) = Some e"
    | (hex) "map_of short_escapes (byte_of c) = None" "byte_of c < 32 \<or> byte_of c = 60 \<or> byte_of c = 62 \<or> byte_of c = 38"
    | (plain) "map_of short_escapes (byte_of c) = None" "\<not> (byte_of c < 32 \<or> byte_of c = 60 \<or> byte_of c = 62 \<or> byte_of c = 38)"
    by (cases "map_of short_escapes (byte_of c)") auto
  then show ?thesis
  proof cases
    case short
    then have "(byte_of c, e) \<in> set short_escapes" by (rule map_of_SomeD)
    with short lexeme_short show ?thesis by (simp add: esc_char_def)
  next
    case hex
    have "byte_of c div 16 < 16" "byte_of c mod 16 < 16" using hex(2) by auto
    then have "getu4 (esc_char c @ t) = Some (byte_of c)"
      using hex getu4_hex [of 0 0 "byte_of c div 16" "byte_of c mod 16" t]
      by (simp add: esc_char_def hex_digits)
    then have "lexeme (esc_char c @ t) = Some (encode_rune (byte_of c), t)"
      using lexeme_unit [of "esc_char c @ t" "byte_of c"] hex by (auto simp: esc_char_def)
    with hex(2) show ?thesis by (auto simp: encode_rune_def)
  next
    case plain
    then have "c \<noteq> backslash" by (auto simp: short_escapes_def backslash_def split: if_splits)
    with plain show ?thesis by (simp add: esc_char_def lexeme_def)
  qed
qed

lemma esc_char_head: "esc_char c \<noteq> [] \<and> hd (esc_char c) \<noteq> quote_char"
proof -
  have "map_of short_escapes (byte_of c) = None \<Longrightarrow> c \<noteq> quote_char"
    by (auto simp: short_escapes_def quote_char_def split: if_splits)
  then show ?thesis by (auto simp: esc_char_def backslash_def quote_char_def split: option.split)
qed

lemma parse_chars_step:
  "lexeme s = Some (d, t) \<Longrightarrow> hd s \<noteq> quote_char \<Longrightarrow>
   parse_chars s = map_option (\<lambda>(cs, u). (d @ cs, u)) (parse_chars t)"
  by (simp add: parse_chars.simps [of s])

lemma parse_esc_str: "parse_chars (esc_str s @ quote_char # t) = Some (s, t)"
proof (induction s rule: esc_str.induct)
  case 1
  show ?case by (simp add: parse_chars.simps)
next
  case (2 c cs)
  show ?case
  proof (cases "byte_of c = 226 \<and> take 1 cs = [char_of (128 :: nat)] \<and> drop 1 cs \<noteq> [] \<and>
      (byte_of (cs ! 1) = 168 \<or> byte_of (cs ! 1) = 169)")
    case True
    then obtain d ds where cs: "cs = char_of (128 :: nat) # d # ds" "byte_of d = 168 \<or> byte_of d = 169"
      by (cases cs; cases "tl cs") auto
    let ?s = "esc_str (c # cs) @ quote_char # t"
    have hd: "hd ?s \<noteq> quote_char" using True by (simp add: backslash_def quote_char_def)
    have g: "getu4 ?s = Some (8192 + (byte_of d - 128))"
      using True cs getu4_hex [of 2 0 2 "byte_of d - 160" "esc_str ds @ quote_char # t"]
      by (auto simp: hex_digits)
    have dd: "byte_of x = n \<Longrightarrow> char_of n = x" for x and n :: nat by auto
    have "lexeme ?s = Some ([c, char_of (128 :: nat), d], esc_str ds @ quote_char # t)"
      using lexeme_unit [OF g] True cs by (auto simp: encode_rune_def dd)
    from parse_chars_step [OF this hd] 2(1) [OF True] cs True show ?thesis by simp
  next
    case False
    have "esc_str (c # cs) @ quote_char # t = esc_char c @ (esc_str cs @ quote_char # t)" using False by auto
    with parse_chars_step [OF lexeme_esc_char, of c "esc_str cs @ quote_char # t"] esc_char_head [of c] 2(2) [OF False]
    show ?thesis by simp
  qed
qed

lemma parse_quoted: "utf8 s \<Longrightarrow> parse_str (esc_str s @ quote_char # t) = Some (s, t)"
  by (simp add: parse_str_def parse_esc_str utf8_def)

definition closed :: "string \<Rightarrow> bool" where
  "closed t \<longleftrightarrow> t = [] \<or> hd t \<in> {CHR '','', CHR '']'', CHR ''}''}"

lemma show_nat_zero: "hd (show_nat n) = CHR ''0'' \<Longrightarrow> n = 0"
proof (induction n rule: show_nat.induct)
  case (1 n)
  show ?case
  proof (cases "n < 10")
    case True
    then have "byte_of (hd (show_nat n)) = 48 + n" by (simp add: show_nat.simps [of n] of_char_digit_char)
    with 1(2) show ?thesis by simp
  next
    case False
    with 1(2) show_nat_digits [of "n div 10"] have "hd (show_nat (n div 10)) = CHR ''0''"
      by (simp add: show_nat.simps [of n])
    with 1(1) [OF False] False show ?thesis by simp
  qed
qed

lemma digits_then:
  assumes "list_all is_digit ds" "closed t"
  shows "takeWhile is_digit (ds @ t) = ds" "dropWhile is_digit (ds @ t) = t"
proof -
  have "t \<noteq> [] \<Longrightarrow> \<not> is_digit (hd t)" using assms(2) by (auto simp: closed_def is_digit_def)
  then show "takeWhile is_digit (ds @ t) = ds" "dropWhile is_digit (ds @ t) = t"
    using assms(1) by (cases t; simp add: takeWhile_append2 dropWhile_append2 list_all_iff)+
qed

lemma closed_no_frac: "closed t \<Longrightarrow> parse_frac t = Some (False, t) \<and> parse_exp t = Some (False, t)"
  by (auto simp: closed_def parse_frac_def parse_exp_def)

lemma parse_show_int: "closed t \<Longrightarrow> parse_num (show_int n @ t) = Some (JNum n, t)"
proof -
  assume t: "closed t"
  have z: "hd (show_nat m) = CHR ''0'' \<longrightarrow> tl (show_nat m) = []" for m
    using show_nat_zero [of m] by (auto simp: show_nat.simps [of 0])
  note d = digits_then [OF conjunct2 [OF show_nat_digits] t] closed_no_frac [OF t] show_nat_digits digits_val_show_nat z
  have s: "hd (show_nat m) \<noteq> CHR ''-''" for m
    using show_nat_digits [of m] by (cases "show_nat m") (auto simp: is_digit_def)
  show ?thesis
  proof (cases "n < 0")
    case True
    then show ?thesis by (simp add: parse_num_def show_int_def Let_def d)
  next
    case False
    then show ?thesis by (simp add: parse_num_def show_int_def Let_def d s)
  qed
qed

fun json_utf8 :: "json \<Rightarrow> bool" where
  "json_utf8 (JStr s) \<longleftrightarrow> utf8 s"
| "json_utf8 (JArr js) \<longleftrightarrow> (\<forall>j \<in> set js. json_utf8 j)"
| "json_utf8 (JObj es) \<longleftrightarrow> (\<forall>e \<in> set es. utf8 (fst e) \<and> json_utf8 (snd e))"
| "json_utf8 _ \<longleftrightarrow> True"

lemma is_digit_head: "is_digit c \<Longrightarrow> \<not> json_space c \<and> c \<notin> {CHR ''['', CHR '']'', CHR ''{'', CHR ''}'', quote_char, CHR ''n'', CHR ''t'', CHR ''f''}"
  by (auto simp: is_digit_def json_space_def quote_char_def)

lemma show_int_head:
  "\<exists>c r. show_int n = c # r \<and> \<not> json_space c \<and> c \<notin> {CHR ''['', CHR '']'', CHR ''{'', CHR ''}'', quote_char, CHR ''n'', CHR ''t'', CHR ''f''}"
proof -
  obtain c r where c: "show_nat (nat n) = c # r" "is_digit c"
    using show_nat_digits [of "nat n"] by (cases "show_nat (nat n)") auto
  show ?thesis
  proof (cases "n < 0")
    case True
    then show ?thesis by (simp add: show_int_def json_space_def quote_char_def)
  next
    case False
    with c is_digit_head [OF c(2)] show ?thesis by (simp add: show_int_def)
  qed
qed

lemma text_head: "\<exists>c r. json_text j = c # r \<and> \<not> json_space c \<and> c \<noteq> CHR '']''"
proof (cases j)
  case (JNum n)
  then show ?thesis using show_int_head [of n] by auto
qed (auto simp: quote_str_def json_space_def quote_char_def)

lemma skip_text: "skip_ws (json_text j @ t) = json_text j @ t" "\<not> starts (CHR '']'') (json_text j @ t)"
  using text_head [of j] by (auto simp: skip_ws_def starts_def)

lemma skip_quoted: "skip_ws (quote_str s @ t) = quote_str s @ t" "\<not> starts (CHR ''}'') (quote_str s @ t)"
  "starts quote_char (quote_str s @ t)" "tl (quote_str s @ t) = esc_str s @ quote_char # t"
  by (simp_all add: quote_str_def skip_ws_def json_space_def starts_def quote_char_def)

lemma skip_mark: "skip_ws (CHR '','' # t) = CHR '','' # t" "skip_ws (CHR '']'' # t) = CHR '']'' # t"
  "skip_ws (CHR ''}'' # t) = CHR ''}'' # t" "skip_ws (CHR '':'' # t) = CHR '':'' # t"
  by (simp_all add: skip_ws_def json_space_def)

lemma closed_Cons: "closed (c # t) \<longleftrightarrow> c \<in> {CHR '','', CHR '']'', CHR ''}''}"
  by (simp add: closed_def)

text \<open>Lists and objects, for values that themselves read back.\<close>

definition reads_back :: "json \<Rightarrow> bool" where
  "reads_back j \<longleftrightarrow> (\<forall>n t. 2 * length (json_text j) < n \<and> closed t \<longrightarrow> parse_value n (json_text j @ t) = Some (j, t))"

lemma reads_backD:
  "reads_back j \<Longrightarrow> 2 * length (json_text j) < n \<Longrightarrow> closed t \<Longrightarrow> parse_value n (json_text j @ t) = Some (j, t)"
  by (simp add: reads_back_def)

lemma elems_read_back:
  assumes "list_all reads_back js" "js \<noteq> []" "2 * length (commas (map json_text js)) + 1 < n"
  shows "parse_elems n (commas (map json_text js) @ CHR '']'' # t) = Some (js, t)"
  using assms
proof (induction js arbitrary: n)
  case (Cons j js)
  then obtain m where n: "n = Suc m" by (cases n) auto
  show ?case
  proof (cases js)
    case Nil
    with Cons n have "parse_value m (json_text j @ CHR '']'' # t) = Some (j, CHR '']'' # t)"
      by (intro reads_backD) (auto simp: closed_Cons)
    with Nil n show ?thesis by (simp add: Let_def skip_mark starts_def)
  next
    case (Cons k ks)
    let ?rest = "commas (map json_text js)"
    have c: "commas (map json_text (j # js)) = json_text j @ CHR '','' # ?rest" using Cons by simp
    with Cons.prems n have "parse_value m (json_text j @ CHR '','' # ?rest @ CHR '']'' # t) =
        Some (j, CHR '','' # ?rest @ CHR '']'' # t)"
      by (intro reads_backD) (auto simp: closed_Cons)
    moreover have "parse_elems m (?rest @ CHR '']'' # t) = Some (js, t)"
      using Cons.prems n c Cons by (intro Cons.IH) auto
    ultimately show ?thesis unfolding c n by (simp add: Let_def skip_mark starts_def)
  qed
qed simp

abbreviation member_text :: "string \<times> json \<Rightarrow> string" where
  "member_text \<equiv> \<lambda>(k, j). quote_str k @ CHR '':'' # json_text j"

lemma members_read_back:
  assumes "list_all (\<lambda>(k, j). utf8 k \<and> reads_back j) es" "es \<noteq> []" "2 * length (commas (map member_text es)) + 1 < n"
  shows "parse_members n (commas (map member_text es) @ CHR ''}'' # t) = Some (es, t)"
  using assms
proof (induction es arbitrary: n)
  case (Cons e es)
  then obtain m where n: "n = Suc m" by (cases n) auto
  obtain k j where e: "e = (k, j)" by (cases e)
  have k: "utf8 k" and j: "reads_back j" using Cons.prems e by auto
  have key: "parse_members (Suc m) (quote_str k @ CHR '':'' # v) =
      (case parse_value m v of
         None \<Rightarrow> None
       | Some (j, t) \<Rightarrow>
           (let u = skip_ws t in
            if starts (CHR ''}'') u then Some ([(k, j)], tl u)
            else if starts (CHR '','') u then map_option (\<lambda>(es, v). ((k, j) # es, v)) (parse_members m (tl u))
            else None))" for v
    by (simp add: Let_def skip_quoted parse_quoted [OF k] skip_mark starts_def [of "CHR '':''"])
  show ?case
  proof (cases es)
    case Nil
    with Cons.prems n e have "parse_value m (json_text j @ CHR ''}'' # t) = Some (j, CHR ''}'' # t)"
      by (intro reads_backD [OF j]) (auto simp: closed_Cons)
    with Nil n e show ?thesis by (simp add: key Let_def skip_mark starts_def del: parse_members.simps)
  next
    case (Cons f fs)
    let ?rest = "commas (map member_text es)"
    have c: "commas (map member_text (e # es)) = quote_str k @ CHR '':'' # json_text j @ CHR '','' # ?rest"
      using Cons e by simp
    with Cons.prems n have "parse_value m (json_text j @ CHR '','' # ?rest @ CHR ''}'' # t) =
        Some (j, CHR '','' # ?rest @ CHR ''}'' # t)"
      by (intro reads_backD [OF j]) (auto simp: closed_Cons)
    moreover have "parse_members m (?rest @ CHR ''}'' # t) = Some (es, t)"
      using Cons.prems n c Cons by (intro Cons.IH) auto
    ultimately show ?thesis unfolding c n by (simp add: key e Let_def skip_mark starts_def del: parse_members.simps)
  qed
qed simp

lemma commas_head:
  "js \<noteq> [] \<Longrightarrow> skip_ws (commas (map json_text js) @ t) = commas (map json_text js) @ t \<and>
     \<not> starts (CHR '']'') (commas (map json_text js) @ t)"
  "es \<noteq> [] \<Longrightarrow> skip_ws (commas (map member_text es) @ t) = commas (map member_text es) @ t \<and>
     \<not> starts (CHR ''}'') (commas (map member_text es) @ t)"
  by (cases "map json_text js" rule: commas.cases; force simp: skip_text)
    (cases "map member_text es" rule: commas.cases; force simp: skip_quoted)

lemma value_marks:
  "c \<in> {CHR ''['', CHR ''{'', quote_char, CHR ''n'', CHR ''t'', CHR ''f''} \<Longrightarrow> skip_ws (c # t) = c # t"
  by (auto simp: skip_ws_def json_space_def quote_char_def)

lemma reads_back_arr: "list_all reads_back js \<Longrightarrow> reads_back (JArr js)"
proof (unfold reads_back_def [of "JArr js"], intro allI impI)
  fix n t assume js: "list_all reads_back js" and n: "2 * length (json_text (JArr js)) < n \<and> closed t"
  then obtain m where m: "n = Suc m" by (cases n) auto
  have hd: "skip_ws (json_text (JArr js) @ t) = CHR ''['' # commas (map json_text js) @ CHR '']'' # t"
    by (simp add: value_marks)
  show "parse_value n (json_text (JArr js) @ t) = Some (JArr js, t)"
  proof (cases "js = []")
    case True
    then show ?thesis unfolding m by (simp add: value_marks skip_mark starts_def quote_char_def Let_def)
  next
    case False
    have "parse_elems m (commas (map json_text js) @ CHR '']'' # t) = Some (js, t)"
      using js False n m by (intro elems_read_back) auto
    then show ?thesis unfolding m parse_value.simps hd
      using commas_head(1) [OF False, of "CHR '']'' # t"] by (simp add: starts_def [of "CHR ''{''"] starts_def [of "CHR ''[''"])
  qed
qed

lemma reads_back_obj: "list_all (\<lambda>(k, j). utf8 k \<and> reads_back j) es \<Longrightarrow> reads_back (JObj es)"
proof (unfold reads_back_def [of "JObj es"], intro allI impI)
  fix n t assume es: "list_all (\<lambda>(k, j). utf8 k \<and> reads_back j) es"
    and n: "2 * length (json_text (JObj es)) < n \<and> closed t"
  then obtain m where m: "n = Suc m" by (cases n) auto
  have hd: "skip_ws (json_text (JObj es) @ t) = CHR ''{'' # commas (map member_text es) @ CHR ''}'' # t"
    by (simp add: value_marks)
  show "parse_value n (json_text (JObj es) @ t) = Some (JObj es, t)"
  proof (cases "es = []")
    case True
    then show ?thesis unfolding m by (simp add: value_marks skip_mark starts_def Let_def)
  next
    case False
    have "parse_members m (commas (map member_text es) @ CHR ''}'' # t) = Some (es, t)"
      using es False n m by (intro members_read_back) auto
    then show ?thesis unfolding m parse_value.simps hd
      using commas_head(2) [OF False, of "CHR ''}'' # t"] by (simp add: starts_def [of "CHR ''{''"])
  qed
qed

lemma reads_back_num: "reads_back (JNum i)"
proof -
  from show_int_head [of i] obtain c r where c: "show_int i = c # r \<and> \<not> json_space c \<and>
      c \<notin> {CHR ''['', CHR '']'', CHR ''{'', CHR ''}'', quote_char, CHR ''n'', CHR ''t'', CHR ''f''}"
    by (elim exE)
  have "parse_value (Suc m) (show_int i @ t) = parse_num (show_int i @ t)" for m t
    using c by (auto simp: Let_def skip_ws_def starts_def)
  then show ?thesis unfolding reads_back_def
    by (metis json_text.simps(3) less_nat_zero_code not0_implies_Suc parse_show_int)
qed

lemma reads_back_str: "utf8 s \<Longrightarrow> reads_back (JStr s)"
proof (unfold reads_back_def, intro allI impI)
  fix n t assume s: "utf8 s" and "2 * length (json_text (JStr s)) < n \<and> closed t"
  then obtain m where m: "n = Suc m" by (cases n) auto
  have "starts c (quote_str s @ t) \<Longrightarrow> c = quote_char" for c by (simp add: quote_str_def starts_def)
  then have "\<not> starts (CHR ''{'') (quote_str s @ t)" "\<not> starts (CHR ''['') (quote_str s @ t)"
    by (auto simp: quote_char_def)
  with m s show "parse_value n (json_text (JStr s) @ t) = Some (JStr s, t)"
    by (simp add: Let_def skip_quoted parse_quoted)
qed

lemma reads_back_other: "reads_back JOther"
proof (unfold reads_back_def, intro allI impI)
  fix n t assume n: "2 * length (json_text JOther) < n \<and> closed t"
  then obtain m where m: "n = Suc m" by (cases n) auto
  have "takeWhile is_digit (CHR ''5'' # t) = [CHR ''5'']" "dropWhile is_digit (CHR ''5'' # t) = t"
    using digits_then [of "[CHR ''5'']" t] n by (simp_all add: is_digit_def)
  with m n closed_no_frac [of t] show "parse_value n (json_text JOther @ t) = Some (JOther, t)"
    by (simp add: Let_def skip_ws_def json_space_def starts_def quote_char_def parse_num_def parse_frac_def is_digit_def)
qed

lemma reads_back_word:
  assumes "\<And>m t. parse_value (Suc m) (json_text j @ t) = Some (j, t)"
  shows "reads_back j"
  unfolding reads_back_def using assms by (metis less_nat_zero_code not0_implies_Suc)

lemma reads_back_words: "reads_back JNull" "reads_back (JBool b)"
  by (rule reads_back_word, simp add: Let_def value_marks starts_def quote_char_def split: if_split)+

lemma json_reads_back: "json_utf8 j \<Longrightarrow> reads_back j"
proof (induction j rule: json_text.induct)
  case (6 js)
  then show ?case by (intro reads_back_arr) (simp add: list_all_iff)
next
  case (7 es)
  then show ?case by (intro reads_back_obj) (fastforce simp: list_all_iff)
qed (simp_all add: reads_back_words reads_back_num reads_back_str reads_back_other)

theorem json_roundtrip: "json_utf8 j \<Longrightarrow> json_parse (json_text j) = Some j"
  using reads_backD [OF json_reads_back, of j "2 * length (json_text j) + 1" "[]"]
  by (simp add: json_parse_def closed_def skip_ws_def)

end
