(* ===== verification/GuestProto.thy ===== *)
theory GuestProto
  imports JsonText Wire
begin

text \<open>
  The control protocol between a spoke and the agent inside a box, \<^verbatim>\<open>internal/guest/proto.go\<close>: the request
  and response envelopes and the payload of every verb with their field tags, and frames, a JSON
  text behind its length as four bytes in big-endian order. A \<open>text_codec\<close> is a payload that survives
  being written as text; \<open>frame_roundtrip\<close> is the same for a frame inside a stream of bytes.
\<close>

subsection \<open>Payloads as texts\<close>

lemma b64_enc_ascii: "ascii (b64_enc s)"
proof -
  have c: "byte_of (b64_char n) < 128" if "n < 64" for n
    using that by (auto simp: b64_char_def byte_of_char)
  have "list_all (\<lambda>c. byte_of c < 128) (b64_enc s)"
  proof (induction s rule: b64_enc.induct)
    case (2 a)
    show ?case using sextets [of "byte_of a" 0 0] by (simp add: c)
  next
    case (3 a b)
    show ?case using sextets [of "byte_of a" "byte_of b" 0] by (simp add: c)
  next
    case (4 a b d ds)
    then show ?case using sextets [of "byte_of a" "byte_of b" "byte_of d"] by (simp add: c)
  qed simp
  then show ?thesis by (simp add: ascii_def)
qed

named_theorems json_texts \<open>values whose strings are UTF-8\<close>

lemma leaf_texts [json_texts]:
  "json_utf8 (enc_str s)" "json_utf8 (enc_bytes s)" "json_utf8 (JNum n)" "json_utf8 (JBool b)"
  "json_utf8 (JObj [])"
  by (simp_all add: enc_str_def enc_bytes_def ascii_utf8 b64_enc_ascii)

lemma field_texts [json_texts]:
  "json_utf8 (JObj (always k e v @ es)) \<longleftrightarrow> utf8 k \<and> json_utf8 (e v) \<and> json_utf8 (JObj es)"
  "json_utf8 (JObj (omitempty k e z v @ es)) \<longleftrightarrow> (v = z \<or> utf8 k \<and> json_utf8 (e v)) \<and> json_utf8 (JObj es)"
  by (auto simp: always_def omitempty_def)

lemma list_texts [json_texts]: "(\<And>x. json_utf8 (e x)) \<Longrightarrow> json_utf8 (enc_list e xs)"
  by (simp add: enc_list_def)

locale text_codec = codec +
  assumes texts: "json_utf8 (enc v)"
begin

lemma text_roundtrip: "ok v \<Longrightarrow> Option.bind (json_parse (json_text (enc v))) dec = Some v"
  by (simp add: json_roundtrip texts roundtrip)

end

subsection \<open>Messages\<close>

record guest_req =
  rq_Verb :: string
  rq_Data :: payload

record guest_resp =
  rs_Err :: string
  rs_Data :: payload

record init_req =
  ir_Files :: "inject_file list"
  ir_Env :: "string list"
  ir_InitScript :: string
  ir_InitScriptTimeout :: duration

record init_resp =
  is_ScriptFailed :: bool
  is_ScriptError :: string
  is_ScriptOutput :: string

record guest_pty_req =
  py_Cmd :: "string list"
  py_Cols :: int
  py_Rows :: int

record put_file_req =
  pf_Path :: string
  pf_Mode :: int
  pf_Size :: int

definition verbInit :: string where "verbInit = ''init''"
definition verbExec :: string where "verbExec = ''exec''"
definition verbDial :: string where "verbDial = ''dial''"
definition verbPutFile :: string where "verbPutFile = ''putfile''"
definition verbPTY :: string where "verbPTY = ''pty''"

lemmas verb_defs = verbInit_def verbExec_def verbDial_def verbPutFile_def verbPTY_def

definition raw_data :: "payload \<Rightarrow> (string \<times> json) list" where
  "raw_data p = (case p of None \<Rightarrow> [] | Some j \<Rightarrow> [(''data'', j)])"

definition enc_req :: "guest_req \<Rightarrow> json" where
  "enc_req r = JObj (always ''verb'' enc_str (rq_Verb r) @ raw_data (rq_Data r))"

definition dec_req :: "json \<Rightarrow> guest_req option" where
  "dec_req j = do {
     es \<leftarrow> obj_fields j;
     v \<leftarrow> field ''verb'' dec_str [] es;
     Some \<lparr>rq_Verb = v, rq_Data = raw_field ''data'' None es\<rparr> }"

definition enc_resp :: "guest_resp \<Rightarrow> json" where
  "enc_resp r = JObj (omitempty ''err'' enc_str [] (rs_Err r) @ raw_data (rs_Data r))"

definition dec_resp :: "json \<Rightarrow> guest_resp option" where
  "dec_resp j = do {
     es \<leftarrow> obj_fields j;
     e \<leftarrow> field ''err'' dec_str [] es;
     Some \<lparr>rs_Err = e, rs_Data = raw_field ''data'' None es\<rparr> }"

definition enc_init_req :: "init_req \<Rightarrow> json" where
  "enc_init_req r = JObj (
     omitempty ''files'' (enc_list enc_inject_file) [] (ir_Files r) @
     omitempty ''env'' (enc_list enc_str) [] (ir_Env r) @
     omitempty ''init_script'' enc_bytes [] (ir_InitScript r) @
     omitempty ''init_script_timeout'' JNum 0 (ir_InitScriptTimeout r) @ [])"

definition dec_init_req :: "json \<Rightarrow> init_req option" where
  "dec_init_req j = do {
     es \<leftarrow> obj_fields j;
     f \<leftarrow> field ''files'' (dec_list dec_inject_file) [] es;
     e \<leftarrow> field ''env'' (dec_list dec_str) [] es;
     s \<leftarrow> field ''init_script'' dec_bytes [] es;
     t \<leftarrow> field ''init_script_timeout'' (dec_int int64) 0 es;
     Some \<lparr>ir_Files = f, ir_Env = e, ir_InitScript = s, ir_InitScriptTimeout = t\<rparr> }"

definition init_req_ok :: "init_req \<Rightarrow> bool" where
  "init_req_ok r \<longleftrightarrow> list_all inject_file_ok (ir_Files r) \<and> list_all utf8 (ir_Env r) \<and> int64 (ir_InitScriptTimeout r)"

definition enc_init_resp :: "init_resp \<Rightarrow> json" where
  "enc_init_resp r = JObj (
     omitempty ''script_failed'' JBool False (is_ScriptFailed r) @
     omitempty ''script_error'' enc_str [] (is_ScriptError r) @
     omitempty ''script_output'' enc_str [] (is_ScriptOutput r) @ [])"

definition dec_init_resp :: "json \<Rightarrow> init_resp option" where
  "dec_init_resp j = do {
     es \<leftarrow> obj_fields j;
     f \<leftarrow> field ''script_failed'' dec_bool False es;
     e \<leftarrow> field ''script_error'' dec_str [] es;
     u \<leftarrow> field ''script_output'' dec_str [] es;
     Some \<lparr>is_ScriptFailed = f, is_ScriptError = e, is_ScriptOutput = u\<rparr> }"

definition enc_exec_cmd :: "string list \<Rightarrow> json" where
  "enc_exec_cmd c = JObj (always ''cmd'' (enc_list enc_str) c @ [])"

definition dec_exec_cmd :: "json \<Rightarrow> string list option" where
  "dec_exec_cmd j = do { es \<leftarrow> obj_fields j; field ''cmd'' (dec_list dec_str) [] es }"

definition enc_dial_req :: "int \<Rightarrow> json" where
  "enc_dial_req p = JObj (always ''port'' JNum p @ [])"

definition dec_dial_req :: "json \<Rightarrow> int option" where
  "dec_dial_req j = do { es \<leftarrow> obj_fields j; field ''port'' (dec_int int64) 0 es }"

definition enc_pty_req :: "guest_pty_req \<Rightarrow> json" where
  "enc_pty_req r = JObj (
     omitempty ''cmd'' (enc_list enc_str) [] (py_Cmd r) @ omitempty ''cols'' JNum 0 (py_Cols r) @
     omitempty ''rows'' JNum 0 (py_Rows r) @ [])"

definition dec_pty_req :: "json \<Rightarrow> guest_pty_req option" where
  "dec_pty_req j = do {
     es \<leftarrow> obj_fields j;
     c \<leftarrow> field ''cmd'' (dec_list dec_str) [] es;
     w \<leftarrow> field ''cols'' (dec_int uint16) 0 es;
     h \<leftarrow> field ''rows'' (dec_int uint16) 0 es;
     Some \<lparr>py_Cmd = c, py_Cols = w, py_Rows = h\<rparr> }"

definition enc_put_file_req :: "put_file_req \<Rightarrow> json" where
  "enc_put_file_req r = JObj (
     always ''path'' enc_str (pf_Path r) @ omitempty ''mode'' JNum 0 (pf_Mode r) @ always ''size'' JNum (pf_Size r) @ [])"

definition dec_put_file_req :: "json \<Rightarrow> put_file_req option" where
  "dec_put_file_req j = do {
     es \<leftarrow> obj_fields j;
     p \<leftarrow> field ''path'' dec_str [] es;
     m \<leftarrow> field ''mode'' (dec_int int64) 0 es;
     n \<leftarrow> field ''size'' (dec_int int64) 0 es;
     Some \<lparr>pf_Path = p, pf_Mode = m, pf_Size = n\<rparr> }"

lemma guest_keys [json_keys]:
  "to_lower ''verb'' = ''verb''" "to_lower ''err'' = ''err''" "to_lower ''files'' = ''files''" "to_lower ''env'' = ''env''"
  "to_lower ''init_script'' = ''init_script''" "to_lower ''init_script_timeout'' = ''init_script_timeout''"
  "to_lower ''script_failed'' = ''script_failed''" "to_lower ''script_error'' = ''script_error''"
  "to_lower ''script_output'' = ''script_output''" "to_lower ''cmd'' = ''cmd''" "to_lower ''cols'' = ''cols''"
  "to_lower ''rows'' = ''rows''" "to_lower ''path'' = ''path''" "to_lower ''mode'' = ''mode''" "to_lower ''size'' = ''size''"
  by code_simp+

lemma guest_key_texts [json_texts]:
  "utf8 ''verb''" "utf8 ''err''" "utf8 ''data''" "utf8 ''files''" "utf8 ''env''" "utf8 ''init_script''"
  "utf8 ''init_script_timeout''" "utf8 ''script_failed''" "utf8 ''script_error''" "utf8 ''script_output''" "utf8 ''cmd''"
  "utf8 ''cols''" "utf8 ''rows''" "utf8 ''path''" "utf8 ''mode''" "utf8 ''size''" "utf8 ''port''" "utf8 ''stdout''"
  "utf8 ''stderr''" "utf8 ''exit_code''" "utf8 ''Path''" "utf8 ''Content''" "utf8 ''Mode''" "utf8 ''UID''" "utf8 ''GID''"
  by code_simp+

lemma inject_file_text [json_texts]: "json_utf8 (enc_inject_file f)"
  by (simp add: enc_inject_file_def json_texts del: append_Nil2 json_utf8.simps)

interpretation init_req: text_codec enc_init_req dec_init_req init_req_ok
  by unfold_locales (simp_all add: dec_init_req_def enc_init_req_def init_req_ok_def field_simps json_keys leaf_roundtrips
      inject_file.list_roundtrip json_texts del: append_Nil2 json_utf8.simps)

interpretation init_resp: text_codec enc_init_resp dec_init_resp "\<lambda>r. utf8 (is_ScriptError r) \<and> utf8 (is_ScriptOutput r)"
  by unfold_locales (simp_all add: dec_init_resp_def enc_init_resp_def field_simps json_keys leaf_roundtrips
      json_texts del: append_Nil2 json_utf8.simps)

interpretation exec_cmd: text_codec enc_exec_cmd dec_exec_cmd "list_all utf8"
  by unfold_locales (simp_all add: dec_exec_cmd_def enc_exec_cmd_def field_simps json_keys leaf_roundtrips
      json_texts del: append_Nil2 json_utf8.simps)

interpretation dial_req: text_codec enc_dial_req dec_dial_req int64
  by unfold_locales (simp_all add: dec_dial_req_def enc_dial_req_def field_simps json_keys leaf_roundtrips
      json_texts del: append_Nil2 json_utf8.simps)

interpretation pty_req: text_codec enc_pty_req dec_pty_req
  "\<lambda>r. list_all utf8 (py_Cmd r) \<and> uint16 (py_Cols r) \<and> uint16 (py_Rows r)"
  by unfold_locales (simp_all add: dec_pty_req_def enc_pty_req_def field_simps json_keys leaf_roundtrips
      json_texts del: append_Nil2 json_utf8.simps)

interpretation put_file_req: text_codec enc_put_file_req dec_put_file_req
  "\<lambda>r. utf8 (pf_Path r) \<and> int64 (pf_Mode r) \<and> int64 (pf_Size r)"
  by unfold_locales (simp_all add: dec_put_file_req_def enc_put_file_req_def field_simps json_keys leaf_roundtrips
      json_texts del: append_Nil2 json_utf8.simps)

interpretation guest_exec_result: text_codec enc_exec_result dec_exec_result exec_result_ok
  by unfold_locales (simp_all add: enc_exec_result_def json_texts del: append_Nil2 json_utf8.simps)

text \<open>Without the condition a result arrives with its texts made UTF-8.\<close>

definition as_text :: "exec_result \<Rightarrow> exec_result" where
  "as_text r = r\<lparr>er_Stdout := to_utf8 (er_Stdout r), er_Stderr := to_utf8 (er_Stderr r)\<rparr>"

lemma enc_str_text: "enc_str (to_utf8 s) = enc_str s"
  using utf8_to_utf8 [of s] by (simp add: enc_str_def utf8_def)

lemma exec_result_text: "int64 (er_ExitCode r) \<Longrightarrow> dec_exec_result (enc_exec_result r) = Some (as_text r)"
  using exec_result.roundtrip [of "as_text r"]
  by (simp add: exec_result_ok_def as_text_def enc_exec_result_def enc_str_text always_def)

definition init_as_text :: "init_resp \<Rightarrow> init_resp" where
  "init_as_text r = r\<lparr>is_ScriptError := to_utf8 (is_ScriptError r), is_ScriptOutput := to_utf8 (is_ScriptOutput r)\<rparr>"

lemma to_utf8_Nil_iff: "to_utf8 s = [] \<longleftrightarrow> s = []"
  by (cases s) (simp_all add: Let_def replacement_def)

lemma omitempty_text: "omitempty k enc_str [] (to_utf8 s) = omitempty k enc_str [] s"
  by (simp add: omitempty_def to_utf8_Nil_iff enc_str_text)

lemma init_resp_text: "dec_init_resp (enc_init_resp r) = Some (init_as_text r)"
proof -
  have "enc_init_resp (init_as_text r) = enc_init_resp r"
    by (simp add: init_as_text_def enc_init_resp_def omitempty_text)
  with init_resp.roundtrip [of "init_as_text r"] show ?thesis by (simp add: init_as_text_def)
qed

subsection \<open>Envelopes\<close>

definition data_utf8 :: "payload \<Rightarrow> bool" where
  "data_utf8 p \<longleftrightarrow> (case p of None \<Rightarrow> True | Some j \<Rightarrow> json_utf8 j)"

lemma data_utf8_simps [simp]: "data_utf8 None" "data_utf8 (Some j) \<longleftrightarrow> json_utf8 j"
  by (simp_all add: data_utf8_def)

lemma raw_data_simps:
  "raw_field ''data'' None (raw_data p) = p" "to_lower k \<noteq> ''data'' \<Longrightarrow> field k d z (raw_data p) = Some z"
  "json_utf8 (JObj (raw_data p)) \<longleftrightarrow> data_utf8 p"
  by (auto simp: raw_data_def data_utf8_def equal_fold_def json_keys json_texts split: option.split)

lemma req_roundtrip: "utf8 (rq_Verb r) \<Longrightarrow> dec_req (enc_req r) = Some r"
  by (simp add: dec_req_def enc_req_def field_simps leaf_roundtrips raw_data_simps raw_field_other json_keys)

lemma resp_roundtrip: "dec_resp (enc_resp r) = Some (r\<lparr>rs_Err := to_utf8 (rs_Err r)\<rparr>)"
proof -
  have "enc_resp r = JObj (omitempty ''err'' enc_str [] (to_utf8 (rs_Err r)) @ raw_data (rs_Data r))"
    by (simp add: enc_resp_def omitempty_text)
  then show ?thesis
    by (simp add: dec_resp_def field_simps leaf_roundtrips raw_data_simps raw_field_other json_keys)
qed

lemma envelope_texts:
  "data_utf8 (rq_Data r) \<Longrightarrow> json_utf8 (enc_req r)" "data_utf8 (rs_Data s) \<Longrightarrow> json_utf8 (enc_resp s)"
  by (simp_all add: enc_req_def enc_resp_def json_texts raw_data_simps del: json_utf8.simps)

subsection \<open>Frames\<close>

definition maxFrame :: nat where
  "maxFrame = 16777216"

datatype frame_error = FrameTooLarge nat | FrameEOF | FrameShort | FrameBadJSON

definition PutUint32 :: "nat \<Rightarrow> string" where
  "PutUint32 n = [char_of (n div 16777216 mod 256), char_of (n div 65536 mod 256), char_of (n div 256 mod 256), char_of (n mod 256)]"

definition Uint32 :: "string \<Rightarrow> nat" where
  "Uint32 h = byte_of (h ! 0) * 16777216 + byte_of (h ! 1) * 65536 + byte_of (h ! 2) * 256 + byte_of (h ! 3)"

definition writeFrame :: "json \<Rightarrow> frame_error + string" where
  "writeFrame v =
     (let b = json_text v in
      if length b > maxFrame then Inl (FrameTooLarge (length b)) else Inr (PutUint32 (length b) @ b))"

text \<open>\<^verbatim>\<open>io.ReadFull\<close> reports an end of input before the first byte differently from one after it.\<close>

definition ReadFull :: "nat \<Rightarrow> string \<Rightarrow> (frame_error + string) \<times> string" where
  "ReadFull n s =
     (if n \<le> length s then (Inr (take n s), drop n s)
      else (Inl (if s = [] then FrameEOF else FrameShort), []))"

definition readFrame :: "(json \<Rightarrow> 'a option) \<Rightarrow> string \<Rightarrow> (frame_error + 'a) \<times> string" where
  "readFrame dec s =
     (case ReadFull 4 s of
        (Inl e, r) \<Rightarrow> (Inl e, r)
      | (Inr hdr, r) \<Rightarrow>
          (let n = Uint32 hdr in
           if n > maxFrame then (Inl (FrameTooLarge n), r)
           else (case ReadFull n r of
                   (Inl e, r') \<Rightarrow> (Inl e, r')
                 | (Inr b, r') \<Rightarrow>
                     (case Option.bind (json_parse b) dec of
                        None \<Rightarrow> (Inl FrameBadJSON, r')
                      | Some v \<Rightarrow> (Inr v, r')))))"

lemma big_endian: "(n :: nat) < 4294967296 \<Longrightarrow>
  n div 16777216 mod 256 * 16777216 + n div 65536 mod 256 * 65536 + n div 256 mod 256 * 256 + n mod 256 = n"
proof -
  assume n: "n < 4294967296"
  define q1 where "q1 = n div 256"
  define q2 where "q2 = q1 div 256"
  define q3 where "q3 = q2 div 256"
  have d: "n div 65536 = q2" "n div 16777216 = q3" "q3 mod 256 = q3"
    using n by (simp_all add: q1_def q2_def q3_def div_mult2_eq [symmetric])
  have "n = q1 * 256 + n mod 256" "q1 = q2 * 256 + q1 mod 256" "q2 = q3 * 256 + q2 mod 256"
    by (simp_all add: q1_def q2_def q3_def)
  then show ?thesis unfolding d q1_def [symmetric] by linarith
qed

lemma Uint32_Put: "n < 4294967296 \<Longrightarrow> Uint32 (PutUint32 n) = n"
  using big_endian [of n] by (simp add: Uint32_def PutUint32_def)

lemma length_PutUint32 [simp]: "length (PutUint32 n) = 4"
  by (simp add: PutUint32_def)

lemma ReadFull_append: "length a = n \<Longrightarrow> ReadFull n (a @ s) = (Inr a, s)"
  by (simp add: ReadFull_def)

text \<open>What one end writes the other reads, and the stream goes on right behind it.\<close>

lemma frame_roundtrip:
  assumes "json_utf8 j" "writeFrame j = Inr b"
  shows "readFrame dec (b @ s) = (case dec j of None \<Rightarrow> (Inl FrameBadJSON, s) | Some v \<Rightarrow> (Inr v, s))"
proof -
  have b: "b = PutUint32 (length (json_text j)) @ json_text j" "length (json_text j) \<le> maxFrame"
    using assms(2) by (auto simp: writeFrame_def Let_def split: if_splits)
  then have "Uint32 (PutUint32 (length (json_text j))) = length (json_text j)"
    by (intro Uint32_Put) (simp add: maxFrame_def)
  then show ?thesis
    using b by (simp add: readFrame_def ReadFull_append Let_def json_roundtrip [OF assms(1)] split: option.split)
qed

lemma readFrame_shorter: "readFrame dec s = (Inr v, r) \<Longrightarrow> length r + 4 \<le> length s"
  by (auto simp: readFrame_def ReadFull_def Let_def split: if_splits option.splits)

text \<open>A stream cut inside a frame, and a length over the limit, are errors whatever follows.\<close>

lemma frame_cut:
  assumes "writeFrame j = Inr b" "c \<noteq> []" "b = a @ c"
  shows "\<exists>e. fst (readFrame dec a) = Inl e \<and> (a = [] \<longrightarrow> e = FrameEOF)"
proof (cases "length a < 4")
  case True
  then show ?thesis by (auto simp: readFrame_def ReadFull_def)
next
  case False
  have b: "b = PutUint32 (length (json_text j)) @ json_text j" "length (json_text j) \<le> maxFrame"
    using assms(1) by (auto simp: writeFrame_def Let_def split: if_splits)
  have t: "take 4 a = PutUint32 (length (json_text j))"
    using arg_cong [OF assms(3), of "take 4"] False b(1) by simp
  have "length a < length b" using assms(2,3) by simp
  with t b False have "\<not> length (json_text j) \<le> length (drop 4 a)" by simp
  moreover have "Uint32 (take 4 a) = length (json_text j)"
    unfolding t using b(2) by (intro Uint32_Put) (simp add: maxFrame_def)
  ultimately show ?thesis using False b(2) by (auto simp: readFrame_def ReadFull_def Let_def)
qed

lemma frame_oversize:
  assumes "maxFrame < n" "n < 4294967296"
  shows "readFrame dec (PutUint32 n @ s) = (Inl (FrameTooLarge n), s)"
  using assms by (simp add: readFrame_def ReadFull_append Let_def Uint32_Put)

end
