(* ===== verification/BoxManager.thy ===== *)
theory BoxManager
  imports FcLifecycle Isolation GuestProto
begin

text \<open>
  The backend-neutral box manager, \<^verbatim>\<open>internal/spoke/box/manager.go\<close>, over the provisioner interface
  of \<^verbatim>\<open>box/provisioner.go\<close>. The interface's operations are the record \<open>prov_ops\<close>; what the manager
  relies on is the locale \<open>provisioner\<close>, in which its lemmas are proved once; the locale is
  interpreted on the Firecracker provisioner. The in-box guest, the host files and the policy
  applier are arguments: \<open>guest_ops\<close> says what the guest answers, \<open>policy_applier\<close> is instantiated by
  the isolation enforcer.
\<close>

subsection \<open>Interfaces\<close>

datatype prov_error = ErrBoxNotFound string | ProvFailed string

record ('w, 'i) prov_ops =
  po_Provision :: "create_options \<Rightarrow> 'w \<Rightarrow> (prov_error + 'i) \<times> 'w"
  po_List :: "'w \<Rightarrow> string + 'i list"
  po_Find :: "string \<Rightarrow> 'w \<Rightarrow> prov_error + 'i"
  po_Meta :: "'w \<Rightarrow> 'i \<Rightarrow> box"
  po_Pause :: "'i \<Rightarrow> 'w \<Rightarrow> prov_error option \<times> 'w"
  po_Resume :: "'i \<Rightarrow> 'w \<Rightarrow> prov_error option \<times> 'w"
  po_Destroy :: "'i \<Rightarrow> 'w \<Rightarrow> prov_error option \<times> 'w"

record 'p policy_applier =
  pa_SetNetworkPolicy :: "string \<Rightarrow> network_policy \<Rightarrow> 'p \<Rightarrow> string option \<times> 'p"
  pa_Release :: "string \<Rightarrow> 'p \<Rightarrow> string option \<times> 'p"

record copy_file =
  cf_HostPath :: string
  cf_BoxPath :: string
  cf_Mode :: int

record 'i guest_ops =
  go_OpenFile :: "string \<Rightarrow> bool"
  go_StatFile :: "string \<Rightarrow> int option"
  go_PutFile :: "'i \<Rightarrow> string \<Rightarrow> int \<Rightarrow> int \<Rightarrow> string option"
  go_Init :: "'i \<Rightarrow> duration option \<Rightarrow> init_req \<Rightarrow> string + init_resp"
  go_Exec :: "'i \<Rightarrow> string list \<Rightarrow> string + exec_result"
  go_OpenPTY :: "'i \<Rightarrow> string list \<Rightarrow> nat \<Rightarrow> nat \<Rightarrow> string option"
  go_DialPort :: "'i \<Rightarrow> int \<Rightarrow> string option"

record 'p manager_config =
  mc_MaxBoxes :: int
  mc_InitScript :: string
  mc_InitScriptTimeout :: duration
  mc_CopyFiles :: "copy_file list"
  mc_PublishPorts :: "publish_port list"
  mc_Isolation :: "'p policy_applier option"

record ('w, 'p) manager =
  mg_prov :: 'w
  mg_iso :: 'p

datatype manager_error =
    MgInvalidBoxID string
  | MgList string
  | MgCap int
  | MgDuplicate string string
  | MgProvision prov_error
  | MgCopyOpen string
  | MgCopyStat string
  | MgCopyPut string string string
  | MgInit string
  | MgBox prov_error
  | MgGuest string
  | MgPolicy string

subsection \<open>Create\<close>

fun copyFiles :: "'i guest_ops \<Rightarrow> 'i \<Rightarrow> copy_file list \<Rightarrow> manager_error option" where
  "copyFiles g i [] = None"
| "copyFiles g i (cf # cfs) =
     (if \<not> go_OpenFile g (cf_HostPath cf) then Some (MgCopyOpen (cf_HostPath cf))
      else case go_StatFile g (cf_HostPath cf) of
             None \<Rightarrow> Some (MgCopyStat (cf_HostPath cf))
           | Some sz \<Rightarrow>
               (case go_PutFile g i (cf_BoxPath cf) (cf_Mode cf) sz of
                  Some e \<Rightarrow> Some (MgCopyPut (cf_HostPath cf) (cf_BoxPath cf) e)
                | None \<Rightarrow> copyFiles g i cfs))"

definition initScriptFailureDetail :: "init_resp \<Rightarrow> string" where
  "initScriptFailureDetail r =
     (if is_ScriptOutput r = [] then is_ScriptError r
      else is_ScriptError r @ [char_of (10 :: nat), char_of (10 :: nat)] @ is_ScriptOutput r)"

definition initContext :: "'p manager_config \<Rightarrow> duration option" where
  "initContext cfg =
     (if mc_InitScript cfg = [] then None
      else let timeout = (if mc_InitScriptTimeout cfg \<le> 0 then 300 * second else mc_InitScriptTimeout cfg)
           in Some (timeout + 30 * second))"

text \<open>The part of \<^verbatim>\<open>Create\<close> under \<^verbatim>\<open>createMu\<close>.\<close>

definition create_locked ::
  "('w, 'i) prov_ops \<Rightarrow> 'p manager_config \<Rightarrow> create_options \<Rightarrow> 'w \<Rightarrow> (manager_error + 'i) \<times> 'w"
where
  "create_locked ops cfg opts w =
     (let provision = (case po_Provision ops opts w of
                         (Inl e, w') \<Rightarrow> (Inl (MgProvision e), w')
                       | (Inr i, w') \<Rightarrow> (Inr i, w'))
      in
      if co_BoxID opts \<noteq> [] \<or> mc_MaxBoxes cfg > 0 then
        (case po_List ops w of
           Inl e \<Rightarrow> (Inl (MgList e), w)
         | Inr insts \<Rightarrow>
             if mc_MaxBoxes cfg > 0 \<and> int (length insts) \<ge> mc_MaxBoxes cfg then (Inl (MgCap (mc_MaxBoxes cfg)), w)
             else (case find (\<lambda>i. co_BoxID opts \<noteq> [] \<and> equal_fold (box_BoxID (po_Meta ops w i)) (co_BoxID opts)) insts of
                     Some i \<Rightarrow> (Inl (MgDuplicate (co_BoxID opts) (box_InstanceID (po_Meta ops w i))), w)
                   | None \<Rightarrow> provision))
      else provision)"

definition create_finish ::
  "('w, 'i) prov_ops \<Rightarrow> 'i guest_ops \<Rightarrow> 'p manager_config \<Rightarrow> create_options \<Rightarrow> 'i \<Rightarrow> 'w \<Rightarrow>
   (manager_error + create_result) \<times> 'w"
where
  "create_finish ops g cfg opts i w =
     (case copyFiles g i (mc_CopyFiles cfg) of
        Some e \<Rightarrow> (Inl e, snd (po_Destroy ops i w))
      | None \<Rightarrow>
          (case go_Init g i (initContext cfg)
                  \<lparr>ir_Files = co_Files opts, ir_Env = [], ir_InitScript = mc_InitScript cfg,
                   ir_InitScriptTimeout = mc_InitScriptTimeout cfg\<rparr> of
             Inl e \<Rightarrow> (Inl (MgInit e), snd (po_Destroy ops i w))
           | Inr resp \<Rightarrow>
               (Inr (if is_ScriptFailed resp
                     then \<lparr>cr_InstanceID = box_InstanceID (po_Meta ops w i), cr_InitScriptFailed = True,
                           cr_InitScriptOutput = initScriptFailureDetail resp, cr_PublishPorts = []\<rparr>
                     else \<lparr>cr_InstanceID = box_InstanceID (po_Meta ops w i), cr_InitScriptFailed = False,
                           cr_InitScriptOutput = [], cr_PublishPorts = mc_PublishPorts cfg\<rparr>), w)))"

definition mgr_Create ::
  "('w, 'i) prov_ops \<Rightarrow> 'i guest_ops \<Rightarrow> 'p manager_config \<Rightarrow> create_options \<Rightarrow> ('w, 'p) manager \<Rightarrow>
   (manager_error + create_result) \<times> ('w, 'p) manager"
where
  "mgr_Create ops g cfg opts m =
     (if co_BoxID opts \<noteq> [] \<and> \<not> ValidBoxID (co_BoxID opts) then (Inl (MgInvalidBoxID (co_BoxID opts)), m)
      else case create_locked ops cfg opts (mg_prov m) of
             (Inl e, w) \<Rightarrow> (Inl e, m\<lparr>mg_prov := w\<rparr>)
           | (Inr i, w) \<Rightarrow>
               (case create_finish ops g cfg opts i w of (r, w') \<Rightarrow> (r, m\<lparr>mg_prov := w'\<rparr>)))"

subsection \<open>The other verbs\<close>

definition mgr_List :: "('w, 'i) prov_ops \<Rightarrow> ('w, 'p) manager \<Rightarrow> string + box list" where
  "mgr_List ops m =
     (case po_List ops (mg_prov m) of
        Inl e \<Rightarrow> Inl e
      | Inr insts \<Rightarrow> Inr (map (po_Meta ops (mg_prov m)) insts))"

definition mgr_Destroy ::
  "('w, 'i) prov_ops \<Rightarrow> 'p manager_config \<Rightarrow> string \<Rightarrow> ('w, 'p) manager \<Rightarrow> manager_error option \<times> ('w, 'p) manager"
where
  "mgr_Destroy ops cfg idOrName m =
     (case po_Find ops idOrName (mg_prov m) of
        Inl (ErrBoxNotFound n) \<Rightarrow> (None, m)
      | Inl e \<Rightarrow> (Some (MgBox e), m)
      | Inr i \<Rightarrow>
          (let meta = po_Meta ops (mg_prov m) i;
               released = (\<lambda>w. case mc_Isolation cfg of
                   None \<Rightarrow> m\<lparr>mg_prov := w\<rparr>
                 | Some pa \<Rightarrow> if box_BoxID meta \<noteq> []
                              then m\<lparr>mg_prov := w, mg_iso := snd (pa_Release pa (box_BoxID meta) (mg_iso m))\<rparr>
                              else m\<lparr>mg_prov := w\<rparr>)
           in case po_Destroy ops i (mg_prov m) of
                (None, w) \<Rightarrow> (None, released w)
              | (Some (ErrBoxNotFound n), w) \<Rightarrow> (None, released w)
              | (Some e, w) \<Rightarrow> (Some (MgBox e), m\<lparr>mg_prov := w\<rparr>)))"

definition mgr_SetNetworkPolicy ::
  "'p manager_config \<Rightarrow> string \<Rightarrow> network_policy \<Rightarrow> ('w, 'p) manager \<Rightarrow> manager_error option \<times> ('w, 'p) manager"
where
  "mgr_SetNetworkPolicy cfg boxID pol m =
     (case mc_Isolation cfg of
        None \<Rightarrow> (None, m)
      | Some pa \<Rightarrow>
          (case pa_SetNetworkPolicy pa boxID pol (mg_iso m) of
             (e, p') \<Rightarrow> (map_option MgPolicy e, m\<lparr>mg_iso := p'\<rparr>)))"

definition mgr_Pause ::
  "('w, 'i) prov_ops \<Rightarrow> string \<Rightarrow> ('w, 'p) manager \<Rightarrow> manager_error option \<times> ('w, 'p) manager"
where
  "mgr_Pause ops idOrName m =
     (case po_Find ops idOrName (mg_prov m) of
        Inl e \<Rightarrow> (Some (MgBox e), m)
      | Inr i \<Rightarrow> (case po_Pause ops i (mg_prov m) of (e, w) \<Rightarrow> (map_option MgBox e, m\<lparr>mg_prov := w\<rparr>)))"

definition mgr_Resume ::
  "('w, 'i) prov_ops \<Rightarrow> string \<Rightarrow> ('w, 'p) manager \<Rightarrow> manager_error option \<times> ('w, 'p) manager"
where
  "mgr_Resume ops idOrName m =
     (case po_Find ops idOrName (mg_prov m) of
        Inl e \<Rightarrow> (Some (MgBox e), m)
      | Inr i \<Rightarrow> (case po_Resume ops i (mg_prov m) of (e, w) \<Rightarrow> (map_option MgBox e, m\<lparr>mg_prov := w\<rparr>)))"

definition mgr_Exec ::
  "('w, 'i) prov_ops \<Rightarrow> 'i guest_ops \<Rightarrow> string \<Rightarrow> string list \<Rightarrow> ('w, 'p) manager \<Rightarrow> manager_error + exec_result"
where
  "mgr_Exec ops g idOrName cmd m =
     (case po_Find ops idOrName (mg_prov m) of
        Inl e \<Rightarrow> Inl (MgBox e)
      | Inr i \<Rightarrow> (case go_Exec g i cmd of Inl e \<Rightarrow> Inl (MgGuest e) | Inr r \<Rightarrow> Inr r))"

definition mgr_OpenPTY ::
  "('w, 'i) prov_ops \<Rightarrow> 'i guest_ops \<Rightarrow> string \<Rightarrow> string list \<Rightarrow> nat \<Rightarrow> nat \<Rightarrow> ('w, 'p) manager \<Rightarrow> manager_error + 'i"
where
  "mgr_OpenPTY ops g idOrName cmd cols rows m =
     (case po_Find ops idOrName (mg_prov m) of
        Inl e \<Rightarrow> Inl (MgBox e)
      | Inr i \<Rightarrow> (case go_OpenPTY g i cmd cols rows of Some e \<Rightarrow> Inl (MgGuest e) | None \<Rightarrow> Inr i))"

definition mgr_DialBox ::
  "('w, 'i) prov_ops \<Rightarrow> 'i guest_ops \<Rightarrow> string \<Rightarrow> int \<Rightarrow> ('w, 'p) manager \<Rightarrow> manager_error + 'i"
where
  "mgr_DialBox ops g idOrName port m =
     (case po_Find ops idOrName (mg_prov m) of
        Inl e \<Rightarrow> Inl (MgBox e)
      | Inr i \<Rightarrow> (case go_DialPort g i port of Some e \<Rightarrow> Inl (MgGuest e) | None \<Rightarrow> Inr i))"

subsection \<open>The contract of a provisioner\<close>

text \<open>
  \<open>ids\<close> reads the generation token and box id of every box of the backend; \<open>handle\<close> says that an
  instance is one of them.
\<close>

definition box_key :: "box \<Rightarrow> string \<times> string" where
  "box_key b = (box_InstanceID b, box_BoxID b)"

text \<open>
  What the manager keeps true of its boxes: under the cap, and no two with the same box id up to
  letter case.
\<close>

definition boxes_ok :: "'p manager_config \<Rightarrow> (string \<times> string) set \<Rightarrow> bool" where
  "boxes_ok cfg K \<longleftrightarrow>
     (mc_MaxBoxes cfg > 0 \<longrightarrow> int (card K) \<le> mc_MaxBoxes cfg) \<and>
     (\<forall>t b t' b'. (t, b) \<in> K \<and> (t', b') \<in> K \<and> b \<noteq> [] \<and> equal_fold b b' \<longrightarrow> t = t')"

locale provisioner =
  fixes ops :: "('w, 'i) prov_ops"
    and inv :: "'w \<Rightarrow> bool"
    and handle :: "'w \<Rightarrow> 'i \<Rightarrow> bool"
    and ids :: "'w \<Rightarrow> (string \<times> string) set"
  assumes list_ids: "inv w \<Longrightarrow> po_List ops w = Inr insts \<Longrightarrow>
      ids w = set (map (box_key \<circ> po_Meta ops w) insts) \<and> card (ids w) = length insts"
    and find_handle: "inv w \<Longrightarrow> po_Find ops n w = Inr i \<Longrightarrow> handle w i"
    and handle_id: "inv w \<Longrightarrow> handle w i \<Longrightarrow> box_key (po_Meta ops w i) \<in> ids w"
    and provision_err: "inv w \<Longrightarrow> po_Provision ops opts w = (Inl e, w') \<Longrightarrow> inv w' \<and> ids w' = ids w"
    and provision_ok: "inv w \<Longrightarrow> po_Provision ops opts w = (Inr i, w') \<Longrightarrow>
      inv w' \<and> handle w' i \<and> box_BoxID (po_Meta ops w' i) = co_BoxID opts \<and>
      box_InstanceID (po_Meta ops w' i) \<notin> fst ` ids w \<and> ids w' = insert (box_key (po_Meta ops w' i)) (ids w)"
    and destroy_ok: "inv w \<Longrightarrow> handle w i \<Longrightarrow> po_Destroy ops i w = (r, w') \<Longrightarrow>
      r = None \<and> inv w' \<and> ids w' = ids w - {box_key (po_Meta ops w i)}"
    and pause_ok: "inv w \<Longrightarrow> handle w i \<Longrightarrow> po_Pause ops i w = (r, w') \<Longrightarrow> inv w' \<and> ids w' = ids w"
    and resume_ok: "inv w \<Longrightarrow> handle w i \<Longrightarrow> po_Resume ops i w = (r, w') \<Longrightarrow> inv w' \<and> ids w' = ids w"
    and ids_finite: "inv w \<Longrightarrow> finite (ids w)"
begin

lemma create_locked_err:
  assumes "inv w" "create_locked ops cfg opts w = (Inl e, w')"
  shows "inv w' \<and> ids w' = ids w"
proof (cases "po_Provision ops opts w")
  case (Pair r v)
  then show ?thesis
    using assms provision_err [OF assms(1)]
    by (cases r) (auto simp: create_locked_def Let_def split: if_splits sum.splits option.splits)
qed

lemma create_locked_ok:
  assumes "inv w" "create_locked ops cfg opts w = (Inr i, w')"
  shows "inv w' \<and> handle w' i \<and> box_BoxID (po_Meta ops w' i) = co_BoxID opts \<and>
    box_InstanceID (po_Meta ops w' i) \<notin> fst ` ids w \<and> ids w' = insert (box_key (po_Meta ops w' i)) (ids w) \<and>
    (mc_MaxBoxes cfg > 0 \<longrightarrow> int (card (ids w)) < mc_MaxBoxes cfg) \<and>
    (co_BoxID opts \<noteq> [] \<longrightarrow> (\<forall>(t, b) \<in> ids w. \<not> equal_fold b (co_BoxID opts)))"
proof -
  have p: "po_Provision ops opts w = (Inr i, w')"
    using assms(2) by (auto simp: create_locked_def Let_def split: if_splits sum.splits option.splits prod.splits)
  have guard: "(mc_MaxBoxes cfg > 0 \<longrightarrow> int (card (ids w)) < mc_MaxBoxes cfg) \<and>
    (co_BoxID opts \<noteq> [] \<longrightarrow> (\<forall>(t, b) \<in> ids w. \<not> equal_fold b (co_BoxID opts)))"
  proof (cases "co_BoxID opts \<noteq> [] \<or> mc_MaxBoxes cfg > 0")
    case True
    then obtain insts where l: "po_List ops w = Inr insts"
      and cap: "\<not> (mc_MaxBoxes cfg > 0 \<and> int (length insts) \<ge> mc_MaxBoxes cfg)"
      and dup: "find (\<lambda>i. co_BoxID opts \<noteq> [] \<and> equal_fold (box_BoxID (po_Meta ops w i)) (co_BoxID opts)) insts = None"
      using assms(2) by (auto simp: create_locked_def Let_def split: if_splits sum.splits option.splits)
    show ?thesis using list_ids [OF assms(1) l] cap dup
      by (auto simp: find_None_iff box_key_def)
  qed auto
  show ?thesis using provision_ok [OF assms(1) p] guard by blast
qed

lemma create_finish_cases:
  assumes "inv w" "handle w i" "create_finish ops g cfg opts i w = (r, w')"
  shows "case r of
      Inl e \<Rightarrow> inv w' \<and> ids w' = ids w - {box_key (po_Meta ops w i)}
    | Inr cr \<Rightarrow> w' = w \<and> cr_InstanceID cr = box_InstanceID (po_Meta ops w i) \<and>
        (cr_InitScriptFailed cr \<longrightarrow> cr_PublishPorts cr = []) \<and>
        (\<not> cr_InitScriptFailed cr \<longrightarrow> cr_PublishPorts cr = mc_PublishPorts cfg)"
proof (cases "po_Destroy ops i w")
  case (Pair d v)
  note gone = destroy_ok [OF assms(1,2) Pair]
  define resp where "resp = go_Init g i (initContext cfg) \<lparr>ir_Files = co_Files opts, ir_Env = [], ir_InitScript = mc_InitScript cfg,
      ir_InitScriptTimeout = mc_InitScriptTimeout cfg\<rparr>"
  show ?thesis
  proof (cases "copyFiles g i (mc_CopyFiles cfg)")
    case (Some e)
    with assms(3) Pair have "r = Inl e" "w' = v" by (simp_all add: create_finish_def)
    with gone show ?thesis by simp
  next
    case None
    note run = assms(3) [unfolded create_finish_def None option.case resp_def [symmetric]]
    show ?thesis
    proof (cases resp)
      case (Inl e)
      with run Pair have "r = Inl (MgInit e)" "w' = v" by simp_all
      with gone show ?thesis by simp
    next
      case (Inr a)
      with run show ?thesis by auto
    qed
  qed
qed

lemma create_error:
  assumes "inv (mg_prov m)" "mgr_Create ops g cfg opts m = (Inl e, m')"
  shows "inv (mg_prov m') \<and> ids (mg_prov m') = ids (mg_prov m) \<and> mg_iso m' = mg_iso m"
proof (cases "co_BoxID opts \<noteq> [] \<and> \<not> ValidBoxID (co_BoxID opts)")
  case True
  with assms show ?thesis by (simp add: mgr_Create_def)
next
  case False
  obtain r w where r: "create_locked ops cfg opts (mg_prov m) = (r, w)" by fastforce
  show ?thesis
  proof (cases r)
    case (Inl e')
    with r have le: "create_locked ops cfg opts (mg_prov m) = (Inl e', w)" by simp
    have "m' = m\<lparr>mg_prov := w\<rparr>" using assms(2) False le by (auto simp: mgr_Create_def)
    with create_locked_err [OF assms(1) le] show ?thesis by simp
  next
    case (Inr i)
    with r have "create_locked ops cfg opts (mg_prov m) = (Inr i, w)" by simp
    note ok = create_locked_ok [OF assms(1) this]
    obtain f w' where f: "create_finish ops g cfg opts i w = (f, w')" by fastforce
    have "f = Inl e" "m' = m\<lparr>mg_prov := w'\<rparr>" using assms(2) False r Inr f by (auto simp: mgr_Create_def)
    moreover have new: "box_key (po_Meta ops w i) \<notin> ids (mg_prov m)"
    proof
      assume "box_key (po_Meta ops w i) \<in> ids (mg_prov m)"
      from imageI [OF this, of fst] ok show False by (simp add: box_key_def)
    qed
    moreover have "inv w" "handle w i" "ids w = insert (box_key (po_Meta ops w i)) (ids (mg_prov m))" using ok by blast+
    ultimately show ?thesis using create_finish_cases [OF _ _ f] by simp
  qed
qed

lemma create_success:
  assumes "inv (mg_prov m)" "mgr_Create ops g cfg opts m = (Inr cr, m')"
  shows "inv (mg_prov m') \<and> mg_iso m' = mg_iso m \<and>
    ids (mg_prov m') = insert (cr_InstanceID cr, co_BoxID opts) (ids (mg_prov m)) \<and>
    cr_InstanceID cr \<notin> fst ` ids (mg_prov m) \<and>
    (co_BoxID opts = [] \<or> ValidBoxID (co_BoxID opts)) \<and>
    (mc_MaxBoxes cfg > 0 \<longrightarrow> int (card (ids (mg_prov m'))) \<le> mc_MaxBoxes cfg) \<and>
    (co_BoxID opts \<noteq> [] \<longrightarrow> (\<forall>(t, b) \<in> ids (mg_prov m). \<not> equal_fold b (co_BoxID opts))) \<and>
    (cr_InitScriptFailed cr \<longrightarrow> cr_PublishPorts cr = []) \<and>
    (\<not> cr_InitScriptFailed cr \<longrightarrow> cr_PublishPorts cr = mc_PublishPorts cfg)"
proof -
  have valid: "co_BoxID opts = [] \<or> ValidBoxID (co_BoxID opts)" using assms(2) by (auto simp: mgr_Create_def split: if_splits)
  with assms(2) obtain i w where i: "create_locked ops cfg opts (mg_prov m) = (Inr i, w)"
    by (auto simp: mgr_Create_def split: if_splits prod.splits sum.splits)
  obtain f w' where f: "create_finish ops g cfg opts i w = (f, w')" by fastforce
  have r: "f = Inr cr" "m' = m\<lparr>mg_prov := w'\<rparr>" using assms(2) valid i f by (auto simp: mgr_Create_def split: if_splits)
  note ok = create_locked_ok [OF assms(1) i]
  have fin: "w' = w" "cr_InstanceID cr = box_InstanceID (po_Meta ops w i)"
    "(cr_InitScriptFailed cr \<longrightarrow> cr_PublishPorts cr = []) \<and>
     (\<not> cr_InitScriptFailed cr \<longrightarrow> cr_PublishPorts cr = mc_PublishPorts cfg)"
    using create_finish_cases [OF _ _ f] ok r by auto
  have key: "box_key (po_Meta ops w i) = (cr_InstanceID cr, co_BoxID opts)" using ok fin by (simp add: box_key_def)
  have "card (insert (cr_InstanceID cr, co_BoxID opts) (ids (mg_prov m))) \<le> Suc (card (ids (mg_prov m)))"
    using ids_finite [OF assms(1)] by (simp add: card_insert_if)
  with ok fin key r valid show ?thesis by auto
qed

lemma destroy_spec:
  assumes "inv (mg_prov m)" "mgr_Destroy ops cfg n m = (r, m')"
  shows "case po_Find ops n (mg_prov m) of
      Inl (ErrBoxNotFound x) \<Rightarrow> r = None \<and> m' = m
    | Inl (ProvFailed x) \<Rightarrow> r = Some (MgBox (ProvFailed x)) \<and> m' = m
    | Inr i \<Rightarrow> r = None \<and> inv (mg_prov m') \<and>
        ids (mg_prov m') = ids (mg_prov m) - {box_key (po_Meta ops (mg_prov m) i)} \<and>
        mg_iso m' = (case mc_Isolation cfg of
            None \<Rightarrow> mg_iso m
          | Some pa \<Rightarrow> if box_BoxID (po_Meta ops (mg_prov m) i) = [] then mg_iso m
                       else snd (pa_Release pa (box_BoxID (po_Meta ops (mg_prov m) i)) (mg_iso m)))"
proof (cases "po_Find ops n (mg_prov m)")
  case (Inl e)
  with assms show ?thesis by (cases e) (auto simp: mgr_Destroy_def)
next
  case (Inr i)
  obtain d w where d: "po_Destroy ops i (mg_prov m) = (d, w)" by fastforce
  note gone = destroy_ok [OF assms(1) find_handle [OF assms(1) Inr] d]
  define iso where "iso = (case mc_Isolation cfg of
            None \<Rightarrow> mg_iso m
          | Some pa \<Rightarrow> if box_BoxID (po_Meta ops (mg_prov m) i) = [] then mg_iso m
                       else snd (pa_Release pa (box_BoxID (po_Meta ops (mg_prov m) i)) (mg_iso m)))"
  have d': "po_Destroy ops i (mg_prov m) = (None, w)" using d gone by simp
  have "(r, m') = (None, case mc_Isolation cfg of
                   None \<Rightarrow> m\<lparr>mg_prov := w\<rparr>
                 | Some pa \<Rightarrow> if box_BoxID (po_Meta ops (mg_prov m) i) \<noteq> []
                              then m\<lparr>mg_prov := w, mg_iso := snd (pa_Release pa (box_BoxID (po_Meta ops (mg_prov m) i)) (mg_iso m))\<rparr>
                              else m\<lparr>mg_prov := w\<rparr>)"
    unfolding assms(2) [symmetric] mgr_Destroy_def Inr sum.case Let_def d' prod.case option.case by (rule refl)
  then have "r = None" "mg_prov m' = w" "mg_iso m' = iso"
    by (simp_all add: iso_def split: option.split)
  with gone Inr show ?thesis unfolding iso_def by simp
qed

lemma destroy_inv:
  assumes "inv (mg_prov m)"
  shows "inv (mg_prov (snd (mgr_Destroy ops cfg n m))) \<and>
    ids (mg_prov (snd (mgr_Destroy ops cfg n m))) \<subseteq> ids (mg_prov m)"
proof -
  obtain r m' where r: "mgr_Destroy ops cfg n m = (r, m')" by fastforce
  from destroy_spec [OF assms r] assms r show ?thesis
    by (auto split: sum.splits prov_error.splits)
qed

lemma pause_inv:
  assumes "inv (mg_prov m)"
  shows "inv (mg_prov (snd (mgr_Pause ops n m))) \<and> ids (mg_prov (snd (mgr_Pause ops n m))) = ids (mg_prov m)"
proof (cases "po_Find ops n (mg_prov m)")
  case (Inr i)
  obtain d w where d: "po_Pause ops i (mg_prov m) = (d, w)" by fastforce
  from pause_ok [OF assms find_handle [OF assms Inr] d] Inr d show ?thesis by (simp add: mgr_Pause_def)
qed (simp add: mgr_Pause_def assms)

lemma resume_inv:
  assumes "inv (mg_prov m)"
  shows "inv (mg_prov (snd (mgr_Resume ops n m))) \<and> ids (mg_prov (snd (mgr_Resume ops n m))) = ids (mg_prov m)"
proof (cases "po_Find ops n (mg_prov m)")
  case (Inr i)
  obtain d w where d: "po_Resume ops i (mg_prov m) = (d, w)" by fastforce
  from resume_ok [OF assms find_handle [OF assms Inr] d] Inr d show ?thesis by (simp add: mgr_Resume_def)
qed (simp add: mgr_Resume_def assms)

lemma locked_boxes_ok:
  assumes inv: "inv w" and ok: "boxes_ok cfg (ids w)" and run: "create_locked ops cfg opts w = (r, w')"
  shows "inv w' \<and> boxes_ok cfg (ids w')"
proof (cases r)
  case (Inl e)
  with run have "create_locked ops cfg opts w = (Inl e, w')" by simp
  from create_locked_err [OF inv this] ok show ?thesis by simp
next
  case (Inr i)
  with run have "create_locked ops cfg opts w = (Inr i, w')" by simp
  note new = create_locked_ok [OF inv this]
  define t0 where "t0 = box_InstanceID (po_Meta ops w' i)"
  have ids: "ids w' = insert (t0, co_BoxID opts) (ids w)" using new by (simp add: box_key_def t0_def)
  have uniq: "\<not> equal_fold c (co_BoxID opts)" if "co_BoxID opts \<noteq> []" "(u, c) \<in> ids w" for u c
    using new that by blast
  have "t = t'" if k: "(t, b) \<in> ids w'" "(t', b') \<in> ids w'" "b \<noteq> []" "equal_fold b b'" for t b t' b'
  proof -
    have old: "(t, b) \<in> ids w \<Longrightarrow> (t', b') \<in> ids w \<Longrightarrow> t = t'"
      using ok k(3,4) unfolding boxes_ok_def by blast
    have "b' \<noteq> []" using k(3,4) unfolding equal_fold_def by (metis to_lower_eq_Nil)
    with k old uniq equal_fold_sym show ?thesis unfolding ids by (metis Pair_inject insertE)
  qed
  moreover have "card (ids w') \<le> Suc (card (ids w))" using ids_finite [OF inv] by (simp add: ids card_insert_if)
  then have "mc_MaxBoxes cfg > 0 \<longrightarrow> int (card (ids w')) \<le> mc_MaxBoxes cfg" using new by linarith
  ultimately have "boxes_ok cfg (ids w')" unfolding boxes_ok_def by blast
  with new show ?thesis by simp
qed

lemma finish_inv:
  assumes "inv w" "handle w i"
  shows "inv (snd (create_finish ops g cfg opts i w)) \<and> ids (snd (create_finish ops g cfg opts i w)) \<subseteq> ids w"
proof -
  obtain r w' where r: "create_finish ops g cfg opts i w = (r, w')" by fastforce
  from create_finish_cases [OF assms r] assms(1) r show ?thesis by (cases r) auto
qed

lemma shrink_boxes_ok:
  assumes "inv w" "boxes_ok cfg (ids w)" "K \<subseteq> ids w"
  shows "boxes_ok cfg K"
proof -
  have "card K \<le> card (ids w)" by (rule card_mono [OF ids_finite [OF assms(1)] assms(3)])
  then have "mc_MaxBoxes cfg > 0 \<longrightarrow> int (card K) \<le> mc_MaxBoxes cfg" using assms(2) unfolding boxes_ok_def by linarith
  with assms(2,3) show ?thesis unfolding boxes_ok_def by (meson subsetD)
qed

end

subsection \<open>Firecracker is a provisioner\<close>

text \<open>
  The provisioner interface over the Firecracker model. Two environment assumptions are built in:
  a random token never repeats one in use (such a draw is treated as a failing random source), and
  a destroy manages to remove the state directory.
\<close>

definition fc_err :: "fc_error \<Rightarrow> prov_error" where
  "fc_err e = (case e of FcNotFound n \<Rightarrow> ErrBoxNotFound n | _ \<Rightarrow> ProvFailed ''firecracker'')"

definition no_collision :: "'h fc_prov \<Rightarrow> fc_env \<Rightarrow> fc_env" where
  "no_collision p env =
     (case fe_token env of
        None \<Rightarrow> env
      | Some t \<Rightarrow> if fresh_token t [] p \<and> \<not> vm_up t (fp_calls p) then env else env\<lparr>fe_token := None\<rparr>)"

definition fc_ops :: "'h exec \<Rightarrow> fc_env \<Rightarrow> boot_env \<Rightarrow> save_fault \<Rightarrow> ('h fc_prov, nat) prov_ops" where
  "fc_ops exec env benv sf =
     \<lparr>po_Provision = (\<lambda>opts p. case Provision exec (no_collision p env) opts p of
                        (Inl e, p') \<Rightarrow> (Inl (fc_err e), p') | (Inr r, p') \<Rightarrow> (Inr r, p')),
      po_List = (\<lambda>p. Inr (fc_List p)),
      po_Find = (\<lambda>n p. case fc_Find n p of Inl e \<Rightarrow> Inl (fc_err e) | Inr r \<Rightarrow> Inr r),
      po_Meta = (\<lambda>p r. fc_Meta (fp_heap p ! r)),
      po_Pause = (\<lambda>r p. case Pause sf r p of (e, p') \<Rightarrow> (map_option fc_err e, p')),
      po_Resume = (\<lambda>r p. case Resume benv sf r p of (e, p') \<Rightarrow> (map_option fc_err e, p')),
      po_Destroy = (\<lambda>r p. case Destroy True r p of (e, p') \<Rightarrow> (map_option fc_err e, p'))\<rparr>"

definition visible :: "string \<Rightarrow> box_meta \<Rightarrow> bool" where
  "visible ns m \<longleftrightarrow> ns = [] \<or> bm_Namespace m = ns"

definition fc_ids :: "'h fc_prov \<Rightarrow> (string \<times> string) set" where
  "fc_ids p = (\<lambda>m. (bm_Token m, bm_BoxID m)) ` {m \<in> ran (live_id p). visible (fp_namespace p) m}"

lemma ident_more [simp]: "bm_BoxID (ident m) = bm_BoxID m" "bm_Namespace (ident m) = bm_Namespace m"
  "visible ns (ident m) = visible ns m"
  by (simp_all add: ident_def visible_def)

lemma fc_Meta_key: "box_key (fc_Meta i) = (bm_Token (fi_meta i), bm_BoxID (fi_meta i))"
  by (simp add: box_key_def fc_Meta_def toBox_def)

lemma fc_List_mem:
  assumes "heap_ok p"
  shows "r \<in> set (fc_List p) \<longleftrightarrow> live_handle r p \<and> visible (fp_namespace p) (fi_meta (fp_heap p ! r))"
proof -
  have "r \<in> snd ` set (fp_boxes p) \<longleftrightarrow> live_handle r p"
  proof
    assume "r \<in> snd ` set (fp_boxes p)"
    then obtain t where "tget (fp_boxes p) t = Some r" using assms by (auto simp: heap_ok_def mem_tget)
    with assms show "live_handle r p" by (auto simp: heap_ok_def live_handle_def)
  next
    assume "live_handle r p"
    from tget_mem [OF this [unfolded live_handle_def]] show "r \<in> snd ` set (fp_boxes p)" by force
  qed
  then show ?thesis by (auto simp: fc_List_def visible_def)
qed

lemma live_handle_id:
  assumes "heap_ok p"
  shows "live_id p t = Some m \<longleftrightarrow> (\<exists>r. live_handle r p \<and> inst_token p r = t \<and> m = ident (fi_meta (fp_heap p ! r)))"
  using assms by (auto simp: live_id_def live_handle_def heap_ok_def)

lemma fc_ids_list:
  assumes "heap_ok p"
  shows "fc_ids p = set (map (\<lambda>r. box_key (fc_Meta (fp_heap p ! r))) (fc_List p))"
proof -
  have "{m \<in> ran (live_id p). visible (fp_namespace p) m} = (\<lambda>r. ident (fi_meta (fp_heap p ! r))) ` set (fc_List p)"
    using fc_List_mem [OF assms] live_handle_id [OF assms] by (auto simp: ran_def)
  then show ?thesis by (simp add: fc_ids_def fc_Meta_key image_image)
qed

lemma fc_List_distinct:
  assumes "heap_ok p"
  shows "distinct (map (\<lambda>r. box_key (fc_Meta (fp_heap p ! r))) (fc_List p))"
proof -
  have "inj_on snd (set (fp_boxes p))"
    using assms by (auto simp: inj_on_def heap_ok_def mem_tget) metis
  moreover have "distinct (fp_boxes p)" using assms by (simp add: heap_ok_def keys_distinct_def distinct_map)
  ultimately have "distinct (map snd (fp_boxes p))" by (simp add: distinct_map)
  then have "distinct (fc_List p)" by (simp add: fc_List_def)
  moreover have "inj_on (\<lambda>r. box_key (fc_Meta (fp_heap p ! r))) (set (fc_List p))"
    using fc_List_mem [OF assms] by (auto simp: inj_on_def fc_Meta_key live_handle_def)
  ultimately show ?thesis by (simp add: distinct_map)
qed

lemma fc_ids_cong: "live_id p' = live_id p \<Longrightarrow> fp_namespace p' = fp_namespace p \<Longrightarrow> fc_ids p' = fc_ids p"
  by (simp add: fc_ids_def)

lemma ns_simps [simp]:
  "fp_namespace (log_calls cs p) = fp_namespace p" "fp_namespace (freeSlot m p) = fp_namespace p"
  "fp_namespace (remove_box_dir ok tok p) = fp_namespace p" "fp_namespace (upd_inst r f p) = fp_namespace p"
  "fp_namespace (snd (save_inst sf r p)) = fp_namespace p" "fp_namespace (snd (bootMachine benv m p)) = fp_namespace p"
  "fp_namespace (snd (provision_commit m api p)) = fp_namespace p" "fp_namespace (snd (Destroy rm r p)) = fp_namespace p"
  by (auto simp: log_calls_def freeSlot_def remove_box_dir_def upd_inst_def save_inst_def bootMachine_def
      provision_commit_def Destroy_def Let_def split: prod.split option.split)

lemma ns_EnsureNetwork: "fp_namespace (snd (EnsureNetwork exec p)) = fp_namespace p"
  by (auto simp: EnsureNetwork_def Let_def split: egress_mode.split prod.split)

lemma ns_reserve: "provision_reserve exec env opts p = (r, p') \<Longrightarrow> fp_namespace p' = fp_namespace p"
  using ns_EnsureNetwork [of exec p]
  by (auto simp: provision_reserve_def allocIndexLocked_def allocUIDLocked_def split: if_splits prod.splits option.splits)

lemma ns_build:
  assumes "provision_build env opts m p = (r, p')"
  shows "fp_namespace p' = fp_namespace p"
proof -
  obtain s p1 where s: "stage_rootfs env opts m p = (s, p1)" by fastforce
  have h: "fp_namespace p1 = fp_namespace p"
    using s by (auto simp: stage_rootfs_def Let_def split: option.splits if_splits)
  show ?thesis
  proof (cases s)
    case (Inl e)
    with assms s h show ?thesis by (simp add: provision_build_def)
  next
    case (Inr m')
    obtain b p2 where b: "bootMachine (fe_boot env) m' p1 = (b, p2)" by fastforce
    then have "fp_namespace p2 = fp_namespace p" using ns_simps(6) [of "fe_boot env" m' p1] h by simp
    with assms s Inr b show ?thesis
      by (auto simp: provision_build_def Let_def split: sum.splits prod.splits option.splits)
  qed
qed

lemma ns_provision: "Provision exec env opts p = (r, p') \<Longrightarrow> fp_namespace p' = fp_namespace p"
proof (elim provision_cases)
  fix m p1 m' api p2
  assume "provision_reserve exec env opts p = (Inr m, p1)" "provision_build env opts m p1 = (Inr (m', api), p2)"
    "p' = snd (provision_commit m' api p2)"
  then show ?thesis using ns_reserve ns_build by (metis ns_simps(7))
qed (metis ns_reserve ns_build)+

lemma ns_rehydrate: "fp_namespace (rehydrate_metas alive serveOK ms p) = fp_namespace p"
  by (induction ms arbitrary: p) (simp_all add: Let_def log_calls_def)

lemma ns_restart: "fp_namespace (fc_restart alive serveOK p) = fp_namespace p"
  by (simp add: fc_restart_def rehydrate_def loadMetas_def ns_rehydrate)

lemma live_id_save_inst: "live_id (snd (save_inst sf r p)) = live_id p"
  using save_inst_frame [of sf r p] by (intro live_id_cong) (simp_all add: core_def)

lemma Pause_frame: "live_id (snd (Pause sf r p)) = live_id p" "fp_namespace (snd (Pause sf r p)) = fp_namespace p"
proof -
  define f where "f i = i\<lparr>fi_machine := False, fi_alive := False, fi_api := False,
      fi_meta := (fi_meta i)\<lparr>bm_Paused := True\<rparr>\<rparr>" for i :: fc_instance
  have id: "ident (fi_meta (f i)) = ident (fi_meta i)" for i by (simp add: f_def)
  have "snd (Pause sf r p) = p \<or> snd (Pause sf r p) =
      snd (save_inst sf r (upd_inst r f (log_calls (stop_calls p r @ close_api p r) p)))"
    by (simp add: Pause_def f_def [abs_def])
  moreover have "live_id (log_calls cs p) = live_id p" for cs by (rule live_id_cong) (simp_all add: log_calls_def)
  ultimately show "live_id (snd (Pause sf r p)) = live_id p" "fp_namespace (snd (Pause sf r p)) = fp_namespace p"
    using upd_inst_ok(1) [of f, OF id] live_id_save_inst by (metis, metis ns_simps(1,4,5))
qed

lemma Resume_frame:
  "live_id (snd (Resume benv sf r p)) = live_id p" "fp_namespace (snd (Resume benv sf r p)) = fp_namespace p"
proof -
  define f where "f api i = i\<lparr>fi_machine := True, fi_api := api, fi_alive := False,
      fi_meta := (fi_meta i)\<lparr>bm_Paused := False\<rparr>\<rparr>" for api and i :: fc_instance
  have id: "ident (fi_meta (f api i)) = ident (fi_meta i)" for api i by (simp add: f_def)
  obtain b p1 where boot: "bootMachine benv (fi_meta (fp_heap p ! r)) p = (b, p1)" by fastforce
  then have p1: "core p1 = core p" "fp_namespace p1 = fp_namespace p"
    using core_bootMachine [of benv "fi_meta (fp_heap p ! r)" p] ns_simps(6) [of benv "fi_meta (fp_heap p ! r)" p] by simp_all
  have "live_id p1 = live_id p" using p1(1) by (intro live_id_cong) (simp_all add: core_def)
  moreover have "snd (Resume benv sf r p) = p \<or> snd (Resume benv sf r p) = p1 \<or>
      (\<exists>api. snd (Resume benv sf r p) = snd (save_inst sf r (upd_inst r (f api) p1)))"
    using boot by (cases b) (auto simp: Resume_def f_def [abs_def])
  ultimately show "live_id (snd (Resume benv sf r p)) = live_id p" "fp_namespace (snd (Resume benv sf r p)) = fp_namespace p"
    using upd_inst_ok(1) [of "f _", OF id] live_id_save_inst p1(2) by (metis, metis ns_simps(4,5))
qed


lemma fc_inv_heap: "fc_inv ([], p) \<Longrightarrow> heap_ok p"
  by (simp add: fc_inv_def)

lemma no_collision_token:
  assumes "fe_token (no_collision p env) = Some t"
  shows "fresh_token t [] p \<and> \<not> vm_up t (fp_calls p)"
  using assms by (auto simp: no_collision_def split: option.splits if_splits)

lemma fc_provision_inv:
  assumes "fc_inv ([], p)" "Provision exec (no_collision p env) opts p = (res, p')"
  shows "fc_inv ([], p')"
  by (rule fc_inv_steps [OF provision_steps [OF assms(2)] assms(1)]) (simp add: no_collision_token)

lemma provision_needs_token: "Provision exec env opts p = (Inr r, p') \<Longrightarrow> \<exists>t. fe_token env = Some t"
  using provision_reserve_ok by (elim provision_cases) blast+

lemma fc_provision_err:
  assumes "Provision exec (no_collision p env) opts p = (Inl e, p')"
  shows "fc_ids p' = fc_ids p"
proof -
  have "core p' = core p \<or> (\<exists>t. fe_token (no_collision p env) = Some t)"
    using assms
  proof (cases rule: provision_cases)
    case (refused e')
    then show ?thesis using provision_reserve_err by blast
  next
    case (failed m p1 e')
    then show ?thesis using provision_reserve_ok [OF failed(1)] by blast
  qed simp
  then have "fp_heap p' = fp_heap p \<and> fp_boxes p' = fp_boxes p"
    using provision_outcome [OF assms] no_collision_token [of p env] by (auto simp: core_def fresh_token_def)
  then show ?thesis using ns_provision [OF assms] by (intro fc_ids_cong live_id_cong) simp_all
qed

lemma fc_provision_ok:
  assumes inv: "fc_inv ([], p)" and run: "Provision exec (no_collision p env) opts p = (Inr r, p')"
  shows "r \<in> set (fc_List p') \<and> bm_BoxID (fi_meta (fp_heap p' ! r)) = co_BoxID opts \<and>
    inst_token p' r \<notin> fst ` fc_ids p \<and> fc_ids p' = insert (inst_token p' r, co_BoxID opts) (fc_ids p)"
proof -
  obtain t where t: "fe_token (no_collision p env) = Some t" using provision_needs_token [OF run] by blast
  have fresh: "tget (fp_boxes p) t = None" "tget (fp_disk p) t = None" "\<not> vm_up t (fp_calls p)"
    using no_collision_token [OF t] by (simp_all add: fresh_token_def)
  obtain i where i: "fp_heap p' = fp_heap p @ [i]" "r = length (fp_heap p)" "fp_boxes p' = tput t r (fp_boxes p)"
    "bm_Token (fi_meta i) = t" "bm_BoxID (fi_meta i) = co_BoxID opts" "bm_Namespace (fi_meta i) = fp_namespace p"
    using provision_outcome [OF run t fresh(2,3)] by auto
  have ns: "fp_namespace p' = fp_namespace p" by (rule ns_provision [OF run])
  have hp: "heap_ok p" "heap_ok p'" using inv fc_provision_inv [OF inv run] by (simp_all add: fc_inv_heap)
  have new: "fp_heap p' ! r = i" using i by simp
  have lid: "live_id p' = (live_id p)(t \<mapsto> ident (fi_meta i))"
  proof
    fix u show "live_id p' u = ((live_id p)(t \<mapsto> ident (fi_meta i))) u"
      using i hp(1) by (cases "tget (fp_boxes p) u") (auto simp: live_id_def heap_ok_def nth_append)
  qed
  have none: "live_id p t = None" using fresh(1) by (simp add: live_id_def)
  have key: "inst_token p' r = t" using new i(4) by simp
  have "r \<in> set (fc_List p')"
    using new i fresh ns by (simp add: fc_List_mem [OF hp(2)] live_handle_def visible_def)
  moreover have "t \<notin> fst ` fc_ids p"
    using none live_keyed [OF hp(1)] by (auto simp: fc_ids_def ran_def)
  moreover have "fc_ids p' = insert (t, co_BoxID opts) (fc_ids p)"
  proof -
    have "{m \<in> ran (live_id p'). visible (fp_namespace p) m} =
        insert (ident (fi_meta i)) {m \<in> ran (live_id p). visible (fp_namespace p) m}"
      using i(6) by (auto simp: lid ran_map_upd [of "live_id p", OF none]) (simp_all add: visible_def)
    then show ?thesis using i(4,5) by (simp add: fc_ids_def ns)
  qed
  ultimately show ?thesis using new key i(5) by simp
qed

lemma keys_remove:
  assumes "inj_on bm_Token A" "x \<in> A"
  shows "(\<lambda>m. (bm_Token m, bm_BoxID m)) ` {m \<in> A - {x}. V m} =
    (\<lambda>m. (bm_Token m, bm_BoxID m)) ` {m \<in> A. V m} - {(bm_Token x, bm_BoxID x)}"
proof -
  have "bm_Token m \<noteq> bm_Token x" if "m \<in> A" "m \<noteq> x" for m using assms that by (meson inj_onD)
  then show ?thesis by auto
qed

lemma fc_destroy_ids:
  assumes inv: "fc_inv ([], p)" and r: "r \<in> set (fc_List p)"
  shows "fst (Destroy True r p) = None \<and>
    fc_ids (snd (Destroy True r p)) = fc_ids p - {(inst_token p r, bm_BoxID (fi_meta (fp_heap p ! r)))}"
proof -
  note hp = fc_inv_heap [OF inv]
  let ?t = "inst_token p r" and ?m = "fi_meta (fp_heap p ! r)"
  define p' where "p' = snd (Destroy True r p)"
  have same: "fp_heap p' = fp_heap p" "fp_boxes p' = tdel ?t (fp_boxes p)"
    using core_Destroy [of True r p] by (simp_all add: p'_def core_def Let_def)
  have live: "live_handle r p" using r by (simp add: fc_List_mem [OF hp])
  have box: "live_id p ?t = Some (ident ?m)" using live by (simp add: live_handle_def live_id_def)
  have "live_id p' = (live_id p)(?t := None)" by (rule ext) (simp add: live_id_def same)
  then have "ran (live_id p') = ran (live_id p) - {ident ?m}"
    using ran_del [where M = "live_id p", OF live_keyed [OF hp] box] by simp
  moreover have "inj_on bm_Token (ran (live_id p))"
    using live_keyed [OF hp] by (auto simp: inj_on_def ran_def)
  moreover have "ident ?m \<in> ran (live_id p)" using box by (rule ranI)
  moreover have "fp_namespace p' = fp_namespace p" by (simp add: p'_def)
  ultimately have "fc_ids p' = fc_ids p - {(?t, bm_BoxID ?m)}"
    using keys_remove [of "ran (live_id p)" "ident ?m" "visible (fp_namespace p)"] by (simp add: fc_ids_def)
  moreover have "fst (Destroy True r p) = None" using live by (simp add: Destroy_def Let_def live_handle_def)
  ultimately show ?thesis by (simp add: p'_def)
qed


lemma fc_ops_simps [simp]:
  "po_List (fc_ops exec env benv sf) p = Inr (fc_List p)"
  "po_Meta (fc_ops exec env benv sf) p r = fc_Meta (fp_heap p ! r)"
  by (simp_all add: fc_ops_def)

lemma box_Meta [simp]:
  "box_InstanceID (fc_Meta i) = bm_Token (fi_meta i)" "box_BoxID (fc_Meta i) = bm_BoxID (fi_meta i)"
  by (simp_all add: fc_Meta_def toBox_def)

interpretation fc: provisioner "fc_ops exec env benv sf" "\<lambda>p. fc_inv ([], p)" "\<lambda>p r. r \<in> set (fc_List p)" fc_ids
  for exec :: "'h exec" and env :: fc_env and benv :: boot_env and sf :: save_fault
proof (unfold_locales, goal_cases)
  case (1 p insts)
  then have "distinct (map (box_key \<circ> (\<lambda>r. fc_Meta (fp_heap p ! r))) insts)"
    "fc_ids p = set (map (box_key \<circ> (\<lambda>r. fc_Meta (fp_heap p ! r))) insts)"
    using fc_ids_list [OF fc_inv_heap [OF 1(1)]] fc_List_distinct [OF fc_inv_heap [OF 1(1)]] by (simp_all add: comp_def)
  then show ?case using distinct_card [of "map (box_key \<circ> (\<lambda>r. fc_Meta (fp_heap p ! r))) insts"] by (simp add: comp_def)
next
  case (2 p n r)
  then show ?case by (auto simp: fc_ops_def fc_Find_def find_Some_iff split: sum.splits option.splits)
next
  case (3 p r)
  then show ?case using fc_ids_list [OF fc_inv_heap [OF 3(1)]] by auto
next
  case (4 p opts e p')
  then obtain e' where run: "Provision exec (no_collision p env) opts p = (Inl e', p')"
    by (auto simp: fc_ops_def split: prod.splits sum.splits)
  show ?case using fc_provision_inv [OF 4(1) run] fc_provision_err [OF run] by simp
next
  case (5 p opts r p')
  then have run: "Provision exec (no_collision p env) opts p = (Inr r, p')"
    by (auto simp: fc_ops_def split: prod.splits sum.splits)
  show ?case using fc_provision_inv [OF 5(1) run] fc_provision_ok [OF 5(1) run] by (simp add: fc_Meta_key)
next
  case (6 p r e p')
  then have "e = map_option fc_err (fst (Destroy True r p))" "p' = snd (Destroy True r p)"
    by (auto simp: fc_ops_def split: prod.splits)
  moreover have "live_handle r p" using 6(2) fc_List_mem [OF fc_inv_heap [OF 6(1)]] by simp
  ultimately show ?case using fc_destroy_ids [OF 6(1,2)] fc_step_inv [OF st_destroy 6(1)] by (simp add: fc_Meta_key)
next
  case (7 p r e p')
  then have "p' = snd (Pause sf r p)" by (auto simp: fc_ops_def split: prod.splits)
  moreover have "live_handle r p" using 7(2) fc_List_mem [OF fc_inv_heap [OF 7(1)]] by simp
  ultimately show ?case using fc_step_inv [OF st_pause 7(1)] Pause_frame [of sf r p] fc_ids_cong by metis
next
  case (8 p r e p')
  then have "p' = snd (Resume benv sf r p)" by (auto simp: fc_ops_def split: prod.splits)
  moreover have "live_handle r p" using 8(2) fc_List_mem [OF fc_inv_heap [OF 8(1)]] by simp
  ultimately show ?case using fc_step_inv [OF st_resume 8(1)] Resume_frame [of benv sf r p] fc_ids_cong by metis
next
  case (9 p)
  then show ?case using fc_ids_list [OF fc_inv_heap [OF 9]] by simp
qed


subsection \<open>Properties\<close>

text \<open>The isolation enforcer as the manager's policy applier.\<close>

definition enforcer_applier :: "'fw programmer \<Rightarrow> 'fw enforcer policy_applier" where
  "enforcer_applier prog =
     \<lparr>pa_SetNetworkPolicy = (\<lambda>b pol e. (None, SetNetworkPolicy b pol e)),
      pa_Release = (\<lambda>b e. case Release prog b e of
                       (None, e') \<Rightarrow> (None, e') | (Some err, e') \<Rightarrow> (Some ''isolation'', e'))\<rparr>"

text \<open>
  C5 (manager_create_atomic). A create through the manager over the Firecracker backend is atomic: whatever
  fails (an invalid or taken box id, the cap, the backend, a file copy, the in-box initialisation), the set of
  boxes is what it was. When it succeeds exactly one box with a new token was added, its id was
  taken by no other box in any letter case, the cap holds, and a box whose init script failed is
  kept but publishes no port.
\<close>

theorem manager_create_atomic:
  assumes "fc_reach exec0 ([], mg_prov m)"
    and "mgr_Create (fc_ops exec env benv sf) g cfg opts m = (res, m')"
  shows "mg_iso m' = mg_iso m \<and>
    (case res of
       Inl e \<Rightarrow> fc_ids (mg_prov m') = fc_ids (mg_prov m)
     | Inr cr \<Rightarrow>
         cr_InstanceID cr \<notin> fst ` fc_ids (mg_prov m) \<and>
         fc_ids (mg_prov m') = insert (cr_InstanceID cr, co_BoxID opts) (fc_ids (mg_prov m)) \<and>
         (co_BoxID opts = [] \<or> ValidBoxID (co_BoxID opts) \<and>
            (\<forall>(t, b) \<in> fc_ids (mg_prov m). \<not> equal_fold b (co_BoxID opts))) \<and>
         (mc_MaxBoxes cfg > 0 \<longrightarrow> int (card (fc_ids (mg_prov m'))) \<le> mc_MaxBoxes cfg) \<and>
         cr_PublishPorts cr = (if cr_InitScriptFailed cr then [] else mc_PublishPorts cfg))"
proof (cases res)
  case (Inl e)
  with fc.create_error [OF fc_reach_inv [OF assms(1)]] assms(2) show ?thesis by simp
next
  case (Inr cr)
  with assms(2) have "mgr_Create (fc_ops exec env benv sf) g cfg opts m = (Inr cr, m')" by simp
  from fc.create_success [OF fc_reach_inv [OF assms(1)] this] Inr show ?thesis by auto
qed

definition sample_guest :: "bool \<Rightarrow> nat guest_ops" where
  "sample_guest ok =
     \<lparr>go_OpenFile = (\<lambda>_. True), go_StatFile = (\<lambda>_. Some 1), go_PutFile = (\<lambda>_ _ _ _. None),
      go_Init = (\<lambda>_ _ _. if ok then Inr \<lparr>is_ScriptFailed = True, is_ScriptError = ''exit 1'', is_ScriptOutput = []\<rparr>
                         else Inl ''dial''),
      go_Exec = (\<lambda>_ _. Inl ''dial''), go_OpenPTY = (\<lambda>_ _ _ _. None), go_DialPort = (\<lambda>_ _. None)\<rparr>"

definition sample_cfg :: "recording enforcer manager_config" where
  "sample_cfg = \<lparr>mc_MaxBoxes = 3, mc_InitScript = ''x'', mc_InitScriptTimeout = 0, mc_CopyFiles = [],
     mc_PublishPorts = [], mc_Isolation = Some (enforcer_applier recording_programmer)\<rparr>"

definition sample_mgr :: "(unit fc_prov, recording enforcer) manager" where
  "sample_mgr = \<lparr>mg_prov = sample_create ''aa'' ''db'' sample_prov, mg_iso = fresh_enforcer NewRecordingProgrammer\<rparr>"

lemma sample_mgr_reach: "fc_reach sample_exec ([], mg_prov sample_mgr)"
proof -
  have "fresh_token ''aa'' [] sample_prov" unfolding fresh_token_def by code_simp
  from sample_create_reach [OF sample_reach this] show ?thesis by (simp add: sample_mgr_def)
qed

definition sample_ops :: "(unit fc_prov, nat) prov_ops" where
  "sample_ops = fc_ops sample_exec (sample_env ''cc'')
     \<lparr>be_rmChroot = True, be_new = True, be_start = True, be_serve = True, be_chown = True, be_guest = True\<rparr> SaveOk"

theorem manager_create_atomic_witness:
  "fst (mgr_Create sample_ops (sample_guest False) sample_cfg (sample_opts ''web'') sample_mgr) = Inl (MgInit ''dial'') \<and>
   fc_ids (mg_prov (snd (mgr_Create sample_ops (sample_guest False) sample_cfg (sample_opts ''web'') sample_mgr)))
     = fc_ids (mg_prov sample_mgr)"
proof -
  let ?c = "mgr_Create sample_ops (sample_guest False) sample_cfg (sample_opts ''web'') sample_mgr"
  have r: "fst ?c = Inl (MgInit ''dial'')" by code_simp
  then have "?c = (Inl (MgInit ''dial''), snd ?c)" by (metis prod.collapse)
  from manager_create_atomic [OF sample_mgr_reach this [unfolded sample_ops_def]] r
  show ?thesis unfolding sample_ops_def by simp
qed

text \<open>
  A manager at work. A create is two steps, the critical section under \<^verbatim>\<open>createMu\<close> and the guest
  initialisation after it, between which any other request may run; every step brings its own
  outcomes of the environment. A create that finishes with a clean-up finds its box still there.
\<close>

type_synonym ('h, 'p) mgr_state = "(create_options \<times> nat) list \<times> ('h fc_prov, 'p) manager"

inductive mgr_step :: "'p manager_config \<Rightarrow> ('h, 'p) mgr_state \<Rightarrow> ('h, 'p) mgr_state \<Rightarrow> bool"
  for cfg :: "'p manager_config"
where
  ms_begin: "create_locked (fc_ops exec env benv sf) cfg opts (mg_prov m) = (Inr i, w) \<Longrightarrow>
    mgr_step cfg (fl, m) ((opts, i) # fl, m\<lparr>mg_prov := w\<rparr>)"
| ms_refuse: "create_locked (fc_ops exec env benv sf) cfg opts (mg_prov m) = (Inl e, w) \<Longrightarrow>
    mgr_step cfg (fl, m) (fl, m\<lparr>mg_prov := w\<rparr>)"
| ms_finish: "(opts, i) \<in> set fl \<Longrightarrow> i \<in> set (fc_List (mg_prov m)) \<Longrightarrow>
    create_finish (fc_ops exec env benv sf) g cfg opts i (mg_prov m) = (r, w) \<Longrightarrow>
    mgr_step cfg (fl, m) (remove1 (opts, i) fl, m\<lparr>mg_prov := w\<rparr>)"
| ms_destroy: "mgr_step cfg (fl, m) (fl, snd (mgr_Destroy (fc_ops exec env benv sf) cfg n m))"
| ms_pause: "mgr_step cfg (fl, m) (fl, snd (mgr_Pause (fc_ops exec env benv sf) n m))"
| ms_resume: "mgr_step cfg (fl, m) (fl, snd (mgr_Resume (fc_ops exec env benv sf) n m))"
| ms_policy: "mgr_step cfg (fl, m) (fl, snd (mgr_SetNetworkPolicy cfg b pol m))"
| ms_restart: "mgr_step cfg (fl, m) ([], m\<lparr>mg_prov := fc_restart alive serveOK (mg_prov m), mg_iso := e\<rparr>)"

inductive mgr_reach :: "'p manager_config \<Rightarrow> ('h, 'p) mgr_state \<Rightarrow> bool" for cfg :: "'p manager_config" where
  mr_start: "fc_start (mg_prov m) \<Longrightarrow> mgr_reach cfg ([], m)"
| mr_step: "mgr_reach cfg s \<Longrightarrow> mgr_step cfg s s' \<Longrightarrow> mgr_reach cfg s'"

definition mgr_ok :: "'p manager_config \<Rightarrow> ('h, 'p) mgr_state \<Rightarrow> bool" where
  "mgr_ok cfg = (\<lambda>(fl, m). fc_inv ([], mg_prov m) \<and> boxes_ok cfg (fc_ids (mg_prov m)))"

lemma mgr_ok_start:
  assumes "fc_start (mg_prov m)"
  shows "mgr_ok cfg ([], m)"
proof -
  have "live_id (mg_prov m) = Map.empty" using assms by (auto simp: live_id_def fc_start_def)
  with fc_start_inv [OF assms] show ?thesis by (simp add: mgr_ok_def boxes_ok_def fc_ids_def)
qed

lemma mgr_ok_shrink:
  assumes "fc_inv ([], p)" "boxes_ok cfg (fc_ids p)" "fc_inv ([], mg_prov m') \<and> fc_ids (mg_prov m') \<subseteq> fc_ids p"
  shows "mgr_ok cfg (fl, m')"
  using assms fc.shrink_boxes_ok [OF assms(1,2)] by (simp add: mgr_ok_def)

lemma mgr_step_ok: "mgr_step cfg s s' \<Longrightarrow> mgr_ok cfg s \<Longrightarrow> mgr_ok cfg s'"
proof (induction rule: mgr_step.induct)
  case (ms_begin exec env benv sf opts m i w fl)
  then show ?case using fc.locked_boxes_ok [OF _ _ ms_begin(1)] by (simp add: mgr_ok_def)
next
  case (ms_refuse exec env benv sf opts m e w fl)
  then show ?case using fc.locked_boxes_ok [OF _ _ ms_refuse(1)] by (simp add: mgr_ok_def)
next
  case (ms_finish opts i fl m exec env benv sf g r w)
  then have h: "fc_inv ([], mg_prov m)" "boxes_ok cfg (fc_ids (mg_prov m))" by (simp_all add: mgr_ok_def)
  have "fc_inv ([], w) \<and> fc_ids w \<subseteq> fc_ids (mg_prov m)"
    using fc.finish_inv [OF h(1) ms_finish(2), of exec env benv sf g cfg opts] ms_finish(3) by simp
  then show ?case by (intro mgr_ok_shrink [OF h]) simp
next
  case (ms_destroy fl m exec env benv sf n)
  then have h: "fc_inv ([], mg_prov m)" "boxes_ok cfg (fc_ids (mg_prov m))" by (simp_all add: mgr_ok_def)
  show ?case by (rule mgr_ok_shrink [OF h fc.destroy_inv [OF h(1)]])
next
  case (ms_pause fl m exec env benv sf n)
  then have h: "fc_inv ([], mg_prov m)" "boxes_ok cfg (fc_ids (mg_prov m))" by (simp_all add: mgr_ok_def)
  show ?case using h(2) fc.pause_inv [OF h(1), of exec env benv sf n] by (simp add: mgr_ok_def)
next
  case (ms_resume fl m exec env benv sf n)
  then have h: "fc_inv ([], mg_prov m)" "boxes_ok cfg (fc_ids (mg_prov m))" by (simp_all add: mgr_ok_def)
  show ?case using h(2) fc.resume_inv [OF h(1), of exec env benv sf n] by (simp add: mgr_ok_def)
next
  case (ms_policy fl m b pol)
  then show ?case by (auto simp: mgr_ok_def mgr_SetNetworkPolicy_def split: option.splits prod.splits)
next
  case (ms_restart fl m e alive serveOK)
  then have h: "fc_inv ([], mg_prov m)" "boxes_ok cfg (fc_ids (mg_prov m))" by (simp_all add: mgr_ok_def)
  have "fc_ids (fc_restart alive serveOK (mg_prov m)) = fc_ids (mg_prov m)"
    by (rule fc_ids_cong [OF restart_live_id [OF h(1)] ns_restart])
  with h fc_step_inv [OF st_restart h(1)] show ?case by (simp add: mgr_ok_def)
qed

lemma mgr_reach_ok: "mgr_reach cfg s \<Longrightarrow> mgr_ok cfg s"
  by (induction rule: mgr_reach.induct) (auto intro: mgr_ok_start mgr_step_ok)



lemma sample_mgr_start: "mgr_reach sample_cfg ([], sample_mgr\<lparr>mg_prov := sample_prov\<rparr>)"
  by (rule mr_start) (simp add: fc_start_def sample_prov_def)




end
