(* ===== verification/Registry.thy ===== *)
theory Registry
  imports Spokes Sandbox "HOL-Library.Product_Lexorder"
begin

text \<open>
  The hub's box registry (\<^verbatim>\<open>internal/hub/server.go\<close>, \<^verbatim>\<open>gc.go\<close>): the sessions it keeps in memory and
  in the database, box creation and destruction, the sync pass that folds a spoke's inventory into
  the records, and the resolution of a box id to a session; and the per-box proxies
  (\<^verbatim>\<open>proxy.go\<close>) and box-originated port requests (\<^verbatim>\<open>boxports.go\<close>) that rest on it.

  The state \<open>server\<close> holds the database, the map \<^verbatim>\<open>byToken\<close>, the in-flight claims, the connected
  spokes and \<open>sv_world\<close>, everything outside the hub (the spokes' boxes and the hook programs). What
  the hub asks of that world is the record \<open>cluster_ops\<close>: the box verbs of a spoke and the two
  lifecycle hooks, each a state-passing function. \<open>sv_hookLog\<close> lists the calls of the destroy hooks.
  An operation reads the clock once; random values are arguments, \<open>None\<close> when the source fails.
\<close>

subsection \<open>Sessions\<close>

record session =
  ses_Token :: string
  ses_Generation :: string
  ses_CreatedAt :: time
  ses_HookState :: "hook_state option"
  ses_BoxID :: string
  ses_Description :: string
  ses_SpokeName :: string
  ses_Phase :: string
  ses_InitError :: string
  ses_BoxState :: lifecycle
  ses_LastSeen :: "time option"
  ses_Name :: string
  ses_Image :: string
  ses_InstanceState :: string

definition terminated :: "session \<Rightarrow> bool" where
  "terminated s \<longleftrightarrow> ses_BoxState s = LifecycleTerminated"

definition paused :: "session \<Rightarrow> bool" where
  "paused s \<longleftrightarrow> ses_InstanceState s = StatePaused"

definition persistLocked :: "session \<Rightarrow> store_box" where
  "persistLocked s =
     \<lparr>sb_Token = ses_Token s, sb_InstanceID = ses_Generation s, sb_BoxID = ses_BoxID s,
      sb_Spoke = ses_SpokeName s, sb_Description = ses_Description s, sb_Status = ses_Phase s,
      sb_LastError = ses_InitError s, sb_HookState = ses_HookState s, sb_Lifecycle = ses_BoxState s,
      sb_CreatedAt = ses_CreatedAt s, sb_ObservedName = ses_Name s, sb_ObservedImage = ses_Image s,
      sb_ObservedState = ses_InstanceState s, sb_ObservedAt = ses_LastSeen s\<rparr>"

definition sessionFromPersisted :: "store_box \<Rightarrow> session" where
  "sessionFromPersisted b =
     \<lparr>ses_Token = sb_Token b, ses_Generation = sb_InstanceID b, ses_CreatedAt = sb_CreatedAt b,
      ses_HookState = sb_HookState b, ses_BoxID = sb_BoxID b, ses_Description = sb_Description b,
      ses_SpokeName = sb_Spoke b, ses_Phase = sb_Status b, ses_InitError = sb_LastError b,
      ses_BoxState = sb_Lifecycle b, ses_LastSeen = sb_ObservedAt b, ses_Name = sb_ObservedName b,
      ses_Image = sb_ObservedImage b, ses_InstanceState = sb_ObservedState b\<rparr>"

subsection \<open>The server and the outside\<close>

datatype reg_error =
    BoxIDRequired
  | InvalidBoxID string
  | RegNoDefaultSpoke
  | RegSpoke spoke_error
  | BoxIDInUse string
  | BoxIDPending string
  | HookFailed string
  | SpokeFailed string
  | TokenFailed
  | NoSuchBox string
  | BoxTerminated string
  | BoxPaused string
  | CommandRequired
  | RegStore store_error
  | ProxyDisabled
  | InvalidPort int
  | SlugFailed
  | NoSuchProxy string int
  | NotOnSpoke string string

record 'w cluster_ops =
  cl_Create :: "string \<Rightarrow> create_options \<Rightarrow> 'w \<Rightarrow> (string + create_result) \<times> 'w"
  cl_List :: "string \<Rightarrow> 'w \<Rightarrow> (string + box list) \<times> 'w"
  cl_Destroy :: "string \<Rightarrow> string \<Rightarrow> 'w \<Rightarrow> (string \<times> bool) option \<times> 'w"
  cl_Pause :: "string \<Rightarrow> string \<Rightarrow> 'w \<Rightarrow> string option \<times> 'w"
  cl_Resume :: "string \<Rightarrow> string \<Rightarrow> 'w \<Rightarrow> string option \<times> 'w"
  cl_Exec :: "string \<Rightarrow> string \<Rightarrow> string list \<Rightarrow> 'w \<Rightarrow> (string + exec_result) \<times> 'w"
  hk_OnCreate :: "string \<times> string \<Rightarrow> 'w \<Rightarrow> (string option \<times> inject_file list \<times> hook_state) \<times> 'w"
  hk_OnDestroy :: "string \<Rightarrow> hook_state \<Rightarrow> 'w \<Rightarrow> string option \<times> 'w"

record 'w server =
  sv_db :: db
  sv_byToken :: "(string, session) table"
  sv_pending :: "string list"
  sv_hub :: "hub option"
  sv_hooks :: bool
  sv_publicURL :: string
  sv_proxyBaseDomain :: string
  sv_hookLog :: "(string \<times> hook_state) list"
  sv_world :: 'w

definition put_box :: "session \<Rightarrow> 'w server \<Rightarrow> 'w server" where
  "put_box s sv = (case PutBox (persistLocked s) (sv_db sv) of Inl _ \<Rightarrow> sv | Inr d \<Rightarrow> sv\<lparr>sv_db := d\<rparr>)"

definition delete_box :: "string \<Rightarrow> 'w server \<Rightarrow> 'w server" where
  "delete_box tok sv = (case DeleteBox tok (sv_db sv) of Inl _ \<Rightarrow> sv | Inr d \<Rightarrow> sv\<lparr>sv_db := d\<rparr>)"

definition server_spoke :: "'w server \<Rightarrow> string \<Rightarrow> spoke_error + string" where
  "server_spoke sv name = spoke (sv_db sv) (sv_hub sv) name"

definition spokeReachable :: "'w server \<Rightarrow> string \<Rightarrow> bool" where
  "spokeReachable sv name = (case server_spoke sv name of Inl _ \<Rightarrow> False | Inr _ \<Rightarrow> True)"

definition runDestroyHooks :: "'w cluster_ops \<Rightarrow> string \<Rightarrow> hook_state option \<Rightarrow> 'w server \<Rightarrow> 'w server" where
  "runDestroyHooks ops boxID state sv =
     (case state of
        None \<Rightarrow> sv
      | Some st \<Rightarrow>
          if \<not> sv_hooks sv \<or> st = [] then sv
          else sv\<lparr>sv_hookLog := sv_hookLog sv @ [(boxID, st)],
                  sv_world := snd (hk_OnDestroy ops boxID st (sv_world sv))\<rparr>)"

subsection \<open>Resolving a box id\<close>

definition betterBoxIDMatch :: "session \<Rightarrow> bool \<times> bool \<Rightarrow> session \<Rightarrow> bool \<times> bool \<Rightarrow> bool" where
  "betterBoxIDMatch c cRank best bestRank =
     (if fst cRank \<noteq> fst bestRank then fst cRank
      else if snd cRank \<noteq> snd bestRank then snd cRank
      else if ses_CreatedAt c \<noteq> ses_CreatedAt best then ses_CreatedAt best < ses_CreatedAt c
      else ses_Token c < ses_Token best)"

definition match_rank :: "'w server \<Rightarrow> session \<Rightarrow> bool \<times> bool" where
  "match_rank sv s = (\<not> terminated s, spokeReachable sv (ses_SpokeName s))"

fun best_match :: "'w server \<Rightarrow> session \<Rightarrow> session list \<Rightarrow> session" where
  "best_match sv best [] = best"
| "best_match sv best (c # cs) =
     best_match sv (if betterBoxIDMatch c (match_rank sv c) best (match_rank sv best) then c else best) cs"

definition box_matches :: "string \<Rightarrow> 'w server \<Rightarrow> session list" where
  "box_matches boxID sv =
     filter (\<lambda>s. ses_BoxID s \<noteq> [] \<and> equal_fold (ses_BoxID s) boxID) (map snd (sv_byToken sv))"

definition lookupByBoxID :: "'w server \<Rightarrow> string \<Rightarrow> session option" where
  "lookupByBoxID sv boxID =
     (case box_matches boxID sv of [] \<Rightarrow> None | m # ms \<Rightarrow> Some (best_match sv m ms))"

subsection \<open>Claims on box ids\<close>

definition reserveBoxID :: "string \<Rightarrow> 'w server \<Rightarrow> reg_error + 'w server" where
  "reserveBoxID boxID sv =
     (if boxID = [] then Inr sv
      else if list_ex (\<lambda>(_, s). equal_fold (ses_BoxID s) boxID \<and> \<not> terminated s) (sv_byToken sv)
      then Inl (BoxIDInUse boxID)
      else if to_lower boxID \<in> set (sv_pending sv) then Inl (BoxIDPending boxID)
      else Inr (sv\<lparr>sv_pending := to_lower boxID # sv_pending sv\<rparr>))"

definition releaseBoxID :: "string \<Rightarrow> 'w server \<Rightarrow> 'w server" where
  "releaseBoxID boxID sv =
     (if boxID = [] then sv else sv\<lparr>sv_pending := filter (\<lambda>p. p \<noteq> to_lower boxID) (sv_pending sv)\<rparr>)"

subsection \<open>Proxies\<close>

definition ProxyEnabled :: "'w server \<Rightarrow> bool" where
  "ProxyEnabled sv \<longleftrightarrow> sv_proxyBaseDomain sv \<noteq> []"

definition SetProxyBaseDomain :: "string \<Rightarrow> 'w server \<Rightarrow> 'w server" where
  "SetProxyBaseDomain domain sv =
     sv\<lparr>sv_proxyBaseDomain := trim_func (\<lambda>c. c = CHR ''.'') (trim_space domain)\<rparr>"

definition findProxy :: "string \<Rightarrow> int \<Rightarrow> 'w server \<Rightarrow> store_error + proxy_record option" where
  "findProxy boxID port sv =
     (case ListProxies (sv_db sv) of
        Inl e \<Rightarrow> Inl e
      | Inr ps \<Rightarrow> Inr (find (\<lambda>p. equal_fold (pr_BoxID p) boxID \<and> pr_Port p = port) ps))"

definition listProxies :: "string \<Rightarrow> 'w server \<Rightarrow> store_error + proxy_record list" where
  "listProxies boxID sv =
     (case ListProxies (sv_db sv) of
        Inl e \<Rightarrow> Inl e
      | Inr ps \<Rightarrow> Inr (if boxID = [] then ps else filter (\<lambda>p. equal_fold (pr_BoxID p) boxID) ps))"

definition createProxy ::
  "time \<Rightarrow> string option \<Rightarrow> string \<Rightarrow> int \<Rightarrow> string \<Rightarrow> string \<Rightarrow> 'w server \<Rightarrow>
   (reg_error + proxy_record) \<times> 'w server"
where
  "createProxy now rnd boxID port createdBy description sv =
     (if \<not> ProxyEnabled sv then (Inl ProxyDisabled, sv)
      else if port < 1 \<or> 65535 < port then (Inl (InvalidPort port), sv)
      else case lookupByBoxID sv boxID of
             None \<Rightarrow> (Inl (NoSuchBox boxID), sv)
           | Some sess \<Rightarrow>
               if terminated sess then (Inl (BoxTerminated boxID), sv)
               else case findProxy boxID port sv of
                      Inl e \<Rightarrow> (Inl (RegStore e), sv)
                    | Inr existing \<Rightarrow>
                        (let reuse = (case existing of
                                        Some p \<Rightarrow> pr_InstanceID p = ses_Generation sess | None \<Rightarrow> False);
                             cleared = (case existing of
                                          None \<Rightarrow> Inr sv
                                        | Some p \<Rightarrow>
                                            (case DeleteProxy (pr_Slug p) (sv_db sv) of
                                               Inl e \<Rightarrow> Inl (RegStore e)
                                             | Inr d \<Rightarrow> Inr (sv\<lparr>sv_db := d\<rparr>)))
                         in if reuse then (Inr (the existing), sv)
                            else case cleared of
                                   Inl e \<Rightarrow> (Inl e, sv)
                                 | Inr sv1 \<Rightarrow>
                                     (case rnd of
                                        None \<Rightarrow> (Inl SlugFailed, sv1)
                                      | Some slug \<Rightarrow>
                                          (let rec = \<lparr>pr_Slug = slug, pr_BoxID = boxID,
                                                      pr_InstanceID = ses_Generation sess, pr_Port = port,
                                                      pr_Spoke = ses_SpokeName sess, pr_CreatedAt = now,
                                                      pr_Owner = createdBy, pr_Description = description\<rparr>
                                           in case SaveProxy rec (sv_db sv1) of
                                                Inl e \<Rightarrow> (Inl (RegStore e), sv1)
                                              | Inr d \<Rightarrow> (Inr rec, sv1\<lparr>sv_db := d\<rparr>)))))"

definition deleteProxy :: "string \<Rightarrow> int \<Rightarrow> 'w server \<Rightarrow> (reg_error + string) \<times> 'w server" where
  "deleteProxy boxID port sv =
     (case findProxy boxID port sv of
        Inl e \<Rightarrow> (Inl (RegStore e), sv)
      | Inr None \<Rightarrow> (Inl (NoSuchProxy boxID port), sv)
      | Inr (Some p) \<Rightarrow>
          (case DeleteProxy (pr_Slug p) (sv_db sv) of
             Inl e \<Rightarrow> (Inl (RegStore e), sv)
           | Inr d \<Rightarrow> (Inr (pr_Slug p), sv\<lparr>sv_db := d\<rparr>)))"

definition deleteProxyBySlug :: "string \<Rightarrow> 'w server \<Rightarrow> reg_error option \<times> 'w server" where
  "deleteProxyBySlug slug sv =
     (case DeleteProxy slug (sv_db sv) of
        Inl e \<Rightarrow> (Some (RegStore e), sv) | Inr d \<Rightarrow> (None, sv\<lparr>sv_db := d\<rparr>))"

fun delete_proxies :: "proxy_record list \<Rightarrow> 'w server \<Rightarrow> 'w server" where
  "delete_proxies [] sv = sv"
| "delete_proxies (p # ps) sv = delete_proxies ps (snd (deleteProxyBySlug (pr_Slug p) sv))"

definition deleteProxiesForBox :: "string \<Rightarrow> 'w server \<Rightarrow> 'w server" where
  "deleteProxiesForBox boxID sv =
     (if boxID = [] \<or> \<not> ProxyEnabled sv then sv
      else case listProxies boxID sv of Inl _ \<Rightarrow> sv | Inr ps \<Rightarrow> delete_proxies ps sv)"

definition proxySlugFromHost :: "string \<Rightarrow> string \<Rightarrow> string option" where
  "proxySlugFromHost base host =
     (if base = [] then None
      else
        let h0 = (case split_host_port host of Some (h, _) \<Rightarrow> h | None \<Rightarrow> host);
            h = to_lower (trim_suffix h0 ''.'');
            suffix = ''.'' @ to_lower base;
            label = trim_suffix h suffix
        in if \<not> has_suffix h suffix then None
           else if label = [] \<or> CHR ''.'' \<in> set label then None
           else Some label)"

text \<open>\<open>port\<close> is the port of the parsed public URL, empty when it has none or does not parse.\<close>

definition proxyURL :: "string \<Rightarrow> 'w server \<Rightarrow> string \<Rightarrow> string" where
  "proxyURL port sv slug =
     (if sv_proxyBaseDomain sv = [] then []
      else
        let scheme = (if has_prefix (sv_publicURL sv) ''http://'' then ''http'' else ''https'');
            host = slug @ ''.'' @ sv_proxyBaseDomain sv
        in scheme @ ''://'' @ (if port \<noteq> [] then join_host_port host port else host) @ ''/'')"

subsection \<open>Resolution is a total order\<close>

text \<open>The order of \<^verbatim>\<open>betterBoxIDMatch\<close> as a key: the smaller key wins.\<close>

definition match_key :: "'w server \<Rightarrow> session \<Rightarrow> bool \<times> bool \<times> int \<times> string" where
  "match_key sv s =
     (terminated s, \<not> spokeReachable sv (ses_SpokeName s), - ses_CreatedAt s, ses_Token s)"

lemma betterBoxIDMatch_key:
  "betterBoxIDMatch c (match_rank sv c) b (match_rank sv b) \<longleftrightarrow> match_key sv c < match_key sv b"
  by (cases "terminated c"; cases "terminated b"; cases "spokeReachable sv (ses_SpokeName c)";
      cases "spokeReachable sv (ses_SpokeName b)")
    (auto simp: betterBoxIDMatch_def match_rank_def match_key_def)

lemma best_match_mem: "best_match sv m ms \<in> set (m # ms)"
  by (induction sv m ms rule: best_match.induct) auto

lemma best_match_least: "x \<in> set (m # ms) \<Longrightarrow> match_key sv (best_match sv m ms) \<le> match_key sv x"
proof (induction ms arbitrary: m x)
  case (Cons c cs)
  let ?m = "if match_key sv c < match_key sv m then c else m"
  have "match_key sv (best_match sv ?m cs) \<le> match_key sv x"
  proof (cases "x \<in> set cs")
    case True
    then show ?thesis using Cons.IH [of x ?m] by simp
  next
    case False
    with Cons.prems have "match_key sv ?m \<le> match_key sv x" by auto
    moreover have "match_key sv (best_match sv ?m cs) \<le> match_key sv ?m" by (rule Cons.IH) simp
    ultimately show ?thesis by (rule order_trans [rotated])
  qed
  then show ?case by (simp only: best_match.simps betterBoxIDMatch_key)
qed simp

definition tokens_ok :: "'w server \<Rightarrow> bool" where
  "tokens_ok sv \<longleftrightarrow> keys_distinct (sv_byToken sv) \<and> (\<forall>(k, s) \<in> set (sv_byToken sv). ses_Token s = k)"

lemma tokens_okD: "tokens_ok sv \<Longrightarrow> (k, s) \<in> set (sv_byToken sv) \<Longrightarrow> ses_Token s = k"
  by (auto simp: tokens_ok_def)

lemma box_matches_inj:
  assumes "tokens_ok sv" and "s \<in> set (box_matches b sv)" and "s' \<in> set (box_matches b sv)"
    and "match_key sv s = match_key sv s'"
  shows "s = s'"
proof -
  from assms(2,3) obtain k k' where m: "(k, s) \<in> set (sv_byToken sv)" "(k', s') \<in> set (sv_byToken sv)"
    by (auto simp: box_matches_def)
  moreover have "ses_Token s = ses_Token s'" using assms(4) by (simp add: match_key_def)
  ultimately have "k = k'" using tokens_okD [OF assms(1) m(1)] tokens_okD [OF assms(1) m(2)] by simp
  with m assms(1) show ?thesis by (simp add: tokens_ok_def mem_tget)
qed

lemma lookupByBoxID_least:
  assumes "tokens_ok sv"
  shows "lookupByBoxID sv b = Some s \<longleftrightarrow> s \<in> set (box_matches b sv) \<and>
    (\<forall>x \<in> set (box_matches b sv). match_key sv s \<le> match_key sv x)"
proof (cases "box_matches b sv")
  case (Cons m ms)
  have l: "lookupByBoxID sv b = Some (best_match sv m ms)" by (simp add: lookupByBoxID_def Cons)
  have best: "best_match sv m ms \<in> set (box_matches b sv)"
    "\<forall>x \<in> set (box_matches b sv). match_key sv (best_match sv m ms) \<le> match_key sv x"
    using best_match_mem [of sv m ms] best_match_least [of _ m ms sv] by (simp_all add: Cons)
  show ?thesis
  proof
    assume "lookupByBoxID sv b = Some s"
    with l best show "s \<in> set (box_matches b sv) \<and> (\<forall>x \<in> set (box_matches b sv). match_key sv s \<le> match_key sv x)"
      by simp
  next
    assume s: "s \<in> set (box_matches b sv) \<and> (\<forall>x \<in> set (box_matches b sv). match_key sv s \<le> match_key sv x)"
    then have "match_key sv s = match_key sv (best_match sv m ms)" using best by (meson order_antisym)
    with box_matches_inj [OF assms] s best l show "lookupByBoxID sv b = Some s" by metis
  qed
qed (simp add: lookupByBoxID_def)

lemma lookupByBoxID_mem:
  assumes "lookupByBoxID sv b = Some s"
  shows "\<exists>tok. (tok, s) \<in> set (sv_byToken sv)" and "equal_fold (ses_BoxID s) b" and "ses_BoxID s \<noteq> []"
proof -
  have "s \<in> set (box_matches b sv)"
    using assms best_match_mem by (fastforce simp: lookupByBoxID_def split: list.splits)
  then show "\<exists>tok. (tok, s) \<in> set (sv_byToken sv)" "equal_fold (ses_BoxID s) b" "ses_BoxID s \<noteq> []"
    by (auto simp: box_matches_def)
qed

text \<open>
  Further (lookup_is_deterministic). When several records share a box id, the one a box id resolves to does
  not depend on the order in which the map is ranged over: two registries with the same sessions,
  connections and settings resolve every id alike. A tombstone is chosen only if every match is one,
  and a record on an unreachable spoke only if no live match is on a reachable one.
\<close>

theorem lookup_is_deterministic:
  assumes "tokens_ok sv" and "tokens_ok sv'" and "set (sv_byToken sv) = set (sv_byToken sv')"
    and "sv_db sv = sv_db sv'" and "sv_hub sv = sv_hub sv'"
  shows "lookupByBoxID sv b = lookupByBoxID sv' b \<and>
    (\<forall>s. lookupByBoxID sv b = Some s \<longrightarrow>
       (terminated s \<longrightarrow> (\<forall>x \<in> set (box_matches b sv). terminated x)) \<and>
       (\<not> terminated s \<and> \<not> spokeReachable sv (ses_SpokeName s) \<longrightarrow>
          (\<forall>x \<in> set (box_matches b sv). \<not> terminated x \<longrightarrow> \<not> spokeReachable sv (ses_SpokeName x)))) \<and>
    (lookupByBoxID sv b = None \<longleftrightarrow> box_matches b sv = [])"
proof -
  have m: "set (box_matches b sv) = set (box_matches b sv')"
    using assms(3) by (auto simp: box_matches_def)
  have k: "match_key sv = match_key sv'"
    using assms(4,5) by (auto simp: match_key_def spokeReachable_def server_spoke_def)
  have "lookupByBoxID sv b = Some s \<longleftrightarrow> lookupByBoxID sv' b = Some s" for s
    by (simp only: lookupByBoxID_least [OF assms(1)] lookupByBoxID_least [OF assms(2)] m k)
  then have eq: "lookupByBoxID sv b = lookupByBoxID sv' b" by (metis not_None_eq)
  have "(terminated s \<longrightarrow> terminated x) \<and>
      (\<not> terminated s \<and> \<not> spokeReachable sv (ses_SpokeName s) \<longrightarrow> \<not> terminated x \<longrightarrow>
       \<not> spokeReachable sv (ses_SpokeName x))"
    if "lookupByBoxID sv b = Some s" "x \<in> set (box_matches b sv)" for s x
    using that lookupByBoxID_least [OF assms(1), of b s] by (auto simp: match_key_def)
  moreover have "lookupByBoxID sv b = None \<longleftrightarrow> box_matches b sv = []"
    by (simp add: lookupByBoxID_def split: list.split)
  ultimately show ?thesis using eq by blast
qed

definition blank_server :: "'w \<Rightarrow> 'w server" where
  "blank_server w =
     \<lparr>sv_db = empty_db, sv_byToken = [], sv_pending = [], sv_hub = None, sv_hooks = False,
      sv_publicURL = ''https://hub.example'', sv_proxyBaseDomain = [], sv_hookLog = [], sv_world = w\<rparr>"

definition sample_session :: "string \<Rightarrow> string \<Rightarrow> string \<Rightarrow> lifecycle \<Rightarrow> session" where
  "sample_session tok boxID spokeName st =
     \<lparr>ses_Token = tok, ses_Generation = ''gen-'' @ tok, ses_CreatedAt = 0, ses_HookState = Some [(''h'', ''s'')],
      ses_BoxID = boxID, ses_Description = [], ses_SpokeName = spokeName, ses_Phase = ''ready'',
      ses_InitError = [], ses_BoxState = st, ses_LastSeen = None, ses_Name = [], ses_Image = [],
      ses_InstanceState = []\<rparr>"

theorem lookup_is_deterministic_witness:
  "lookupByBoxID (blank_server ()\<lparr>sv_byToken :=
       [(''t1'', sample_session ''t1'' ''web'' ''a'' LifecycleTerminated),
        (''t2'', sample_session ''t2'' ''web'' ''a'' LifecycleRunning)]\<rparr>) ''WEB'' =
   lookupByBoxID (blank_server ()\<lparr>sv_byToken :=
       [(''t2'', sample_session ''t2'' ''web'' ''a'' LifecycleRunning),
        (''t1'', sample_session ''t1'' ''web'' ''a'' LifecycleTerminated)]\<rparr>) ''WEB''"
  by (rule conjunct1 [OF lookup_is_deterministic])
    (auto simp: tokens_ok_def keys_distinct_def blank_server_def sample_session_def)

subsection \<open>Proxy host names\<close>

lemma trim_right_func_last: "trim_right_func P s \<noteq> [] \<Longrightarrow> \<not> P (last (trim_right_func P s))"
  using hd_dropWhile [of P "rev s"] by (auto simp: trim_right_func_def last_rev)

lemma SetProxyBaseDomain_last:
  "sv_proxyBaseDomain (SetProxyBaseDomain domain sv) \<noteq> [] \<Longrightarrow>
     last (sv_proxyBaseDomain (SetProxyBaseDomain domain sv)) \<noteq> CHR ''.''"
  using trim_right_func_last by (fastforce simp: SetProxyBaseDomain_def trim_func_def)

lemma trim_suffix_dot: "s \<noteq> [] \<Longrightarrow> last s \<noteq> CHR ''.'' \<Longrightarrow> trim_suffix s ''.'' = s"
  by (auto simp: trim_suffix_def has_suffix_iff)

lemma proxySlugFromHost_host:
  assumes "base \<noteq> []" and "last base \<noteq> CHR ''.''" and "slug \<noteq> []" and "list_all is_alnum slug"
    and "split_host_port host = None \<and> host = slug @ ''.'' @ base \<or>
         (\<exists>p. split_host_port host = Some (slug @ ''.'' @ base, p))"
  shows "proxySlugFromHost base host = Some slug"
proof -
  have l: "to_lower slug = slug" using assms(4) by (auto simp: to_lower_def list_all_iff lower_char_alnum intro: map_idI)
  have dot: "CHR ''.'' \<notin> set slug" using assms(4) by (auto simp: list_all_iff is_alnum_def is_lower_def is_digit_def)
  have lower_dot: "to_lower ''.'' = ''.''" by (simp add: to_lower_def lower_char_def)
  let ?h = "slug @ ''.'' @ base"
  have "trim_suffix ?h ''.'' = ?h" using assms(1,2) by (intro trim_suffix_dot) auto
  then have h: "to_lower (trim_suffix ?h ''.'') = slug @ ''.'' @ to_lower base"
    by (simp only: to_lower_append l lower_dot)
  have "has_suffix (slug @ ''.'' @ to_lower base) (''.'' @ to_lower base)" by (auto simp: has_suffix_iff)
  moreover have "trim_suffix (slug @ ''.'' @ to_lower base) (''.'' @ to_lower base) = slug" by (rule trim_suffix_append)
  ultimately show ?thesis
    using assms(1,3,5) dot h by (auto simp: proxySlugFromHost_def Let_def)
qed

text \<open>
  Further (proxy_url_routes_back). The URL the hub advertises for a proxy names a host that the hub's own
  host matching maps back to the proxy's slug, with or without the port of the public URL; and a
  host is only ever mapped to a slug when it is that one label in front of the base domain, so
  hosts of the hub itself and of deeper sub-domains fall through.
\<close>

theorem proxy_url_routes_back:
  assumes "sv = SetProxyBaseDomain domain sv0" and "base = sv_proxyBaseDomain sv" and "base \<noteq> []"
    and "plain_host base" and "CHR '':'' \<notin> set base"
    and "slug \<noteq> []" and "list_all is_alnum slug" and "plain_host port" and "CHR '':'' \<notin> set port"
  shows "(\<exists>scheme authority. proxyURL port sv slug = scheme @ ''://'' @ authority @ ''/'' \<and>
      authority = slug @ ''.'' @ base @ (if port = [] then [] else '':'' @ port) \<and>
      proxySlugFromHost base authority = Some slug) \<and>
    (\<forall>host l. proxySlugFromHost base host = Some l \<longrightarrow>
      l \<noteq> [] \<and> CHR ''.'' \<notin> set l \<and>
      l @ ''.'' @ to_lower base =
        to_lower (trim_suffix (case split_host_port host of Some (h, _) \<Rightarrow> h | None \<Rightarrow> host) ''.''))"
proof -
  let ?h = "slug @ ''.'' @ base"
  let ?a = "?h @ (if port = [] then [] else '':'' @ port)"
  have alnum: "CHR '':'' \<notin> set slug" "plain_host slug"
    using assms(7) by (auto simp: list_all_iff plain_host_def is_alnum_def is_lower_def is_digit_def)
  then have hs: "CHR '':'' \<notin> set ?h" "?h \<noteq> []" "plain_host ?h"
    using assms(4,5) by (auto simp: plain_host_def)
  have "split_host_port ?h = None" using hs(1) by (simp add: split_host_port_def)
  moreover have "split_host_port (?h @ '':'' @ port) = Some (?h, port)"
    using split_join_plain [OF hs assms(8,9)] by simp
  ultimately have "proxySlugFromHost base ?a = Some slug"
    using SetProxyBaseDomain_last [of domain sv0] assms(1-3,6,7)
    by (intro proxySlugFromHost_host) auto
  moreover have "\<exists>scheme. proxyURL port sv slug = scheme @ ''://'' @ ?a @ ''/''"
    using assms(2,3) hs(1) by (auto simp: proxyURL_def Let_def join_host_port_def)
  moreover have "l \<noteq> [] \<and> CHR ''.'' \<notin> set l \<and> l @ ''.'' @ to_lower base =
        to_lower (trim_suffix (case split_host_port host of Some (h, _) \<Rightarrow> h | None \<Rightarrow> host) ''.'')"
    if "proxySlugFromHost base host = Some l" for host l
    using that by (auto simp: proxySlugFromHost_def Let_def has_suffix_iff trim_suffix_append
        split: if_splits)
  ultimately show ?thesis by auto
qed

theorem proxy_url_routes_back_witness:
  "\<exists>scheme authority.
     proxyURL ''8443'' (SetProxyBaseDomain ''.proxy.io. '' (blank_server ())) ''ab12'' = scheme @ ''://'' @ authority @ ''/'' \<and>
     authority = ''ab12.proxy.io:8443'' \<and> proxySlugFromHost ''proxy.io'' authority = Some ''ab12''"
proof -
  have b: "sv_proxyBaseDomain (SetProxyBaseDomain ''.proxy.io. '' (blank_server ())) = ''proxy.io''"
    by (simp add: SetProxyBaseDomain_def trim_func_def trim_left_func_def trim_right_func_def trim_space_def is_space_def)
  show ?thesis
    using conjunct1 [OF proxy_url_routes_back [OF refl b [symmetric], of "''ab12''" "''8443''"]]
    by (simp add: plain_host_def is_alnum_def is_lower_def is_digit_def)
qed

end
