(* ===== verification/Boxes.thy ===== *)
theory Boxes
  imports Registry Wire
begin

text \<open>
  The operations of the hub on boxes (\<^verbatim>\<open>internal/hub/server.go\<close>, \<^verbatim>\<open>gc.go\<close>, \<^verbatim>\<open>boxports.go\<close>), over the
  registry of \<open>Registry\<close>: restoring it from the database, folding a spoke's inventory into it,
  creating, listing, pausing, resuming and destroying boxes, purging what belonged to a departed
  spoke, and the port requests that originate in a box.

  An operation returns its result (\<open>None\<close> or \<open>Inr\<close> is success) and the new server state; the hooks
  run and the proxies deleted on the way are part of that state also when the result is an error.
\<close>

subsection \<open>Tearing down\<close>

type_synonym torn_box = "string \<times> hook_state option"

fun tear_down :: "'w cluster_ops \<Rightarrow> torn_box list \<Rightarrow> 'w server \<Rightarrow> 'w server" where
  "tear_down ops [] sv = sv"
| "tear_down ops ((boxID, state) # ts) sv =
     tear_down ops ts (deleteProxiesForBox boxID (runDestroyHooks ops boxID state sv))"

fun run_hooks :: "'w cluster_ops \<Rightarrow> torn_box list \<Rightarrow> 'w server \<Rightarrow> 'w server" where
  "run_hooks ops [] sv = sv"
| "run_hooks ops ((boxID, state) # ts) sv = run_hooks ops ts (runDestroyHooks ops boxID state sv)"

fun delete_boxes :: "string list \<Rightarrow> 'w server \<Rightarrow> 'w server" where
  "delete_boxes [] sv = sv"
| "delete_boxes (tok # toks) sv = delete_boxes toks (delete_box tok sv)"

text \<open>\<open>drop_sessions P\<close> takes the sessions satisfying \<open>P\<close> out of \<^verbatim>\<open>byToken\<close> and returns them.\<close>

definition drop_sessions :: "(session \<Rightarrow> bool) \<Rightarrow> 'w server \<Rightarrow> (string \<times> session) list \<times> 'w server" where
  "drop_sessions P sv =
     (filter (\<lambda>(_, s). P s) (sv_byToken sv),
      sv\<lparr>sv_byToken := filter (\<lambda>(_, s). \<not> P s) (sv_byToken sv)\<rparr>)"

definition torn_of :: "session \<Rightarrow> torn_box" where
  "torn_of s = (ses_BoxID s, ses_HookState s)"

subsection \<open>Purging departed spokes\<close>

definition knownSpokeNames :: "'w server \<Rightarrow> store_error + string list" where
  "knownSpokeNames sv =
     (case ListSpokes (sv_db sv) of Inl e \<Rightarrow> Inl e | Inr recs \<Rightarrow> Inr (map sr_Name recs))"

definition pruneProxiesForDepartedSpokes :: "string list \<Rightarrow> 'w server \<Rightarrow> 'w server" where
  "pruneProxiesForDepartedSpokes known sv =
     (if \<not> ProxyEnabled sv then sv
      else case ListProxies (sv_db sv) of
             Inl _ \<Rightarrow> sv
           | Inr ps \<Rightarrow>
               delete_proxies (filter (\<lambda>p. resolveStoredSpoke (sv_db sv) (pr_Spoke p) \<notin> set known) ps) sv)"

definition PruneDepartedSpokes :: "'w cluster_ops \<Rightarrow> 'w server \<Rightarrow> (reg_error + string list) \<times> 'w server" where
  "PruneDepartedSpokes ops sv =
     (if sv_hub sv = None then (Inr [], sv)
      else case knownSpokeNames sv of
             Inl e \<Rightarrow> (Inl (RegStore e), sv)
           | Inr known \<Rightarrow>
               (let (gone, sv1) = drop_sessions
                      (\<lambda>s. resolveStoredSpoke (sv_db sv) (ses_SpokeName s) \<notin> set known) sv;
                    sv2 = delete_boxes (map fst gone) sv1;
                    sv3 = run_hooks ops (map (torn_of \<circ> snd) gone) sv2
                in (Inr (filter (\<lambda>b. b \<noteq> []) (map (ses_BoxID \<circ> snd) gone)),
                    pruneProxiesForDepartedSpokes known sv3)))"

subsection \<open>Restoring the registry\<close>

fun load_sessions :: "store_box list \<Rightarrow> (string, session) table \<Rightarrow> (string, session) table" where
  "load_sessions [] t = t"
| "load_sessions (b # bs) t = load_sessions bs (tput (sb_Token b) (sessionFromPersisted b) t)"

definition Restore :: "'w cluster_ops \<Rightarrow> 'w server \<Rightarrow> (reg_error + nat) \<times> 'w server" where
  "Restore ops sv =
     (case ListBoxes (sv_db sv) of
        Inl e \<Rightarrow> (Inl (RegStore e), sv)
      | Inr saved \<Rightarrow>
          (let sv1 = sv\<lparr>sv_byToken := load_sessions saved (sv_byToken sv)\<rparr>
           in (Inr (length (sv_byToken sv1)), snd (PruneDepartedSpokes ops sv1))))"

subsection \<open>Folding an inventory into the records\<close>

abbreviation syncTerminateGrace :: duration where
  "syncTerminateGrace \<equiv> 60 * second"

definition store_session :: "string \<Rightarrow> session \<Rightarrow> 'w server \<Rightarrow> 'w server" where
  "store_session tok s sv = put_box s (sv\<lparr>sv_byToken := tput tok s (sv_byToken sv)\<rparr>)"

definition live_box :: "box list \<Rightarrow> session \<Rightarrow> box option" where
  "live_box boxes s = find (\<lambda>b. box_InstanceID b \<noteq> [] \<and> ses_Generation s = box_InstanceID b) boxes"

definition observed :: "time \<Rightarrow> box \<Rightarrow> session \<Rightarrow> session" where
  "observed now b s =
     s\<lparr>ses_BoxState := LifecycleRunning, ses_LastSeen := Some now, ses_Name := box_Name b,
       ses_Image := box_Image b, ses_InstanceState := box_State b\<rparr>"

fun sync_sessions ::
  "time \<Rightarrow> box list \<Rightarrow> (string \<times> session) list \<Rightarrow> 'w server \<Rightarrow> torn_box list \<times> 'w server"
where
  "sync_sessions now boxes [] sv = ([], sv)"
| "sync_sessions now boxes ((tok, s) # ss) sv =
     (case live_box boxes s of
        Some b \<Rightarrow> sync_sessions now boxes ss (store_session tok (observed now b s) sv)
      | None \<Rightarrow>
          if terminated s \<or> now - ses_CreatedAt s < syncTerminateGrace
          then sync_sessions now boxes ss sv
          else
            let s' = s\<lparr>ses_BoxState := LifecycleTerminated\<rparr>;
                (torn, sv') = sync_sessions now boxes ss (store_session tok s' sv)
            in (torn_of s' # torn, sv'))"

definition spoke_sessions :: "string \<Rightarrow> 'w server \<Rightarrow> (string \<times> session) list" where
  "spoke_sessions spokeName sv =
     filter (\<lambda>(_, s). resolveStoredSpoke (sv_db sv) (ses_SpokeName s) = spokeName) (sv_byToken sv)"

definition syncSpokeInventory ::
  "'w cluster_ops \<Rightarrow> time \<Rightarrow> string \<Rightarrow> box list \<Rightarrow> 'w server \<Rightarrow> 'w server"
where
  "syncSpokeInventory ops now spokeName boxes sv =
     (let (torn, sv1) = sync_sessions now boxes (spoke_sessions spokeName sv) sv
      in tear_down ops torn sv1)"

definition list_spoke :: "'w cluster_ops \<Rightarrow> string \<Rightarrow> 'w server \<Rightarrow> (string + box list) \<times> 'w server" where
  "list_spoke ops name sv =
     (let (r, w) = cl_List ops name (sv_world sv) in (r, sv\<lparr>sv_world := w\<rparr>))"

definition syncSpoke :: "'w cluster_ops \<Rightarrow> time \<Rightarrow> string \<Rightarrow> string \<Rightarrow> 'w server \<Rightarrow> 'w server" where
  "syncSpoke ops now name mgr sv =
     (case list_spoke ops mgr sv of
        (Inl _, sv1) \<Rightarrow> sv1
      | (Inr boxes, sv1) \<Rightarrow> syncSpokeInventory ops now name boxes sv1)"

definition proxy_alive :: "proxy_record \<Rightarrow> box list \<Rightarrow> bool" where
  "proxy_alive p boxes =
     list_ex (\<lambda>b. if pr_InstanceID p \<noteq> [] then has_prefix (pr_InstanceID p) (box_InstanceID b)
                  else box_BoxID b \<noteq> [] \<and> equal_fold (box_BoxID b) (pr_BoxID p)) boxes"

definition reconcileProxies :: "(string, box list) table \<Rightarrow> 'w server \<Rightarrow> 'w server" where
  "reconcileProxies boxesBySpoke sv =
     (case ListProxies (sv_db sv) of
        Inl _ \<Rightarrow> sv
      | Inr ps \<Rightarrow>
          delete_proxies
            (filter (\<lambda>p. case tget boxesBySpoke (resolveStoredSpoke (sv_db sv) (pr_Spoke p)) of
                           None \<Rightarrow> False
                         | Some boxes \<Rightarrow> \<not> proxy_alive p boxes) ps) sv)"

fun list_spokes ::
  "'w cluster_ops \<Rightarrow> string list \<Rightarrow> 'w server \<Rightarrow> (string, box list) table \<times> 'w server"
where
  "list_spokes ops [] sv = ([], sv)"
| "list_spokes ops (n # ns) sv =
     (case list_spoke ops n sv of
        (Inl _, sv1) \<Rightarrow> list_spokes ops ns sv1
      | (Inr boxes, sv1) \<Rightarrow> (let (t, sv2) = list_spokes ops ns sv1 in (tput n boxes t, sv2)))"

fun sync_inventories ::
  "'w cluster_ops \<Rightarrow> time \<Rightarrow> (string, box list) table \<Rightarrow> 'w server \<Rightarrow> 'w server"
where
  "sync_inventories ops now [] sv = sv"
| "sync_inventories ops now ((n, boxes) # t) sv =
     sync_inventories ops now t (syncSpokeInventory ops now n boxes sv)"

definition syncSpokes :: "'w cluster_ops \<Rightarrow> time \<Rightarrow> 'w server \<Rightarrow> 'w server" where
  "syncSpokes ops now sv =
     (let (t, sv1) = list_spokes ops (allSpokes (sv_hub sv)) sv
      in reconcileProxies t (sync_inventories ops now t sv1))"

text \<open>One tick of \<^verbatim>\<open>ReapLoop\<close>.\<close>

definition reap_tick :: "'w cluster_ops \<Rightarrow> time \<Rightarrow> 'w server \<Rightarrow> 'w server" where
  "reap_tick ops now sv =
     (let sv1 = (case PurgeExpiredIdentities now (sv_db sv) of Inl _ \<Rightarrow> sv | Inr d \<Rightarrow> sv\<lparr>sv_db := d\<rparr>);
          sv2 = snd (PruneDepartedSpokes ops sv1)
      in syncSpokes ops now sv2)"

definition pruneSessions :: "'w cluster_ops \<Rightarrow> string list \<Rightarrow> 'w server \<Rightarrow> 'w server" where
  "pruneSessions ops reapedIDs sv =
     (let (gone, sv1) = drop_sessions (\<lambda>s. ses_Generation s \<noteq> [] \<and> ses_Generation s \<in> set reapedIDs) sv
      in tear_down ops (map (torn_of \<circ> snd) gone) (delete_boxes (map fst gone) sv1))"

subsection \<open>Creating a box\<close>

definition dropTerminatedRecords :: "string \<Rightarrow> string \<Rightarrow> 'w server \<Rightarrow> 'w server" where
  "dropTerminatedRecords boxID keepToken sv =
     (if boxID = [] then sv
      else
        let dead = (\<lambda>(tok, s). tok \<noteq> keepToken \<and> equal_fold (ses_BoxID s) boxID \<and> terminated s)
        in delete_boxes (map fst (filter dead (sv_byToken sv)))
             (sv\<lparr>sv_byToken := filter (\<lambda>e. \<not> dead e) (sv_byToken sv)\<rparr>))"

text \<open>\<open>slugs i\<close> is the random slug drawn for the \<open>i\<close>-th port of the list.\<close>

fun publish_ports ::
  "time \<Rightarrow> (nat \<Rightarrow> string option) \<Rightarrow> nat \<Rightarrow> session \<Rightarrow> publish_port list \<Rightarrow> 'w server \<Rightarrow> 'w server"
where
  "publish_ports now slugs i s [] sv = sv"
| "publish_ports now slugs i s (p # ps) sv =
     publish_ports now slugs (Suc i) s ps
       (snd (createProxy now (slugs i) (ses_BoxID s) (pp_Port p)
               (''spoke:'' @ resolveStoredSpoke (sv_db sv) (ses_SpokeName s)) (pp_Description p) sv))"

definition publishConfiguredPorts ::
  "time \<Rightarrow> (nat \<Rightarrow> string option) \<Rightarrow> session \<Rightarrow> publish_port list \<Rightarrow> 'w server \<Rightarrow> 'w server"
where
  "publishConfiguredPorts now slugs s ports sv =
     (if ports = [] \<or> ses_BoxID s = [] \<or> \<not> ProxyEnabled sv then sv
      else publish_ports now slugs 0 s ports sv)"

definition new_session ::
  "time \<Rightarrow> string \<Rightarrow> hook_state option \<Rightarrow> create_options \<Rightarrow> string \<Rightarrow> create_result \<Rightarrow> session"
where
  "new_session now hash hookState opts spokeName res =
     \<lparr>ses_Token = hash, ses_Generation = cr_InstanceID res, ses_CreatedAt = now,
      ses_HookState = hookState, ses_BoxID = co_BoxID opts, ses_Description = co_Description opts,
      ses_SpokeName = spokeName,
      ses_Phase = (if cr_InitScriptFailed res then PhaseBroken else ''ready''),
      ses_InitError = cr_InitScriptOutput res, ses_BoxState = LifecycleRunning,
      ses_LastSeen = Some now, ses_Name = [], ses_Image = [], ses_InstanceState = []\<rparr>"

text \<open>
  \<open>launch\<close> is what \<^verbatim>\<open>createBox\<close> does while it holds the claim on the box id: the create hooks, the
  box itself, its session. \<open>h\<close> is the token hash \<^verbatim>\<open>store.HashToken\<close> and \<open>rnd\<close> the random token.
\<close>

definition launch ::
  "(string \<Rightarrow> string) \<Rightarrow> 'w cluster_ops \<Rightarrow> time \<Rightarrow> string option \<Rightarrow> (nat \<Rightarrow> string option) \<Rightarrow>
   create_options \<Rightarrow> string \<Rightarrow> 'w server \<Rightarrow> (reg_error + session) \<times> 'w server"
where
  "launch h ops now rnd slugs opts mgr sv =
     (let ((hookErr, files, state), w1) =
            (if sv_hooks sv then hk_OnCreate ops (co_BoxID opts, co_Description opts) (sv_world sv)
             else ((None, [], []), sv_world sv));
          hookState = (if sv_hooks sv then Some state else None);
          sv1 = sv\<lparr>sv_world := w1\<rparr>
      in case hookErr of
           Some e \<Rightarrow> (Inl (HookFailed e), runDestroyHooks ops (co_BoxID opts) (Some state) sv1)
         | None \<Rightarrow>
             (let opts' = opts\<lparr>co_Files := co_Files opts @ files\<rparr>;
                  (r, w2) = cl_Create ops mgr opts' (sv_world sv1);
                  sv2 = sv1\<lparr>sv_world := w2\<rparr>
              in case r of
                   Inl e \<Rightarrow> (Inl (SpokeFailed e), runDestroyHooks ops (co_BoxID opts) hookState sv2)
                 | Inr res \<Rightarrow>
                     (case rnd of
                        None \<Rightarrow>
                          (let w3 = snd (cl_Destroy ops mgr (cr_InstanceID res) w2)
                           in (Inl TokenFailed,
                               runDestroyHooks ops (co_BoxID opts) hookState (sv2\<lparr>sv_world := w3\<rparr>)))
                      | Some tok \<Rightarrow>
                          (let s = new_session now (h tok) hookState opts mgr res;
                               sv3 = store_session (h tok) s sv2;
                               sv4 = dropTerminatedRecords (co_BoxID opts) (h tok) sv3;
                               sv5 = syncSpoke ops now mgr mgr sv4
                           in (Inr s, publishConfiguredPorts now slugs s (cr_PublishPorts res) sv5)))))"

definition createBox ::
  "(string \<Rightarrow> string) \<Rightarrow> 'w cluster_ops \<Rightarrow> time \<Rightarrow> string option \<Rightarrow> (nat \<Rightarrow> string option) \<Rightarrow>
   create_options \<Rightarrow> 'w server \<Rightarrow> (reg_error + session) \<times> 'w server"
where
  "createBox h ops now rnd slugs opts sv =
     (if co_BoxID opts = [] then (Inl BoxIDRequired, sv)
      else if \<not> ValidBoxID (co_BoxID opts) then (Inl (InvalidBoxID (co_BoxID opts)), sv)
      else
        case (if co_SpokeName opts \<noteq> [] then Inr (co_SpokeName opts)
              else case DefaultSpoke (sv_db sv) of
                     Inl e \<Rightarrow> Inl (RegStore e)
                   | Inr def \<Rightarrow> if def = [] then Inl RegNoDefaultSpoke else Inr def) of
          Inl e \<Rightarrow> (Inl e, sv)
        | Inr spokeName \<Rightarrow>
            (case server_spoke sv spokeName of
               Inl e \<Rightarrow> (Inl (RegSpoke e), sv)
             | Inr mgr \<Rightarrow>
                 (case reserveBoxID (co_BoxID opts) sv of
                    Inl e \<Rightarrow> (Inl e, sv)
                  | Inr sv1 \<Rightarrow>
                      (let (r, sv2) = launch h ops now rnd slugs opts mgr sv1
                       in (r, releaseBoxID (co_BoxID opts) sv2)))))"

subsection \<open>Listing boxes\<close>

definition boxRecords :: "'w server \<Rightarrow> store_box list" where
  "boxRecords sv =
     sort_key (\<lambda>b. (- sb_CreatedAt b, sb_Token b)) (map (persistLocked \<circ> snd) (sv_byToken sv))"

definition connectedSpokeSet :: "'w server \<Rightarrow> string set" where
  "connectedSpokeSet sv = set (allSpokes (sv_hub sv))"

definition shortInstanceID :: "string \<Rightarrow> string" where
  "shortInstanceID i = (if 12 < length i then take 12 i else i)"

definition boxFromRecord :: "'w server \<Rightarrow> store_box \<Rightarrow> string set \<Rightarrow> box" where
  "boxFromRecord sv ps connected =
     (let spoke = resolveStoredSpoke (sv_db sv) (sb_Spoke ps);
          state = (if sb_ObservedState ps = [] then ''running'' else sb_ObservedState ps);
          (state, status) =
            (if sb_Lifecycle ps = LifecycleTerminated then (StateTerminated, ''gone from its spoke'')
             else if spoke \<notin> connected then (StateUnreachable, ''spoke offline'')
             else (state, state))
      in \<lparr>box_InstanceID = shortInstanceID (sb_InstanceID ps), box_Name = sb_ObservedName ps,
          box_BoxID = sb_BoxID ps, box_Description = sb_Description ps, box_Spoke = spoke,
          box_Image = sb_ObservedImage ps, box_State = state, box_Status = status,
          box_Phase = (if sb_Status ps = PhaseBroken then PhaseBroken else []),
          box_LastError = sb_LastError ps, box_Created = sb_CreatedAt ps div second,
          box_LastSeen = (case sb_ObservedAt ps of None \<Rightarrow> 0 | Some t \<Rightarrow> t div second)\<rparr>)"

definition listBoxes :: "'w server \<Rightarrow> box list" where
  "listBoxes sv = map (\<lambda>ps. boxFromRecord sv ps (connectedSpokeSet sv)) (boxRecords sv)"

subsection \<open>Verbs on one box\<close>

definition boxExec ::
  "'w cluster_ops \<Rightarrow> string \<Rightarrow> string \<Rightarrow> 'w server \<Rightarrow> (reg_error + exec_result) \<times> 'w server"
where
  "boxExec ops boxID command sv =
     (if trim_space command = [] then (Inl CommandRequired, sv)
      else case lookupByBoxID sv boxID of
             None \<Rightarrow> (Inl (NoSuchBox boxID), sv)
           | Some s \<Rightarrow>
               if terminated s then (Inl (BoxTerminated boxID), sv)
               else if paused s then (Inl (BoxPaused boxID), sv)
               else case server_spoke sv (ses_SpokeName s) of
                      Inl e \<Rightarrow> (Inl (RegSpoke e), sv)
                    | Inr mgr \<Rightarrow>
                        (let (r, w) = cl_Exec ops mgr (ses_BoxID s) [''/bin/sh'', ''-c'', command] (sv_world sv)
                         in (case r of Inl e \<Rightarrow> Inl (SpokeFailed e) | Inr x \<Rightarrow> Inr x, sv\<lparr>sv_world := w\<rparr>)))"

definition pauseBox :: "'w cluster_ops \<Rightarrow> time \<Rightarrow> string \<Rightarrow> 'w server \<Rightarrow> reg_error option \<times> 'w server" where
  "pauseBox ops now boxID sv =
     (case lookupByBoxID sv boxID of
        None \<Rightarrow> (Some (NoSuchBox boxID), sv)
      | Some s \<Rightarrow>
          if terminated s then (Some (BoxTerminated boxID), sv)
          else case server_spoke sv (ses_SpokeName s) of
                 Inl e \<Rightarrow> (Some (RegSpoke e), sv)
               | Inr mgr \<Rightarrow>
                   (let (r, w) = cl_Pause ops mgr (ses_BoxID s) (sv_world sv);
                        sv1 = sv\<lparr>sv_world := w\<rparr>
                    in case r of
                         Some e \<Rightarrow> (Some (SpokeFailed e), sv1)
                       | None \<Rightarrow> (None, syncSpoke ops now (ses_SpokeName s) mgr sv1)))"

definition resumeBox :: "'w cluster_ops \<Rightarrow> time \<Rightarrow> string \<Rightarrow> 'w server \<Rightarrow> reg_error option \<times> 'w server" where
  "resumeBox ops now boxID sv =
     (case lookupByBoxID sv boxID of
        None \<Rightarrow> (Some (NoSuchBox boxID), sv)
      | Some s \<Rightarrow>
          if terminated s then (Some (BoxTerminated boxID), sv)
          else case server_spoke sv (ses_SpokeName s) of
                 Inl e \<Rightarrow> (Some (RegSpoke e), sv)
               | Inr mgr \<Rightarrow>
                   (let (r, w) = cl_Resume ops mgr (ses_BoxID s) (sv_world sv);
                        sv1 = sv\<lparr>sv_world := w\<rparr>
                    in case r of
                         Some e \<Rightarrow> (Some (SpokeFailed e), sv1)
                       | None \<Rightarrow> (None, syncSpoke ops now (ses_SpokeName s) mgr sv1)))"

subsection \<open>Destroying a box\<close>

definition idMatchesBox :: "string \<Rightarrow> string \<Rightarrow> string \<Rightarrow> bool" where
  "idMatchesBox boxID generation idOrName =
     (if idOrName = [] then False
      else if boxID \<noteq> [] \<and> boxID = idOrName then True
      else generation \<noteq> [] \<and> generation = idOrName)"

definition boxMatchesSession :: "session \<Rightarrow> string \<Rightarrow> bool" where
  "boxMatchesSession s idOrName = idMatchesBox (ses_BoxID s) (ses_Generation s) idOrName"

fun spokeHostingBox ::
  "'w cluster_ops \<Rightarrow> string \<Rightarrow> string list \<Rightarrow> 'w server \<Rightarrow> string option \<times> 'w server"
where
  "spokeHostingBox ops idOrName [] sv = (None, sv)"
| "spokeHostingBox ops idOrName (n # ns) sv =
     (case list_spoke ops n sv of
        (Inl _, sv1) \<Rightarrow> spokeHostingBox ops idOrName ns sv1
      | (Inr boxes, sv1) \<Rightarrow>
          if list_ex (\<lambda>b. idMatchesBox (box_BoxID b) (box_InstanceID b) idOrName) boxes
          then (Some n, sv1) else spokeHostingBox ops idOrName ns sv1)"

definition forget_box :: "'w cluster_ops \<Rightarrow> string \<Rightarrow> 'w server \<Rightarrow> 'w server" where
  "forget_box ops idOrName sv =
     (let (gone, sv1) = drop_sessions (\<lambda>s. boxMatchesSession s idOrName) sv;
          sv2 = delete_boxes (map fst gone) sv1;
          torn = map (torn_of \<circ> snd) (filter (\<lambda>(_, s). \<not> terminated s) gone)
      in deleteProxiesForBox idOrName (tear_down ops torn sv2))"

definition destroyBox :: "'w cluster_ops \<Rightarrow> string \<Rightarrow> 'w server \<Rightarrow> reg_error option \<times> 'w server" where
  "destroyBox ops idOrName sv =
     (let (target, sv1) =
            (case find (\<lambda>s. boxMatchesSession s idOrName) (map snd (sv_byToken sv)) of
               Some s \<Rightarrow>
                 if terminated s then (Inr None, sv)
                 else (case server_spoke sv (ses_SpokeName s) of
                         Inl e \<Rightarrow> (Inl (RegSpoke e), sv) | Inr mgr \<Rightarrow> (Inr (Some mgr), sv))
             | None \<Rightarrow>
                 (let (hosting, sv') = spokeHostingBox ops idOrName (allSpokes (sv_hub sv)) sv
                  in (Inr hosting, sv')))
      in case target of
           Inl e \<Rightarrow> (Some e, sv1)
         | Inr None \<Rightarrow> (None, forget_box ops idOrName sv1)
         | Inr (Some mgr) \<Rightarrow>
             (let (r, w) = cl_Destroy ops mgr idOrName (sv_world sv1);
                  sv2 = sv1\<lparr>sv_world := w\<rparr>
              in case r of
                   Some (msg, False) \<Rightarrow> (Some (SpokeFailed msg), sv2)
                 | _ \<Rightarrow> (None, forget_box ops idOrName sv2)))"

subsection \<open>Requests that originate in a box\<close>

definition boxPortSession :: "'w server \<Rightarrow> string \<Rightarrow> string \<Rightarrow> reg_error + session" where
  "boxPortSession sv spokeName boxID =
     (if boxID = [] then Inl BoxIDRequired
      else case lookupByBoxID sv boxID of
             None \<Rightarrow> Inl (NotOnSpoke boxID spokeName)
           | Some s \<Rightarrow>
               if resolveStoredSpoke (sv_db sv) (ses_SpokeName s) \<noteq> spokeName
               then Inl (NotOnSpoke boxID spokeName) else Inr s)"

definition boxPortInfo :: "string \<Rightarrow> 'w server \<Rightarrow> proxy_record \<Rightarrow> box_port_info" where
  "boxPortInfo urlPort sv rec =
     \<lparr>bp_Port = pr_Port rec, bp_URL = proxyURL urlPort sv (pr_Slug rec), bp_Description = pr_Description rec\<rparr>"

definition OpenBoxPort ::
  "string \<Rightarrow> time \<Rightarrow> string option \<Rightarrow> string \<Rightarrow> string \<Rightarrow> int \<Rightarrow> string \<Rightarrow> 'w server \<Rightarrow>
   (reg_error + box_port_info) \<times> 'w server"
where
  "OpenBoxPort urlPort now rnd spokeName boxID port description sv =
     (if \<not> ProxyEnabled sv then (Inl ProxyDisabled, sv)
      else case boxPortSession sv spokeName boxID of
             Inl e \<Rightarrow> (Inl e, sv)
           | Inr s \<Rightarrow>
               (case createProxy now rnd (ses_BoxID s) port (''box:'' @ ses_BoxID s) description sv of
                  (Inl e, sv1) \<Rightarrow> (Inl e, sv1)
                | (Inr rec, sv1) \<Rightarrow> (Inr (boxPortInfo urlPort sv1 rec), sv1)))"

definition CloseBoxPort :: "string \<Rightarrow> string \<Rightarrow> int \<Rightarrow> 'w server \<Rightarrow> reg_error option \<times> 'w server" where
  "CloseBoxPort spokeName boxID port sv =
     (case boxPortSession sv spokeName boxID of
        Inl e \<Rightarrow> (Some e, sv)
      | Inr s \<Rightarrow>
          (case deleteProxy (ses_BoxID s) port sv of
             (Inl e, sv1) \<Rightarrow> (Some e, sv1) | (Inr _, sv1) \<Rightarrow> (None, sv1)))"

definition ListBoxPorts :: "string \<Rightarrow> string \<Rightarrow> string \<Rightarrow> 'w server \<Rightarrow> reg_error + box_port_info list" where
  "ListBoxPorts urlPort spokeName boxID sv =
     (case boxPortSession sv spokeName boxID of
        Inl e \<Rightarrow> Inl e
      | Inr s \<Rightarrow>
          (case listProxies (ses_BoxID s) sv of
             Inl e \<Rightarrow> Inl (RegStore e) | Inr recs \<Rightarrow> Inr (map (boxPortInfo urlPort sv) recs)))"

definition RecordDNSAudit ::
  "string \<Rightarrow> string \<Rightarrow> string \<Rightarrow> string \<Rightarrow> time \<Rightarrow> 'w server \<Rightarrow> reg_error option \<times> 'w server"
where
  "RecordDNSAudit spokeName boxID domain verdict at sv =
     (case boxPortSession sv spokeName boxID of
        Inl e \<Rightarrow> (Some e, sv)
      | Inr s \<Rightarrow>
          (case RecordDNSLookup (ses_BoxID s) domain verdict at (sv_db sv) of
             Inl e \<Rightarrow> (Some (RegStore e), sv) | Inr d \<Rightarrow> (None, sv\<lparr>sv_db := d\<rparr>)))"

subsection \<open>What each operation leaves alone\<close>

text \<open>
  \<open>frame\<close> relates two states that agree on everything the box operations do not write: the database
  but for boxes, proxies and audit rows, the connections and the configuration. \<open>aside\<close> relates two
  states that agree on the sessions too, and on their rows: only hooks, proxies, audit rows and the
  outside may differ.
\<close>

definition frame :: "'w server \<Rightarrow> 'w server \<Rightarrow> bool" where
  "frame sv sv' \<longleftrightarrow> db_down (sv_db sv') = db_down (sv_db sv) \<and> db_spokes (sv_db sv') = db_spokes (sv_db sv) \<and>
     db_settings (sv_db sv') = db_settings (sv_db sv) \<and> sv_hub sv' = sv_hub sv \<and>
     sv_hooks sv' = sv_hooks sv \<and> sv_proxyBaseDomain sv' = sv_proxyBaseDomain sv \<and>
     sv_publicURL sv' = sv_publicURL sv"

definition aside :: "'w server \<Rightarrow> 'w server \<Rightarrow> bool" where
  "aside sv sv' \<longleftrightarrow> frame sv sv' \<and> sv_byToken sv' = sv_byToken sv \<and>
     db_boxes (sv_db sv') = db_boxes (sv_db sv) \<and> sv_pending sv' = sv_pending sv"

lemma frame_refl [simp, intro]: "frame sv sv"
  by (simp add: frame_def)

lemma frame_trans: "frame a b \<Longrightarrow> frame b c \<Longrightarrow> frame a c"
  by (simp add: frame_def)

lemma aside_refl [simp, intro]: "aside sv sv"
  by (simp add: aside_def)

lemma aside_trans: "aside a b \<Longrightarrow> aside b c \<Longrightarrow> aside a c"
  by (auto simp: aside_def intro: frame_trans)

lemma aside_frame: "aside a b \<Longrightarrow> frame a b"
  by (simp add: aside_def)

lemma frame_settings: "frame a b \<Longrightarrow> resolveStoredSpoke (sv_db b) = resolveStoredSpoke (sv_db a)"
  by (rule ext) (simp add: frame_def resolveStoredSpoke_def DefaultSpoke_def GetSetting_def attempt_def)

lemma aside_world [simp]: "aside sv (sv\<lparr>sv_world := w\<rparr>)"
  by (simp add: aside_def frame_def)

lemma aside_runDestroyHooks: "aside sv (runDestroyHooks ops b st sv)"
  by (auto simp: runDestroyHooks_def aside_def frame_def split: option.splits)

lemma aside_deleteProxyBySlug: "aside sv (snd (deleteProxyBySlug slug sv))"
  by (auto simp: deleteProxyBySlug_def DeleteProxy_def attempt_def aside_def frame_def)

lemma aside_delete_proxies: "aside sv (delete_proxies ps sv)"
  by (induction ps sv rule: delete_proxies.induct) (auto intro: aside_trans aside_deleteProxyBySlug)

lemma aside_deleteProxiesForBox: "aside sv (deleteProxiesForBox b sv)"
  by (auto simp: deleteProxiesForBox_def aside_delete_proxies split: sum.splits)

lemma aside_tear_down: "aside sv (tear_down ops ts sv)"
  by (induction ops ts sv rule: tear_down.induct)
    (auto intro: aside_trans [OF aside_trans [OF aside_runDestroyHooks aside_deleteProxiesForBox]])

lemma aside_run_hooks: "aside sv (run_hooks ops ts sv)"
  by (induction ops ts sv rule: run_hooks.induct) (auto intro: aside_trans aside_runDestroyHooks)

lemma aside_createProxy: "aside sv (snd (createProxy now rnd b p c ds sv))"
  by (auto simp: createProxy_def Let_def DeleteProxy_def SaveProxy_def attempt_def aside_def frame_def
      split: option.splits sum.splits)

lemma aside_deleteProxy: "aside sv (snd (deleteProxy b p sv))"
  by (auto simp: deleteProxy_def DeleteProxy_def attempt_def aside_def frame_def
      split: option.splits sum.splits)

lemma aside_publish_ports: "aside sv (publish_ports now slugs i s ps sv)"
  by (induction now slugs i s ps sv rule: publish_ports.induct)
    (auto intro: aside_trans aside_createProxy)

lemma aside_publishConfiguredPorts: "aside sv (publishConfiguredPorts now slugs s ps sv)"
  by (simp add: publishConfiguredPorts_def aside_publish_ports)

lemma aside_pruneProxies: "aside sv (pruneProxiesForDepartedSpokes known sv)"
  by (auto simp: pruneProxiesForDepartedSpokes_def aside_delete_proxies split: sum.splits)

lemma aside_reconcileProxies: "aside sv (reconcileProxies t sv)"
  by (auto simp: reconcileProxies_def aside_delete_proxies split: sum.splits)

lemma aside_list_spoke: "list_spoke ops n sv = (r, sv') \<Longrightarrow> aside sv sv'"
  by (auto simp: list_spoke_def split: prod.splits)

lemma aside_list_spokes: "aside sv (snd (list_spokes ops ns sv))"
proof (induction ns arbitrary: sv)
  case (Cons n ns)
  obtain r sv1 where l: "list_spoke ops n sv = (r, sv1)" by fastforce
  have "aside sv (snd (list_spokes ops ns sv1))"
    by (rule aside_trans [OF aside_list_spoke [OF l] Cons.IH])
  with l show ?case by (cases r) (auto simp: Let_def split: prod.splits)
qed simp

lemma aside_spokeHostingBox: "aside sv (snd (spokeHostingBox ops i ns sv))"
proof (induction ns arbitrary: sv)
  case (Cons n ns)
  obtain r sv1 where l: "list_spoke ops n sv = (r, sv1)" by fastforce
  have "aside sv (snd (spokeHostingBox ops i ns sv1))"
    by (rule aside_trans [OF aside_list_spoke [OF l] Cons.IH])
  with l aside_list_spoke [OF l] show ?case by (cases r) auto
qed simp

lemma aside_OpenBoxPort: "aside sv (snd (OpenBoxPort u now rnd n b p ds sv))"
proof -
  have "createProxy now rnd x p c ds sv = (r, sv1) \<Longrightarrow> aside sv sv1" for x c r sv1
    using aside_createProxy [of sv now rnd x p c ds] by simp
  then show ?thesis by (auto simp: OpenBoxPort_def split: sum.splits prod.splits)
qed

lemma aside_CloseBoxPort: "aside sv (snd (CloseBoxPort n b p sv))"
proof -
  have "deleteProxy x p sv = (r, sv1) \<Longrightarrow> aside sv sv1" for x r sv1
    using aside_deleteProxy [of sv x p] by simp
  then show ?thesis by (auto simp: CloseBoxPort_def split: sum.splits prod.splits)
qed

lemma aside_RecordDNSAudit: "aside sv (snd (RecordDNSAudit n b dm v at sv))"
  by (auto simp: RecordDNSAudit_def RecordDNSLookup_def Let_def attempt_def aside_def frame_def
      split: sum.splits)

lemmas asides = aside_runDestroyHooks aside_deleteProxiesForBox aside_tear_down aside_run_hooks
  aside_createProxy aside_publishConfiguredPorts aside_pruneProxies aside_reconcileProxies
  aside_list_spokes aside_spokeHostingBox

subsection \<open>The database mirrors the registry\<close>

definition mirror :: "'w server \<Rightarrow> bool" where
  "mirror sv \<longleftrightarrow> keys_distinct (sv_byToken sv) \<and> keys_distinct (db_boxes (sv_db sv)) \<and>
     (\<forall>tok. tget (db_boxes (sv_db sv)) tok = map_option persistLocked (tget (sv_byToken sv) tok)) \<and>
     (\<forall>tok s. tget (sv_byToken sv) tok = Some s \<longrightarrow> ses_Token s = tok)"

definition db_up :: "'w server \<Rightarrow> bool" where
  "db_up sv \<longleftrightarrow> (\<forall>oper. \<not> db_down (sv_db sv) oper)"

lemma frame_db_up: "frame a b \<Longrightarrow> db_up b = db_up a"
  by (simp add: frame_def db_up_def)

lemma aside_mirror: "aside a b \<Longrightarrow> mirror b = mirror a"
  by (simp add: aside_def mirror_def)

lemma mirror_token: "mirror sv \<Longrightarrow> (tok, s) \<in> set (sv_byToken sv) \<Longrightarrow> ses_Token s = tok"
  by (simp add: mirror_def mem_tget)

lemma store_session_up:
  assumes "db_up sv"
  shows "store_session tok s sv = sv\<lparr>sv_byToken := tput tok s (sv_byToken sv),
    sv_db := (sv_db sv)\<lparr>db_boxes := tput (ses_Token s) (persistLocked s) (db_boxes (sv_db sv))\<rparr>\<rparr>"
  using assms by (simp add: store_session_def put_box_def PutBox_def attempt_def db_up_def persistLocked_def)

lemma frame_store_session: "frame sv (store_session tok s sv)"
  by (auto simp: store_session_def put_box_def PutBox_def attempt_def frame_def)

lemma mirror_store_session:
  assumes "mirror sv" and "db_up sv" and "ses_Token s = tok"
  shows "mirror (store_session tok s sv)"
  using assms by (auto simp: mirror_def store_session_up)

lemma delete_boxes_up:
  assumes "db_up sv"
  shows "\<exists>t. delete_boxes toks sv = sv\<lparr>sv_db := (sv_db sv)\<lparr>db_boxes := t\<rparr>\<rparr> \<and>
    (keys_distinct (db_boxes (sv_db sv)) \<longrightarrow> keys_distinct t) \<and>
    (\<forall>k. tget t k = (if k \<in> set toks then None else tget (db_boxes (sv_db sv)) k))"
  using assms
proof (induction toks arbitrary: sv)
  case Nil
  show ?case by (rule exI [of _ "db_boxes (sv_db sv)"]) simp
next
  case (Cons a toks)
  let ?sv = "sv\<lparr>sv_db := (sv_db sv)\<lparr>db_boxes := tdel a (db_boxes (sv_db sv))\<rparr>\<rparr>"
  have d: "delete_box a sv = ?sv"
    using Cons.prems by (simp add: delete_box_def DeleteBox_def attempt_def db_up_def)
  have "db_up ?sv" using Cons.prems by (simp add: db_up_def)
  from Cons.IH [OF this] obtain t where
    "delete_boxes toks ?sv = ?sv\<lparr>sv_db := (sv_db ?sv)\<lparr>db_boxes := t\<rparr>\<rparr>"
    "keys_distinct (db_boxes (sv_db ?sv)) \<longrightarrow> keys_distinct t"
    "\<forall>k. tget t k = (if k \<in> set toks then None else tget (db_boxes (sv_db ?sv)) k)" by blast
  then show ?case by (intro exI [of _ t]) (simp add: d)
qed

lemma mirror_filter:
  fixes Q :: "string \<times> session \<Rightarrow> bool" and sv :: "'w server"
  assumes "mirror sv" and "db_up sv"
  defines "sv1 \<equiv> sv\<lparr>sv_byToken := filter (\<lambda>e. \<not> Q e) (sv_byToken sv)\<rparr>"
  shows "mirror (delete_boxes (map fst (filter Q (sv_byToken sv))) sv1)"
    and "frame sv (delete_boxes (map fst (filter Q (sv_byToken sv))) sv1)"
    and "sv_byToken (delete_boxes (map fst (filter Q (sv_byToken sv))) sv1) = sv_byToken sv1"
    and "sv_hookLog (delete_boxes (map fst (filter Q (sv_byToken sv))) sv1) = sv_hookLog sv"
    and "sv_pending (delete_boxes (map fst (filter Q (sv_byToken sv))) sv1) = sv_pending sv"
    and "db_proxies (sv_db (delete_boxes (map fst (filter Q (sv_byToken sv))) sv1)) = db_proxies (sv_db sv)"
proof -
  have kd: "keys_distinct (sv_byToken sv)" using assms(1) by (simp add: mirror_def)
  have "db_up sv1" using assms(2) by (simp add: sv1_def db_up_def)
  from delete_boxes_up [OF this, of "map fst (filter Q (sv_byToken sv))"] obtain t where
    t: "delete_boxes (map fst (filter Q (sv_byToken sv))) sv1 = sv1\<lparr>sv_db := (sv_db sv1)\<lparr>db_boxes := t\<rparr>\<rparr>"
      "keys_distinct (db_boxes (sv_db sv1)) \<longrightarrow> keys_distinct t"
      "\<And>k. tget t k = (if k \<in> set (map fst (filter Q (sv_byToken sv))) then None else tget (db_boxes (sv_db sv1)) k)"
    by blast
  have "tget t k = map_option persistLocked (tget (filter (\<lambda>e. \<not> Q e) (sv_byToken sv)) k)" for k
  proof -
    have "k \<in> set (map fst (filter Q (sv_byToken sv))) \<longleftrightarrow> (\<exists>s. tget (sv_byToken sv) k = Some s \<and> Q (k, s))"
      by (auto simp: image_iff mem_tget [OF kd, symmetric])
    with t(3) [of k] assms(1) show ?thesis
      by (auto simp: tget_filter [OF kd] mirror_def sv1_def split: option.splits)
  qed
  moreover have "ses_Token s = k" if "tget (filter (\<lambda>e. \<not> Q e) (sv_byToken sv)) k = Some s" for k s
    using that assms(1) by (auto simp: tget_filter [OF kd] mirror_def split: option.splits if_splits)
  ultimately show "mirror (delete_boxes (map fst (filter Q (sv_byToken sv))) sv1)"
    unfolding t(1) using t(2) assms(1) kd by (simp add: mirror_def sv1_def)
qed (use delete_boxes_up [of sv1 "map fst (filter Q (sv_byToken sv))"] assms(2)
      in \<open>auto simp: sv1_def db_up_def frame_def\<close>)

lemma mirror_PruneDepartedSpokes:
  assumes "mirror sv" and "db_up sv"
  shows "mirror (snd (PruneDepartedSpokes ops sv)) \<and> frame sv (snd (PruneDepartedSpokes ops sv))"
proof (cases "sv_hub sv = None")
  case False
  let ?known = "map (sr_Name \<circ> snd) (db_spokes (sv_db sv))"
  let ?Q = "\<lambda>(_, s). resolveStoredSpoke (sv_db sv) (ses_SpokeName s) \<notin> set ?known"
  let ?sv2 = "delete_boxes (map fst (filter ?Q (sv_byToken sv))) (sv\<lparr>sv_byToken := filter (\<lambda>e. \<not> ?Q e) (sv_byToken sv)\<rparr>)"
  have "\<exists>ts. snd (PruneDepartedSpokes ops sv) = pruneProxiesForDepartedSpokes ?known (run_hooks ops ts ?sv2)"
    using False assms(2)
    by (auto simp: PruneDepartedSpokes_def knownSpokeNames_def ListSpokes_def attempt_def db_up_def
        drop_sessions_def Let_def comp_def case_prod_unfold)
  then obtain ts where e: "snd (PruneDepartedSpokes ops sv) = pruneProxiesForDepartedSpokes ?known (run_hooks ops ts ?sv2)"
    by blast
  have "aside ?sv2 (snd (PruneDepartedSpokes ops sv))"
    unfolding e by (rule aside_trans [OF aside_run_hooks aside_pruneProxies])
  with mirror_filter [OF assms, of ?Q] show ?thesis
    using aside_mirror aside_frame frame_trans by blast
qed (use assms in \<open>simp add: PruneDepartedSpokes_def\<close>)

subsection \<open>The sync pass\<close>

definition newly_gone :: "time \<Rightarrow> box list \<Rightarrow> session \<Rightarrow> bool" where
  "newly_gone now boxes s \<longleftrightarrow> live_box boxes s = None \<and> \<not> terminated s \<and>
     syncTerminateGrace \<le> now - ses_CreatedAt s"

definition synced :: "time \<Rightarrow> box list \<Rightarrow> session \<Rightarrow> session" where
  "synced now boxes s =
     (case live_box boxes s of
        Some b \<Rightarrow> observed now b s
      | None \<Rightarrow> if newly_gone now boxes s then s\<lparr>ses_BoxState := LifecycleTerminated\<rparr> else s)"

lemma synced_simps [simp]:
  "ses_Token (synced now boxes s) = ses_Token s" "ses_BoxID (synced now boxes s) = ses_BoxID s"
  "ses_SpokeName (synced now boxes s) = ses_SpokeName s" "ses_Generation (synced now boxes s) = ses_Generation s"
  by (auto simp: synced_def observed_def split: option.splits)

lemma sync_sessions_spec:
  assumes "keys_distinct ss" and "\<And>tok s. (tok, s) \<in> set ss \<Longrightarrow> tget (sv_byToken sv) tok = Some s"
    and "sync_sessions now boxes ss sv = (torn, sv')"
  shows "torn = map torn_of (filter (newly_gone now boxes) (map snd ss)) \<and> frame sv sv' \<and>
    sv_hookLog sv' = sv_hookLog sv \<and> sv_pending sv' = sv_pending sv \<and> sv_world sv' = sv_world sv \<and>
    db_proxies (sv_db sv') = db_proxies (sv_db sv) \<and>
    (\<forall>tok. tget (sv_byToken sv') tok =
       (case tget ss tok of None \<Rightarrow> tget (sv_byToken sv) tok | Some s \<Rightarrow> Some (synced now boxes s))) \<and>
    (mirror sv \<and> db_up sv \<longrightarrow> mirror sv')"
  using assms
proof (induction ss arbitrary: sv torn)
  case (Cons x ss)
  obtain tok s where x: "x = (tok, s)" by fastforce
  from Cons.prems(1) x have kd: "keys_distinct ss" and fresh: "tget ss tok = None"
    by (auto simp: keys_distinct_def tget_def map_of_eq_None_iff)
  have here: "tget (sv_byToken sv) tok = Some s" using Cons.prems(2) x by simp
  have later: "tget (sv_byToken sv) k = Some v" if "(k, v) \<in> set ss" for k v
    using Cons.prems(2) that by simp
  have ne: "k \<noteq> tok" if "(k, v) \<in> set ss" for k v
    using that fresh by (auto simp: mem_tget [OF kd])
  have stored: "mirror (store_session tok s' sv)" if "mirror sv" "db_up sv" "ses_Token s' = ses_Token s" for s'
    using that here mirror_store_session by (metis mirror_def)
  have same: "sv_hookLog (store_session tok s' sv) = sv_hookLog sv" "sv_pending (store_session tok s' sv) = sv_pending sv"
    "sv_world (store_session tok s' sv) = sv_world sv"
    "db_proxies (sv_db (store_session tok s' sv)) = db_proxies (sv_db sv)"
    "sv_byToken (store_session tok s' sv) = tput tok s' (sv_byToken sv)" for s'
    by (auto simp: store_session_def put_box_def PutBox_def attempt_def)
  have step: ?case if "synced now boxes s = s'" "ses_Token s' = ses_Token s"
      "sync_sessions now boxes ss (store_session tok s' sv) = (torn', sv')"
      "torn = (if newly_gone now boxes s then torn_of s # torn' else torn')" for s' torn'
  proof -
    have f: "frame sv (store_session tok s' sv)" by (rule frame_store_session)
    have l: "tget (sv_byToken (store_session tok s' sv)) k = Some v" if "(k, v) \<in> set ss" for k v
      using later [OF that] ne [OF that] same by simp
    from Cons.IH [OF kd l that(3)] that(1,2,4) f fresh show ?thesis
      using frame_trans [OF f] frame_db_up [OF f] stored [OF _ _ that(2)] by (auto simp: x same split: option.splits)
  qed
  show ?case
  proof (cases "live_box boxes s")
    case (Some b)
    with Cons.prems(3) x show ?thesis
      by (intro step [of "observed now b s" torn]) (auto simp: synced_def newly_gone_def observed_def)
  next
    case None
    show ?thesis
    proof (cases "newly_gone now boxes s")
      case True
      let ?s = "s\<lparr>ses_BoxState := LifecycleTerminated\<rparr>"
      obtain torn' where "sync_sessions now boxes ss (store_session tok ?s sv) = (torn', sv')"
        "torn = torn_of ?s # torn'"
        using Cons.prems(3) x None True by (auto simp: newly_gone_def Let_def split: prod.splits)
      with True None show ?thesis
        by (intro step [of ?s torn']) (auto simp: synced_def torn_of_def)
    next
      case False
      with Cons.prems(3) x None have r: "sync_sessions now boxes ss sv = (torn, sv')"
        by (auto simp: newly_gone_def)
      have "synced now boxes s = s" using None False by (simp add: synced_def)
      with Cons.IH [OF kd later r] False here fresh show ?thesis by (simp add: x)
    qed
  qed
qed simp

text \<open>The hook calls a list of torn boxes causes: one for each box that recorded hook state.\<close>

definition hook_calls :: "'w server \<Rightarrow> torn_box list \<Rightarrow> (string \<times> hook_state) list" where
  "hook_calls sv ts =
     (if sv_hooks sv then map (\<lambda>(b, st). (b, the st)) (filter (\<lambda>(_, st). st \<noteq> None \<and> st \<noteq> Some []) ts) else [])"

lemma hook_calls_Nil [simp]: "hook_calls sv [] = []"
  by (simp add: hook_calls_def)

lemma hookLog_runDestroyHooks:
  "sv_hookLog (runDestroyHooks ops b st sv) = sv_hookLog sv @ hook_calls sv [(b, st)]"
  by (auto simp: runDestroyHooks_def hook_calls_def split: option.splits)

lemma hookLog_deleteProxyBySlug: "sv_hookLog (snd (deleteProxyBySlug slug sv)) = sv_hookLog sv"
  by (auto simp: deleteProxyBySlug_def split: sum.splits)

lemma hookLog_delete_proxies: "sv_hookLog (delete_proxies ps sv) = sv_hookLog sv"
  by (induction ps sv rule: delete_proxies.induct) (auto simp: hookLog_deleteProxyBySlug)

lemma hookLog_deleteProxiesForBox: "sv_hookLog (deleteProxiesForBox b sv) = sv_hookLog sv"
  by (auto simp: deleteProxiesForBox_def hookLog_delete_proxies split: sum.splits)

lemma hook_calls_frame: "frame a b \<Longrightarrow> hook_calls b ts = hook_calls a ts"
  by (simp add: hook_calls_def frame_def)

lemma hook_calls_Cons: "hook_calls sv (t # ts) = hook_calls sv [t] @ hook_calls sv ts"
  by (simp add: hook_calls_def)

lemma hookLog_tear_down: "sv_hookLog (tear_down ops ts sv) = sv_hookLog sv @ hook_calls sv ts"
proof (induction ops ts sv rule: tear_down.induct)
  case (2 ops b st ts sv)
  have "frame sv (deleteProxiesForBox b (runDestroyHooks ops b st sv))"
    by (rule aside_frame [OF aside_trans [OF aside_runDestroyHooks aside_deleteProxiesForBox]])
  then show ?case
    by (simp add: 2 hook_calls_frame hookLog_deleteProxiesForBox hookLog_runDestroyHooks
        hook_calls_Cons [of sv "(b, st)" ts])
qed simp

lemma hookLog_run_hooks: "sv_hookLog (run_hooks ops ts sv) = sv_hookLog sv @ hook_calls sv ts"
proof (induction ops ts sv rule: run_hooks.induct)
  case (2 ops b st ts sv)
  then show ?case
    by (simp add: hook_calls_frame [OF aside_frame [OF aside_runDestroyHooks]] hookLog_runDestroyHooks
        hook_calls_Cons [of sv "(b, st)" ts])
qed simp

text \<open>Which proxies a teardown leaves.\<close>

lemma delete_proxies_up:
  assumes "db_up sv"
  shows "set (db_proxies (sv_db (delete_proxies ps sv))) =
    {e \<in> set (db_proxies (sv_db sv)). fst e \<notin> pr_Slug ` set ps}"
  using assms
proof (induction ps arbitrary: sv)
  case (Cons p ps)
  let ?sv = "snd (deleteProxyBySlug (pr_Slug p) sv)"
  have "db_proxies (sv_db ?sv) = tdel (pr_Slug p) (db_proxies (sv_db sv))"
    using Cons.prems by (simp add: deleteProxyBySlug_def DeleteProxy_def attempt_def db_up_def)
  moreover have "db_up ?sv"
    using Cons.prems frame_db_up [OF aside_frame [OF aside_deleteProxyBySlug]] by blast
  ultimately show ?case using Cons.IH [of ?sv] by (auto simp: set_tdel)
qed simp

definition proxies_ok :: "'w server \<Rightarrow> bool" where
  "proxies_ok sv \<longleftrightarrow> keys_distinct (db_proxies (sv_db sv)) \<and> (\<forall>(k, p) \<in> set (db_proxies (sv_db sv)). pr_Slug p = k)"

lemma slug_selects:
  assumes "proxies_ok sv" and "e \<in> set (db_proxies (sv_db sv))"
  shows "fst e \<in> pr_Slug ` set (filter P (map snd (db_proxies (sv_db sv)))) \<longleftrightarrow> P (snd e)"
proof -
  let ?ps = "filter P (map snd (db_proxies (sv_db sv)))"
  have kd: "keys_distinct (db_proxies (sv_db sv))"
    and slug: "\<And>k p. (k, p) \<in> set (db_proxies (sv_db sv)) \<Longrightarrow> pr_Slug p = k"
    using assms(1) by (auto simp: proxies_ok_def)
  obtain k p where e: "e = (k, p)" by fastforce
  have here: "pr_Slug p = k" "tget (db_proxies (sv_db sv)) k = Some p" "p \<in> set (map snd (db_proxies (sv_db sv)))"
    using slug assms(2) e mem_tget [OF kd] by (blast, blast, force)
  have "p' = p" if "p' \<in> set ?ps" "pr_Slug p' = k" for p'
  proof -
    from that(1) obtain k' where "(k', p') \<in> set (db_proxies (sv_db sv))" by auto
    with slug [OF this] that(2) here(2) show ?thesis by (simp add: mem_tget [OF kd])
  qed
  then show ?thesis using here(1,3) e by fastforce
qed

lemma deleteProxiesForBox_up:
  assumes "db_up sv" and "proxies_ok sv" and "ProxyEnabled sv" and "b \<noteq> []"
  shows "set (db_proxies (sv_db (deleteProxiesForBox b sv))) =
    {(k, p) \<in> set (db_proxies (sv_db sv)). \<not> equal_fold (pr_BoxID p) b}"
proof -
  let ?ps = "filter (\<lambda>p. equal_fold (pr_BoxID p) b) (map snd (db_proxies (sv_db sv)))"
  define S where "S = pr_Slug ` set ?ps"
  have "deleteProxiesForBox b sv = delete_proxies ?ps sv"
    using assms by (simp add: deleteProxiesForBox_def listProxies_def ListProxies_def attempt_def db_up_def)
  then have "set (db_proxies (sv_db (deleteProxiesForBox b sv))) = {e \<in> set (db_proxies (sv_db sv)). fst e \<notin> S}"
    by (simp only: delete_proxies_up [OF assms(1)] S_def)
  moreover have "fst e \<in> S \<longleftrightarrow> equal_fold (pr_BoxID (snd e)) b" if "e \<in> set (db_proxies (sv_db sv))" for e
    unfolding S_def by (rule slug_selects [OF assms(2) that])
  ultimately show ?thesis by auto
qed

lemma spoke_sessions_tget:
  assumes "mirror sv"
  shows "keys_distinct (spoke_sessions n sv)"
    and "\<And>tok s. (tok, s) \<in> set (spoke_sessions n sv) \<Longrightarrow> tget (sv_byToken sv) tok = Some s"
    and "\<And>tok. tget (spoke_sessions n sv) tok = (case tget (sv_byToken sv) tok of None \<Rightarrow> None
      | Some s \<Rightarrow> if resolveStoredSpoke (sv_db sv) (ses_SpokeName s) = n then Some s else None)"
proof -
  have kd: "keys_distinct (sv_byToken sv)" using assms by (simp add: mirror_def)
  then show "keys_distinct (spoke_sessions n sv)" by (simp add: spoke_sessions_def)
  show "tget (sv_byToken sv) tok = Some s" if "(tok, s) \<in> set (spoke_sessions n sv)" for tok s
    using that kd by (simp add: spoke_sessions_def mem_tget)
  show "tget (spoke_sessions n sv) tok = (case tget (sv_byToken sv) tok of None \<Rightarrow> None
      | Some s \<Rightarrow> if resolveStoredSpoke (sv_db sv) (ses_SpokeName s) = n then Some s else None)" for tok
    using kd by (simp add: spoke_sessions_def tget_filter split: option.split)
qed

lemma syncSpokeInventory_spec:
  assumes "mirror sv" and "syncSpokeInventory ops now n boxes sv = sv'"
  shows "frame sv sv' \<and> (db_up sv \<longrightarrow> mirror sv') \<and> sv_pending sv' = sv_pending sv \<and>
    (\<forall>tok. tget (sv_byToken sv') tok = (case tget (sv_byToken sv) tok of None \<Rightarrow> None
       | Some s \<Rightarrow> Some (if resolveStoredSpoke (sv_db sv) (ses_SpokeName s) = n then synced now boxes s else s))) \<and>
    sv_hookLog sv' = sv_hookLog sv @
      hook_calls sv (map torn_of (filter (newly_gone now boxes) (map snd (spoke_sessions n sv))))"
proof -
  obtain torn sv1 where r: "sync_sessions now boxes (spoke_sessions n sv) sv = (torn, sv1)" by fastforce
  with assms(2) have sv': "sv' = tear_down ops torn sv1" by (simp add: syncSpokeInventory_def)
  note sp = sync_sessions_spec [OF spoke_sessions_tget(1) [OF assms(1)]
      spoke_sessions_tget(2) [OF assms(1), where n = n] r]
  have a: "aside sv1 sv'" unfolding sv' by (rule aside_tear_down)
  have tok: "tget (sv_byToken sv') tok = (case tget (sv_byToken sv) tok of None \<Rightarrow> None
       | Some s \<Rightarrow> Some (if resolveStoredSpoke (sv_db sv) (ses_SpokeName s) = n then synced now boxes s else s))" for tok
    using a sp spoke_sessions_tget(3) [OF assms(1), of n tok] by (auto simp: aside_def split: option.splits)
  have "sv_hookLog sv' = sv_hookLog sv @ hook_calls sv torn"
    using sp by (auto simp: sv' hookLog_tear_down hook_calls_frame)
  moreover have "frame sv sv'" using sp frame_trans aside_frame [OF a] by blast
  moreover have "db_up sv \<longrightarrow> mirror sv'" using sp assms(1) aside_mirror [OF a] by blast
  moreover have "sv_pending sv' = sv_pending sv" using sp a by (simp add: aside_def)
  ultimately show ?thesis using sp tok by blast
qed

end
