(* ===== verification/Lifecycle.thy ===== *)
theory Lifecycle
  imports Boxes
begin

text \<open>
  What the hub promises about boxes over their life: the database mirrors the registry and a restart
  recovers it (\<open>box_step\<close>), box ids stay unique while creates race (\<open>claim_step\<close>), the sync pass
  tombstones a vanished box once, a destroy forgets exactly the box it names, a purge removes exactly
  what belonged to departed spokes, a proxy stays bound to one generation of its box, and requests
  that originate in a box reach no other box.
\<close>

subsection \<open>The sync pass tombstones once\<close>

lemma live_box_Generation: "ses_Generation s = ses_Generation s' \<Longrightarrow> live_box boxes s = live_box boxes s'"
  by (simp add: live_box_def)

lemma not_newly_gone_synced: "\<not> newly_gone now boxes (synced now boxes s)"
  using live_box_Generation [of "synced now boxes s" s boxes]
  by (auto simp: newly_gone_def synced_def terminated_def observed_def split: option.splits)

lemma spoke_sessions_synced:
  assumes "mirror sv" and "db_up sv" and "syncSpokeInventory ops now n boxes sv = sv'"
    and "(tok, x) \<in> set (spoke_sessions n sv')"
  shows "\<exists>s. x = synced now boxes s"
proof -
  note sp = syncSpokeInventory_spec [OF assms(1,3)]
  have "tget (sv_byToken sv') tok = Some x" "resolveStoredSpoke (sv_db sv') (ses_SpokeName x) = n"
    using assms(2,4) sp spoke_sessions_tget(2) [where sv = sv' and n = n and tok = tok and s = x] by (auto simp: spoke_sessions_def)
  with sp frame_settings [of sv sv'] show ?thesis
    by (auto split: option.splits if_splits)
qed

text \<open>
  C29 (sync_tombstones_once). Folding the inventory of one spoke into the records changes only the records
  of that spoke: a listed box is marked running with its observed name, image and state, a box
  absent from the listing is marked terminated once the record is a minute old, and is left alone
  before; nothing else of a record changes and no record disappears. The destroy hooks run exactly
  for the records that turn from live to terminated, so repeating the pass runs none again.
\<close>

theorem sync_tombstones_once:
  assumes "mirror sv" and "db_up sv" and "syncSpokeInventory ops now n boxes sv = sv'"
  shows "(\<forall>tok. tget (sv_byToken sv') tok = None \<longleftrightarrow> tget (sv_byToken sv) tok = None) \<and>
    (\<forall>tok s. tget (sv_byToken sv) tok = Some s \<longrightarrow> (\<exists>s'. tget (sv_byToken sv') tok = Some s' \<and>
       (resolveStoredSpoke (sv_db sv) (ses_SpokeName s) \<noteq> n \<longrightarrow> s' = s) \<and>
       (resolveStoredSpoke (sv_db sv) (ses_SpokeName s) = n \<longrightarrow>
         (case live_box boxes s of
            Some b \<Rightarrow> s' = s\<lparr>ses_BoxState := LifecycleRunning, ses_LastSeen := Some now, ses_Name := box_Name b,
                            ses_Image := box_Image b, ses_InstanceState := box_State b\<rparr>
          | None \<Rightarrow> s' = (if 60 * second \<le> now - ses_CreatedAt s
                           then s\<lparr>ses_BoxState := LifecycleTerminated\<rparr> else s))))) \<and>
    sv_hookLog sv' = sv_hookLog sv @ hook_calls sv (map torn_of (filter (\<lambda>s. live_box boxes s = None \<and>
        \<not> terminated s \<and> 60 * second \<le> now - ses_CreatedAt s) (map snd (spoke_sessions n sv)))) \<and>
    sv_hookLog (syncSpokeInventory ops now n boxes sv') = sv_hookLog sv'"
proof -
  note sp = syncSpokeInventory_spec [OF assms(1,3)]
  have kept: "(tget (sv_byToken sv') tok = None) = (tget (sv_byToken sv) tok = None)" for tok
    using sp by (simp split: option.split)
  have each: "\<exists>s'. tget (sv_byToken sv') tok = Some s' \<and>
       (resolveStoredSpoke (sv_db sv) (ses_SpokeName s) \<noteq> n \<longrightarrow> s' = s) \<and>
       (resolveStoredSpoke (sv_db sv) (ses_SpokeName s) = n \<longrightarrow>
         (case live_box boxes s of
            Some b \<Rightarrow> s' = s\<lparr>ses_BoxState := LifecycleRunning, ses_LastSeen := Some now, ses_Name := box_Name b,
                            ses_Image := box_Image b, ses_InstanceState := box_State b\<rparr>
          | None \<Rightarrow> s' = (if 60 * second \<le> now - ses_CreatedAt s
                           then s\<lparr>ses_BoxState := LifecycleTerminated\<rparr> else s)))"
    if "tget (sv_byToken sv) tok = Some s" for tok s
    using that sp
    by (auto simp: synced_def newly_gone_def observed_def terminated_def split: option.split)
  have log: "sv_hookLog sv' = sv_hookLog sv @ hook_calls sv (map torn_of (filter (\<lambda>s. live_box boxes s = None \<and>
        \<not> terminated s \<and> 60 * second \<le> now - ses_CreatedAt s) (map snd (spoke_sessions n sv))))"
    using sp by (simp add: newly_gone_def [abs_def])
  have "mirror sv'" using sp assms(2) by blast
  note again = syncSpokeInventory_spec [OF this refl, of ops now n boxes]
  have "filter (newly_gone now boxes) (map snd (spoke_sessions n sv')) = []"
    using spoke_sessions_synced [OF assms] not_newly_gone_synced by (fastforce simp: filter_empty_conv)
  with again have "sv_hookLog (syncSpokeInventory ops now n boxes sv') = sv_hookLog sv'" by simp
  with kept each log show ?thesis by blast
qed

definition no_ops :: "unit cluster_ops" where
  "no_ops =
     \<lparr>cl_Create = (\<lambda>n opts w. (Inr \<lparr>cr_InstanceID = ''gen-'' @ co_BoxID opts, cr_InitScriptFailed = False,
                                    cr_InitScriptOutput = [], cr_PublishPorts = []\<rparr>, w)),
      cl_List = (\<lambda>n w. (Inr [], w)), cl_Destroy = (\<lambda>n i w. (None, w)), cl_Pause = (\<lambda>n i w. (None, w)),
      cl_Resume = (\<lambda>n i w. (None, w)),
      cl_Exec = (\<lambda>n i c w. (Inr \<lparr>er_Stdout = [], er_Stderr = [], er_ExitCode = 0\<rparr>, w)),
      hk_OnCreate = (\<lambda>b w. ((None, [], []), w)), hk_OnDestroy = (\<lambda>b st w. (None, w))\<rparr>"

definition sample_server :: "session list \<Rightarrow> unit server" where
  "sample_server ss =
     (blank_server ())\<lparr>sv_byToken := map (\<lambda>s. (ses_Token s, s)) ss, sv_hooks := True,
        sv_proxyBaseDomain := ''proxy.io'',
        sv_db := empty_db\<lparr>db_boxes := map (\<lambda>s. (ses_Token s, persistLocked s)) ss\<rparr>\<rparr>"

lemma sample_server_ok:
  assumes "distinct (map ses_Token ss)"
  shows "mirror (sample_server ss)" and "db_up (sample_server ss)"
proof -
  have "tget (map (\<lambda>s. (ses_Token s, persistLocked s)) ss) k =
      map_option persistLocked (tget (map (\<lambda>s. (ses_Token s, s)) ss) k)" for k
    by (induction ss) auto
  moreover have "tget (map (\<lambda>s. (ses_Token s, s)) ss) k = Some s \<Longrightarrow> ses_Token s = k" for k s
    by (auto dest: tget_mem)
  ultimately show "mirror (sample_server ss)"
    using assms by (simp add: mirror_def sample_server_def blank_server_def empty_db_def keys_distinct_def comp_def)
  show "db_up (sample_server ss)"
    by (simp add: db_up_def sample_server_def blank_server_def empty_db_def)
qed

theorem sync_tombstones_once_witness:
  "sv_hookLog (syncSpokeInventory no_ops (90 * second) ''gpu'' []
     (sample_server [sample_session ''t1'' ''web'' ''gpu'' LifecycleRunning,
                     sample_session ''t2'' ''old'' ''gpu'' LifecycleTerminated])) =
   [(''web'', [(''h'', ''s'')])]"
proof -
  define ss where "ss = [sample_session ''t1'' ''web'' ''gpu'' LifecycleRunning,
                     sample_session ''t2'' ''old'' ''gpu'' LifecycleTerminated]"
  have "distinct (map ses_Token ss)" by (simp add: ss_def sample_session_def)
  note ok = sample_server_ok [OF this]
  have t: "sv_byToken (sample_server ss) = map (\<lambda>s. (ses_Token s, s)) ss" "sv_hooks (sample_server ss)"
    "sv_hookLog (sample_server ss) = []"
    by (simp_all add: sample_server_def blank_server_def)
  have "sv_hookLog (syncSpokeInventory no_ops (90 * second) ''gpu'' [] (sample_server ss)) =
      sv_hookLog (sample_server ss) @ hook_calls (sample_server ss) (map torn_of (filter (\<lambda>s. live_box [] s = None \<and>
        \<not> terminated s \<and> 60 * second \<le> 90 * second - ses_CreatedAt s) (map snd (spoke_sessions ''gpu'' (sample_server ss)))))"
    using sync_tombstones_once [OF ok refl] by blast
  also have "\<dots> = [(''web'', [(''h'', ''s'')])]"
    unfolding hook_calls_def spoke_sessions_def t(1,3) if_P [OF t(2)]
    by (simp add: ss_def sample_session_def resolveStoredSpoke_def
        live_box_def terminated_def torn_of_def)
  finally show ?thesis unfolding ss_def .
qed

subsection \<open>Destroying a box forgets exactly that box\<close>

lemma proxies_ok_delete: "proxies_ok sv \<Longrightarrow> proxies_ok (snd (deleteProxyBySlug k sv))"
  by (auto simp: proxies_ok_def deleteProxyBySlug_def DeleteProxy_def attempt_def set_tdel)

lemma proxies_ok_delete_proxies: "proxies_ok sv \<Longrightarrow> proxies_ok (delete_proxies ps sv)"
  by (induction ps sv rule: delete_proxies.induct) (auto simp: proxies_ok_delete)

lemma proxies_ok_deleteProxiesForBox: "proxies_ok sv \<Longrightarrow> proxies_ok (deleteProxiesForBox b sv)"
  by (auto simp: deleteProxiesForBox_def proxies_ok_delete_proxies split: sum.splits)

lemma proxies_runDestroyHooks [simp]: "db_proxies (sv_db (runDestroyHooks ops b st sv)) = db_proxies (sv_db sv)"
  by (auto simp: runDestroyHooks_def split: option.splits)

lemma proxies_ok_cong: "db_proxies (sv_db a) = db_proxies (sv_db b) \<Longrightarrow> proxies_ok a = proxies_ok b"
  by (simp add: proxies_ok_def)

lemma ProxyEnabled_frame: "frame a b \<Longrightarrow> ProxyEnabled b = ProxyEnabled a"
  by (simp add: frame_def ProxyEnabled_def)

lemma tear_down_proxies:
  assumes "db_up sv" and "proxies_ok sv" and "ProxyEnabled sv" and "\<And>b st. (b, st) \<in> set ts \<Longrightarrow> b \<noteq> []"
  shows "proxies_ok (tear_down ops ts sv) \<and> set (db_proxies (sv_db (tear_down ops ts sv))) =
    {(k, p) \<in> set (db_proxies (sv_db sv)). \<forall>(b, st) \<in> set ts. \<not> equal_fold (pr_BoxID p) b}"
  using assms
proof (induction ops ts sv rule: tear_down.induct)
  case (2 ops b st ts sv)
  let ?h = "runDestroyHooks ops b st sv"
  let ?sv = "deleteProxiesForBox b ?h"
  have h: "frame sv ?h" by (rule aside_frame [OF aside_runDestroyHooks])
  then have hok: "db_up ?h" "proxies_ok ?h" "ProxyEnabled ?h"
    using 2(2-4) frame_db_up [OF h] ProxyEnabled_frame [OF h] proxies_ok_cong [of ?h sv] by simp_all
  have f: "frame ?h ?sv" by (rule aside_frame [OF aside_deleteProxiesForBox])
  have "b \<noteq> []" by (rule 2(5) [of b st]) simp
  with deleteProxiesForBox_up [OF hok] have here:
    "set (db_proxies (sv_db ?sv)) = {(k, p) \<in> set (db_proxies (sv_db sv)). \<not> equal_fold (pr_BoxID p) b}"
    by simp
  have "proxies_ok (tear_down ops ts ?sv) \<and> set (db_proxies (sv_db (tear_down ops ts ?sv))) =
      {(k, p) \<in> set (db_proxies (sv_db ?sv)). \<forall>(b, st) \<in> set ts. \<not> equal_fold (pr_BoxID p) b}"
    using hok frame_db_up [OF f] ProxyEnabled_frame [OF f] proxies_ok_deleteProxiesForBox [OF hok(2)]
    by (intro 2(1)) (simp_all, metis 2(5) list.set_intros(2))
  with here show ?case by auto
qed simp

lemma forget_box_spec:
  assumes "mirror sv" and "db_up sv"
  shows "mirror (forget_box ops i sv) \<and> frame sv (forget_box ops i sv) \<and>
    sv_pending (forget_box ops i sv) = sv_pending sv \<and>
    sv_byToken (forget_box ops i sv) = filter (\<lambda>(_, s). \<not> boxMatchesSession s i) (sv_byToken sv) \<and>
    sv_hookLog (forget_box ops i sv) = sv_hookLog sv @ hook_calls sv
      (map torn_of (filter (\<lambda>s. boxMatchesSession s i \<and> \<not> terminated s) (map snd (sv_byToken sv)))) \<and>
    (proxies_ok sv \<and> ProxyEnabled sv \<and> i \<noteq> [] \<and> (\<forall>(_, s) \<in> set (sv_byToken sv). ses_BoxID s \<noteq> []) \<longrightarrow>
      set (db_proxies (sv_db (forget_box ops i sv))) = {(k, p) \<in> set (db_proxies (sv_db sv)).
        \<not> equal_fold (pr_BoxID p) i \<and> (\<forall>(_, s) \<in> set (sv_byToken sv).
           boxMatchesSession s i \<and> \<not> terminated s \<longrightarrow> \<not> equal_fold (pr_BoxID p) (ses_BoxID s))})"
proof -
  let ?Q = "\<lambda>(_ :: string, s). boxMatchesSession s i"
  let ?gone = "filter ?Q (sv_byToken sv)"
  define sv2 where "sv2 = delete_boxes (map fst ?gone) (sv\<lparr>sv_byToken := filter (\<lambda>e. \<not> ?Q e) (sv_byToken sv)\<rparr>)"
  let ?torn = "map torn_of (filter (\<lambda>s. boxMatchesSession s i \<and> \<not> terminated s) (map snd (sv_byToken sv)))"
  let ?sv3 = "tear_down ops ?torn sv2"
  have torn: "map (torn_of \<circ> snd) (filter (\<lambda>(_, s). \<not> terminated s) ?gone) = ?torn"
    by (induction "sv_byToken sv") (auto simp: filter_map comp_def case_prod_unfold conj_commute)
  have e: "forget_box ops i sv = deleteProxiesForBox i ?sv3"
    by (simp add: forget_box_def drop_sessions_def Let_def torn [symmetric] sv2_def case_prod_unfold)
  note m = mirror_filter [OF assms, of ?Q, folded sv2_def]
  have a: "aside sv2 (forget_box ops i sv)" unfolding e
    by (rule aside_trans [OF aside_tear_down aside_deleteProxiesForBox])
  have 1: "mirror (forget_box ops i sv) \<and> frame sv (forget_box ops i sv)"
    using m(1,2) a aside_mirror aside_frame frame_trans by blast
  have 2: "sv_pending (forget_box ops i sv) = sv_pending sv"
    "sv_byToken (forget_box ops i sv) = filter (\<lambda>(_, s). \<not> boxMatchesSession s i) (sv_byToken sv)"
    using a m(3,5) by (simp_all add: aside_def case_prod_unfold)
  have 3: "sv_hookLog (forget_box ops i sv) = sv_hookLog sv @ hook_calls sv ?torn"
    unfolding e by (simp only: hookLog_deleteProxiesForBox hookLog_tear_down m(4) hook_calls_frame [OF m(2)])
  have "set (db_proxies (sv_db (forget_box ops i sv))) = {(k, p) \<in> set (db_proxies (sv_db sv)).
        \<not> equal_fold (pr_BoxID p) i \<and> (\<forall>(_, s) \<in> set (sv_byToken sv).
           boxMatchesSession s i \<and> \<not> terminated s \<longrightarrow> \<not> equal_fold (pr_BoxID p) (ses_BoxID s))}"
    if "proxies_ok sv" "ProxyEnabled sv" "i \<noteq> []" "\<forall>(_, s) \<in> set (sv_byToken sv). ses_BoxID s \<noteq> []"
  proof -
    have ok: "db_up sv2" "proxies_ok sv2" "ProxyEnabled sv2"
      using that assms(2) frame_db_up [OF m(2)] ProxyEnabled_frame [OF m(2)] proxies_ok_cong [OF m(6)] by auto
    have ne: "b \<noteq> []" if "(b, st) \<in> set ?torn" for b st
      using that \<open>\<forall>(_, s) \<in> set (sv_byToken sv). ses_BoxID s \<noteq> []\<close> by (auto simp: torn_of_def)
    have td: "proxies_ok ?sv3 \<and> set (db_proxies (sv_db ?sv3)) = {(k, p) \<in> set (db_proxies (sv_db sv2)).
        \<forall>(b, st) \<in> set ?torn. \<not> equal_fold (pr_BoxID p) b}"
      by (rule tear_down_proxies [OF ok]) (rule ne)
    have f: "frame sv2 ?sv3" by (rule aside_frame [OF aside_tear_down])
    have "set (db_proxies (sv_db (forget_box ops i sv))) =
        {(k, p) \<in> set (db_proxies (sv_db ?sv3)). \<not> equal_fold (pr_BoxID p) i}"
      unfolding e using td ok frame_db_up [OF f] ProxyEnabled_frame [OF f] that(3)
      by (intro deleteProxiesForBox_up) auto
    then show ?thesis using td by (auto simp: m(6) torn_of_def)
  qed
  with 1 2 3 show ?thesis by blast
qed

lemma world_delete_proxies: "sv_world (delete_proxies ps sv) = sv_world sv"
  by (induction ps sv rule: delete_proxies.induct)
    (auto simp: deleteProxyBySlug_def split: sum.splits)

lemma world_deleteProxiesForBox: "sv_world (deleteProxiesForBox b sv) = sv_world sv"
  by (auto simp: deleteProxiesForBox_def world_delete_proxies split: sum.splits)

lemma world_delete_boxes: "sv_world (delete_boxes toks sv) = sv_world sv"
  by (induction toks sv rule: delete_boxes.induct) (auto simp: delete_box_def split: sum.splits)

lemma world_forget_tombstones:
  assumes "\<forall>(_, s) \<in> set (sv_byToken sv). boxMatchesSession s i \<longrightarrow> terminated s"
  shows "sv_world (forget_box ops i sv) = sv_world sv"
proof -
  have "filter (\<lambda>(_, s). \<not> terminated s) (filter (\<lambda>(_, s). boxMatchesSession s i) (sv_byToken sv)) = []"
    using assms by (auto simp: filter_empty_conv)
  then show ?thesis
    by (simp add: forget_box_def drop_sessions_def Let_def world_deleteProxiesForBox world_delete_boxes
        case_prod_unfold)
qed

lemma list_spoke_log:
  "list_spoke ops n sv = (r, sv') \<Longrightarrow> sv_hookLog sv' = sv_hookLog sv \<and> sv_db sv' = sv_db sv \<and> sv_hub sv' = sv_hub sv"
  by (auto simp: list_spoke_def split: prod.splits)

lemma spokeHostingBox_world:
  "\<exists>w. snd (spokeHostingBox ops i ns sv) = sv\<lparr>sv_world := w\<rparr>"
proof (induction ns arbitrary: sv)
  case Nil
  show ?case by (rule exI [of _ "sv_world sv"]) simp
next
  case (Cons n ns)
  obtain r w where l: "list_spoke ops n sv = (r, sv\<lparr>sv_world := w\<rparr>)"
    by (cases "cl_List ops n (sv_world sv)") (simp add: list_spoke_def)
  show ?case
    using Cons [of "sv\<lparr>sv_world := w\<rparr>"] by (cases r) (auto simp: l intro: exI [of _ w])
qed

lemma mirror_world [simp]: "mirror (sv\<lparr>sv_world := w\<rparr>) = mirror sv" "db_up (sv\<lparr>sv_world := w\<rparr>) = db_up sv"
  by (simp_all add: mirror_def db_up_def)

text \<open>The outcomes of a destroy: refused with nothing but the outside changed, or the box forgotten.\<close>

lemma destroyBox_cases:
  assumes "destroyBox ops i sv = (r, sv')"
  shows "(r \<noteq> None \<and> (\<exists>w. sv' = sv\<lparr>sv_world := w\<rparr>)) \<or>
    (r = None \<and> (\<exists>w. sv' = forget_box ops i (sv\<lparr>sv_world := w\<rparr>)))"
proof -
  obtain w0 where h: "snd (spokeHostingBox ops i (allSpokes (sv_hub sv)) sv) = sv\<lparr>sv_world := w0\<rparr>"
    using spokeHostingBox_world [of ops i "allSpokes (sv_hub sv)" sv] by (elim exE) simp
  have self: "sv = sv\<lparr>sv_world := sv_world sv\<rparr>" by simp
  show ?thesis
  proof (cases "find (\<lambda>s. boxMatchesSession s i) (map snd (sv_byToken sv))")
    case None
    with assms h show ?thesis
      by (cases "fst (spokeHostingBox ops i (allSpokes (sv_hub sv)) sv)")
        (auto simp: destroyBox_def Let_def case_prod_unfold split: option.splits bool.splits)
  next
    case (Some s)
    with assms show ?thesis
      by (auto simp: destroyBox_def Let_def case_prod_unfold split: option.splits sum.splits if_splits bool.splits)
        (metis self)+
  qed
qed

lemma forget_box_world:
  "hook_calls (sv\<lparr>sv_world := w\<rparr>) ts = hook_calls sv ts" "proxies_ok (sv\<lparr>sv_world := w\<rparr>) = proxies_ok sv"
  "ProxyEnabled (sv\<lparr>sv_world := w\<rparr>) = ProxyEnabled sv"
  by (simp_all add: hook_calls_def proxies_ok_def ProxyEnabled_def)

text \<open>
  C28 (destroy_forgets_exactly). A destroy that succeeds removes exactly the records the identifier names,
  from the registry and from the database, runs the destroy hooks exactly for those that were live,
  and deletes exactly the proxies of the identifier and of the live boxes it named. A destroy that
  fails changes no record, no row, no proxy and runs no hook; it does fail when the record it names is live
  and its spoke is not connected. Removing tombstones contacts no spoke and always succeeds.
\<close>

theorem destroy_forgets_exactly:
  assumes "mirror sv" and "db_up sv" and "destroyBox ops i sv = (r, sv')"
  shows "(r = None \<longrightarrow>
      sv_byToken sv' = filter (\<lambda>(_, s). \<not> boxMatchesSession s i) (sv_byToken sv) \<and>
      (\<forall>tok. tget (db_boxes (sv_db sv')) tok = map_option persistLocked (tget (sv_byToken sv') tok)) \<and>
      sv_hookLog sv' = sv_hookLog sv @ hook_calls sv
        (map torn_of (filter (\<lambda>s. boxMatchesSession s i \<and> \<not> terminated s) (map snd (sv_byToken sv)))) \<and>
      (proxies_ok sv \<and> ProxyEnabled sv \<and> i \<noteq> [] \<and> (\<forall>(_, s) \<in> set (sv_byToken sv). ses_BoxID s \<noteq> []) \<longrightarrow>
        set (db_proxies (sv_db sv')) = {(k, p) \<in> set (db_proxies (sv_db sv)).
          \<not> equal_fold (pr_BoxID p) i \<and> (\<forall>(_, s) \<in> set (sv_byToken sv).
             boxMatchesSession s i \<and> \<not> terminated s \<longrightarrow> \<not> equal_fold (pr_BoxID p) (ses_BoxID s))})) \<and>
    (r \<noteq> None \<longrightarrow> sv_byToken sv' = sv_byToken sv \<and> sv_db sv' = sv_db sv \<and> sv_hookLog sv' = sv_hookLog sv) \<and>
    (\<forall>s. find (\<lambda>s. boxMatchesSession s i) (map snd (sv_byToken sv)) = Some s \<and> \<not> terminated s \<and>
       \<not> spokeReachable sv (ses_SpokeName s) \<longrightarrow> r \<noteq> None) \<and>
    ((\<exists>(_, s) \<in> set (sv_byToken sv). boxMatchesSession s i) \<and>
     (\<forall>(_, s) \<in> set (sv_byToken sv). boxMatchesSession s i \<longrightarrow> terminated s) \<longrightarrow>
       r = None \<and> sv_world sv' = sv_world sv)"
proof (intro conjI impI allI)
  assume "r = None"
  with destroyBox_cases [OF assms(3)] obtain w where e: "sv' = forget_box ops i (sv\<lparr>sv_world := w\<rparr>)" by blast
  note sp = forget_box_spec [of "sv\<lparr>sv_world := w\<rparr>" ops i, folded e, unfolded forget_box_world mirror_world,
      OF assms(1,2), simplified]
  show "sv_byToken sv' = filter (\<lambda>(_, s). \<not> boxMatchesSession s i) (sv_byToken sv)" using sp by blast
  show "tget (db_boxes (sv_db sv')) tok = map_option persistLocked (tget (sv_byToken sv') tok)" for tok
    using sp by (simp add: mirror_def)
  show "sv_hookLog sv' = sv_hookLog sv @ hook_calls sv
        (map torn_of (filter (\<lambda>s. boxMatchesSession s i \<and> \<not> terminated s) (map snd (sv_byToken sv))))"
    using sp by (simp add: forget_box_world)
  show "set (db_proxies (sv_db sv')) = {(k, p) \<in> set (db_proxies (sv_db sv)).
          \<not> equal_fold (pr_BoxID p) i \<and> (\<forall>(_, s) \<in> set (sv_byToken sv).
             boxMatchesSession s i \<and> \<not> terminated s \<longrightarrow> \<not> equal_fold (pr_BoxID p) (ses_BoxID s))}"
    if "proxies_ok sv \<and> ProxyEnabled sv \<and> i \<noteq> [] \<and> (\<forall>(_, s) \<in> set (sv_byToken sv). ses_BoxID s \<noteq> [])"
    using sp that by (simp add: forget_box_world)
next
  assume "r \<noteq> None"
  with destroyBox_cases [OF assms(3)] obtain w where "sv' = sv\<lparr>sv_world := w\<rparr>" by blast
  then show "sv_byToken sv' = sv_byToken sv" "sv_db sv' = sv_db sv" "sv_hookLog sv' = sv_hookLog sv" by simp_all
next
  fix s assume "find (\<lambda>s. boxMatchesSession s i) (map snd (sv_byToken sv)) = Some s \<and> \<not> terminated s \<and>
       \<not> spokeReachable sv (ses_SpokeName s)"
  then show "r \<noteq> None"
    using assms(3) by (auto simp: destroyBox_def Let_def spokeReachable_def split: sum.splits)
next
  assume d: "(\<exists>(_, s) \<in> set (sv_byToken sv). boxMatchesSession s i) \<and>
     (\<forall>(_, s) \<in> set (sv_byToken sv). boxMatchesSession s i \<longrightarrow> terminated s)"
  then obtain s where s: "find (\<lambda>s. boxMatchesSession s i) (map snd (sv_byToken sv)) = Some s"
    by (cases "find (\<lambda>s. boxMatchesSession s i) (map snd (sv_byToken sv))") (auto simp: find_None_iff)
  with d have "terminated s" by (auto simp: find_Some_iff) (metis (no_types, lifting) case_prodD nth_mem prod.collapse)
  with s assms(3) have "r = None" "sv' = forget_box ops i sv" by (simp_all add: destroyBox_def Let_def)
  with world_forget_tombstones d show "r = None" "sv_world sv' = sv_world sv" by blast+
qed

theorem destroy_forgets_exactly_witness:
  "fst (destroyBox no_ops ''old'' (sample_server [sample_session ''t1'' ''web'' ''gpu'' LifecycleRunning,
     sample_session ''t2'' ''old'' ''gpu'' LifecycleTerminated])) = None \<and>
   map fst (sv_byToken (snd (destroyBox no_ops ''old'' (sample_server
     [sample_session ''t1'' ''web'' ''gpu'' LifecycleRunning,
      sample_session ''t2'' ''old'' ''gpu'' LifecycleTerminated])))) = [''t1'']"
proof -
  define ss where "ss = [sample_session ''t1'' ''web'' ''gpu'' LifecycleRunning,
                     sample_session ''t2'' ''old'' ''gpu'' LifecycleTerminated]"
  have "distinct (map ses_Token ss)" by (simp add: ss_def sample_session_def)
  note ok = sample_server_ok [OF this]
  have t: "sv_byToken (sample_server ss) = map (\<lambda>s. (ses_Token s, s)) ss"
    by (simp add: sample_server_def blank_server_def)
  obtain r sv' where d: "destroyBox no_ops ''old'' (sample_server ss) = (r, sv')" by fastforce
  note h = destroy_forgets_exactly [OF ok d]
  have "(\<exists>(_, s) \<in> set (sv_byToken (sample_server ss)). boxMatchesSession s ''old'') \<and>
     (\<forall>(_, s) \<in> set (sv_byToken (sample_server ss)). boxMatchesSession s ''old'' \<longrightarrow> terminated s)"
    unfolding t by (simp add: ss_def sample_session_def boxMatchesSession_def idMatchesBox_def terminated_def)
  with h have r: "r = None" by blast
  with h have "sv_byToken sv' = filter (\<lambda>(_, s). \<not> boxMatchesSession s ''old'') (sv_byToken (sample_server ss))" by blast
  then have "map fst (sv_byToken sv') = [''t1'']"
    unfolding t by (simp add: ss_def sample_session_def boxMatchesSession_def idMatchesBox_def)
  with r d show ?thesis unfolding ss_def [symmetric] by simp
qed

subsection \<open>Purging departed spokes\<close>

lemma PruneDepartedSpokes_up:
  assumes "db_up sv" and "sv_hub sv \<noteq> None" and "knownSpokeNames sv = Inr known"
  defines "Q \<equiv> \<lambda>(_ :: string, s). resolveStoredSpoke (sv_db sv) (ses_SpokeName s) \<notin> set known"
  shows "PruneDepartedSpokes ops sv =
    (Inr (filter (\<lambda>b. b \<noteq> []) (map (ses_BoxID \<circ> snd) (filter Q (sv_byToken sv)))),
     pruneProxiesForDepartedSpokes known (run_hooks ops (map (torn_of \<circ> snd) (filter Q (sv_byToken sv)))
       (delete_boxes (map fst (filter Q (sv_byToken sv)))
          (sv\<lparr>sv_byToken := filter (\<lambda>e. \<not> Q e) (sv_byToken sv)\<rparr>))))"
  using assms by (auto simp: PruneDepartedSpokes_def drop_sessions_def Let_def Q_def case_prod_unfold)

lemma byToken_PruneDepartedSpokes:
  assumes "mirror sv" and "db_up sv" and "sv_hub sv \<noteq> None" and "knownSpokeNames sv = Inr known"
  shows "sv_byToken (snd (PruneDepartedSpokes ops sv)) =
    filter (\<lambda>(_, s). resolveStoredSpoke (sv_db sv) (ses_SpokeName s) \<in> set known) (sv_byToken sv)"
    and "sv_pending (snd (PruneDepartedSpokes ops sv)) = sv_pending sv"
proof -
  let ?Q = "\<lambda>(_ :: string, s). resolveStoredSpoke (sv_db sv) (ses_SpokeName s) \<notin> set known"
  define sv2 where "sv2 = delete_boxes (map fst (filter ?Q (sv_byToken sv)))
          (sv\<lparr>sv_byToken := filter (\<lambda>e. \<not> ?Q e) (sv_byToken sv)\<rparr>)"
  have a: "aside sv2 (snd (PruneDepartedSpokes ops sv))"
    unfolding PruneDepartedSpokes_up [OF assms(2-4)] snd_conv sv2_def
    by (rule aside_trans [OF aside_run_hooks aside_pruneProxies])
  note m = mirror_filter(3,5) [OF assms(1,2), of ?Q, folded sv2_def]
  from a m(1) show "sv_byToken (snd (PruneDepartedSpokes ops sv)) =
    filter (\<lambda>(_, s). resolveStoredSpoke (sv_db sv) (ses_SpokeName s) \<in> set known) (sv_byToken sv)"
    by (simp add: aside_def case_prod_unfold)
  from a m(2) show "sv_pending (snd (PruneDepartedSpokes ops sv)) = sv_pending sv" by (simp add: aside_def)
qed

lemma PruneDepartedSpokes_shrinks:
  assumes "mirror sv" and "db_up sv"
  shows "sv_pending (snd (PruneDepartedSpokes ops sv)) = sv_pending sv \<and>
    (\<exists>P. sv_byToken (snd (PruneDepartedSpokes ops sv)) = filter P (sv_byToken sv))"
proof (cases "sv_hub sv = None")
  case True
  then show ?thesis by (auto simp: PruneDepartedSpokes_def intro!: exI [of _ "\<lambda>_. True"])
next
  case False
  have "knownSpokeNames sv = Inr (map (sr_Name \<circ> snd) (db_spokes (sv_db sv)))"
    using assms(2) by (simp add: knownSpokeNames_def ListSpokes_def attempt_def db_up_def)
  from byToken_PruneDepartedSpokes [OF assms False this] show ?thesis by blast
qed

lemma hookLog_pruneProxies: "sv_hookLog (pruneProxiesForDepartedSpokes known sv) = sv_hookLog sv"
  by (auto simp: pruneProxiesForDepartedSpokes_def hookLog_delete_proxies split: sum.splits)

lemma proxies_run_hooks: "db_proxies (sv_db (run_hooks ops ts sv)) = db_proxies (sv_db sv)"
  by (induction ops ts sv rule: run_hooks.induct) simp_all

lemma pruneProxies_up:
  assumes "db_up sv" and "proxies_ok sv" and "ProxyEnabled sv"
  shows "set (db_proxies (sv_db (pruneProxiesForDepartedSpokes known sv))) =
    {(k, p) \<in> set (db_proxies (sv_db sv)). resolveStoredSpoke (sv_db sv) (pr_Spoke p) \<in> set known}"
proof -
  let ?bad = "\<lambda>p. resolveStoredSpoke (sv_db sv) (pr_Spoke p) \<notin> set known"
  let ?ps = "filter ?bad (map snd (db_proxies (sv_db sv)))"
  define S where "S = pr_Slug ` set ?ps"
  have "pruneProxiesForDepartedSpokes known sv = delete_proxies ?ps sv"
    using assms by (simp add: pruneProxiesForDepartedSpokes_def ListProxies_def attempt_def db_up_def)
  then have "set (db_proxies (sv_db (pruneProxiesForDepartedSpokes known sv))) = {e \<in> set (db_proxies (sv_db sv)). fst e \<notin> S}"
    by (simp only: delete_proxies_up [OF assms(1)] S_def)
  moreover have "fst e \<in> S \<longleftrightarrow> ?bad (snd e)" if "e \<in> set (db_proxies (sv_db sv))" for e
    unfolding S_def by (rule slug_selects [OF assms(2) that])
  ultimately show ?thesis by auto
qed

text \<open>
  Further (prune_removes_departed_only). The purge removes exactly the sessions and proxies whose spoke is not
  enrolled: a spoke that is merely offline keeps everything, whatever is connected. The registry
  and the database stay in step, and the destroy hooks run once for each removed session.
\<close>

theorem prune_removes_departed_only:
  assumes "mirror sv" and "db_up sv" and "proxies_ok sv" and "sv_hub sv \<noteq> None"
    and "knownSpokeNames sv = Inr known" and "PruneDepartedSpokes ops sv = (r, sv')"
  shows "r = Inr (filter (\<lambda>b. b \<noteq> []) (map ses_BoxID (filter
        (\<lambda>s. resolveStoredSpoke (sv_db sv) (ses_SpokeName s) \<notin> set known) (map snd (sv_byToken sv))))) \<and>
    (\<forall>tok. tget (sv_byToken sv') tok = (case tget (sv_byToken sv) tok of None \<Rightarrow> None
       | Some s \<Rightarrow> if resolveStoredSpoke (sv_db sv) (ses_SpokeName s) \<in> set known then Some s else None)) \<and>
    (\<forall>tok. tget (db_boxes (sv_db sv')) tok = map_option persistLocked (tget (sv_byToken sv') tok)) \<and>
    sv_hookLog sv' = sv_hookLog sv @ hook_calls sv (map torn_of (filter
        (\<lambda>s. resolveStoredSpoke (sv_db sv) (ses_SpokeName s) \<notin> set known) (map snd (sv_byToken sv)))) \<and>
    (ProxyEnabled sv \<longrightarrow> set (db_proxies (sv_db sv')) =
      {(k, p) \<in> set (db_proxies (sv_db sv)). resolveStoredSpoke (sv_db sv) (pr_Spoke p) \<in> set known})"
proof -
  let ?Q = "\<lambda>(_ :: string, s). resolveStoredSpoke (sv_db sv) (ses_SpokeName s) \<notin> set known"
  define sv2 where "sv2 = delete_boxes (map fst (filter ?Q (sv_byToken sv)))
          (sv\<lparr>sv_byToken := filter (\<lambda>e. \<not> ?Q e) (sv_byToken sv)\<rparr>)"
  let ?ts = "map (torn_of \<circ> snd) (filter ?Q (sv_byToken sv))"
  let ?sv3 = "run_hooks ops ?ts sv2"
  from PruneDepartedSpokes_up [OF assms(2,4,5), of ops] assms(6) have
    e: "sv' = pruneProxiesForDepartedSpokes known ?sv3"
      "r = Inr (filter (\<lambda>b. b \<noteq> []) (map (ses_BoxID \<circ> snd) (filter ?Q (sv_byToken sv))))"
    by (simp_all add: sv2_def)
  note m = mirror_filter [OF assms(1,2), of ?Q, folded sv2_def]
  have f3: "aside sv2 ?sv3" by (rule aside_run_hooks)
  have a: "aside sv2 sv'" unfolding e(1) by (rule aside_trans [OF f3 aside_pruneProxies])
  have sel: "map (f \<circ> snd) (filter ?Q (sv_byToken sv)) =
      map f (filter (\<lambda>s. resolveStoredSpoke (sv_db sv) (ses_SpokeName s) \<notin> set known) (map snd (sv_byToken sv)))"
    for f :: "session \<Rightarrow> 'b"
    by (simp add: filter_map comp_def case_prod_unfold)
  have kd: "keys_distinct (sv_byToken sv)" using assms(1) by (simp add: mirror_def)
  have 1: "tget (sv_byToken sv') tok = (case tget (sv_byToken sv) tok of None \<Rightarrow> None
       | Some s \<Rightarrow> if resolveStoredSpoke (sv_db sv) (ses_SpokeName s) \<in> set known then Some s else None)" for tok
    using a m(3) by (simp add: aside_def tget_filter [OF kd] split: option.split)
  have "mirror sv'" using m(1) aside_mirror [OF a] by simp
  then have 2: "tget (db_boxes (sv_db sv')) tok = map_option persistLocked (tget (sv_byToken sv') tok)" for tok
    by (simp add: mirror_def)
  have 3: "sv_hookLog sv' = sv_hookLog sv @ hook_calls sv ?ts"
    unfolding e(1) by (simp only: hookLog_pruneProxies hookLog_run_hooks m(4) hook_calls_frame [OF m(2)])
  have "frame sv ?sv3" by (rule frame_trans [OF m(2) aside_frame [OF f3]])
  note fr = this
  have px: "db_proxies (sv_db ?sv3) = db_proxies (sv_db sv)" by (simp only: proxies_run_hooks m(6))
  have "set (db_proxies (sv_db sv')) =
      {(k, p) \<in> set (db_proxies (sv_db sv)). resolveStoredSpoke (sv_db sv) (pr_Spoke p) \<in> set known}" if "ProxyEnabled sv"
    using pruneProxies_up [of ?sv3 known] that assms(2,3) frame_db_up [OF fr] ProxyEnabled_frame [OF fr]
      proxies_ok_cong [OF px] by (simp add: e(1) px frame_settings [OF fr])
  with 1 2 3 e(2) show ?thesis by (simp only: sel) blast
qed

definition sample_cluster :: "session list \<Rightarrow> unit server" where
  "sample_cluster ss =
     (sample_server ss)\<lparr>sv_hub := Some \<lparr>hub_spokes = [], hub_closed = {}\<rparr>,
        sv_db := (sv_db (sample_server ss))\<lparr>db_spokes :=
          [(''gpu'', \<lparr>sr_Name = ''gpu'', sr_CredentialHash = [], sr_EnrolledAt = 0\<rparr>)]\<rparr>\<rparr>"

theorem prune_removes_departed_only_witness:
  "map (\<lambda>t. tget (sv_byToken (snd (PruneDepartedSpokes no_ops (sample_cluster
       [sample_session ''t1'' ''web'' ''gpu'' LifecycleRunning,
        sample_session ''t2'' ''old'' ''gone'' LifecycleTerminated])))) t) [''t1'', ''t2''] =
   [Some (sample_session ''t1'' ''web'' ''gpu'' LifecycleRunning), None]"
proof -
  define ss where "ss = [sample_session ''t1'' ''web'' ''gpu'' LifecycleRunning,
                     sample_session ''t2'' ''old'' ''gone'' LifecycleTerminated]"
  have "distinct (map ses_Token ss)" by (simp add: ss_def sample_session_def)
  note ok = sample_server_ok [OF this]
  define sv where "sv = sample_cluster ss"
  have hyps: "mirror sv" "db_up sv" "proxies_ok sv" "sv_hub sv \<noteq> None" "knownSpokeNames sv = Inr [''gpu'']"
    using ok by (auto simp: sv_def sample_cluster_def mirror_def db_up_def proxies_ok_def sample_server_def
        blank_server_def empty_db_def knownSpokeNames_def ListSpokes_def attempt_def)
  obtain r sv' where p: "PruneDepartedSpokes no_ops sv = (r, sv')" by fastforce
  have t: "sv_byToken sv = map (\<lambda>s. (ses_Token s, s)) ss"
    by (simp add: sv_def sample_cluster_def sample_server_def blank_server_def)
  have "tget (sv_byToken sv') tok = (case tget (sv_byToken sv) tok of None \<Rightarrow> None
       | Some s \<Rightarrow> if resolveStoredSpoke (sv_db sv) (ses_SpokeName s) \<in> set [''gpu''] then Some s else None)" for tok
    using prune_removes_departed_only [OF hyps p] by blast
  then show ?thesis unfolding ss_def [symmetric] sv_def [symmetric] p snd_conv t
    by (simp add: ss_def sample_session_def resolveStoredSpoke_def)
qed

text \<open>The purge replays the destroy hooks of a tombstone, whose hooks ran when it was tombstoned.\<close>

lemma prune_reruns_tombstone_hooks:
  "sv_hookLog (snd (PruneDepartedSpokes no_ops
     ((sample_server [sample_session ''t2'' ''old'' ''gone'' LifecycleTerminated])
       \<lparr>sv_hub := Some \<lparr>hub_spokes = [], hub_closed = {}\<rparr>\<rparr>))) = [(''old'', [(''h'', ''s'')])]"
  by (simp add: PruneDepartedSpokes_def sample_server_def blank_server_def empty_db_def knownSpokeNames_def
      ListSpokes_def attempt_def drop_sessions_def sample_session_def resolveStoredSpoke_def torn_of_def
      delete_box_def DeleteBox_def runDestroyHooks_def no_ops_def pruneProxiesForDepartedSpokes_def
      ProxyEnabled_def ListProxies_def)

subsection \<open>A restart recovers the registry\<close>

definition sound :: "'w server \<Rightarrow> bool" where
  "sound sv \<longleftrightarrow> mirror sv \<and> db_up sv"

lemma sound_aside: "aside a b \<Longrightarrow> sound a \<Longrightarrow> sound b"
  using aside_mirror frame_db_up [OF aside_frame] by (auto simp: sound_def)

lemma sound_syncSpokeInventory: "sound sv \<Longrightarrow> sound (syncSpokeInventory ops now n boxes sv)"
  using syncSpokeInventory_spec [OF _ refl, of sv ops now n boxes]
    frame_db_up [of sv "syncSpokeInventory ops now n boxes sv"] by (simp add: sound_def)

lemma sound_syncSpoke: "sound sv \<Longrightarrow> sound (syncSpoke ops now n mgr sv)"
proof -
  assume s: "sound sv"
  obtain r sv1 where l: "list_spoke ops mgr sv = (r, sv1)" by fastforce
  have "sound sv1" by (rule sound_aside [OF aside_list_spoke [OF l] s])
  with l show ?thesis by (cases r) (simp_all add: syncSpoke_def sound_syncSpokeInventory)
qed

lemma sound_sync_inventories: "sound sv \<Longrightarrow> sound (sync_inventories ops now t sv)"
  by (induction ops now t sv rule: sync_inventories.induct) (auto simp: sound_syncSpokeInventory)

lemma sound_syncSpokes: "sound sv \<Longrightarrow> sound (syncSpokes ops now sv)"
  unfolding syncSpokes_def Let_def case_prod_unfold
  by (intro sound_aside [OF aside_reconcileProxies] sound_sync_inventories sound_aside [OF aside_list_spokes])

lemma sound_prune: "sound sv \<Longrightarrow> sound (snd (PruneDepartedSpokes ops sv))"
  using mirror_PruneDepartedSpokes [of sv ops] frame_db_up by (auto simp: sound_def)

lemma sound_reap_tick: "sound sv \<Longrightarrow> sound (reap_tick ops now sv)"
proof -
  assume s: "sound sv"
  let ?sv1 = "case PurgeExpiredIdentities now (sv_db sv) of Inl _ \<Rightarrow> sv | Inr d \<Rightarrow> sv\<lparr>sv_db := d\<rparr>"
  have "aside sv ?sv1"
    by (auto simp: PurgeExpiredIdentities_def Let_def attempt_def aside_def frame_def)
  then have "sound ?sv1" using s by (rule sound_aside)
  then show ?thesis by (simp add: reap_tick_def Let_def sound_syncSpokes sound_prune)
qed

lemma sound_filter:
  assumes "sound sv"
  shows "sound (delete_boxes (map fst (filter Q (sv_byToken sv))) (sv\<lparr>sv_byToken := filter (\<lambda>e. \<not> Q e) (sv_byToken sv)\<rparr>))"
  using assms mirror_filter(1,2) [of sv Q] frame_db_up by (auto simp: sound_def)

lemma sound_pruneSessions: "sound sv \<Longrightarrow> sound (pruneSessions ops ids sv)"
  using sound_filter [of sv "\<lambda>(_, s). ses_Generation s \<noteq> [] \<and> ses_Generation s \<in> set ids"]
  by (auto simp: pruneSessions_def drop_sessions_def case_prod_unfold intro: sound_aside [OF aside_tear_down])

lemma sound_dropTerminatedRecords: "sound sv \<Longrightarrow> sound (dropTerminatedRecords b k sv)"
  by (simp add: dropTerminatedRecords_def Let_def sound_filter)

lemma sound_store_session: "sound sv \<Longrightarrow> ses_Token s = tok \<Longrightarrow> sound (store_session tok s sv)"
  using mirror_store_session frame_db_up [OF frame_store_session, where a = sv] by (auto simp: sound_def)

lemma sound_world [simp]: "sound (sv\<lparr>sv_world := w\<rparr>) = sound sv"
  by (simp add: sound_def)

lemma sound_launch: "sound sv \<Longrightarrow> sound (snd (launch h ops now rnd slugs opts mgr sv))"
  by (auto simp: launch_def Let_def case_prod_unfold new_session_def split: option.splits sum.splits
      intro!: sound_aside [OF aside_runDestroyHooks] sound_aside [OF aside_publishConfiguredPorts]
        sound_syncSpoke sound_dropTerminatedRecords sound_store_session)

lemma sound_pending [simp]: "sound (sv\<lparr>sv_pending := p\<rparr>) = sound sv"
  by (simp add: sound_def mirror_def db_up_def)

lemma sound_reserve: "reserveBoxID b sv = Inr sv' \<Longrightarrow> sound sv \<Longrightarrow> sound sv'"
  by (auto simp: reserveBoxID_def split: if_splits)

lemma sound_release: "sound sv \<Longrightarrow> sound (releaseBoxID b sv)"
  by (simp add: releaseBoxID_def)

lemma sound_createBox: "sound sv \<Longrightarrow> sound (snd (createBox h ops now rnd slugs opts sv))"
  by (auto simp: createBox_def Let_def case_prod_unfold split: sum.splits
      intro!: sound_release sound_launch dest: sound_reserve)

lemma sound_destroyBox: "sound sv \<Longrightarrow> sound (snd (destroyBox ops i sv))"
proof -
  assume s: "sound sv"
  obtain r sv' where d: "destroyBox ops i sv = (r, sv')" by fastforce
  have "sound (forget_box ops i (sv\<lparr>sv_world := w\<rparr>))" for w
    using s forget_box_spec [of "sv\<lparr>sv_world := w\<rparr>" ops i] frame_db_up
    by (metis sound_def sound_world)
  with s d destroyBox_cases [OF d] show ?thesis by auto
qed

lemma sound_pauseBox: "sound sv \<Longrightarrow> sound (snd (pauseBox ops now b sv))"
  by (auto simp: pauseBox_def Let_def case_prod_unfold split: option.splits sum.splits intro: sound_syncSpoke)

lemma sound_resumeBox: "sound sv \<Longrightarrow> sound (snd (resumeBox ops now b sv))"
  by (auto simp: resumeBox_def Let_def case_prod_unfold split: option.splits sum.splits intro: sound_syncSpoke)

lemma sound_boxExec: "sound sv \<Longrightarrow> sound (snd (boxExec ops b c sv))"
  by (auto simp: boxExec_def Let_def case_prod_unfold split: option.splits sum.splits)

text \<open>
  One operation of the hub on its boxes, with whatever arguments, clock and random values; \<open>link\<close> is
  a spoke connecting or disconnecting.
\<close>

inductive box_step :: "(string \<Rightarrow> string) \<Rightarrow> 'w cluster_ops \<Rightarrow> 'w server \<Rightarrow> 'w server \<Rightarrow> bool" for h ops where
  create: "box_step h ops sv (snd (createBox h ops now rnd slugs opts sv))"
| destroy: "box_step h ops sv (snd (destroyBox ops i sv))"
| pause: "box_step h ops sv (snd (pauseBox ops now b sv))"
| resume: "box_step h ops sv (snd (resumeBox ops now b sv))"
| execute: "box_step h ops sv (snd (boxExec ops b c sv))"
| tick: "box_step h ops sv (reap_tick ops now sv)"
| reaped: "box_step h ops sv (pruneSessions ops ids sv)"
| open_port: "box_step h ops sv (snd (OpenBoxPort u now rnd n b p ds sv))"
| close_port: "box_step h ops sv (snd (CloseBoxPort n b p sv))"
| audit: "box_step h ops sv (snd (RecordDNSAudit n b dm v at sv))"
| link: "box_step h ops sv (sv\<lparr>sv_hub := hb\<rparr>)"

inductive_cases box_stepE: "box_step h ops sv sv'"

lemma sound_box_step: "box_step h ops sv sv' \<Longrightarrow> sound sv \<Longrightarrow> sound sv'"
proof (induction rule: box_step.induct)
  case (link sv hb)
  then show ?case by (simp add: sound_def mirror_def db_up_def)
qed (simp_all add: sound_createBox sound_destroyBox sound_pauseBox sound_resumeBox sound_boxExec
      sound_reap_tick sound_pruneSessions sound_aside [OF aside_OpenBoxPort]
      sound_aside [OF aside_CloseBoxPort] sound_aside [OF aside_RecordDNSAudit])

lemma sound_box_steps: "(box_step h ops)\<^sup>*\<^sup>* sv sv' \<Longrightarrow> sound sv \<Longrightarrow> sound sv'"
  by (induction rule: rtranclp_induct) (auto intro: sound_box_step)

lemma session_roundtrip: "sessionFromPersisted (persistLocked s) = s"
  by (simp add: sessionFromPersisted_def persistLocked_def)

lemma load_sessions_spec:
  assumes "\<And>k b. (k, b) \<in> set t \<Longrightarrow> sb_Token b = k" and "keys_distinct t" and "keys_distinct u"
  shows "keys_distinct (load_sessions (map snd t) u) \<and>
    (\<forall>k. tget (load_sessions (map snd t) u) k =
      (case tget t k of None \<Rightarrow> tget u k | Some b \<Rightarrow> Some (sessionFromPersisted b)))"
  using assms
proof (induction t arbitrary: u)
  case (Cons x t)
  obtain k b where x: "x = (k, b)" by fastforce
  with Cons.prems(2) have kd: "keys_distinct t" and fresh: "tget t k = None"
    by (auto simp: keys_distinct_def tget_def map_of_eq_None_iff)
  have tk: "sb_Token b = k" using Cons.prems(1) [of k b] x by simp
  have "sb_Token b' = k'" if "(k', b') \<in> set t" for k' b' using Cons.prems(1) that by simp
  from Cons.IH [OF this kd, of "tput k (sessionFromPersisted b) u"] Cons.prems(3) fresh show ?case
    by (auto simp: x tk split: option.split)
qed simp

lemma mirror_rows:
  assumes "mirror sv" and "(k, b) \<in> set (db_boxes (sv_db sv))"
  shows "sb_Token b = k"
proof -
  have "tget (db_boxes (sv_db sv)) k = Some b" using assms by (simp add: mirror_def mem_tget)
  with assms(1) obtain s where "tget (sv_byToken sv) k = Some s" "b = persistLocked s"
    unfolding mirror_def by auto
  with assms(1) show ?thesis by (auto simp: mirror_def persistLocked_def)
qed

lemma restored_registry:
  assumes "mirror sv"
  shows "keys_distinct (load_sessions (map snd (db_boxes (sv_db sv))) []) \<and>
    (\<forall>k. tget (load_sessions (map snd (db_boxes (sv_db sv))) []) k = tget (sv_byToken sv) k)"
  using load_sessions_spec [of "db_boxes (sv_db sv)" "[]"] mirror_rows [OF assms] assms
  by (auto simp: mirror_def session_roundtrip split: option.split)

text \<open>
  C23 (restart_recovers_registry). From a registry that mirrors the database (an empty hub, say), and as
  long as the database accepts writes, every sequence of box operations and of spokes coming and
  going keeps the two in step; so a hub started again on that database recovers every session as it
  was, all of them when clustering is off, and those of enrolled spokes, connected or not, otherwise.
\<close>

theorem restart_recovers_registry:
  assumes "mirror sv" and "db_up sv" and "(box_step h ops)\<^sup>*\<^sup>* sv sv'"
    and "sv_db new = sv_db sv'" and "sv_byToken new = []" and "Restore ops new = (r, new')"
  shows "(\<forall>tok. tget (db_boxes (sv_db sv')) tok = map_option persistLocked (tget (sv_byToken sv') tok)) \<and>
    \<not> isl r \<and>
    (\<forall>tok. tget (sv_byToken new') tok = (case tget (sv_byToken sv') tok of None \<Rightarrow> None
       | Some s \<Rightarrow> if sv_hub new = None \<or>
                     resolveStoredSpoke (sv_db sv') (ses_SpokeName s) \<in> sr_Name ` snd ` set (db_spokes (sv_db sv'))
                   then Some s else None))"
proof -
  have s': "mirror sv'" "db_up sv'" using sound_box_steps [OF assms(3)] assms(1,2) by (auto simp: sound_def)
  define sv1 where "sv1 = new\<lparr>sv_byToken := load_sessions (map snd (db_boxes (sv_db sv'))) []\<rparr>"
  have r: "\<not> isl r" "new' = snd (PruneDepartedSpokes ops sv1)"
    using assms(4-6) s'(2) by (auto simp: Restore_def ListBoxes_def attempt_def db_up_def Let_def sv1_def)
  note rest = restored_registry [OF s'(1)]
  have m1: "mirror sv1" "db_up sv1"
    using rest s' assms(4) by (auto simp: mirror_def db_up_def sv1_def)
  have "tget (sv_byToken new') tok = (case tget (sv_byToken sv') tok of None \<Rightarrow> None
       | Some s \<Rightarrow> if sv_hub new = None \<or>
                     resolveStoredSpoke (sv_db sv') (ses_SpokeName s) \<in> sr_Name ` snd ` set (db_spokes (sv_db sv'))
                   then Some s else None)" for tok
  proof (cases "sv_hub new = None")
    case True
    then have "new' = sv1" using r(2) by (simp add: PruneDepartedSpokes_def sv1_def)
    with True rest show ?thesis by (simp add: sv1_def split: option.split)
  next
    case False
    let ?known = "map (sr_Name \<circ> snd) (db_spokes (sv_db sv'))"
    have k: "knownSpokeNames sv1 = Inr ?known" "sv_hub sv1 \<noteq> None" "sv_db sv1 = sv_db sv'"
      using False m1(2) assms(4) by (simp_all add: knownSpokeNames_def ListSpokes_def attempt_def db_up_def sv1_def)
    have "tget (sv_byToken new') tok = (case tget (sv_byToken sv1) tok of None \<Rightarrow> None
        | Some s \<Rightarrow> if resolveStoredSpoke (sv_db sv1) (ses_SpokeName s) \<in> set ?known then Some s else None)"
      using m1(1) tget_filter [of "sv_byToken sv1"]
      by (simp add: r(2) byToken_PruneDepartedSpokes(1) [OF m1 k(2,1)] mirror_def split: option.split)
    with False k(3) rest show ?thesis by (auto simp: sv1_def image_comp split: option.split)
  qed
  with r(1) s'(1) show ?thesis by (simp add: mirror_def)
qed

theorem restart_recovers_registry_witness:
  "tget (sv_byToken (snd (Restore no_ops
      ((snd (createBox id no_ops 5 (Some ''t3'') (\<lambda>_. None)
          \<lparr>co_BoxID = ''new'', co_Description = [], co_SpokeName = ''gpu'', co_Files = [], co_DiskBytes = 0\<rparr>
          (sample_server [sample_session ''t1'' ''web'' ''gpu'' LifecycleRunning])))
        \<lparr>sv_byToken := [], sv_hub := None\<rparr>)))) ''t1'' =
   tget (sv_byToken (snd (createBox id no_ops 5 (Some ''t3'') (\<lambda>_. None)
          \<lparr>co_BoxID = ''new'', co_Description = [], co_SpokeName = ''gpu'', co_Files = [], co_DiskBytes = 0\<rparr>
          (sample_server [sample_session ''t1'' ''web'' ''gpu'' LifecycleRunning])))) ''t1''"
proof -
  let ?ss = "[sample_session ''t1'' ''web'' ''gpu'' LifecycleRunning]"
  define sv where "sv = sample_server ?ss"
  have ok: "mirror sv" "db_up sv" unfolding sv_def using sample_server_ok [of ?ss] by simp_all
  define sv' where "sv' = snd (createBox id no_ops 5 (Some ''t3'') (\<lambda>_. None)
     \<lparr>co_BoxID = ''new'', co_Description = [], co_SpokeName = ''gpu'', co_Files = [], co_DiskBytes = 0\<rparr> sv)"
  have st: "(box_step id no_ops)\<^sup>*\<^sup>* sv sv'" unfolding sv'_def by (intro r_into_rtranclp box_step.create)
  define new where "new = sv'\<lparr>sv_byToken := [], sv_hub := None\<rparr>"
  have n: "sv_db new = sv_db sv'" "sv_byToken new = []" "sv_hub new = None" by (simp_all add: new_def)
  obtain r new' where re: "Restore no_ops new = (r, new')" by fastforce
  have "tget (sv_byToken new') ''t1'' = tget (sv_byToken sv') ''t1''"
    using restart_recovers_registry [OF ok st n(1,2) re] n(3) by (simp split: option.split)
  then show ?thesis unfolding sv_def [symmetric] sv'_def [symmetric] new_def [symmetric] re by simp
qed

subsection \<open>Box ids stay unique while creates race\<close>

text \<open>
  The atomic sections of concurrent \<^verbatim>\<open>createBox\<close> calls, each holding the server's lock for one step,
  interleaved with the sections that remove or tombstone records. \<open>phase i\<close> is where the \<open>i\<close>-th call
  stands. A sync pass may run at any time, but in this relation it finds no tombstoned box alive
  again: see \<open>revival_breaks_uniqueness\<close> for what happens when it does.
\<close>

datatype create_phase = Idle | Claimed string | Registered string

type_synonym 'w creating = "'w server \<times> (nat \<Rightarrow> create_phase)"

inductive claim_step :: "'w creating \<Rightarrow> 'w creating \<Rightarrow> bool" where
  reserve: "ph i = Idle \<Longrightarrow> b \<noteq> [] \<Longrightarrow> reserveBoxID b sv = Inr sv' \<Longrightarrow>
     claim_step (sv, ph) (sv', ph(i := Claimed b))"
| register: "ph i = Claimed (co_BoxID opts) \<Longrightarrow>
     claim_step (sv, ph) (store_session tok (new_session now tok hs opts n res) sv, ph(i := Registered (co_BoxID opts)))"
| replace: "ph i = Registered b \<Longrightarrow> claim_step (sv, ph) (dropTerminatedRecords b tok sv, ph)"
| fail: "ph i = Claimed b \<Longrightarrow> claim_step (sv, ph) (releaseBoxID b sv, ph(i := Idle))"
| finish: "ph i = Registered b \<Longrightarrow> claim_step (sv, ph) (releaseBoxID b sv, ph(i := Idle))"
| sync: "(\<forall>(_, s) \<in> set (spoke_sessions n sv). terminated s \<longrightarrow> live_box boxes s = None) \<Longrightarrow>
     claim_step (sv, ph) (syncSpokeInventory ops now n boxes sv, ph)"
| forget: "claim_step (sv, ph) (forget_box ops x sv, ph)"
| purge: "claim_step (sv, ph) (snd (PruneDepartedSpokes ops sv), ph)"

definition holds :: "'w server \<Rightarrow> string \<Rightarrow> string \<Rightarrow> bool" where
  "holds sv x tok \<longleftrightarrow> (\<exists>s. tget (sv_byToken sv) tok = Some s \<and> to_lower (ses_BoxID s) = x \<and> \<not> terminated s)"

definition unique_ids :: "'w server \<Rightarrow> bool" where
  "unique_ids sv \<longleftrightarrow> (\<forall>x t t'. x \<noteq> [] \<and> holds sv x t \<and> holds sv x t' \<longrightarrow> t = t')"

definition claims :: "create_phase \<Rightarrow> string \<Rightarrow> bool" where
  "claims p x \<longleftrightarrow> (\<exists>b. (p = Claimed b \<or> p = Registered b) \<and> to_lower b = x)"

definition claim_inv :: "'w creating \<Rightarrow> bool" where
  "claim_inv c \<longleftrightarrow> sound (fst c) \<and> unique_ids (fst c) \<and>
     (\<forall>i b t. snd c i = Claimed b \<longrightarrow> \<not> holds (fst c) (to_lower b) t) \<and>
     (\<forall>i x. claims (snd c i) x \<longrightarrow> x \<in> set (sv_pending (fst c))) \<and>
     (\<forall>i j x. claims (snd c i) x \<and> claims (snd c j) x \<longrightarrow> i = j)"

lemma claims_simps [simp]: "claims Idle x \<longleftrightarrow> False" "claims (Claimed b) x \<longleftrightarrow> to_lower b = x"
  "claims (Registered b) x \<longleftrightarrow> to_lower b = x"
  by (auto simp: claims_def)

lemma claim_inv_shrink:
  assumes "claim_inv (sv, ph)" and "sound sv'" and "sv_pending sv' = sv_pending sv"
    and "\<And>x t. holds sv' x t \<Longrightarrow> holds sv x t"
  shows "claim_inv (sv', ph)"
  using assms unfolding claim_inv_def unique_ids_def fst_conv snd_conv by metis

lemma holds_store_session:
  "holds (store_session tok s sv) x t \<longleftrightarrow>
     (if t = tok then to_lower (ses_BoxID s) = x \<and> \<not> terminated s else holds sv x t)"
  by (auto simp: holds_def store_session_def put_box_def split: sum.splits)

lemma holds_filter:
  assumes "keys_distinct (sv_byToken sv)" and "sv_byToken sv' = filter P (sv_byToken sv)" and "holds sv' x t"
  shows "holds sv x t"
  using assms by (auto simp: holds_def tget_filter split: option.splits if_splits)

lemma claim_inv_release:
  assumes "claim_inv (sv, ph)" and "claims (ph i) (to_lower b)"
  shows "claim_inv (releaseBoxID b sv, ph(i := Idle))"
proof -
  have h: "holds (releaseBoxID b sv) = holds sv" by (intro ext) (simp add: holds_def releaseBoxID_def)
  have pend: "x \<in> set (sv_pending (releaseBoxID b sv))" if "claims (ph j) x" "j \<noteq> i" for j x
  proof -
    have "x \<noteq> to_lower b" using that assms unfolding claim_inv_def fst_conv snd_conv by metis
    moreover have "x \<in> set (sv_pending sv)" using that assms(1) unfolding claim_inv_def fst_conv snd_conv by metis
    ultimately show ?thesis by (simp add: releaseBoxID_def)
  qed
  show ?thesis
    using assms(1) pend sound_release [of sv b] unfolding claim_inv_def unique_ids_def fst_conv snd_conv h
    by (auto split: if_splits)
qed

lemma claim_inv_reserve:
  assumes "claim_inv (sv, ph)" and "ph i = Idle" and "b \<noteq> []" and "reserveBoxID b sv = Inr sv'"
  shows "claim_inv (sv', ph(i := Claimed b))"
proof -
  have sv': "sv' = sv\<lparr>sv_pending := to_lower b # sv_pending sv\<rparr>" "to_lower b \<notin> set (sv_pending sv)"
    and free: "\<not> list_ex (\<lambda>(_, s). equal_fold (ses_BoxID s) b \<and> \<not> terminated s) (sv_byToken sv)"
    using assms(3,4) by (auto simp: reserveBoxID_def split: if_splits)
  have h: "holds sv' = holds sv" by (intro ext) (simp add: holds_def sv'(1))
  have nh: "\<not> holds sv (to_lower b) t" for t
    using free by (auto simp: holds_def list_ex_iff equal_fold_def dest: tget_mem)
  have nc: "\<not> claims (ph j) (to_lower b)" for j
    using assms(1) sv'(2) unfolding claim_inv_def fst_conv snd_conv by metis
  show ?thesis
    using assms(1) nh nc sv'(1) unfolding claim_inv_def unique_ids_def fst_conv snd_conv h
    by (auto split: if_splits)
qed

lemma claim_inv_register:
  assumes "claim_inv (sv, ph)" and "ph i = Claimed (co_BoxID opts)"
  shows "claim_inv (store_session tok (new_session now tok hs opts n res) sv, ph(i := Registered (co_BoxID opts)))"
proof -
  let ?x = "to_lower (co_BoxID opts)"
  let ?sv = "store_session tok (new_session now tok hs opts n res) sv"
  have h: "holds ?sv x t \<longleftrightarrow> (if t = tok then ?x = x else holds sv x t)" for x t
    by (simp add: holds_store_session new_session_def terminated_def)
  have free: "\<not> holds sv ?x t" for t
    using assms unfolding claim_inv_def fst_conv snd_conv by metis
  have other: "to_lower b \<noteq> ?x" if "ph j = Claimed b" "j \<noteq> i" for j b
  proof
    assume "to_lower b = ?x"
    with that(1) assms(2) have "claims (ph j) ?x" "claims (ph i) ?x" by simp_all
    with that(2) assms(1) show False unfolding claim_inv_def fst_conv snd_conv by metis
  qed
  have s: "sound ?sv" using assms(1) by (intro sound_store_session) (auto simp: claim_inv_def new_session_def)
  have u: "unique_ids ?sv"
    using assms(1) free unfolding claim_inv_def unique_ids_def fst_conv h by metis
  have same: "claims ((ph(i := Registered (co_BoxID opts))) j) x = claims (ph j) x" for j x
    using assms(2) by simp
  have p: "sv_pending ?sv = sv_pending sv" by (simp add: store_session_def put_box_def split: sum.split)
  have "\<not> holds ?sv (to_lower b) t" if "(ph(i := Registered (co_BoxID opts))) j = Claimed b" for j b t
  proof -
    from that have "j \<noteq> i" "ph j = Claimed b" by (auto split: if_splits)
    moreover from this(2) have "\<not> holds sv (to_lower b) t"
      using assms(1) unfolding claim_inv_def fst_conv snd_conv by blast
    ultimately show ?thesis using other h by metis
  qed
  with s u assms(1) show ?thesis unfolding claim_inv_def fst_conv snd_conv same p by blast
qed

lemma holds_sync:
  assumes "sound sv" and "\<forall>(_, s) \<in> set (spoke_sessions n sv). terminated s \<longrightarrow> live_box boxes s = None"
    and "holds (syncSpokeInventory ops now n boxes sv) x t"
  shows "holds sv x t"
proof -
  have m: "mirror sv" using assms(1) by (simp add: sound_def)
  note sp = syncSpokeInventory_spec [OF m refl, of ops now n boxes]
  from assms(3) obtain s' where s': "tget (sv_byToken (syncSpokeInventory ops now n boxes sv)) t = Some s'"
    "to_lower (ses_BoxID s') = x" "\<not> terminated s'" by (auto simp: holds_def)
  with sp obtain s where s: "tget (sv_byToken sv) t = Some s"
    and e: "s' = (if resolveStoredSpoke (sv_db sv) (ses_SpokeName s) = n then synced now boxes s else s)"
    by (auto split: option.splits)
  have "\<not> terminated s"
  proof (cases "resolveStoredSpoke (sv_db sv) (ses_SpokeName s) = n")
    case True
    then have "(t, s) \<in> set (spoke_sessions n sv)"
      using s by (simp add: spoke_sessions_def) (metis tget_mem)
    with assms(2) have "terminated s \<longrightarrow> live_box boxes s = None" by auto
    with e True s'(3) show ?thesis by (auto simp: synced_def terminated_def split: if_splits)
  qed (use e s'(3) in simp)
  moreover have "ses_BoxID s' = ses_BoxID s" using e by simp
  ultimately show ?thesis using s s'(2) by (auto simp: holds_def)
qed

lemma claim_inv_step: "claim_step c c' \<Longrightarrow> claim_inv c \<Longrightarrow> claim_inv c'"
proof (induction rule: claim_step.induct)
  case (reserve ph i b sv sv')
  then show ?case by (simp add: claim_inv_reserve)
next
  case (register ph i opts sv tok now hs n res)
  then show ?case by (simp add: claim_inv_register)
next
  case (replace ph i b sv tok)
  have s: "sound sv" using replace by (simp add: claim_inv_def)
  show ?case
  proof (rule claim_inv_shrink [OF replace(2)])
    let ?Q = "\<lambda>(k, s). k \<noteq> tok \<and> equal_fold (ses_BoxID s) b \<and> terminated s"
    note m = mirror_filter [of sv ?Q, OF s [unfolded sound_def, THEN conjunct1] s [unfolded sound_def, THEN conjunct2]]
    show "sv_pending (dropTerminatedRecords b tok sv) = sv_pending sv"
      using m(5) by (simp add: dropTerminatedRecords_def Let_def)
    show "holds sv x t" if "holds (dropTerminatedRecords b tok sv) x t" for x t
    proof (cases "b = []")
      case False
      then have "sv_byToken (dropTerminatedRecords b tok sv) = filter (\<lambda>e. \<not> ?Q e) (sv_byToken sv)"
        using m(3) by (simp add: dropTerminatedRecords_def Let_def)
      with that s show ?thesis using holds_filter by (auto simp: sound_def mirror_def)
    qed (use that in \<open>simp add: dropTerminatedRecords_def\<close>)
  qed (rule sound_dropTerminatedRecords [OF s])
next
  case (fail ph i b sv)
  then show ?case by (simp add: claim_inv_release)
next
  case (finish ph i b sv)
  then show ?case by (simp add: claim_inv_release)
next
  case (sync n sv boxes ph ops now)
  then have s: "sound sv" by (simp add: claim_inv_def)
  show ?case
  proof (rule claim_inv_shrink [OF sync(2) sound_syncSpokeInventory [OF s]])
    show "sv_pending (syncSpokeInventory ops now n boxes sv) = sv_pending sv"
      using s syncSpokeInventory_spec [OF _ refl, of sv] by (simp add: sound_def)
  qed (rule holds_sync [OF s sync(1)])
next
  case (forget sv ph ops x)
  then have s: "mirror sv" "db_up sv" by (simp_all add: claim_inv_def sound_def)
  note sp = forget_box_spec [OF s, of ops x]
  show ?case
  proof (rule claim_inv_shrink [OF forget])
    show "sound (forget_box ops x sv)" using sp s(2) frame_db_up unfolding sound_def by blast
    show "holds sv y t" if "holds (forget_box ops x sv) y t" for y t
      using that sp s(1) holds_filter unfolding mirror_def by metis
  qed (use sp in blast)
next
  case (purge sv ph ops)
  then have s: "sound sv" "mirror sv" "db_up sv" by (simp_all add: claim_inv_def sound_def)
  note sp = PruneDepartedSpokes_shrinks [OF s(2,3), of ops]
  show ?case
  proof (rule claim_inv_shrink [OF purge sound_prune [OF s(1)]])
    show "holds sv y t" if "holds (snd (PruneDepartedSpokes ops sv)) y t" for y t
      using that sp s(2) holds_filter unfolding mirror_def by metis
  qed (use sp in blast)
qed

lemma claim_inv_steps: "claim_step\<^sup>*\<^sup>* c c' \<Longrightarrow> claim_inv c \<Longrightarrow> claim_inv c'"
  by (induction rule: rtranclp_induct) (auto intro: claim_inv_step)

text \<open>
  C4 (box_ids_stay_unique). However any number of concurrent creates interleave with sync passes,
  destroys and purges, no two live records ever carry the same box id up to case, as long as no sync
  pass finds a tombstoned box alive again; and while one create has claimed an id and not yet
  registered its box, no live record carries that id and no other create has claimed it.
\<close>

theorem box_ids_stay_unique:
  assumes "claim_step\<^sup>*\<^sup>* (sv, \<lambda>_. Idle) (sv', ph)" and "mirror sv" and "db_up sv" and "unique_ids sv"
  shows "(\<forall>tok tok' s s'. tget (sv_byToken sv') tok = Some s \<and> tget (sv_byToken sv') tok' = Some s' \<and>
      ses_BoxID s \<noteq> [] \<and> equal_fold (ses_BoxID s) (ses_BoxID s') \<and> \<not> terminated s \<and> \<not> terminated s' \<longrightarrow> tok = tok') \<and>
    (\<forall>i b. ph i = Claimed b \<longrightarrow>
      (\<forall>tok s. tget (sv_byToken sv') tok = Some s \<and> equal_fold (ses_BoxID s) b \<longrightarrow> terminated s) \<and>
      (\<forall>j b'. (ph j = Claimed b' \<or> ph j = Registered b') \<and> equal_fold b b' \<longrightarrow> j = i))"
proof -
  have "claim_inv (sv, \<lambda>_. Idle)" using assms(2-4) by (simp add: claim_inv_def sound_def)
  with assms(1) have inv: "claim_inv (sv', ph)" by (rule claim_inv_steps)
  have "tok = tok'" if "tget (sv_byToken sv') tok = Some s" "tget (sv_byToken sv') tok' = Some s'"
    "ses_BoxID s \<noteq> []" "equal_fold (ses_BoxID s) (ses_BoxID s')" "\<not> terminated s" "\<not> terminated s'" for tok tok' s s'
  proof -
    from that have "holds sv' (to_lower (ses_BoxID s)) tok" "holds sv' (to_lower (ses_BoxID s)) tok'"
      by (auto simp: holds_def equal_fold_def)
    moreover have "to_lower (ses_BoxID s) \<noteq> []" using that(3) by simp
    ultimately show ?thesis using inv unfolding claim_inv_def unique_ids_def fst_conv by blast
  qed
  moreover have "terminated s" if "ph i = Claimed b" "tget (sv_byToken sv') tok = Some s" "equal_fold (ses_BoxID s) b"
    for i b tok s
  proof -
    have "\<not> holds sv' (to_lower b) tok" using inv that(1) unfolding claim_inv_def fst_conv snd_conv by blast
    with that(2,3) show ?thesis by (auto simp: holds_def equal_fold_def)
  qed
  moreover have "j = i" if "ph i = Claimed b" "ph j = Claimed b' \<or> ph j = Registered b'" "equal_fold b b'" for i j b b'
  proof -
    have "claims (ph i) (to_lower b)" "claims (ph j) (to_lower b)"
      using that by (auto simp: equal_fold_def)
    with inv show ?thesis unfolding claim_inv_def fst_conv snd_conv by blast
  qed
  ultimately show ?thesis by blast
qed

definition sample_options :: "string \<Rightarrow> create_options" where
  "sample_options b = \<lparr>co_BoxID = b, co_Description = [], co_SpokeName = ''gpu'', co_Files = [], co_DiskBytes = 0\<rparr>"

definition sample_result :: create_result where
  "sample_result = \<lparr>cr_InstanceID = ''gen-x'', cr_InitScriptFailed = False, cr_InitScriptOutput = [], cr_PublishPorts = []\<rparr>"

theorem box_ids_stay_unique_witness:
  "list_all (\<lambda>(_, s). terminated s) (filter (\<lambda>(_, s). equal_fold (ses_BoxID s) ''Web'')
     (sv_byToken ((sample_server [sample_session ''t1'' ''web'' ''gpu'' LifecycleTerminated])\<lparr>sv_pending := [''web'']\<rparr>)))"
proof -
  define sv where "sv = sample_server [sample_session ''t1'' ''web'' ''gpu'' LifecycleTerminated]"
  have ok: "mirror sv" "db_up sv"
    unfolding sv_def using sample_server_ok [of "[sample_session ''t1'' ''web'' ''gpu'' LifecycleTerminated]"] by simp_all
  have t: "sv_byToken sv = [(''t1'', sample_session ''t1'' ''web'' ''gpu'' LifecycleTerminated)]" "sv_pending sv = []"
    by (simp_all add: sv_def sample_server_def blank_server_def sample_session_def)
  have u: "unique_ids sv"
    by (simp add: unique_ids_def holds_def t sample_session_def terminated_def)
  have "to_lower ''Web'' = ''web''" by code_simp
  then have "reserveBoxID ''Web'' sv = Inr (sv\<lparr>sv_pending := [''web'']\<rparr>)"
    by (simp add: reserveBoxID_def t sample_session_def terminated_def)
  then have st: "claim_step\<^sup>*\<^sup>* (sv, \<lambda>_. Idle) (sv\<lparr>sv_pending := [''web'']\<rparr>, (\<lambda>_. Idle)(0 := Claimed ''Web''))"
    by (intro r_into_rtranclp claim_step.reserve) simp_all
  have "terminated s" if "tget (sv_byToken sv) tok = Some s" "equal_fold (ses_BoxID s) ''Web''" for tok s
    using conjunct2 [OF box_ids_stay_unique [OF st ok u], rule_format, of 0 "''Web''"] that by simp
  moreover have "(tok, s) \<in> set (sv_byToken sv) \<Longrightarrow> tget (sv_byToken sv) tok = Some s" for tok s
    using t by simp
  ultimately show ?thesis unfolding sv_def [symmetric] list_all_iff by fastforce
qed

text \<open>
  Without that proviso uniqueness fails: a create claims the id of a tombstone, a sync pass finds
  the tombstoned box alive and marks its record running, and the create then registers its own box.
\<close>

lemma revival_breaks_uniqueness:
  "let sv = sample_server [sample_session ''t1'' ''web'' ''gpu'' LifecycleTerminated];
       listing = [\<lparr>box_InstanceID = ''gen-t1'', box_Name = [], box_BoxID = ''web'', box_Description = [], box_Spoke = [],
                   box_Image = [], box_State = ''running'', box_Status = [], box_Phase = [], box_LastError = [],
                   box_Created = 0, box_LastSeen = 0\<rparr>];
       claimed = projr (reserveBoxID ''web'' sv);
       revived = syncSpokeInventory no_ops 5 ''gpu'' listing claimed;
       registered = store_session ''t2'' (new_session 6 ''t2'' None (sample_options ''web'') ''gpu'' sample_result) revived
   in map (\<lambda>(tok, s). (tok, ses_BoxID s, terminated s)) (sv_byToken registered) =
      [(''t1'', ''web'', False), (''t2'', ''web'', False)]"
  by (simp add: sample_server_def blank_server_def empty_db_def reserveBoxID_def syncSpokeInventory_def
      spoke_sessions_def resolveStoredSpoke_def sample_session_def terminated_def live_box_def observed_def
      store_session_def put_box_def PutBox_def attempt_def tput_def new_session_def sample_options_def sample_result_def)

end
