(* ===== verification/Ports.thy ===== *)
theory Ports
  imports Lifecycle
begin

text \<open>
  Published ports (\<^verbatim>\<open>internal/hub/proxy.go\<close>, \<^verbatim>\<open>boxports.go\<close>): a proxy is bound to one generation of
  its box and there is one per box and port, and a request that originates in a box reaches only
  that box, only from the spoke the box lives on.
\<close>

definition unique_ports :: "'w server \<Rightarrow> bool" where
  "unique_ports sv \<longleftrightarrow> (\<forall>e \<in> set (db_proxies (sv_db sv)). \<forall>e' \<in> set (db_proxies (sv_db sv)).
     equal_fold (pr_BoxID (snd e)) (pr_BoxID (snd e')) \<and> pr_Port (snd e) = pr_Port (snd e') \<longrightarrow> e = e')"

lemma unique_portsD:
  assumes "unique_ports sv" and "e \<in> set (db_proxies (sv_db sv))" and "e' \<in> set (db_proxies (sv_db sv))"
    and "equal_fold (pr_BoxID (snd e)) b" and "equal_fold (pr_BoxID (snd e')) b"
    and "pr_Port (snd e) = pr_Port (snd e')"
  shows "e = e'"
proof -
  have "equal_fold (pr_BoxID (snd e)) (pr_BoxID (snd e'))" using assms(4,5) by (simp add: equal_fold_def)
  with assms(1-3,6) show ?thesis unfolding unique_ports_def by blast
qed

lemma lookupByBoxID_aside:
  assumes "aside sv sv'"
  shows "lookupByBoxID sv' b = lookupByBoxID sv b"
proof -
  have r: "spokeReachable sv' = spokeReachable sv"
    using assms by (intro ext) (simp add: aside_def frame_def spokeReachable_def server_spoke_def spoke_def
        DefaultSpoke_def GetSetting_def attempt_def)
  have k: "match_rank sv' = match_rank sv" by (intro ext) (simp add: match_rank_def r)
  have "best_match sv' m ms = best_match sv m ms" for m ms
    by (induction ms arbitrary: m) (simp_all add: k)
  moreover have "box_matches b sv' = box_matches b sv" using assms by (simp add: box_matches_def aside_def)
  ultimately show ?thesis by (simp add: lookupByBoxID_def split: list.split)
qed

definition of_box_port :: "string \<Rightarrow> int \<Rightarrow> string \<times> proxy_record \<Rightarrow> bool" where
  "of_box_port b port e \<longleftrightarrow> equal_fold (pr_BoxID (snd e)) b \<and> pr_Port (snd e) = port"

lemma findProxy_up:
  assumes "db_up sv"
  shows "findProxy b port sv = Inr (map_option snd (find (of_box_port b port) (db_proxies (sv_db sv))))"
proof -
  have "find (\<lambda>p. equal_fold (pr_BoxID p) b \<and> pr_Port p = port) (map snd t) =
      map_option snd (find (of_box_port b port) t)" for t
    by (induction t) (auto simp: of_box_port_def)
  then show ?thesis using assms by (simp add: findProxy_def ListProxies_def attempt_def db_up_def)
qed

lemma find_of_box_port:
  assumes "unique_ports sv" and "e \<in> set (db_proxies (sv_db sv))" and "of_box_port b port e"
  shows "find (of_box_port b port) (db_proxies (sv_db sv)) = Some e"
proof (cases "find (of_box_port b port) (db_proxies (sv_db sv))")
  case None
  with assms(2,3) show ?thesis unfolding find_None_iff by blast
next
  case (Some e')
  then have "e' \<in> set (db_proxies (sv_db sv))" "of_box_port b port e'"
    by (auto simp: find_Some_iff)
  with unique_portsD [OF assms(1) _ assms(2), of e' b] assms(3) have "e' = e" by (auto simp: of_box_port_def)
  with Some show ?thesis by simp
qed

definition new_proxy :: "time \<Rightarrow> string \<Rightarrow> string \<Rightarrow> session \<Rightarrow> int \<Rightarrow> string \<Rightarrow> string \<Rightarrow> proxy_record" where
  "new_proxy now slug b s port createdBy description =
     \<lparr>pr_Slug = slug, pr_BoxID = b, pr_InstanceID = ses_Generation s, pr_Port = port, pr_Spoke = ses_SpokeName s,
      pr_CreatedAt = now, pr_Owner = createdBy, pr_Description = description\<rparr>"

definition set_proxies :: "(string, proxy_record) table \<Rightarrow> 'w server \<Rightarrow> 'w server" where
  "set_proxies t sv = sv\<lparr>sv_db := (sv_db sv)\<lparr>db_proxies := t\<rparr>\<rparr>"

lemma createProxy_up:
  assumes "db_up sv" and "createProxy now rnd b port c ds sv = (Inr rec, sv')"
  shows "\<exists>s. lookupByBoxID sv b = Some s \<and> \<not> terminated s \<and> ProxyEnabled sv \<and> 1 \<le> port \<and> port \<le> 65535 \<and>
    (case find (of_box_port b port) (db_proxies (sv_db sv)) of
       None \<Rightarrow> \<exists>slug. rnd = Some slug \<and> rec = new_proxy now slug b s port c ds \<and>
         sv' = set_proxies (tput slug rec (db_proxies (sv_db sv))) sv
     | Some e \<Rightarrow>
         if pr_InstanceID (snd e) = ses_Generation s then rec = snd e \<and> sv' = sv
         else \<exists>slug. rnd = Some slug \<and> rec = new_proxy now slug b s port c ds \<and>
           sv' = set_proxies (tput slug rec (tdel (pr_Slug (snd e)) (db_proxies (sv_db sv)))) sv)"
proof -
  from assms obtain s where s: "lookupByBoxID sv b = Some s" "\<not> terminated s" "ProxyEnabled sv" "1 \<le> port" "port \<le> 65535"
    by (auto simp: createProxy_def split: if_splits option.splits)
  have up: "\<not> db_down (sv_db sv) oper" for oper using assms(1) by (simp add: db_up_def)
  have g: "ProxyEnabled sv" "\<not> (port < 1 \<or> 65535 < port)" using s by auto
  note unf = createProxy_def if_not_P [OF g(2)] g(1) not_True_eq_False if_False s(1) option.case if_not_P [OF s(2)]
    findProxy_up [OF assms(1)] sum.case Let_def DeleteProxy_def SaveProxy_def attempt_def if_not_P [OF up]
  show ?thesis
  proof (cases "find (of_box_port b port) (db_proxies (sv_db sv))")
    case None
    from assms(2) show ?thesis
      unfolding unf None option.map(1) using s by (cases rnd) (auto simp: up new_proxy_def set_proxies_def None)
  next
    case (Some e)
    show ?thesis
    proof (cases "pr_InstanceID (snd e) = ses_Generation s")
      case True
      from assms(2) show ?thesis unfolding unf Some option.map(2) using s True by (simp add: Some)
    next
      case False
      from assms(2) show ?thesis
        unfolding unf Some option.map(2) using s False
        by (cases rnd) (auto simp: up new_proxy_def set_proxies_def Some)
    qed
  qed
qed

lemma createProxy_reuse:
  assumes "db_up sv" and "lookupByBoxID sv b = Some s" and "\<not> terminated s" and "ProxyEnabled sv"
    and "1 \<le> port" and "port \<le> 65535"
    and "find (of_box_port b port) (db_proxies (sv_db sv)) = Some (k, rec)" and "pr_InstanceID rec = ses_Generation s"
  shows "createProxy now rnd b port c ds sv = (Inr rec, sv)"
  using assms by (simp add: createProxy_def findProxy_up)

text \<open>
  C32 (proxy_bound_to_generation). Publishing a port of a box yields a proxy of the box's current
  generation, on a valid port of a box that is not terminated. Afterwards it is the only proxy of
  that box and port, whatever generation an older one was bound to, and every other proxy is as it
  was; publishing the port again returns the same proxy and changes nothing.
\<close>

theorem proxy_bound_to_generation:
  assumes "db_up sv" and "proxies_ok sv" and "unique_ports sv"
    and "\<And>slug. rnd = Some slug \<Longrightarrow> tget (db_proxies (sv_db sv)) slug = None"
    and "createProxy now rnd b port c ds sv = (Inr rec, sv')"
  shows "(\<exists>s. lookupByBoxID sv b = Some s \<and> \<not> terminated s \<and> pr_InstanceID rec = ses_Generation s) \<and>
    1 \<le> port \<and> port \<le> 65535 \<and> pr_Port rec = port \<and> equal_fold (pr_BoxID rec) b \<and>
    set (db_proxies (sv_db sv')) = insert (pr_Slug rec, rec)
      {(k, p) \<in> set (db_proxies (sv_db sv)). \<not> (equal_fold (pr_BoxID p) b \<and> pr_Port p = port)} \<and>
    createProxy now' rnd' b port c' ds' sv' = (Inr rec, sv')"
proof -
  let ?P = "db_proxies (sv_db sv)"
  have kd: "keys_distinct ?P" and slug: "\<And>k p. (k, p) \<in> set ?P \<Longrightarrow> pr_Slug p = k"
    using assms(2) by (auto simp: proxies_ok_def)
  from createProxy_up [OF assms(1,5)] obtain s where
    s: "lookupByBoxID sv b = Some s" "\<not> terminated s" "ProxyEnabled sv" "1 \<le> port" "port \<le> 65535"
    and cs: "case find (of_box_port b port) ?P of
       None \<Rightarrow> \<exists>slug. rnd = Some slug \<and> rec = new_proxy now slug b s port c ds \<and> sv' = set_proxies (tput slug rec ?P) sv
     | Some e \<Rightarrow> if pr_InstanceID (snd e) = ses_Generation s then rec = snd e \<and> sv' = sv
         else \<exists>slug. rnd = Some slug \<and> rec = new_proxy now slug b s port c ds \<and>
           sv' = set_proxies (tput slug rec (tdel (pr_Slug (snd e)) ?P)) sv" by blast
  have res: "pr_InstanceID rec = ses_Generation s \<and> pr_Port rec = port \<and> equal_fold (pr_BoxID rec) b \<and>
      set (db_proxies (sv_db sv')) = insert (pr_Slug rec, rec) {e \<in> set ?P. \<not> of_box_port b port e}"
  proof (cases "find (of_box_port b port) ?P")
    case None
    with cs obtain sl where c: "rnd = Some sl" "rec = new_proxy now sl b s port c ds" "sv' = set_proxies (tput sl rec ?P) sv"
      by auto
    have "k \<noteq> sl" if "(k, p) \<in> set ?P" for k p using assms(4) [OF c(1)] that mem_tget [OF kd] by auto
    moreover have "\<not> of_box_port b port e" if "e \<in> set ?P" for e using None that unfolding find_None_iff by blast
    ultimately show ?thesis using c by (auto simp: new_proxy_def set_proxies_def set_tput [OF kd])
  next
    case (Some e)
    obtain k p where e: "e = (k, p)" by fastforce
    have mem: "(k, p) \<in> set ?P" and this_one: "of_box_port b port (k, p)" using Some e by (auto simp: find_Some_iff)
    have only: "e' = (k, p)" if "e' \<in> set ?P" "of_box_port b port e'" for e'
      using find_of_box_port [OF assms(3) that] Some e by simp
    show ?thesis
    proof (cases "pr_InstanceID p = ses_Generation s")
      case True
      with cs Some e have "rec = p" "sv' = sv" by auto
      moreover have "set ?P = insert (k, p) {e \<in> set ?P. \<not> of_box_port b port e}" using mem only by blast
      ultimately show ?thesis using True this_one slug [OF mem] by (simp add: of_box_port_def)
    next
      case False
      with cs Some e obtain sl where c: "rnd = Some sl" "rec = new_proxy now sl b s port c ds"
        "sv' = set_proxies (tput sl rec (tdel (pr_Slug p) ?P)) sv" by auto
      have "k' \<noteq> sl" if "(k', p') \<in> set ?P" for k' p' using assms(4) [OF c(1)] that mem_tget [OF kd] by auto
      moreover have "k' = k \<longleftrightarrow> of_box_port b port (k', p')" if "(k', p') \<in> set ?P" for k' p'
        using that mem only this_one mem_tget [OF kd] by (metis option.inject prod.inject)
      ultimately have "set (tput sl rec (tdel k ?P)) = insert (sl, rec) {e \<in> set ?P. \<not> of_box_port b port e}"
        unfolding set_tput [OF keys_distinct_tdel [OF kd]] set_tdel by auto
      with c slug [OF mem] show ?thesis by (simp add: new_proxy_def set_proxies_def)
    qed
  qed
  have a: "aside sv sv'" using aside_createProxy [of sv now rnd b port c ds] assms(5) by simp
  have "find (of_box_port b port) (db_proxies (sv_db sv')) = Some (pr_Slug rec, rec)"
  proof (cases "find (of_box_port b port) (db_proxies (sv_db sv'))")
    case None
    moreover have "(pr_Slug rec, rec) \<in> set (db_proxies (sv_db sv'))" using res by blast
    ultimately have "\<not> of_box_port b port (pr_Slug rec, rec)" unfolding find_None_iff by blast
    with res show ?thesis by (simp add: of_box_port_def)
  next
    case (Some e)
    then have "e \<in> set (db_proxies (sv_db sv'))" "of_box_port b port e" by (auto simp: find_Some_iff)
    then have "e = (pr_Slug rec, rec)" using res by blast
    with Some show ?thesis by simp
  qed
  then have again: "createProxy now' rnd' b port c' ds' sv' = (Inr rec, sv')"
    using s res a frame_db_up [OF aside_frame [OF a]] ProxyEnabled_frame [OF aside_frame [OF a]] assms(1)
    by (intro createProxy_reuse) (auto simp: lookupByBoxID_aside)
  have "{e \<in> set ?P. \<not> of_box_port b port e} = {(k, p) \<in> set ?P. \<not> (equal_fold (pr_BoxID p) b \<and> pr_Port p = port)}"
    by (auto simp: of_box_port_def)
  with s res again show ?thesis by simp
qed

theorem proxy_bound_to_generation_witness:
  "createProxy 9 None ''web'' 8080 ''x'' [] (snd (createProxy 7 (Some ''ab12'') ''web'' 8080 ''admin'' []
      (sample_server [sample_session ''t1'' ''web'' ''gpu'' LifecycleRunning]))) =
   (Inr (new_proxy 7 ''ab12'' ''web'' (sample_session ''t1'' ''web'' ''gpu'' LifecycleRunning) 8080 ''admin'' []),
    snd (createProxy 7 (Some ''ab12'') ''web'' 8080 ''admin'' []
      (sample_server [sample_session ''t1'' ''web'' ''gpu'' LifecycleRunning])))"
proof -
  let ?s = "sample_session ''t1'' ''web'' ''gpu'' LifecycleRunning"
  define sv where "sv = sample_server [?s]"
  have up: "db_up sv" unfolding sv_def using sample_server_ok [of "[?s]"] by simp
  have px: "db_proxies (sv_db sv) = []" "sv_byToken sv = [(''t1'', ?s)]" "ProxyEnabled sv"
    by (simp_all add: sv_def sample_server_def blank_server_def empty_db_def sample_session_def ProxyEnabled_def)
  then have ok: "proxies_ok sv" "unique_ports sv" by (simp_all add: proxies_ok_def unique_ports_def)
  have l: "lookupByBoxID sv ''web'' = Some ?s"
    by (simp add: lookupByBoxID_def box_matches_def px sample_session_def)
  define sv' where "sv' = snd (createProxy 7 (Some ''ab12'') ''web'' 8080 ''admin'' [] sv)"
  have c: "createProxy 7 (Some ''ab12'') ''web'' 8080 ''admin'' [] sv =
      (Inr (new_proxy 7 ''ab12'' ''web'' ?s 8080 ''admin'' []), sv')"
    unfolding sv'_def using up
    by (simp add: createProxy_def px l terminated_def sample_session_def findProxy_up [OF up] Let_def SaveProxy_def
        attempt_def db_up_def new_proxy_def)
  have "createProxy 9 None ''web'' 8080 ''x'' [] sv' = (Inr (new_proxy 7 ''ab12'' ''web'' ?s 8080 ''admin'' []), sv')"
    using proxy_bound_to_generation [OF up ok _ c, of 9 None "''x''" "[]"] px by simp
  then show ?thesis unfolding sv_def [symmetric] sv'_def [symmetric] .
qed

subsection \<open>Requests that originate in a box\<close>

lemma findProxy_mem:
  assumes "findProxy b port sv = Inr (Some p)"
  shows "\<exists>k. (k, p) \<in> set (db_proxies (sv_db sv)) \<and> equal_fold (pr_BoxID p) b"
proof -
  have "find (\<lambda>p. equal_fold (pr_BoxID p) b \<and> pr_Port p = port) (map snd (db_proxies (sv_db sv))) = Some p"
    using assms by (auto simp: findProxy_def ListProxies_def split: sum.splits)
  then have "p \<in> snd ` set (db_proxies (sv_db sv))" "equal_fold (pr_BoxID p) b"
    by (auto dest: find_Some_mem)
  then show ?thesis by force
qed

text \<open>The proxies of other boxes.\<close>

definition other_proxies :: "string \<Rightarrow> 'w server \<Rightarrow> (string \<times> proxy_record) set" where
  "other_proxies b sv = {(k, p) \<in> set (db_proxies (sv_db sv)). \<not> equal_fold (pr_BoxID p) b}"

lemma other_proxies_delete:
  assumes "proxies_ok sv" and "(k, p) \<in> set (db_proxies (sv_db sv))" and "equal_fold (pr_BoxID p) b"
  shows "{(k', p') \<in> set (tdel (pr_Slug p) (db_proxies (sv_db sv))). \<not> equal_fold (pr_BoxID p') b} = other_proxies b sv"
proof -
  have kd: "keys_distinct (db_proxies (sv_db sv))" and slug: "pr_Slug p = k"
    using assms(1,2) by (auto simp: proxies_ok_def)
  have "p' = p" if "(k, p') \<in> set (db_proxies (sv_db sv))" for p'
    using that assms(2) by (simp add: mem_tget [OF kd])
  with assms(3) show ?thesis by (auto simp: slug set_tdel other_proxies_def)
qed

lemma other_proxies_tput:
  assumes "keys_distinct t" and "tget t slug = None" and "equal_fold (pr_BoxID rec) b"
  shows "{(k, p) \<in> set (tput slug rec t). \<not> equal_fold (pr_BoxID p) b} =
    {(k, p) \<in> set t. \<not> equal_fold (pr_BoxID p) b}"
  using assms(2,3) mem_tget [OF assms(1)] by (auto simp: set_tput [OF assms(1)])

lemma createProxy_effect:
  "(\<exists>k p. (k, p) \<in> set (db_proxies (sv_db sv)) \<and> equal_fold (pr_BoxID p) b \<and>
      (snd (createProxy now rnd b port c ds sv) = set_proxies (tdel (pr_Slug p) (db_proxies (sv_db sv))) sv \<or>
       (\<exists>slug s. rnd = Some slug \<and> snd (createProxy now rnd b port c ds sv) =
          set_proxies (tput slug (new_proxy now slug b s port c ds) (tdel (pr_Slug p) (db_proxies (sv_db sv)))) sv))) \<or>
   (\<exists>slug s. rnd = Some slug \<and> snd (createProxy now rnd b port c ds sv) =
      set_proxies (tput slug (new_proxy now slug b s port c ds) (db_proxies (sv_db sv))) sv) \<or>
   snd (createProxy now rnd b port c ds sv) = sv"
  (is "?with_old \<or> ?new \<or> ?same")
proof (cases "ProxyEnabled sv \<and> \<not> (port < 1 \<or> 65535 < port) \<and> (\<exists>s. lookupByBoxID sv b = Some s \<and> \<not> terminated s) \<and>
    (\<exists>x. findProxy b port sv = Inr x)")
  case False
  then have ?same by (auto simp: createProxy_def split: option.splits sum.splits)
  then show ?thesis by blast
next
  case True
  then obtain s x where g: "ProxyEnabled sv" "\<not> (port < 1 \<or> 65535 < port)" "lookupByBoxID sv b = Some s" "\<not> terminated s"
    and x: "findProxy b port sv = Inr x" by blast
  note unf = createProxy_def if_not_P [OF g(2)] g(1,3) not_True_eq_False if_False option.case if_not_P [OF g(4)] x
    sum.case Let_def DeleteProxy_def SaveProxy_def attempt_def
  show ?thesis
  proof (cases x)
    case None
    have "?new \<or> ?same" unfolding unf None by (cases rnd) (auto simp: set_proxies_def new_proxy_def)
    then show ?thesis by blast
  next
    case (Some p)
    with x findProxy_mem obtain k where k: "(k, p) \<in> set (db_proxies (sv_db sv))" "equal_fold (pr_BoxID p) b" by blast
    have "?same \<or> snd (createProxy now rnd b port c ds sv) = set_proxies (tdel (pr_Slug p) (db_proxies (sv_db sv))) sv \<or>
       (\<exists>slug s. rnd = Some slug \<and> snd (createProxy now rnd b port c ds sv) =
          set_proxies (tput slug (new_proxy now slug b s port c ds) (tdel (pr_Slug p) (db_proxies (sv_db sv)))) sv)"
      unfolding unf Some by (cases rnd) (auto simp: set_proxies_def new_proxy_def)
    with k show ?thesis by blast
  qed
qed

lemma other_proxies_set_proxies:
  "other_proxies b (set_proxies t sv) = {(k, p) \<in> set t. \<not> equal_fold (pr_BoxID p) b}"
  by (simp add: other_proxies_def set_proxies_def)

lemma createProxy_others:
  assumes "proxies_ok sv" and "\<And>slug. rnd = Some slug \<Longrightarrow> tget (db_proxies (sv_db sv)) slug = None"
  shows "other_proxies b (snd (createProxy now rnd b port c ds sv)) = other_proxies b sv"
proof -
  let ?P = "db_proxies (sv_db sv)"
  have kd: "keys_distinct ?P" using assms(1) by (simp add: proxies_ok_def)
  have put: "other_proxies b (set_proxies (tput slug (new_proxy now slug b s port c ds) t) sv) =
      other_proxies b (set_proxies t sv)"
    if "rnd = Some slug" "keys_distinct t" "tget t slug = None" for slug s t
    unfolding other_proxies_set_proxies
    by (rule other_proxies_tput) (use that in \<open>simp_all add: new_proxy_def\<close>)
  have del: "other_proxies b (set_proxies (tdel (pr_Slug p) ?P) sv) = other_proxies b sv"
    if "(k, p) \<in> set ?P" "equal_fold (pr_BoxID p) b" for k p
    unfolding other_proxies_set_proxies by (rule other_proxies_delete [OF assms(1) that])
  have same: "other_proxies b (set_proxies ?P sv) = other_proxies b sv"
    by (simp add: set_proxies_def)
  from createProxy_effect [of sv b now rnd port c ds] show ?thesis
    by (elim disjE exE conjE) (simp_all add: put kd assms(2) del same)
qed

lemma deleteProxy_others:
  assumes "proxies_ok sv"
  shows "other_proxies b (snd (deleteProxy b port sv)) = other_proxies b sv"
proof (cases "\<exists>p. findProxy b port sv = Inr (Some p)")
  case True
  then obtain p k where p: "findProxy b port sv = Inr (Some p)" and
    k: "(k, p) \<in> set (db_proxies (sv_db sv))" "equal_fold (pr_BoxID p) b" using findProxy_mem by blast
  have "snd (deleteProxy b port sv) \<in> {sv, set_proxies (tdel (pr_Slug p) (db_proxies (sv_db sv))) sv}"
    by (auto simp: deleteProxy_def p DeleteProxy_def attempt_def set_proxies_def)
  with other_proxies_delete [OF assms k] show ?thesis by (auto simp only: other_proxies_set_proxies)
next
  case False
  then have "snd (deleteProxy b port sv) = sv" by (auto simp: deleteProxy_def split: sum.split option.split)
  then show ?thesis by simp
qed

lemma boxPortSession_Inr:
  assumes "boxPortSession sv n b = Inr s"
  shows "lookupByBoxID sv b = Some s \<and> resolveStoredSpoke (sv_db sv) (ses_SpokeName s) = n \<and>
    equal_fold (ses_BoxID s) b"
  using assms lookupByBoxID_mem(2) by (auto simp: boxPortSession_def split: if_splits option.splits)

lemma other_proxies_fold: "equal_fold b c \<Longrightarrow> other_proxies b sv = other_proxies c sv"
  by (auto simp: other_proxies_def equal_fold_def)

lemma RecordDNSLookup_rows:
  "RecordDNSLookup b dm v at d = Inr d' \<Longrightarrow> fst k \<noteq> b \<Longrightarrow> tget (db_audit d') k = tget (db_audit d) k"
  by (auto simp: RecordDNSLookup_def Let_def)

lemma port_requests_scoped:
  assumes "proxies_ok sv" and "\<And>slug. rnd = Some slug \<Longrightarrow> tget (db_proxies (sv_db sv)) slug = None"
  shows "case boxPortSession sv n b of
    Inl e \<Rightarrow>
      e = (if b = [] then BoxIDRequired else NotOnSpoke b n) \<and>
      (\<forall>s. b \<noteq> [] \<and> lookupByBoxID sv b = Some s \<longrightarrow> resolveStoredSpoke (sv_db sv) (ses_SpokeName s) \<noteq> n) \<and>
      OpenBoxPort u now rnd n b port ds sv = (Inl (if ProxyEnabled sv then e else ProxyDisabled), sv) \<and>
      CloseBoxPort n b port sv = (Some e, sv) \<and> ListBoxPorts u n b sv = Inl e \<and>
      RecordDNSAudit n b dm v at sv = (Some e, sv)
  | Inr s \<Rightarrow>
      lookupByBoxID sv b = Some s \<and> resolveStoredSpoke (sv_db sv) (ses_SpokeName s) = n \<and>
      (\<forall>sv'. sv' = snd (OpenBoxPort u now rnd n b port ds sv) \<or> sv' = snd (CloseBoxPort n b port sv) \<or>
             sv' = snd (RecordDNSAudit n b dm v at sv) \<longrightarrow>
         sv_byToken sv' = sv_byToken sv \<and> db_boxes (sv_db sv') = db_boxes (sv_db sv) \<and>
         {(k, p) \<in> set (db_proxies (sv_db sv')). \<not> equal_fold (pr_BoxID p) b} =
           {(k, p) \<in> set (db_proxies (sv_db sv)). \<not> equal_fold (pr_BoxID p) b} \<and>
         (\<forall>k. fst k \<noteq> ses_BoxID s \<longrightarrow> tget (db_audit (sv_db sv')) k = tget (db_audit (sv_db sv)) k)) \<and>
      (\<forall>infos. ListBoxPorts u n b sv = Inr infos \<longrightarrow> (\<forall>i \<in> set infos. \<exists>(k, p) \<in> set (db_proxies (sv_db sv)).
         equal_fold (pr_BoxID p) b \<and> i = boxPortInfo u sv p))"
proof (cases "boxPortSession sv n b")
  case (Inl e)
  then show ?thesis
    by (auto simp: OpenBoxPort_def CloseBoxPort_def ListBoxPorts_def RecordDNSAudit_def boxPortSession_def
        split: if_splits option.splits)
next
  case (Inr s)
  note s = boxPortSession_Inr [OF Inr]
  have fold: "other_proxies (ses_BoxID s) x = other_proxies b x" for x :: "'a server"
    using s by (intro other_proxies_fold) blast
  define cr where "cr = snd (createProxy now rnd (ses_BoxID s) port (''box:'' @ ses_BoxID s) ds sv)"
  have op: "snd (OpenBoxPort u now rnd n b port ds sv) \<in> {sv, cr}"
    by (auto simp: OpenBoxPort_def Inr cr_def split: prod.splits sum.splits)
  have "other_proxies b cr = other_proxies b sv"
    using createProxy_others [OF assms, where b = "ses_BoxID s"] by (simp only: fold cr_def)
  moreover have "db_audit (sv_db cr) = db_audit (sv_db sv)"
    unfolding cr_def by (auto simp: createProxy_def Let_def DeleteProxy_def SaveProxy_def attempt_def split: option.splits sum.splits)
  moreover have "x = sv \<or> x = cr" if "x = snd (OpenBoxPort u now rnd n b port ds sv)" for x
    using op that by blast
  ultimately have opened: "other_proxies b x = other_proxies b sv" "db_audit (sv_db x) = db_audit (sv_db sv)"
    if "x = snd (OpenBoxPort u now rnd n b port ds sv)" for x
    using that by (metis, metis)
  let ?c = "snd (deleteProxy (ses_BoxID s) port sv)"
  have cl: "snd (CloseBoxPort n b port sv) = ?c"
    by (auto simp: CloseBoxPort_def Inr split: prod.splits sum.splits)
  have "db_audit (sv_db ?c) = db_audit (sv_db sv)"
    by (auto simp: deleteProxy_def DeleteProxy_def attempt_def split: sum.splits option.splits)
  then have closed: "other_proxies b x = other_proxies b sv" "db_audit (sv_db x) = db_audit (sv_db sv)"
    if "x = snd (CloseBoxPort n b port sv)" for x
    using that cl deleteProxy_others [OF assms(1), of "ses_BoxID s" port] by (simp_all only: fold)
  have rec: "other_proxies b x = other_proxies b sv"
    "fst k \<noteq> ses_BoxID s \<Longrightarrow> tget (db_audit (sv_db x)) k = tget (db_audit (sv_db sv)) k"
    if "x = snd (RecordDNSAudit n b dm v at sv)" for x k
  proof -
    show "other_proxies b x = other_proxies b sv"
      by (auto simp: that RecordDNSAudit_def Inr RecordDNSLookup_def Let_def attempt_def other_proxies_def split: sum.splits)
    show "tget (db_audit (sv_db x)) k = tget (db_audit (sv_db sv)) k" if "fst k \<noteq> ses_BoxID s"
      using that RecordDNSLookup_rows [of "ses_BoxID s" dm v at "sv_db sv"]
      by (auto simp: \<open>x = _\<close> RecordDNSAudit_def Inr split: sum.splits)
  qed
  have "\<exists>(k, p) \<in> set (db_proxies (sv_db sv)). equal_fold (pr_BoxID p) b \<and> i = boxPortInfo u sv p"
    if "ListBoxPorts u n b sv = Inr infos" "i \<in> set infos" for infos i
  proof -
    have "ses_BoxID s \<noteq> []" using s lookupByBoxID_mem(3) by blast
    with that obtain k p where "(k, p) \<in> set (db_proxies (sv_db sv))" "equal_fold (pr_BoxID p) (ses_BoxID s)"
      "i = boxPortInfo u sv p"
      by (auto simp: ListBoxPorts_def Inr listProxies_def ListProxies_def split: sum.splits if_splits)
    with s equal_fold_trans show ?thesis by blast
  qed
  moreover have "sv_byToken x = sv_byToken sv \<and> db_boxes (sv_db x) = db_boxes (sv_db sv) \<and>
      other_proxies b x = other_proxies b sv \<and>
      (\<forall>k. fst k \<noteq> ses_BoxID s \<longrightarrow> tget (db_audit (sv_db x)) k = tget (db_audit (sv_db sv)) k)"
    if "x = snd (OpenBoxPort u now rnd n b port ds sv) \<or> x = snd (CloseBoxPort n b port sv) \<or>
        x = snd (RecordDNSAudit n b dm v at sv)" for x
  proof -
    note x = that
    have "aside sv x" using that aside_OpenBoxPort aside_CloseBoxPort aside_RecordDNSAudit by blast
    moreover have "other_proxies b x = other_proxies b sv" using that opened(1) closed(1) rec(1) by blast
    moreover have "tget (db_audit (sv_db x)) k = tget (db_audit (sv_db sv)) k" if "fst k \<noteq> ses_BoxID s" for k
      using x
    proof (elim disjE)
      assume "x = snd (RecordDNSAudit n b dm v at sv)"
      then show ?thesis by (rule rec(2)) (rule that)
    qed (simp_all only: opened(2) closed(2))
    ultimately show ?thesis by (simp add: aside_def)
  qed
  ultimately show ?thesis unfolding Inr sum.case other_proxies_def [symmetric] using s by blast
qed

text \<open>
  C31 (box_requests_are_scoped). A request of a box to open, close or list its ports, or an audit record
  for it, is refused with the state unchanged unless the box id resolves to a record of the spoke the
  request arrived from; an id that is unknown and one that lives on another spoke get the same error.
  When it is accepted it changes no session, no proxy and no audit row of any other box, and a
  listing shows only ports of that box.
\<close>

theorem box_requests_are_scoped:
  assumes "proxies_ok sv" and "\<And>slug. rnd = Some slug \<Longrightarrow> tget (db_proxies (sv_db sv)) slug = None"
  shows "case boxPortSession sv n b of
    Inl e \<Rightarrow>
      e = (if b = [] then BoxIDRequired else NotOnSpoke b n) \<and>
      (\<forall>s. b \<noteq> [] \<and> lookupByBoxID sv b = Some s \<longrightarrow> resolveStoredSpoke (sv_db sv) (ses_SpokeName s) \<noteq> n) \<and>
      OpenBoxPort u now rnd n b port ds sv = (Inl (if ProxyEnabled sv then e else ProxyDisabled), sv) \<and>
      CloseBoxPort n b port sv = (Some e, sv) \<and> ListBoxPorts u n b sv = Inl e \<and>
      RecordDNSAudit n b dm v at sv = (Some e, sv)
  | Inr s \<Rightarrow>
      lookupByBoxID sv b = Some s \<and> resolveStoredSpoke (sv_db sv) (ses_SpokeName s) = n \<and>
      (\<forall>sv'. sv' = snd (OpenBoxPort u now rnd n b port ds sv) \<or> sv' = snd (CloseBoxPort n b port sv) \<or>
             sv' = snd (RecordDNSAudit n b dm v at sv) \<longrightarrow>
         sv_byToken sv' = sv_byToken sv \<and> db_boxes (sv_db sv') = db_boxes (sv_db sv) \<and>
         {(k, p) \<in> set (db_proxies (sv_db sv')). \<not> equal_fold (pr_BoxID p) b} =
           {(k, p) \<in> set (db_proxies (sv_db sv)). \<not> equal_fold (pr_BoxID p) b} \<and>
         (\<forall>k. fst k \<noteq> ses_BoxID s \<longrightarrow> tget (db_audit (sv_db sv')) k = tget (db_audit (sv_db sv)) k)) \<and>
      (\<forall>infos. ListBoxPorts u n b sv = Inr infos \<longrightarrow> (\<forall>i \<in> set infos. \<exists>(k, p) \<in> set (db_proxies (sv_db sv)).
         equal_fold (pr_BoxID p) b \<and> i = boxPortInfo u sv p))"
  by (rule port_requests_scoped [OF assms])

theorem box_requests_are_scoped_witness:
  "CloseBoxPort ''cpu'' ''web'' 80 (sample_server [sample_session ''t1'' ''web'' ''gpu'' LifecycleRunning]) =
   (Some (NotOnSpoke ''web'' ''cpu''), sample_server [sample_session ''t1'' ''web'' ''gpu'' LifecycleRunning])"
proof -
  let ?s = "sample_session ''t1'' ''web'' ''gpu'' LifecycleRunning"
  define sv where "sv = sample_server [?s]"
  have px: "db_proxies (sv_db sv) = []" "sv_byToken sv = [(''t1'', ?s)]"
    by (simp_all add: sv_def sample_server_def blank_server_def empty_db_def sample_session_def)
  have ok: "proxies_ok sv" by (simp add: proxies_ok_def px)
  have "boxPortSession sv ''cpu'' ''web'' = Inl (NotOnSpoke ''web'' ''cpu'')"
    by (simp add: boxPortSession_def lookupByBoxID_def box_matches_def px sample_session_def resolveStoredSpoke_def)
  with box_requests_are_scoped [OF ok, where rnd = None and n = "''cpu''" and b = "''web''" and port = 80]
  show ?thesis unfolding sv_def [symmetric] by simp
qed

end
