(* ===== verification/Dispatch.thy ===== *)
theory Dispatch
  imports Wire BoxManager Ports
begin

text \<open>
  Both directions of the cluster RPC. Hub to spoke: the verb stubs of \<^verbatim>\<open>remoteSpoke\<close>
  (\<^verbatim>\<open>internal/shared/cluster/remote.go\<close>) and the spoke's \<^verbatim>\<open>handleRequest\<close>/\<^verbatim>\<open>dispatch\<close> (\<^verbatim>\<open>dispatch.go\<close>) over the
  \<^verbatim>\<open>BoxManager\<close> interface (\<^verbatim>\<open>boxmanager.go\<close>). Spoke to hub: the stubs of \<^verbatim>\<open>HubCaller\<close> (\<^verbatim>\<open>boxports.go\<close>) and the
  hub's \<^verbatim>\<open>serveSpokeRequest\<close>/\<^verbatim>\<open>dispatchSpokeRequest\<close> (\<^verbatim>\<open>remote.go\<close>) over \<^verbatim>\<open>BoxPortService\<close>. The text of an error that
  is not a message of the called component is the argument \<open>txt\<close>.
\<close>

subsection \<open>The interface of a spoke\<close>

record 'w box_manager =
  xm_Create :: "create_options \<Rightarrow> 'w \<Rightarrow> (string + create_result) \<times> 'w"
  xm_List :: "'w \<Rightarrow> (string + box list) \<times> 'w"
  xm_Destroy :: "string \<Rightarrow> 'w \<Rightarrow> string option \<times> 'w"
  xm_Pause :: "string \<Rightarrow> 'w \<Rightarrow> string option \<times> 'w"
  xm_Resume :: "string \<Rightarrow> 'w \<Rightarrow> string option \<times> 'w"
  xm_Exec :: "string \<Rightarrow> string list \<Rightarrow> 'w \<Rightarrow> (string + exec_result) \<times> 'w"
  xm_SetNetworkPolicy :: "string \<Rightarrow> network_policy \<Rightarrow> 'w \<Rightarrow> string option \<times> 'w"

datatype verb =
    VCreate create_options
  | VList
  | VDestroy string
  | VPause string
  | VResume string
  | VExec string "string list"
  | VSetPolicy string network_policy

datatype verb_result =
    RCreated create_result
  | RBoxes "box list"
  | RExecuted exec_result
  | RDone

fun of_void :: "string option \<times> 'w \<Rightarrow> (string + verb_result) \<times> 'w" where
  "of_void (None, w) = (Inr RDone, w)"
| "of_void (Some e, w) = (Inl e, w)"

fun of_value :: "('a \<Rightarrow> verb_result) \<Rightarrow> (string + 'a) \<times> 'w \<Rightarrow> (string + verb_result) \<times> 'w" where
  "of_value f (Inl e, w) = (Inl e, w)"
| "of_value f (Inr a, w) = (Inr (f a), w)"

text \<open>The call the hub would make on a manager in its own process.\<close>

fun run_verb :: "'w box_manager \<Rightarrow> verb \<Rightarrow> 'w \<Rightarrow> (string + verb_result) \<times> 'w" where
  "run_verb mgr (VCreate opts) w = of_value RCreated (xm_Create mgr opts w)"
| "run_verb mgr VList w = of_value RBoxes (xm_List mgr w)"
| "run_verb mgr (VDestroy n) w = of_void (xm_Destroy mgr n w)"
| "run_verb mgr (VPause n) w = of_void (xm_Pause mgr n w)"
| "run_verb mgr (VResume n) w = of_void (xm_Resume mgr n w)"
| "run_verb mgr (VExec n cmd) w = of_value RExecuted (xm_Exec mgr n cmd w)"
| "run_verb mgr (VSetPolicy b p) w = of_void (xm_SetNetworkPolicy mgr b p w)"

subsection \<open>The spoke's side\<close>

datatype rpc_error = BadPayload | BadBoxID string | UnknownMethod string | NoPortService

abbreviation on_payload ::
  "(json \<Rightarrow> 'a option) \<Rightarrow> payload \<Rightarrow> (rpc_error \<Rightarrow> string) \<Rightarrow> 'w \<Rightarrow> ('a \<Rightarrow> (string + payload) \<times> 'w) \<Rightarrow> (string + payload) \<times> 'w"
where
  "on_payload d p txt w k \<equiv> (case decodePayload d p of None \<Rightarrow> (Inl (txt BadPayload), w) | Some a \<Rightarrow> k a)"

definition void_reply :: "string option \<times> 'w \<Rightarrow> (string + payload) \<times> 'w" where
  "void_reply r = (case r of (None, w) \<Rightarrow> (Inr None, w) | (Some e, w) \<Rightarrow> (Inl e, w))"

definition value_reply :: "('a \<Rightarrow> json) \<Rightarrow> (string + 'a) \<times> 'w \<Rightarrow> (string + payload) \<times> 'w" where
  "value_reply e r = (case r of (Inl x, w) \<Rightarrow> (Inl x, w) | (Inr a, w) \<Rightarrow> (Inr (encodePayload e a), w))"

definition dispatch ::
  "(rpc_error \<Rightarrow> string) \<Rightarrow> 'w box_manager \<Rightarrow> wire_frame \<Rightarrow> 'w \<Rightarrow> (string + payload) \<times> 'w"
where
  "dispatch txt mgr req w =
     (if fr_Method req = ''create'' then
        on_payload dec_createReq (fr_Payload req) txt w (\<lambda>opts.
          if co_BoxID opts \<noteq> [] \<and> \<not> ValidBoxID (co_BoxID opts) then (Inl (txt (BadBoxID (co_BoxID opts))), w)
          else value_reply enc_createResp (xm_Create mgr opts w))
      else if fr_Method req = ''list'' then value_reply enc_listResp (xm_List mgr w)
      else if fr_Method req = ''destroy'' then
        on_payload dec_idReq (fr_Payload req) txt w (\<lambda>n. void_reply (xm_Destroy mgr n w))
      else if fr_Method req = ''pause'' then
        on_payload dec_idReq (fr_Payload req) txt w (\<lambda>n. void_reply (xm_Pause mgr n w))
      else if fr_Method req = ''resume'' then
        on_payload dec_idReq (fr_Payload req) txt w (\<lambda>n. void_reply (xm_Resume mgr n w))
      else if fr_Method req = ''exec'' then
        on_payload dec_execReq (fr_Payload req) txt w (\<lambda>(n, cmd). value_reply enc_exec_result (xm_Exec mgr n cmd w))
      else if fr_Method req = ''set_policy'' then
        on_payload dec_setPolicyReq (fr_Payload req) txt w (\<lambda>(b, p). void_reply (xm_SetNetworkPolicy mgr b p w))
      else (Inl (txt (UnknownMethod (fr_Method req))), w))"

definition reply_frame :: "frame_type \<Rightarrow> int \<Rightarrow> string + payload \<Rightarrow> wire_frame" where
  "reply_frame t i r = (case r of Inl e \<Rightarrow> (zero_frame t i)\<lparr>fr_Error := e\<rparr> | Inr p \<Rightarrow> (zero_frame t i)\<lparr>fr_Payload := p\<rparr>)"

definition handleRequest ::
  "(rpc_error \<Rightarrow> string) \<Rightarrow> 'w box_manager \<Rightarrow> wire_frame \<Rightarrow> 'w \<Rightarrow> wire_frame \<times> 'w"
where
  "handleRequest txt mgr req w =
     (case dispatch txt mgr req w of (r, w') \<Rightarrow> (reply_frame FrameResp (fr_ID req) r, w'))"

subsection \<open>The hub's stubs\<close>

fun verb_method :: "verb \<Rightarrow> string" where
  "verb_method (VCreate opts) = ''create''"
| "verb_method VList = ''list''"
| "verb_method (VDestroy n) = ''destroy''"
| "verb_method (VPause n) = ''pause''"
| "verb_method (VResume n) = ''resume''"
| "verb_method (VExec n cmd) = ''exec''"
| "verb_method (VSetPolicy b p) = ''set_policy''"

fun verb_payload :: "verb \<Rightarrow> payload" where
  "verb_payload (VCreate opts) = encodePayload enc_createReq opts"
| "verb_payload VList = Some (JObj [])"
| "verb_payload (VDestroy n) = encodePayload enc_idReq n"
| "verb_payload (VPause n) = encodePayload enc_idReq n"
| "verb_payload (VResume n) = encodePayload enc_idReq n"
| "verb_payload (VExec n cmd) = encodePayload enc_execReq (n, cmd)"
| "verb_payload (VSetPolicy b p) = encodePayload enc_setPolicyReq (b, p)"

fun verb_result_of :: "verb \<Rightarrow> payload \<Rightarrow> verb_result option" where
  "verb_result_of (VCreate opts) p = map_option RCreated (decodePayload dec_createResp p)"
| "verb_result_of VList p = map_option RBoxes (decodePayload dec_listResp p)"
| "verb_result_of (VExec n cmd) p = map_option RExecuted (decodePayload dec_exec_result p)"
| "verb_result_of (VDestroy n) p = Some RDone"
| "verb_result_of (VPause n) p = Some RDone"
| "verb_result_of (VResume n) p = Some RDone"
| "verb_result_of (VSetPolicy b pol) p = Some RDone"

datatype call_error =
    CallClosed string
  | CallSend string
  | CallCancelled
  | CallDisconnected
  | CallRemote string
  | CallDecode

text \<open>How \<^verbatim>\<open>call\<close> turns the response frame into the verb's result.\<close>

definition call_result :: "(payload \<Rightarrow> 'r option) \<Rightarrow> wire_frame \<Rightarrow> call_error + 'r" where
  "call_result d f =
     (if fr_Error f \<noteq> [] then Inl (CallRemote (fr_Error f))
      else case d (fr_Payload f) of None \<Rightarrow> Inl CallDecode | Some r \<Rightarrow> Inr r)"

definition request_frame :: "frame_type \<Rightarrow> int \<Rightarrow> string \<Rightarrow> payload \<Rightarrow> wire_frame" where
  "request_frame t i m p = (zero_frame t i)\<lparr>fr_Method := m, fr_Payload := p\<rparr>"

text \<open>A frame as the peer reads it.\<close>

definition over_wire :: "wire_frame \<Rightarrow> wire_frame option" where
  "over_wire f = dec_frame (enc_frame f)"

text \<open>A whole call: the stub's request over the wire, the spoke's handling, its reply over the wire.\<close>

definition remote_verb ::
  "(rpc_error \<Rightarrow> string) \<Rightarrow> 'w box_manager \<Rightarrow> int \<Rightarrow> verb \<Rightarrow> 'w \<Rightarrow> (call_error + verb_result) option \<times> 'w"
where
  "remote_verb txt mgr i v w =
     (case over_wire (request_frame FrameReq i (verb_method v) (verb_payload v)) of
        None \<Rightarrow> (None, w)
      | Some req \<Rightarrow>
          (case handleRequest txt mgr req w of
             (resp, w') \<Rightarrow> (map_option (call_result (verb_result_of v)) (over_wire resp), w')))"

subsection \<open>A remote call is a local call\<close>

fun verb_ok :: "verb \<Rightarrow> bool" where
  "verb_ok (VCreate opts) = create_options_ok opts"
| "verb_ok VList = True"
| "verb_ok (VDestroy n) = utf8 n"
| "verb_ok (VPause n) = utf8 n"
| "verb_ok (VResume n) = utf8 n"
| "verb_ok (VExec n cmd) = (utf8 n \<and> list_all utf8 cmd)"
| "verb_ok (VSetPolicy b p) = (utf8 b \<and> network_policy_ok p)"

fun verb_result_ok :: "verb_result \<Rightarrow> bool" where
  "verb_result_ok (RCreated r) = create_result_ok r"
| "verb_result_ok (RBoxes bs) = list_all box_ok bs"
| "verb_result_ok (RExecuted r) = exec_result_ok r"
| "verb_result_ok RDone = True"

definition reply_ok :: "string + verb_result \<Rightarrow> bool" where
  "reply_ok r = (case r of Inl e \<Rightarrow> e \<noteq> [] \<and> utf8 e | Inr x \<Rightarrow> verb_result_ok x)"

definition refused_create :: "verb \<Rightarrow> string option" where
  "refused_create v =
     (case v of VCreate opts \<Rightarrow> if co_BoxID opts \<noteq> [] \<and> \<not> ValidBoxID (co_BoxID opts) then Some (co_BoxID opts) else None
      | _ \<Rightarrow> None)"

definition local_verb ::
  "(rpc_error \<Rightarrow> string) \<Rightarrow> 'w box_manager \<Rightarrow> verb \<Rightarrow> 'w \<Rightarrow> (string + verb_result) \<times> 'w"
where
  "local_verb txt mgr v w =
     (case refused_create v of Some b \<Rightarrow> (Inl (txt (BadBoxID b)), w) | None \<Rightarrow> run_verb mgr v w)"

lemma method_ascii: "utf8 (verb_method v)"
proof -
  have "utf8 ''create'' \<and> utf8 ''list'' \<and> utf8 ''destroy'' \<and> utf8 ''pause'' \<and> utf8 ''resume'' \<and> utf8 ''exec'' \<and> utf8 ''set_policy''"
    by code_simp
  then show ?thesis by (cases v) simp_all
qed

lemma over_wire_request:
  assumes "uint64 i" "utf8 m" "t \<in> set known_types"
  shows "over_wire (request_frame t i m p) = Some (request_frame t i m p)"
  using assms unfolding over_wire_def by (intro wire_frame.roundtrip) (simp add: frame_ok_def request_frame_def zero_frame_def)

lemma over_wire_reply:
  assumes "uint64 i" "t \<in> set known_types" "case r of Inl e \<Rightarrow> utf8 e | Inr p \<Rightarrow> True"
  shows "over_wire (reply_frame t i r) = Some (reply_frame t i r)"
  using assms unfolding over_wire_def
  by (intro wire_frame.roundtrip) (auto simp: frame_ok_def reply_frame_def zero_frame_def split: sum.splits)

lemma call_result_reply:
  "call_result d (reply_frame t i (Inl e)) = (if e \<noteq> [] then Inl (CallRemote e) else case d None of None \<Rightarrow> Inl CallDecode | Some r \<Rightarrow> Inr r)"
  "call_result d (reply_frame t i (Inr p)) = (case d p of None \<Rightarrow> Inl CallDecode | Some r \<Rightarrow> Inr r)"
  by (simp_all add: call_result_def reply_frame_def zero_frame_def)


fun reply_payload :: "verb_result \<Rightarrow> payload" where
  "reply_payload (RCreated c) = encodePayload enc_createResp c"
| "reply_payload (RBoxes bs) = encodePayload enc_listResp bs"
| "reply_payload (RExecuted x) = encodePayload enc_exec_result x"
| "reply_payload RDone = None"

lemma outcome_cases:
  fixes x :: "(string + 'a) \<times> 'w"
  obtains (failed) e w where "x = (Inl e, w)" | (ok) a w where "x = (Inr a, w)"
  by (cases x; cases "fst x") auto

lemma reply_conv:
  "void_reply x = (case of_void x of (r, w) \<Rightarrow> (map_sum id reply_payload r, w))"
  "(\<And>a. reply_payload (f a) = encodePayload e a) \<Longrightarrow>
   value_reply e y = (case of_value f y of (r, w) \<Rightarrow> (map_sum id reply_payload r, w))"
  by (cases x rule: of_void.cases; simp add: void_reply_def) (cases y rule: outcome_cases; simp add: value_reply_def)

text \<open>The spoke answers a well-formed request with what the manager answers.\<close>

lemma dispatch_verb:
  assumes "verb_ok v"
  shows "dispatch txt mgr (request_frame t i (verb_method v) (verb_payload v)) w =
    (case local_verb txt mgr v w of (r, w') \<Rightarrow> (map_sum id reply_payload r, w'))"
proof -
  note req = request_frame_def zero_frame_def dispatch_def local_verb_def refused_create_def reply_conv
  show ?thesis
  proof (cases v)
    case (VCreate opts)
    then show ?thesis using assms createReq.payload_roundtrip [of opts] by (simp add: req reply_conv(2) [of RCreated])
  next
    case VList
    then show ?thesis by (simp add: req reply_conv(2) [of RBoxes])
  next
    case (VExec n cmd)
    then show ?thesis using assms execReq.payload_roundtrip [of "(n, cmd)"] by (simp add: req reply_conv(2) [of RExecuted])
  next
    case (VDestroy n)
    then show ?thesis using assms idReq.payload_roundtrip [of n] by (simp add: req)
  next
    case (VPause n)
    then show ?thesis using assms idReq.payload_roundtrip [of n] by (simp add: req)
  next
    case (VResume n)
    then show ?thesis using assms idReq.payload_roundtrip [of n] by (simp add: req)
  next
    case (VSetPolicy b p)
    then show ?thesis using assms setPolicyReq.payload_roundtrip [of "(b, p)"] by (simp add: req)
  qed
qed

lemma verb_result_roundtrip:
  assumes "run_verb mgr v w = (Inr x, w')" "verb_result_ok x"
  shows "verb_result_of v (reply_payload x) = Some x"
proof (cases v)
  case (VCreate opts)
  with assms show ?thesis
    by (cases "xm_Create mgr opts w" rule: outcome_cases) (auto simp: createResp.payload_roundtrip)
next
  case VList
  with assms show ?thesis by (cases "xm_List mgr w" rule: outcome_cases) (auto simp: listResp.payload_roundtrip)
next
  case (VExec n cmd)
  with assms show ?thesis
    by (cases "xm_Exec mgr n cmd w" rule: outcome_cases) (auto simp: exec_result.payload_roundtrip)
next
  case (VDestroy n)
  with assms show ?thesis by (cases "xm_Destroy mgr n w" rule: of_void.cases) auto
next
  case (VPause n)
  with assms show ?thesis by (cases "xm_Pause mgr n w" rule: of_void.cases) auto
next
  case (VResume n)
  with assms show ?thesis by (cases "xm_Resume mgr n w" rule: of_void.cases) auto
next
  case (VSetPolicy b p)
  with assms show ?thesis by (cases "xm_SetNetworkPolicy mgr b p w" rule: of_void.cases) auto
qed



text \<open>The in-process manager of a spoke behind the interface; \<open>say\<close> gives an error's text.\<close>

definition spoke_manager ::
  "(manager_error \<Rightarrow> string) \<Rightarrow> ('w, 'i) prov_ops \<Rightarrow> 'i guest_ops \<Rightarrow> 'p manager_config \<Rightarrow> ('w, 'p) manager box_manager"
where
  "spoke_manager say ops g cfg =
     \<lparr>xm_Create = (\<lambda>opts m. map_prod (map_sum say id) id (mgr_Create ops g cfg opts m)),
      xm_List = (\<lambda>m. (mgr_List ops m, m)),
      xm_Destroy = (\<lambda>n m. map_prod (map_option say) id (mgr_Destroy ops cfg n m)),
      xm_Pause = (\<lambda>n m. map_prod (map_option say) id (mgr_Pause ops n m)),
      xm_Resume = (\<lambda>n m. map_prod (map_option say) id (mgr_Resume ops n m)),
      xm_Exec = (\<lambda>n cmd m. (map_sum say id (mgr_Exec ops g n cmd m), m)),
      xm_SetNetworkPolicy = (\<lambda>b p m. map_prod (map_option say) id (mgr_SetNetworkPolicy cfg b p m))\<rparr>"

definition talking_guest :: "nat guest_ops" where
  "talking_guest = (sample_guest True)\<lparr>go_Exec := (\<lambda>_ _. Inr \<lparr>er_Stdout = ''hello'', er_Stderr = [], er_ExitCode = 0\<rparr>)\<rparr>"


text \<open>
  The assumption on UTF-8 is needed: the output of a command on a remote box comes back with every
  byte that is not UTF-8 replaced, which a call on a local manager does not do.
\<close>

lemma remote_exec_mangles_binary_output:
  "verb_result_of (VExec n cmd) (reply_payload (RExecuted \<lparr>er_Stdout = [char_of (255 :: nat)], er_Stderr = [], er_ExitCode = 0\<rparr>))
     = Some (RExecuted \<lparr>er_Stdout = replacement, er_Stderr = [], er_ExitCode = 0\<rparr>)"
  by code_simp


subsection \<open>From a spoke to the hub\<close>

record 's port_service =
  sp_Open :: "string \<Rightarrow> string \<Rightarrow> int \<Rightarrow> string \<Rightarrow> 's \<Rightarrow> (string + box_port_info) \<times> 's"
  sp_Close :: "string \<Rightarrow> string \<Rightarrow> int \<Rightarrow> 's \<Rightarrow> string option \<times> 's"
  sp_List :: "string \<Rightarrow> string \<Rightarrow> 's \<Rightarrow> (string + box_port_info list) \<times> 's"
  sp_Audit :: "string \<Rightarrow> string \<Rightarrow> string \<Rightarrow> string \<Rightarrow> time \<Rightarrow> 's \<Rightarrow> string option \<times> 's"

definition dispatchSpokeRequest ::
  "(rpc_error \<Rightarrow> string) \<Rightarrow> 's port_service option \<Rightarrow> string \<Rightarrow> wire_frame \<Rightarrow> 's \<Rightarrow> (string + payload) \<times> 's"
where
  "dispatchSpokeRequest txt ports name f s =
     (case ports of
        None \<Rightarrow> (Inl (txt NoPortService), s)
      | Some svc \<Rightarrow>
          if fr_Method f = ''open_box_port'' then
            on_payload dec_openBoxPortReq (fr_Payload f) txt s (\<lambda>r.
              value_reply enc_openBoxPortResp (sp_Open svc name (oq_BoxID r) (oq_Port r) (oq_Description r) s))
          else if fr_Method f = ''close_box_port'' then
            on_payload dec_closeBoxPortReq (fr_Payload f) txt s (\<lambda>(b, p). void_reply (sp_Close svc name b p s))
          else if fr_Method f = ''list_box_ports'' then
            on_payload dec_listBoxPortsReq (fr_Payload f) txt s (\<lambda>b. value_reply enc_listBoxPortsResp (sp_List svc name b s))
          else if fr_Method f = ''dns_audit'' then
            on_payload dec_dnsAuditReq (fr_Payload f) txt s (\<lambda>r.
              void_reply (sp_Audit svc name (dq_BoxID r) (dq_Domain r) (dq_Verdict r) (dq_UnixSec r * second) s))
          else (Inl (txt (UnknownMethod (fr_Method f))), s))"

definition serveSpokeRequest ::
  "(rpc_error \<Rightarrow> string) \<Rightarrow> 's port_service option \<Rightarrow> string \<Rightarrow> wire_frame \<Rightarrow> 's \<Rightarrow> wire_frame \<times> 's"
where
  "serveSpokeRequest txt ports name f s =
     (case dispatchSpokeRequest txt ports name f s of (r, s') \<Rightarrow> (reply_frame FrameSpokeResp (fr_ID f) r, s'))"

datatype port_call =
    POpen string int string
  | PClose string int
  | PList string
  | PAudit string string string time

datatype port_result =
    POpened box_port_info
  | PListed "box_port_info list"
  | PDone

fun port_void :: "string option \<times> 's \<Rightarrow> (string + port_result) \<times> 's" where
  "port_void (None, s) = (Inr PDone, s)"
| "port_void (Some e, s) = (Inl e, s)"

fun port_value :: "('a \<Rightarrow> port_result) \<Rightarrow> (string + 'a) \<times> 's \<Rightarrow> (string + port_result) \<times> 's" where
  "port_value f (Inl e, s) = (Inl e, s)"
| "port_value f (Inr a, s) = (Inr (f a), s)"

text \<open>The service called directly, for the spoke \<open>name\<close>; audit times have whole seconds on the wire.\<close>

fun run_port :: "'s port_service \<Rightarrow> string \<Rightarrow> port_call \<Rightarrow> 's \<Rightarrow> (string + port_result) \<times> 's" where
  "run_port svc name (POpen b p d) s = port_value POpened (sp_Open svc name b p d s)"
| "run_port svc name (PClose b p) s = port_void (sp_Close svc name b p s)"
| "run_port svc name (PList b) s = port_value PListed (sp_List svc name b s)"
| "run_port svc name (PAudit b d v at) s = port_void (sp_Audit svc name b d v (at div second * second) s)"

text \<open>The stubs of \<^verbatim>\<open>HubCaller\<close>.\<close>

fun port_method :: "port_call \<Rightarrow> string" where
  "port_method (POpen b p d) = ''open_box_port''"
| "port_method (PClose b p) = ''close_box_port''"
| "port_method (PList b) = ''list_box_ports''"
| "port_method (PAudit b d v at) = ''dns_audit''"

fun port_payload :: "port_call \<Rightarrow> payload" where
  "port_payload (POpen b p d) = encodePayload enc_openBoxPortReq \<lparr>oq_BoxID = b, oq_Port = p, oq_Description = d\<rparr>"
| "port_payload (PClose b p) = encodePayload enc_closeBoxPortReq (b, p)"
| "port_payload (PList b) = encodePayload enc_listBoxPortsReq b"
| "port_payload (PAudit b d v at) =
     encodePayload enc_dnsAuditReq \<lparr>dq_BoxID = b, dq_Domain = d, dq_Verdict = v, dq_UnixSec = at div second\<rparr>"

fun port_result_of :: "port_call \<Rightarrow> payload \<Rightarrow> port_result option" where
  "port_result_of (POpen b p d) x = map_option POpened (decodePayload dec_openBoxPortResp x)"
| "port_result_of (PList b) x = map_option PListed (decodePayload dec_listBoxPortsResp x)"
| "port_result_of (PClose b p) x = Some PDone"
| "port_result_of (PAudit b d v at) x = Some PDone"

definition remote_port ::
  "(rpc_error \<Rightarrow> string) \<Rightarrow> 's port_service option \<Rightarrow> string \<Rightarrow> int \<Rightarrow> port_call \<Rightarrow> 's \<Rightarrow> (call_error + port_result) option \<times> 's"
where
  "remote_port txt ports name i c s =
     (case over_wire (request_frame FrameSpokeReq i (port_method c) (port_payload c)) of
        None \<Rightarrow> (None, s)
      | Some req \<Rightarrow>
          (case serveSpokeRequest txt ports name req s of
             (resp, s') \<Rightarrow> (map_option (call_result (port_result_of c)) (over_wire resp), s')))"

fun port_call_ok :: "port_call \<Rightarrow> bool" where
  "port_call_ok (POpen b p d) = (utf8 b \<and> int64 p \<and> utf8 d)"
| "port_call_ok (PClose b p) = (utf8 b \<and> int64 p)"
| "port_call_ok (PList b) = utf8 b"
| "port_call_ok (PAudit b d v at) = (utf8 b \<and> utf8 d \<and> utf8 v \<and> int64 (at div second))"

fun port_reply_ok :: "string + port_result \<Rightarrow> bool" where
  "port_reply_ok (Inl e) = (e \<noteq> [] \<and> utf8 e)"
| "port_reply_ok (Inr (POpened b)) = box_port_ok b"
| "port_reply_ok (Inr (PListed bs)) = list_all box_port_ok bs"
| "port_reply_ok (Inr PDone) = True"

fun port_reply_payload :: "port_result \<Rightarrow> payload" where
  "port_reply_payload (POpened b) = encodePayload enc_openBoxPortResp b"
| "port_reply_payload (PListed bs) = encodePayload enc_listBoxPortsResp bs"
| "port_reply_payload PDone = None"

lemma port_reply_conv:
  "void_reply x = (case port_void x of (r, w) \<Rightarrow> (map_sum id port_reply_payload r, w))"
  "(\<And>a. port_reply_payload (f a) = encodePayload e a) \<Longrightarrow>
   value_reply e y = (case port_value f y of (r, w) \<Rightarrow> (map_sum id port_reply_payload r, w))"
  by (cases x rule: port_void.cases; simp add: void_reply_def) (cases y rule: outcome_cases; simp add: value_reply_def)

lemma dispatch_port:
  assumes "port_call_ok c"
  shows "dispatchSpokeRequest txt (Some svc) name (request_frame t i (port_method c) (port_payload c)) s =
    (case run_port svc name c s of (r, s') \<Rightarrow> (map_sum id port_reply_payload r, s'))"
proof -
  note req = request_frame_def zero_frame_def dispatchSpokeRequest_def port_reply_conv(1)
  show ?thesis
  proof (cases c)
    case (POpen b p d)
    then show ?thesis using assms openBoxPortReq.payload_roundtrip [of "\<lparr>oq_BoxID = b, oq_Port = p, oq_Description = d\<rparr>"]
      by (simp add: req port_reply_conv(2) [of POpened] open_req_ok_def)
  next
    case (PClose b p)
    then show ?thesis using assms closeBoxPortReq.payload_roundtrip [of "(b, p)"] by (simp add: req)
  next
    case (PList b)
    then show ?thesis using assms listBoxPortsReq.payload_roundtrip [of b] by (simp add: req port_reply_conv(2) [of PListed])
  next
    case (PAudit b d v at)
    then show ?thesis
      using assms dnsAuditReq.payload_roundtrip [of "\<lparr>dq_BoxID = b, dq_Domain = d, dq_Verdict = v, dq_UnixSec = at div second\<rparr>"]
      by (simp add: req dns_audit_req_ok_def)
  qed
qed

lemma port_result_roundtrip:
  assumes "run_port svc name c s = (Inr x, s')" "port_reply_ok (Inr x)"
  shows "port_result_of c (port_reply_payload x) = Some x"
proof (cases c)
  case (POpen b p d)
  with assms show ?thesis
    by (cases "sp_Open svc name b p d s" rule: outcome_cases) (auto simp: openBoxPortResp.payload_roundtrip)
next
  case (PList b)
  with assms show ?thesis
    by (cases "sp_List svc name b s" rule: outcome_cases) (auto simp: listBoxPortsResp.payload_roundtrip)
next
  case (PClose b p)
  with assms show ?thesis by (cases "sp_Close svc name b p s" rule: port_void.cases) auto
next
  case (PAudit b d v at)
  with assms show ?thesis by (cases "sp_Audit svc name b d v (at div second * second) s" rule: port_void.cases) auto
qed

lemma port_method_ascii: "utf8 (port_method c)"
proof -
  have "utf8 ''open_box_port'' \<and> utf8 ''close_box_port'' \<and> utf8 ''list_box_ports'' \<and> utf8 ''dns_audit''" by code_simp
  then show ?thesis by (cases c) simp_all
qed

lemma remote_port_is_local:
  assumes "uint64 i" "port_call_ok c" "port_reply_ok (fst (run_port svc name c s))"
  shows "remote_port txt (Some svc) name i c s =
    (Some (case fst (run_port svc name c s) of Inl e \<Rightarrow> Inl (CallRemote e) | Inr r \<Rightarrow> Inr r), snd (run_port svc name c s))"
proof -
  obtain r s' where l: "run_port svc name c s = (r, s')" by fastforce
  have req: "over_wire (request_frame FrameSpokeReq i (port_method c) (port_payload c)) =
      Some (request_frame FrameSpokeReq i (port_method c) (port_payload c))"
    by (rule over_wire_request [OF assms(1) port_method_ascii]) (simp add: known_types_def)
  define enc where "enc = map_sum id port_reply_payload r"
  have h: "serveSpokeRequest txt (Some svc) name (request_frame FrameSpokeReq i (port_method c) (port_payload c)) s =
      (reply_frame FrameSpokeResp i enc, s')"
    by (simp add: serveSpokeRequest_def dispatch_port [OF assms(2)] l enc_def) (simp add: request_frame_def zero_frame_def)
  have resp: "over_wire (reply_frame FrameSpokeResp i enc) = Some (reply_frame FrameSpokeResp i enc)"
    using assms(1,3) by (intro over_wire_reply) (cases r; simp add: known_types_def enc_def l)+
  have "call_result (port_result_of c) (reply_frame FrameSpokeResp i enc) = (case r of Inl e \<Rightarrow> Inl (CallRemote e) | Inr r \<Rightarrow> Inr r)"
  proof (cases r)
    case (Inl e)
    then show ?thesis using assms(3) by (simp add: l enc_def call_result_reply)
  next
    case (Inr x)
    then show ?thesis using port_result_roundtrip [of svc name c s x s'] l assms(3)
      by (simp add: enc_def call_result_reply)
  qed
  then show ?thesis by (simp add: remote_port_def req h resp l)
qed


text \<open>
  Whatever frame arrives, the hub makes at most one call of the service, and it makes it for the
  spoke the connection belongs to.
\<close>

lemma serve_one_call:
  assumes "serveSpokeRequest txt (Some svc) name f s = (resp, s')"
  shows "fr_Type resp = FrameSpokeResp \<and> fr_ID resp = fr_ID f \<and> (s' = s \<or> (\<exists>c. s' = snd (run_port svc name c s)))"
proof -
  obtain r where d: "dispatchSpokeRequest txt (Some svc) name f s = (r, s')" and resp: "resp = reply_frame FrameSpokeResp (fr_ID f) r"
    using assms by (auto simp: serveSpokeRequest_def split: prod.splits)
  from resp have "fr_Type resp = FrameSpokeResp \<and> fr_ID resp = fr_ID f"
    by (simp add: reply_frame_def zero_frame_def split: sum.split)
  moreover have "s' = snd (dispatchSpokeRequest txt (Some svc) name f s)" by (simp add: d)
  moreover define calls where "calls x \<longleftrightarrow> snd x = s \<or> (\<exists>c. snd x = snd (run_port svc name c s))"
    for x :: "(string + payload) \<times> 'a"
  have "calls (dispatchSpokeRequest txt (Some svc) name f s)"
  proof -
    have stay: "calls (Inl e, s)" for e by (simp add: calls_def)
    have op: "calls (value_reply enc_openBoxPortResp (sp_Open svc name b p d s))" for b p d
      unfolding calls_def
      by (intro disjI2 exI [of _ "POpen b p d"]) (cases "sp_Open svc name b p d s" rule: outcome_cases; simp add: value_reply_def)
    have cl: "calls (void_reply (sp_Close svc name b p s))" for b p
      unfolding calls_def
      by (intro disjI2 exI [of _ "PClose b p"]) (cases "sp_Close svc name b p s" rule: port_void.cases; simp add: void_reply_def)
    have li: "calls (value_reply enc_listBoxPortsResp (sp_List svc name b s))" for b
      unfolding calls_def
      by (intro disjI2 exI [of _ "PList b"]) (cases "sp_List svc name b s" rule: outcome_cases; simp add: value_reply_def)
    have au: "calls (void_reply (sp_Audit svc name b d v (n * second) s))" for b d v n
      unfolding calls_def
      by (intro disjI2 exI [of _ "PAudit b d v (n * second)"])
        (cases "sp_Audit svc name b d v (n * second) s" rule: port_void.cases; simp add: void_reply_def)
    show ?thesis using stay op cl li au
      by (auto simp: dispatchSpokeRequest_def split: option.split)
  qed
  ultimately show ?thesis by (metis calls_def)
qed


text \<open>The hub server behind the service interface; \<open>say\<close> gives an error's text.\<close>

definition hub_ports ::
  "(reg_error \<Rightarrow> string) \<Rightarrow> string \<Rightarrow> time \<Rightarrow> string option \<Rightarrow> 'w server port_service"
where
  "hub_ports say urlPort now rnd =
     \<lparr>sp_Open = (\<lambda>n b p d sv. map_prod (map_sum say id) id (OpenBoxPort urlPort now rnd n b p d sv)),
      sp_Close = (\<lambda>n b p sv. map_prod (map_option say) id (CloseBoxPort n b p sv)),
      sp_List = (\<lambda>n b sv. (map_sum say id (ListBoxPorts urlPort n b sv), sv)),
      sp_Audit = (\<lambda>n b d v at sv. map_prod (map_option say) id (RecordDNSAudit n b d v at sv))\<rparr>"

lemma port_void_snd: "snd (port_void (map_prod (map_option say) id x)) = snd x"
  by (cases x; cases "fst x") auto

lemma port_value_snd: "snd (port_value f (map_prod (map_sum say id) id x)) = snd x"
  by (cases x; cases "fst x") auto

lemma run_hub_ports:
  "snd (run_port (hub_ports say u now rnd) n (POpen b p d) sv) = snd (OpenBoxPort u now rnd n b p d sv)"
  "snd (run_port (hub_ports say u now rnd) n (PClose b p) sv) = snd (CloseBoxPort n b p sv)"
  "snd (run_port (hub_ports say u now rnd) n (PList b) sv) = sv"
  "snd (run_port (hub_ports say u now rnd) n (PAudit b d v at) sv) = snd (RecordDNSAudit n b d v (at div second * second) sv)"
  by (simp_all add: hub_ports_def port_void_snd port_value_snd)
    (cases "ListBoxPorts u n b sv"; simp)

text \<open>The whole server is as it was, but for the proxy and the audit table of the database.\<close>

definition ports_audit_only :: "'w server \<Rightarrow> 'w server \<Rightarrow> bool" where
  "ports_audit_only sv sv' \<longleftrightarrow>
     sv' = sv\<lparr>sv_db := (sv_db sv)\<lparr>db_proxies := db_proxies (sv_db sv'), db_audit := db_audit (sv_db sv')\<rparr>\<rparr>"

lemma ports_audit_only_simps [simp]:
  "ports_audit_only sv sv" "ports_audit_only sv (set_proxies t sv)"
  by (simp_all add: ports_audit_only_def set_proxies_def)

lemma ports_audit_only_createProxy: "ports_audit_only sv (snd (createProxy now rnd b port c ds sv))"
  using createProxy_effect [of sv b now rnd port c ds] by (elim disjE exE conjE) simp_all

lemma ports_audit_only_OpenBoxPort: "ports_audit_only sv (snd (OpenBoxPort u now rnd n b port ds sv))"
proof (cases "boxPortSession sv n b")
  case (Inr s)
  define cr where "cr = snd (createProxy now rnd (ses_BoxID s) port (''box:'' @ ses_BoxID s) ds sv)"
  have "snd (OpenBoxPort u now rnd n b port ds sv) \<in> {sv, cr}"
    by (auto simp: OpenBoxPort_def Inr cr_def split: prod.splits sum.splits)
  then show ?thesis using ports_audit_only_createProxy [of sv] by (auto simp: cr_def)
qed (simp add: OpenBoxPort_def)

lemma ports_audit_only_CloseBoxPort: "ports_audit_only sv (snd (CloseBoxPort n b port sv))"
  by (auto simp: CloseBoxPort_def deleteProxy_def DeleteProxy_def attempt_def ports_audit_only_def
      split: prod.splits sum.splits option.splits if_splits)

lemma ports_audit_only_RecordDNSAudit: "ports_audit_only sv (snd (RecordDNSAudit n b dm v at sv))"
  by (auto simp: RecordDNSAudit_def RecordDNSLookup_def Let_def attempt_def ports_audit_only_def
      split: prod.splits sum.splits option.splits if_splits)

lemmas ports_audit_only_ops =
  ports_audit_only_OpenBoxPort ports_audit_only_CloseBoxPort ports_audit_only_RecordDNSAudit

text \<open>
  C14 (spoke_frames_are_scoped). Whatever request frame arrives on the connection of a spoke, well formed or
  not, the hub answers it under its correlation id. Either the server is unchanged, or nothing of it changes
  but the proxy and the audit table (no session, box row, spoke, join token, API key, setting or group), and
  of these only the published ports or the audit rows of one box whose record the hub keeps on that very spoke.
\<close>

theorem spoke_frames_are_scoped:
  assumes "proxies_ok sv" and "\<And>slug. rnd = Some slug \<Longrightarrow> tget (db_proxies (sv_db sv)) slug = None"
    and "serveSpokeRequest txt (Some (hub_ports say u now rnd)) n f sv = (resp, sv')"
  shows "fr_Type resp = FrameSpokeResp \<and> fr_ID resp = fr_ID f \<and>
    (sv' = sv \<or> (\<exists>b s. lookupByBoxID sv b = Some s \<and> resolveStoredSpoke (sv_db sv) (ses_SpokeName s) = n \<and>
       sv' = sv\<lparr>sv_db := (sv_db sv)\<lparr>db_proxies := db_proxies (sv_db sv'), db_audit := db_audit (sv_db sv')\<rparr>\<rparr> \<and>
       {(k, p) \<in> set (db_proxies (sv_db sv')). \<not> equal_fold (pr_BoxID p) b} =
         {(k, p) \<in> set (db_proxies (sv_db sv)). \<not> equal_fold (pr_BoxID p) b} \<and>
       (\<forall>k. fst k \<noteq> ses_BoxID s \<longrightarrow> tget (db_audit (sv_db sv')) k = tget (db_audit (sv_db sv)) k)))"
proof -
  note call = serve_one_call [OF assms(3)]
  have "sv' = sv \<or> (\<exists>b port d v dm at. sv' = snd (OpenBoxPort u now rnd n b port d sv) \<or> sv' = snd (CloseBoxPort n b port sv) \<or>
      sv' = snd (RecordDNSAudit n b dm v at sv))"
  proof (cases "sv' = sv")
    case False
    with call obtain c where c: "sv' = snd (run_port (hub_ports say u now rnd) n c sv)" by blast
    with False show ?thesis by (cases c) (metis run_hub_ports)+
  qed simp
  then consider (same) "sv' = sv" | (changed) b port d v dm at where
      "sv' = snd (OpenBoxPort u now rnd n b port d sv) \<or> sv' = snd (CloseBoxPort n b port sv) \<or>
       sv' = snd (RecordDNSAudit n b dm v at sv)" by blast
  then show ?thesis
  proof cases
    case (changed b port d v dm at)
    note sv' = changed
    then have only: "ports_audit_only sv sv'" using ports_audit_only_ops by blast
    note scoped = port_requests_scoped [OF assms(1,2), where n = n and b = b and u = u and now = now and port = port
        and ds = d and dm = dm and v = v and at = at]
    show ?thesis
    proof (cases "boxPortSession sv n b")
      case (Inl e)
      then have "sv' = sv" using sv' scoped by auto
      with call show ?thesis by simp
    next
      case (Inr s)
      with scoped sv' call only [unfolded ports_audit_only_def] show ?thesis unfolding Inr sum.case by blast
    qed
  qed (simp add: call)
qed

definition sample_open_frame :: wire_frame where
  "sample_open_frame = request_frame FrameSpokeReq 3 ''open_box_port''
     (Some (JObj [(''box_id'', JStr ''web''), (''port'', JNum 80), (''description'', JStr ''x'')]))"

definition sample_open :: "wire_frame \<times> unit server" where
  "sample_open = serveSpokeRequest (\<lambda>_. ''x'') (Some (hub_ports (\<lambda>_. ''y'') [] 7 (Some ''ab12''))) ''gpu'' sample_open_frame
     (sample_server [sample_session ''t1'' ''web'' ''gpu'' LifecycleRunning])"

theorem spoke_frames_are_scoped_witness:
  "map fst (db_proxies (sv_db (snd sample_open))) = [''ab12''] \<and> fr_ID (fst sample_open) = 3 \<and>
   db_join_tokens (sv_db (snd sample_open)) =
     db_join_tokens (sv_db (sample_server [sample_session ''t1'' ''web'' ''gpu'' LifecycleRunning] :: unit server))"
proof -
  let ?s = "sample_session ''t1'' ''web'' ''gpu'' LifecycleRunning"
  define sv :: "unit server" where "sv = sample_server [?s]"
  have px: "db_proxies (sv_db sv) = []"
    by (simp add: sv_def sample_server_def blank_server_def empty_db_def sample_session_def)
  then have ok: "proxies_ok sv" by (simp add: proxies_ok_def)
  have fresh: "tget (db_proxies (sv_db sv)) slug = None" for slug by (simp add: px)
  have run: "serveSpokeRequest (\<lambda>_. ''x'') (Some (hub_ports (\<lambda>_. ''y'') [] 7 (Some ''ab12''))) ''gpu'' sample_open_frame sv =
      (fst sample_open, snd sample_open)" by (simp add: sample_open_def sv_def)
  note scoped = spoke_frames_are_scoped [OF ok fresh run]
  have "map fst (db_proxies (sv_db (snd sample_open))) = [''ab12'']" by code_simp
  moreover have "fr_ID (fst sample_open) = 3" using scoped by (simp add: sample_open_frame_def request_frame_def zero_frame_def)
  moreover have "db_join_tokens (sv_db (snd sample_open)) = db_join_tokens (sv_db sv)"
  proof -
    have "snd sample_open = sv \<or> snd sample_open = sv\<lparr>sv_db := (sv_db sv)\<lparr>db_proxies := db_proxies (sv_db (snd sample_open)),
        db_audit := db_audit (sv_db (snd sample_open))\<rparr>\<rparr>" using scoped by blast
    then show ?thesis
    proof
      assume eq: "snd sample_open = sv\<lparr>sv_db := (sv_db sv)\<lparr>db_proxies := db_proxies (sv_db (snd sample_open)),
        db_audit := db_audit (sv_db (snd sample_open))\<rparr>\<rparr>"
      show ?thesis by (subst eq) simp
    qed simp
  qed
  ultimately show ?thesis by (simp add: sv_def)
qed

end
