(* ===== verification/Streams.thy ===== *)
theory Streams
  imports Wire "HOL-Library.Sublist"
begin

text \<open>
  The byte tunnels of \<^verbatim>\<open>internal/shared/cluster/stream.go\<close>: the hub's end (\<^verbatim>\<open>clientStream\<close>), the spoke's end
  (\<^verbatim>\<open>serverStream\<close>) with its registry (\<^verbatim>\<open>spokeStreams\<close>), and the deadlines. A Go \<^verbatim>\<open>select\<close> takes any case
  that is ready; the argument \<open>pick\<close> says which, so that a statement for every \<open>pick\<close> covers every
  choice of the scheduler. A send on a closed channel is ready, and panics.
\<close>

abbreviation maxStreamChunk :: nat where "maxStreamChunk \<equiv> 32768"
abbreviation streamInboundBuffer :: nat where "streamInboundBuffer \<equiv> 64"

definition select_case :: "nat \<Rightarrow> 'a list \<Rightarrow> 'a option" where
  "select_case pick ready = (if ready = [] then None else Some (ready ! (pick mod length ready)))"

definition ready_if :: "bool \<Rightarrow> 'a \<Rightarrow> 'a list" where
  "ready_if b x = (if b then [x] else [])"

lemma select_case_mem: "select_case pick ready = Some x \<Longrightarrow> x \<in> set ready"
  by (auto simp: select_case_def split: if_splits)

lemma mem_ready_if [simp]: "x \<in> set (ready_if b y) \<longleftrightarrow> b \<and> x = y"
  by (auto simp: ready_if_def)

subsection \<open>The hub's end\<close>

record client_stream =
  cs_id :: int
  cs_dataCh :: "string list"
  cs_dataClosed :: bool
  cs_closed :: bool
  cs_buf :: string
  cs_remoteErr :: "string option"
  cs_rFired :: bool
  cs_wFired :: bool

definition newClientStream :: "int \<Rightarrow> client_stream" where
  "newClientStream i =
     \<lparr>cs_id = i, cs_dataCh = [], cs_dataClosed = False, cs_closed = False, cs_buf = [], cs_remoteErr = None,
      cs_rFired = False, cs_wFired = False\<rparr>"

datatype push_out = Pushed | PushDropped | PushBlocks | PushPanics

datatype push_case = SendData | SawClosed

definition push :: "nat \<Rightarrow> string \<Rightarrow> client_stream \<Rightarrow> push_out \<times> client_stream" where
  "push pick b c =
     (case select_case pick
             (ready_if (cs_dataClosed c \<or> length (cs_dataCh c) < streamInboundBuffer) SendData @
              ready_if (cs_closed c) SawClosed) of
        None \<Rightarrow> (PushBlocks, c)
      | Some SawClosed \<Rightarrow> (PushDropped, c)
      | Some SendData \<Rightarrow>
          if cs_dataClosed c then (PushPanics, c) else (Pushed, c\<lparr>cs_dataCh := cs_dataCh c @ [b]\<rparr>))"

definition closeRemote :: "string option \<Rightarrow> client_stream \<Rightarrow> client_stream" where
  "closeRemote err c = c\<lparr>cs_remoteErr := err, cs_dataClosed := True\<rparr>"

text \<open>\<open>ReadEnd None\<close> is \<^verbatim>\<open>io.EOF\<close>.\<close>

datatype read_out = ReadData string | ReadEnd "string option" | ReadDeadline | ReadClosed | ReadBlocks

datatype read_case = RClosed | RDeadline | RData

definition Read :: "nat \<Rightarrow> nat \<Rightarrow> client_stream \<Rightarrow> read_out \<times> client_stream" where
  "Read pick n c =
     (if cs_buf c \<noteq> [] then (ReadData (take n (cs_buf c)), c\<lparr>cs_buf := drop n (cs_buf c)\<rparr>)
      else
        case select_case pick
               (ready_if (cs_closed c) RClosed @ ready_if (cs_rFired c) RDeadline @
                ready_if (cs_dataCh c \<noteq> [] \<or> cs_dataClosed c) RData) of
          None \<Rightarrow> (ReadBlocks, c)
        | Some RClosed \<Rightarrow> (ReadClosed, c)
        | Some RDeadline \<Rightarrow> (ReadDeadline, c)
        | Some RData \<Rightarrow>
            (case cs_dataCh c of
               [] \<Rightarrow> (ReadEnd (cs_remoteErr c), c)
             | b # bs \<Rightarrow> (ReadData (take n b), c\<lparr>cs_dataCh := bs, cs_buf := drop n b\<rparr>)))"

text \<open>
  \<^verbatim>\<open>Write\<close>: before each chunk it looks whether the stream was closed or the deadline passed; \<open>env k\<close> is
  what it meets at the \<open>k\<close>-th chunk.
\<close>

record write_env =
  we_closed :: bool
  we_fired :: bool
  we_pick :: nat
  we_sendErr :: "string option"

datatype write_err = WriteClosed | WriteDeadline | WriteSend string

definition data_frame :: "int \<Rightarrow> string \<Rightarrow> wire_frame" where
  "data_frame i b = (zero_frame FrameStreamData i)\<lparr>fr_Data := b\<rparr>"

definition close_frame :: "int \<Rightarrow> string \<Rightarrow> wire_frame" where
  "close_frame i e = (zero_frame FrameStreamClose i)\<lparr>fr_Error := e\<rparr>"

function write_loop ::
  "(nat \<Rightarrow> write_env) \<Rightarrow> int \<Rightarrow> nat \<Rightarrow> nat \<Rightarrow> string \<Rightarrow> nat \<times> write_err option \<times> wire_frame list"
where
  "write_loop env i k sent p =
     (if p = [] then (sent, None, [])
      else
        case select_case (we_pick (env k))
               (ready_if (we_closed (env k)) WriteClosed @ ready_if (we_fired (env k)) WriteDeadline) of
          Some e \<Rightarrow> (sent, Some e, [])
        | None \<Rightarrow>
            (let n = min (length p) maxStreamChunk in
             case we_sendErr (env k) of
               Some e \<Rightarrow> (sent, Some (WriteSend e), [])
             | None \<Rightarrow>
                 (case write_loop env i (Suc k) (sent + n) (drop n p) of
                    (t, e, fs) \<Rightarrow> (t, e, data_frame i (take n p) # fs))))"
  by pat_completeness auto

termination
  by (relation "measure (\<lambda>(env, i, k, sent, p). length p)") auto

declare write_loop.simps [simp del]

definition Write :: "(nat \<Rightarrow> write_env) \<Rightarrow> string \<Rightarrow> client_stream \<Rightarrow> nat \<times> write_err option \<times> wire_frame list" where
  "Write env p c = write_loop env (cs_id c) 0 0 p"

text \<open>
  \<^verbatim>\<open>Close\<close> is two steps another goroutine can come between: it closes the channels, then notifies the
  spoke and unregisters the stream.
\<close>

definition close_channels :: "client_stream \<Rightarrow> client_stream" where
  "close_channels c = c\<lparr>cs_closed := True, cs_dataClosed := True\<rparr>"

subsection \<open>Writes are chunked\<close>

lemma write_loop_spec:
  "write_loop env i k sent p = (t, e, fs) \<Longrightarrow>
     sent \<le> t \<and> t \<le> sent + length p \<and> concat (map fr_Data fs) = take (t - sent) p \<and>
     (\<forall>f \<in> set fs. f = data_frame i (fr_Data f) \<and> fr_Data f \<noteq> [] \<and> length (fr_Data f) \<le> maxStreamChunk) \<and>
     (e = None \<longleftrightarrow> t = sent + length p)"
proof (induction env i k sent p arbitrary: t e fs rule: write_loop.induct)
  case (1 env i k sent p)
  show ?case
  proof (cases "p = []")
    case True
    with 1(2) show ?thesis by (subst (asm) write_loop.simps) auto
  next
    case False
    define n where "n = min (length p) maxStreamChunk"
    have n: "0 < n" "n \<le> length p" "n \<le> maxStreamChunk" using False by (auto simp: n_def)
    define sel where "sel = select_case (we_pick (env k))
               (ready_if (we_closed (env k)) WriteClosed @ ready_if (we_fired (env k)) WriteDeadline)"
    note unf = 1(2) [unfolded write_loop.simps [of env i k sent p] if_not_P [OF False] sel_def [symmetric] Let_def n_def [symmetric]]
    show ?thesis
    proof (cases sel)
      case (Some x)
      with unf False show ?thesis by auto
    next
      case None
      show ?thesis
      proof (cases "we_sendErr (env k)")
        case (Some x)
        with unf \<open>sel = None\<close> False show ?thesis by auto
      next
        case none: None
        obtain t' e' fs' where r: "write_loop env i (Suc k) (sent + n) (drop n p) = (t', e', fs')" by (metis prod_cases3)
        have out: "t = t'" "e = e'" "fs = data_frame i (take n p) # fs'" using unf none None r by auto
        note ih = 1(1) [OF False None [unfolded sel_def] n_def none r]
        have d: "fr_Data (data_frame i b) = b" for b by (simp add: data_frame_def)
        have cat: "take n p @ take (t' - (sent + n)) (drop n p) = take (t' - sent) p"
          using ih n by (subst take_add [symmetric]) simp
        show ?thesis using ih n False cat by (auto simp: out d min_def)
      qed
    qed
  qed
qed


text \<open>
  Further (write_chunks). A write to a tunnel sends the bytes in order in non-empty data frames of at most
  32 KiB of that stream; the count it returns is the number of bytes sent, all of them exactly when
  it returns no error, whenever and however it is interrupted.
\<close>

theorem write_chunks:
  assumes "Write env p c = (t, e, fs)"
  shows "t \<le> length p \<and> concat (map fr_Data fs) = take t p \<and> (e = None \<longleftrightarrow> t = length p) \<and>
    list_all (\<lambda>f. fr_Type f = FrameStreamData \<and> fr_ID f = cs_id c \<and> fr_Data f \<noteq> [] \<and> length (fr_Data f) \<le> maxStreamChunk) fs"
proof -
  note spec = write_loop_spec [OF assms [unfolded Write_def]]
  have "fr_Type f = FrameStreamData \<and> fr_ID f = i" if "f = data_frame i b" for f i b
    by (simp add: that data_frame_def zero_frame_def)
  with spec show ?thesis unfolding list_all_iff by fastforce
qed

definition calm :: write_env where
  "calm = \<lparr>we_closed = False, we_fired = False, we_pick = 0, we_sendErr = None\<rparr>"

theorem write_chunks_witness:
  "fst (Write (\<lambda>k. calm) ''ab'' (newClientStream 3)) \<le> 2 \<and>
   concat (map fr_Data (snd (snd (Write (\<lambda>k. calm) ''ab'' (newClientStream 3))))) =
     take (fst (Write (\<lambda>k. calm) ''ab'' (newClientStream 3))) ''ab''"
proof -
  obtain t e fs where w: "Write (\<lambda>k. calm) ''ab'' (newClientStream 3) = (t, e, fs)" by (metis prod_cases3)
  from write_chunks [OF w] show ?thesis by (simp add: w)
qed

subsection \<open>A tunnel from the box to the hub's reader\<close>

text \<open>What the hub's read loop does with a stream frame of a registered stream.\<close>

definition stream_frame :: "nat \<Rightarrow> wire_frame \<Rightarrow> client_stream \<Rightarrow> push_out \<times> client_stream \<times> bool" where
  "stream_frame pick f c =
     (if fr_Type f = FrameStreamData then (case push pick (fr_Data f) c of (r, c') \<Rightarrow> (r, c', True))
      else (Pushed, closeRemote (if fr_Error f \<noteq> [] then Some (fr_Error f) else None) c, False))"

text \<open>
  The state of one tunnel: \<open>tn_out\<close> are the bytes the spoke's pump has read from the box, \<open>tn_hand\<close> the
  chunk it has not sent yet, \<open>tn_torn\<close> whether the spoke's end was torn down, \<open>tn_cut\<close> whether on the spoke
  a write towards the box or the send of a data frame failed, \<open>tn_wire\<close> the frames on their way to the hub, \<open>tn_reg\<close> whether the hub's
  end is registered, \<open>tn_read\<close> the bytes its reader was given.
\<close>

record tunnel =
  tn_out :: string
  tn_hand :: "string option"
  tn_torn :: bool
  tn_cut :: bool
  tn_wire :: "wire_frame list"
  tn_reg :: bool
  tn_cs :: client_stream
  tn_read :: string
  tn_crashed :: bool

definition open_tunnel :: "int \<Rightarrow> tunnel" where
  "open_tunnel i =
     \<lparr>tn_out = [], tn_hand = None, tn_torn = False, tn_cut = False, tn_wire = [], tn_reg = True,
      tn_cs = newClientStream i, tn_read = [], tn_crashed = False\<rparr>"

text \<open>\<^verbatim>\<open>serverStream.teardown\<close>.\<close>

definition teardown :: "bool \<Rightarrow> tunnel \<Rightarrow> tunnel" where
  "teardown notifyHub t =
     (if tn_torn t then t
      else t\<lparr>tn_torn := True,
             tn_wire := tn_wire t @ (if notifyHub then [close_frame (cs_id (tn_cs t)) []] else [])\<rparr>)"

text \<open>
  The steps of the spoke's pump (\<^verbatim>\<open>pumpBoxToHub\<close>: a read, the send of the chunk or its failure, the end of
  the box's output), of \<^verbatim>\<open>writeInbound\<close>, of the hub's read loop, reader, deadline and \<^verbatim>\<open>Close\<close>, and of the
  connection. \<open>sent\<close> is whether the send of the close frame, whose error is dropped, succeeds.
\<close>

inductive tun_step :: "tunnel \<Rightarrow> tunnel \<Rightarrow> bool" where
  ts_pump_read: "tn_hand t = None \<Longrightarrow> \<not> tn_torn t \<Longrightarrow> b \<noteq> [] \<Longrightarrow> length b \<le> maxStreamChunk \<Longrightarrow>
    tun_step t (t\<lparr>tn_out := tn_out t @ b, tn_hand := Some b\<rparr>)"
| ts_pump_send: "tn_hand t = Some b \<Longrightarrow>
    tun_step t (t\<lparr>tn_hand := None, tn_wire := tn_wire t @ [data_frame (cs_id (tn_cs t)) b]\<rparr>)"
| ts_pump_send_fails: "tn_hand t = Some b \<Longrightarrow>
    tun_step t (teardown sent (t\<lparr>tn_hand := None, tn_cut := True\<rparr>))"
| ts_pump_eof: "tn_hand t = None \<Longrightarrow> tun_step t (teardown sent t)"
| ts_write_fails: "tun_step t (teardown sent (t\<lparr>tn_cut := tn_cut t \<or> \<not> tn_torn t\<rparr>))"
| ts_hub_closed: "cs_closed (tn_cs t) \<Longrightarrow> tun_step t (teardown False t)"
| ts_deliver: "tn_wire t = f # fs \<Longrightarrow> tn_reg t \<Longrightarrow> stream_frame pick f (tn_cs t) = (r, c, reg) \<Longrightarrow> r \<noteq> PushBlocks \<Longrightarrow>
    tun_step t (t\<lparr>tn_wire := fs, tn_cs := c, tn_reg := reg, tn_crashed := tn_crashed t \<or> r = PushPanics\<rparr>)"
| ts_discard: "tn_wire t = f # fs \<Longrightarrow> \<not> tn_reg t \<Longrightarrow> tun_step t (t\<lparr>tn_wire := fs\<rparr>)"
| ts_read: "Read pick n (tn_cs t) = (r, c) \<Longrightarrow>
    tun_step t (t\<lparr>tn_cs := c, tn_read := tn_read t @ (case r of ReadData b \<Rightarrow> b | _ \<Rightarrow> [])\<rparr>)"
| ts_deadline: "tun_step t (t\<lparr>tn_cs := (tn_cs t)\<lparr>cs_rFired := b\<rparr>\<rparr>)"
| ts_close: "tun_step t (t\<lparr>tn_cs := close_channels (tn_cs t)\<rparr>)"
| ts_unregister: "cs_closed (tn_cs t) \<Longrightarrow> tun_step t (t\<lparr>tn_reg := False\<rparr>)"
| ts_disconnect: "tn_reg t \<Longrightarrow>
    tun_step t (t\<lparr>tn_reg := False, tn_wire := [], tn_cs := closeRemote (Some cause) (tn_cs t)\<rparr>)"

inductive tun_reach :: "tunnel \<Rightarrow> bool" where
  tr_open: "tun_reach (open_tunnel i)"
| tr_step: "tun_reach t \<Longrightarrow> tun_step t t' \<Longrightarrow> tun_reach t'"

text \<open>The bytes that have reached the hub's end, and those on the way that will.\<close>

definition got :: "tunnel \<Rightarrow> string" where
  "got t = tn_read t @ cs_buf (tn_cs t) @ concat (cs_dataCh (tn_cs t))"

fun live_data :: "wire_frame list \<Rightarrow> string" where
  "live_data [] = []"
| "live_data (f # fs) = (if fr_Type f = FrameStreamData then fr_Data f @ live_data fs else [])"

definition no_close :: "wire_frame list \<Rightarrow> bool" where
  "no_close fs \<longleftrightarrow> list_all (\<lambda>f. fr_Type f = FrameStreamData) fs"

definition hand :: "tunnel \<Rightarrow> string" where
  "hand t = (case tn_hand t of None \<Rightarrow> [] | Some b \<Rightarrow> b)"

definition tun_inv :: "tunnel \<Rightarrow> bool" where
  "tun_inv t \<longleftrightarrow>
     (cs_closed (tn_cs t) \<longrightarrow> cs_dataClosed (tn_cs t)) \<and>
     (tn_reg t \<and> cs_dataClosed (tn_cs t) \<longrightarrow> cs_closed (tn_cs t)) \<and>
     prefix (got t) (tn_out t) \<and>
     (tn_reg t \<and> \<not> cs_dataClosed (tn_cs t) \<longrightarrow>
        (if no_close (tn_wire t)
         then prefix (got t @ live_data (tn_wire t) @ hand t) (tn_out t) \<and>
              (\<not> tn_cut t \<longrightarrow> got t @ live_data (tn_wire t) @ hand t = tn_out t) \<and>
              (got t @ live_data (tn_wire t) @ hand t = tn_out t \<or> tn_torn t \<and> tn_hand t = None)
         else prefix (got t @ live_data (tn_wire t)) (tn_out t) \<and>
              (\<not> tn_cut t \<longrightarrow> got t @ live_data (tn_wire t) = tn_out t \<and> tn_hand t = None))) \<and>
     (\<not> no_close (tn_wire t) \<longrightarrow> tn_torn t) \<and>
     (cs_dataClosed (tn_cs t) \<and> \<not> cs_closed (tn_cs t) \<and> cs_remoteErr (tn_cs t) = None \<and> \<not> tn_cut t \<longrightarrow>
        got t = tn_out t \<and> tn_hand t = None \<and> tn_torn t)"


lemma live_data_append: "live_data (xs @ ys) = live_data xs @ (if no_close xs then live_data ys else [])"
  by (induction xs) (simp_all add: no_close_def)

lemma no_close_append [simp]: "no_close (xs @ ys) \<longleftrightarrow> no_close xs \<and> no_close ys"
  by (simp add: no_close_def)

lemma frame_simps [simp]:
  "fr_Type (data_frame i b) = FrameStreamData" "fr_Data (data_frame i b) = b"
  "fr_Type (close_frame i e) = FrameStreamClose" "fr_Error (close_frame i e) = e"
  by (simp_all add: data_frame_def close_frame_def zero_frame_def)

lemma no_close_simps [simp]:
  "no_close []" "no_close (f # fs) \<longleftrightarrow> fr_Type f = FrameStreamData \<and> no_close fs"
  by (simp_all add: no_close_def)

lemma push_open:
  assumes "push pick b c = (r, c')" "\<not> cs_dataClosed c" "\<not> cs_closed c" "r \<noteq> PushBlocks"
  shows "r = Pushed \<and> c' = c\<lparr>cs_dataCh := cs_dataCh c @ [b]\<rparr>"
  using assms by (auto simp: push_def select_case_def ready_if_def split: if_splits)

lemma push_closed:
  assumes "push pick b c = (r, c')" "cs_dataClosed c"
  shows "c' = c"
  using assms by (auto simp: push_def split: option.splits push_case.splits)

lemma Read_got:
  assumes "Read pick n c = (r, c')"
  shows "(case r of ReadData b \<Rightarrow> b | _ \<Rightarrow> []) @ cs_buf c' @ concat (cs_dataCh c') = cs_buf c @ concat (cs_dataCh c) \<and>
    cs_closed c' = cs_closed c \<and> cs_dataClosed c' = cs_dataClosed c \<and> cs_remoteErr c' = cs_remoteErr c"
  using assms by (auto simp: Read_def split: if_splits option.splits read_case.splits list.splits)

lemma prefix_grow: "prefix xs ys \<Longrightarrow> prefix xs (ys @ zs)"
  by (auto simp: prefix_def)

lemma inv_deliver:
  assumes inv: "tun_inv t" and w: "tn_wire t = f # fs" and reg: "tn_reg t"
    and f: "stream_frame pick f (tn_cs t) = (r, c, reg')" and nb: "r \<noteq> PushBlocks"
  shows "tun_inv (t\<lparr>tn_wire := fs, tn_cs := c, tn_reg := reg', tn_crashed := tn_crashed t \<or> r = PushPanics\<rparr>)"
proof (cases "fr_Type f = FrameStreamData")
  case True
  then have p: "push pick (fr_Data f) (tn_cs t) = (r, c)" "reg'" using f by (auto simp: stream_frame_def split: prod.splits)
  show ?thesis
  proof (cases "cs_dataClosed (tn_cs t)")
    case closed: True
    then have "c = tn_cs t" using push_closed [OF p(1)] by simp
    with inv w reg True closed p show ?thesis by (simp add: tun_inv_def got_def hand_def)
  next
    case False
    then have "c = (tn_cs t)\<lparr>cs_dataCh := cs_dataCh (tn_cs t) @ [fr_Data f]\<rparr>"
      using push_open [OF p(1) False _ nb] inv by (auto simp: tun_inv_def)
    with inv w True False p reg show ?thesis
      by (auto simp: tun_inv_def got_def hand_def prefix_def split: if_splits)
  qed
next
  case False
  then have c: "c = closeRemote (if fr_Error f \<noteq> [] then Some (fr_Error f) else None) (tn_cs t)" "\<not> reg'"
    using f by (auto simp: stream_frame_def)
  with inv w reg False show ?thesis
    by (auto simp: tun_inv_def got_def hand_def closeRemote_def)
qed

lemma tun_step_inv: "tun_step t t' \<Longrightarrow> tun_inv t \<Longrightarrow> tun_inv t'"
proof (induction rule: tun_step.induct)
  case (ts_pump_read t b)
  let ?t = "t\<lparr>tn_out := tn_out t @ b, tn_hand := Some b\<rparr>"
  have same: "got ?t = got t" "hand ?t = b" "hand t = []" using ts_pump_read(1) by (simp_all add: got_def hand_def)
  have nc: "no_close (tn_wire t)" using ts_pump_read(2,5) by (auto simp: tun_inv_def)
  have "got t @ live_data (tn_wire t) = tn_out t" if "tn_reg t" "\<not> cs_dataClosed (tn_cs t)"
    using that nc ts_pump_read(2,5) same(3) by (auto simp: tun_inv_def)
  then have all: "got t @ live_data (tn_wire t) @ b = tn_out t @ b" if "tn_reg t" "\<not> cs_dataClosed (tn_cs t)"
    using that by (metis append.assoc)
  then have pre: "prefix (got t @ live_data (tn_wire t) @ b) (tn_out t @ b)" if "tn_reg t" "\<not> cs_dataClosed (tn_cs t)"
    unfolding all [OF that] by simp
  with all show ?case using ts_pump_read(1,2,5) nc unfolding tun_inv_def same by (auto simp: prefix_grow)
next
  case (ts_pump_send t b)
  then show ?case by (auto simp: tun_inv_def got_def hand_def live_data_append split: if_splits)
next
  case (ts_pump_send_fails t b sent)
  then show ?case by (auto simp: tun_inv_def got_def hand_def teardown_def live_data_append prefix_def split: if_splits)
next
  case (ts_pump_eof t sent)
  then show ?case by (auto simp: tun_inv_def got_def hand_def teardown_def live_data_append split: if_splits)
next
  case (ts_write_fails t sent)
  then show ?case by (auto simp: tun_inv_def got_def hand_def teardown_def live_data_append prefix_def split: if_splits)
next
  case (ts_hub_closed t)
  then show ?case by (auto simp: tun_inv_def got_def hand_def teardown_def split: if_splits)
next
  case (ts_deliver t f fs pick r c reg)
  then show ?case by (intro inv_deliver)
next
  case (ts_discard t f fs)
  then show ?case by (auto simp: tun_inv_def got_def hand_def)
next
  case (ts_read pick n t r c)
  define b where "b = (case r of ReadData b \<Rightarrow> b | _ \<Rightarrow> [])"
  note g = Read_got [OF ts_read(1), folded b_def]
  have "got (t\<lparr>tn_cs := c, tn_read := tn_read t @ b\<rparr>) = got t" using g by (simp add: got_def)
  with ts_read(2) g show ?case unfolding b_def [symmetric] by (auto simp: tun_inv_def hand_def)
next
  case (ts_deadline t b)
  then show ?case by (auto simp: tun_inv_def got_def hand_def)
next
  case (ts_close t)
  then show ?case by (auto simp: tun_inv_def got_def hand_def close_channels_def)
next
  case (ts_unregister t)
  then show ?case by (auto simp: tun_inv_def got_def hand_def)
next
  case (ts_disconnect t cause)
  then show ?case by (auto simp: tun_inv_def got_def hand_def closeRemote_def)
qed

lemma tun_reach_inv: "tun_reach t \<Longrightarrow> tun_inv t"
proof (induction rule: tun_reach.induct)
  case (tr_open i)
  show ?case by (simp add: tun_inv_def open_tunnel_def newClientStream_def got_def hand_def)
next
  case (tr_step t t')
  then show ?case using tun_step_inv by blast
qed



text \<open>A run: the box sends two bytes and closes, the reader takes one byte at a time.\<close>

definition sample_tunnel :: tunnel where
  "sample_tunnel = (open_tunnel 3)\<lparr>tn_out := ''ok'', tn_torn := True, tn_reg := False,
     tn_cs := (newClientStream 3)\<lparr>cs_dataClosed := True\<rparr>, tn_read := ''ok''\<rparr>"

lemma sample_tunnel_reach: "tun_reach sample_tunnel"
proof -
  define t1 where "t1 = (open_tunnel 3)\<lparr>tn_out := ''ok'', tn_hand := Some ''ok''\<rparr>"
  define t2 where "t2 = t1\<lparr>tn_hand := None, tn_wire := [data_frame 3 ''ok'']\<rparr>"
  define t3 where "t3 = t2\<lparr>tn_torn := True, tn_wire := [data_frame 3 ''ok'', close_frame 3 []]\<rparr>"
  define t4 where "t4 = t3\<lparr>tn_wire := [close_frame 3 []], tn_cs := (newClientStream 3)\<lparr>cs_dataCh := [''ok'']\<rparr>\<rparr>"
  define t5 where "t5 = t4\<lparr>tn_wire := [], tn_reg := False, tn_cs := (newClientStream 3)\<lparr>cs_dataCh := [''ok''], cs_dataClosed := True\<rparr>\<rparr>"
  define t6 where "t6 = t5\<lparr>tn_read := ''o'', tn_cs := (newClientStream 3)\<lparr>cs_buf := ''k'', cs_dataClosed := True\<rparr>\<rparr>"
  note defs = t1_def t2_def t3_def t4_def t5_def t6_def open_tunnel_def newClientStream_def
  have "tun_reach t1" using tr_step [OF tr_open [of 3] ts_pump_read [of _ "''ok''"]] by (simp add: t1_def open_tunnel_def)
  from tr_step [OF this ts_pump_send [of _ "''ok''"]] have "tun_reach t2" by (simp add: defs)
  from tr_step [OF this ts_pump_eof [where sent = True]] have "tun_reach t3" by (simp add: defs teardown_def)
  from tr_step [OF this ts_deliver [of _ "data_frame 3 ''ok''" "[close_frame 3 []]" 0 Pushed
      "(newClientStream 3)\<lparr>cs_dataCh := [''ok'']\<rparr>" True]]
  have "tun_reach t4" by (simp add: defs stream_frame_def push_def select_case_def ready_if_def)
  from tr_step [OF this ts_deliver [of _ "close_frame 3 []" "[]" 0 Pushed
      "(newClientStream 3)\<lparr>cs_dataCh := [''ok''], cs_dataClosed := True\<rparr>" False]]
  have "tun_reach t5" by (simp add: defs stream_frame_def closeRemote_def)
  from tr_step [OF this ts_read [of 0 1 _ "ReadData ''o''" "(newClientStream 3)\<lparr>cs_buf := ''k'', cs_dataClosed := True\<rparr>"]]
  have "tun_reach t6" by (simp add: defs Read_def select_case_def ready_if_def)
  from tr_step [OF this ts_read [of 0 1 _ "ReadData ''k''" "(newClientStream 3)\<lparr>cs_dataClosed := True\<rparr>"]]
  show ?thesis by (simp add: defs Read_def sample_tunnel_def)
qed


text \<open>
  Two defects. \<^verbatim>\<open>Close\<close> closes the data channel before it unregisters the stream, so a data frame
  that arrives in between can panic the hub; and when a write towards the box fails, the stream ends
  for the hub with a clean end of file although bytes the box had sent are lost.
\<close>

lemma close_races_with_data: "\<exists>t. tun_reach t \<and> tn_crashed t"
proof -
  define t1 where "t1 = (open_tunnel 3)\<lparr>tn_out := ''ok'', tn_hand := Some ''ok''\<rparr>"
  define t2 where "t2 = t1\<lparr>tn_hand := None, tn_wire := [data_frame 3 ''ok'']\<rparr>"
  define t3 where "t3 = t2\<lparr>tn_cs := close_channels (newClientStream 3)\<rparr>"
  note defs = t1_def t2_def t3_def open_tunnel_def newClientStream_def close_channels_def
  have "tun_reach t1" using tr_step [OF tr_open [of 3] ts_pump_read [of _ "''ok''"]] by (simp add: t1_def open_tunnel_def)
  from tr_step [OF this ts_pump_send [of _ "''ok''"]] have "tun_reach t2" by (simp add: defs)
  from tr_step [OF this ts_close] have "tun_reach t3" by (simp add: defs)
  moreover have "tn_wire t3 = [data_frame 3 ''ok'']" "tn_reg t3"
    "stream_frame 0 (data_frame 3 ''ok'') (tn_cs t3) = (PushPanics, tn_cs t3, True)"
    by (simp_all add: defs stream_frame_def push_def select_case_def ready_if_def)
  ultimately show ?thesis using tr_step [OF _ ts_deliver] by fastforce
qed

lemma failed_write_truncates_silently:
  "\<exists>t. tun_reach t \<and> \<not> cs_closed (tn_cs t) \<and> fst (Read 0 1 (tn_cs t)) = ReadEnd None \<and> tn_read t \<noteq> tn_out t"
proof -
  define t1 where "t1 = (open_tunnel 3)\<lparr>tn_out := ''ok'', tn_hand := Some ''ok''\<rparr>"
  define t2 where "t2 = t1\<lparr>tn_torn := True, tn_cut := True, tn_wire := [close_frame 3 []]\<rparr>"
  define t3 where "t3 = t2\<lparr>tn_wire := [], tn_reg := False, tn_cs := (newClientStream 3)\<lparr>cs_dataClosed := True\<rparr>\<rparr>"
  note defs = t1_def t2_def t3_def open_tunnel_def newClientStream_def
  have "tun_reach t1" using tr_step [OF tr_open [of 3] ts_pump_read [of _ "''ok''"]] by (simp add: t1_def open_tunnel_def)
  from tr_step [OF this ts_write_fails [where sent = True]] have "tun_reach t2" by (simp add: defs teardown_def)
  from tr_step [OF this ts_deliver [of _ "close_frame 3 []" "[]" 0 Pushed "(newClientStream 3)\<lparr>cs_dataClosed := True\<rparr>" False]]
  have "tun_reach t3" by (simp add: defs stream_frame_def closeRemote_def)
  moreover have "\<not> cs_closed (tn_cs t3)" "fst (Read 0 1 (tn_cs t3)) = ReadEnd None" "tn_read t3 \<noteq> tn_out t3"
    by (simp_all add: defs Read_def select_case_def ready_if_def)
  ultimately show ?thesis by blast
qed


subsection \<open>Deadlines\<close>

text \<open>
  \<^verbatim>\<open>connDeadline\<close>: channels are numbered; \<open>dl_late\<close> are the timers that have fired but whose function,
  which closes the channel it captured, has not run yet.
\<close>

record deadline =
  dl_cancel :: nat
  dl_fresh :: nat
  dl_closed :: "nat list"
  dl_timer :: "nat option"
  dl_late :: "nat list"

definition newConnDeadline :: deadline where
  "newConnDeadline = \<lparr>dl_cancel = 0, dl_fresh = 1, dl_closed = [], dl_timer = None, dl_late = []\<rparr>"

definition dl_set :: "time \<Rightarrow> time option \<Rightarrow> deadline \<Rightarrow> deadline" where
  "dl_set now t d =
     (let d1 = d\<lparr>dl_timer := None\<rparr>;
          d2 = (if dl_cancel d1 \<in> set (dl_closed d1)
                then d1\<lparr>dl_cancel := dl_fresh d1, dl_fresh := Suc (dl_fresh d1)\<rparr> else d1)
      in case t of
           None \<Rightarrow> d2
         | Some at \<Rightarrow> if now < at then d2\<lparr>dl_timer := Some (dl_cancel d2)\<rparr>
                      else d2\<lparr>dl_closed := dl_cancel d2 # dl_closed d2\<rparr>)"

definition dl_expired :: "deadline \<Rightarrow> bool" where
  "dl_expired d \<longleftrightarrow> dl_cancel d \<in> set (dl_closed d)"

text \<open>The timer goes off; its function runs later, and panics if the channel is closed by then.\<close>

definition dl_fire :: "deadline \<Rightarrow> deadline" where
  "dl_fire d = (case dl_timer d of None \<Rightarrow> d | Some c \<Rightarrow> d\<lparr>dl_timer := None, dl_late := c # dl_late d\<rparr>)"

definition dl_run :: "deadline \<Rightarrow> deadline option" where
  "dl_run d =
     (case dl_late d of
        [] \<Rightarrow> Some d
      | c # cs \<Rightarrow> if c \<in> set (dl_closed d) then None else Some (d\<lparr>dl_late := cs, dl_closed := c # dl_closed d\<rparr>))"

lemma dl_set_expired:
  assumes "\<forall>c \<in> set (dl_closed d). c < dl_fresh d"
  shows "dl_expired (dl_set now t d) \<longleftrightarrow> (\<exists>at. t = Some at \<and> at \<le> now)"
    "dl_late d = [] \<Longrightarrow> t = Some at \<Longrightarrow> now < at \<Longrightarrow> \<exists>e. dl_run (dl_fire (dl_set now t d)) = Some e \<and> dl_expired e"
  using assms
  by (auto simp: dl_set_def dl_expired_def dl_fire_def dl_run_def Let_def split: option.split)

text \<open>
  A timer that has fired just before the deadline is set again is not waited for: it then expires a
  deadline that was cleared, or closes a channel twice.
\<close>

lemma late_timer_expires_cleared_deadline:
  "map_option dl_expired (dl_run (dl_set 10 None (dl_fire (dl_set 0 (Some 10) newConnDeadline)))) = Some True"
  by code_simp

lemma late_timer_closes_twice:
  "dl_run (dl_set 10 (Some 5) (dl_fire (dl_set 0 (Some 10) newConnDeadline))) = None"
  by code_simp

subsection \<open>The spoke's streams\<close>

record server_stream =
  st_id :: int
  st_torn :: bool
  st_written :: string

record spoke_side =
  sd_streams :: "server_stream list"
  sd_reg :: "(int, nat) table"
  sd_sent :: "wire_frame list"

definition newSpokeStreams :: spoke_side where
  "newSpokeStreams = \<lparr>sd_streams = [], sd_reg = [], sd_sent = []\<rparr>"

definition send_frame :: "wire_frame \<Rightarrow> spoke_side \<Rightarrow> spoke_side" where
  "send_frame f s = s\<lparr>sd_sent := sd_sent s @ [f]\<rparr>"

definition st_teardown :: "bool \<Rightarrow> nat \<Rightarrow> spoke_side \<Rightarrow> spoke_side" where
  "st_teardown notifyHub r s =
     (let st = sd_streams s ! r in
      if st_torn st then s
      else
        (let s1 = s\<lparr>sd_streams := (sd_streams s)[r := st\<lparr>st_torn := True\<rparr>]\<rparr>;
             s2 = (if notifyHub then send_frame (close_frame (st_id st) []) s1 else s1)
         in s2\<lparr>sd_reg := tdel (st_id st) (sd_reg s2)\<rparr>))"

definition writeInbound :: "bool \<Rightarrow> string \<Rightarrow> nat \<Rightarrow> spoke_side \<Rightarrow> spoke_side" where
  "writeInbound ok b r s =
     (if ok then s\<lparr>sd_streams := (sd_streams s)[r := (sd_streams s ! r)\<lparr>st_written := st_written (sd_streams s ! r) @ b\<rparr>]\<rparr>
      else st_teardown True r s)"

datatype open_error = NoTerminals | NoProxying | OpenFailed string

definition openStreamTarget ::
  "(string \<Rightarrow> string list \<Rightarrow> int \<Rightarrow> int \<Rightarrow> string option) option \<Rightarrow> (string \<Rightarrow> int \<Rightarrow> string option) option \<Rightarrow>
   stream_open_req \<Rightarrow> open_error option"
where
  "openStreamTarget ptyer dialer r =
     (if so_PTY r then
        (case ptyer of
           None \<Rightarrow> Some NoTerminals
         | Some p \<Rightarrow> map_option OpenFailed (p (so_BoxID r) (so_PTYCmd r) (so_PTYCols r) (so_PTYRows r)))
      else
        (case dialer of
           None \<Rightarrow> Some NoProxying
         | Some d \<Rightarrow> map_option OpenFailed (d (so_BoxID r) (so_Port r))))"

definition handleStreamOpen ::
  "(open_error option \<Rightarrow> string) \<Rightarrow> (stream_open_req \<Rightarrow> open_error option) \<Rightarrow> wire_frame \<Rightarrow> spoke_side \<Rightarrow> spoke_side"
where
  "handleStreamOpen txt open_target req s =
     (case decodePayload dec_streamOpenReq (fr_Payload req) of
        None \<Rightarrow> send_frame (close_frame (fr_ID req) (txt None)) s
      | Some r \<Rightarrow>
          (case open_target r of
             Some e \<Rightarrow> send_frame (close_frame (fr_ID req) (txt (Some e))) s
           | None \<Rightarrow>
               s\<lparr>sd_streams := sd_streams s @ [\<lparr>st_id = fr_ID req, st_torn = False, st_written = []\<rparr>],
                 sd_reg := tput (fr_ID req) (length (sd_streams s)) (sd_reg s)\<rparr>))"

text \<open>The stream cases of \<^verbatim>\<open>serve\<close>; \<open>ok\<close> is whether the write to the box succeeds.\<close>

definition serve_stream ::
  "(open_error option \<Rightarrow> string) \<Rightarrow> (stream_open_req \<Rightarrow> open_error option) \<Rightarrow> bool \<Rightarrow> wire_frame \<Rightarrow> spoke_side \<Rightarrow> spoke_side"
where
  "serve_stream txt open_target ok f s =
     (case fr_Type f of
        FrameStreamOpen \<Rightarrow> handleStreamOpen txt open_target f s
      | FrameStreamData \<Rightarrow>
          (case tget (sd_reg s) (fr_ID f) of None \<Rightarrow> s | Some r \<Rightarrow> writeInbound ok (fr_Data f) r s)
      | FrameStreamClose \<Rightarrow>
          (case tget (sd_reg s) (fr_ID f) of
             None \<Rightarrow> s
           | Some r \<Rightarrow> st_teardown False r (s\<lparr>sd_reg := tdel (fr_ID f) (sd_reg s)\<rparr>))
      | _ \<Rightarrow> s)"

definition closeAll :: "spoke_side \<Rightarrow> spoke_side" where
  "closeAll s = fold (\<lambda>(i, r). st_teardown False r) (sd_reg s) (s\<lparr>sd_reg := []\<rparr>)"

text \<open>
  The serve loop with its pumps: frames arrive, a box's end of file tears its own stream down. The
  hub numbers its streams, so an open frame brings a new id.
\<close>

inductive serve_reach :: "(open_error option \<Rightarrow> string) \<Rightarrow> spoke_side \<Rightarrow> bool" for say where
  sv_start: "serve_reach say newSpokeStreams"
| sv_frame: "serve_reach say s \<Longrightarrow> (fr_Type f = FrameStreamOpen \<Longrightarrow> fr_ID f \<notin> st_id ` set (sd_streams s)) \<Longrightarrow>
    serve_reach say (serve_stream say open_target ok f s)"
| sv_eof: "serve_reach say s \<Longrightarrow> r < length (sd_streams s) \<Longrightarrow> serve_reach say (st_teardown True r s)"

definition serve_inv :: "spoke_side \<Rightarrow> bool" where
  "serve_inv s \<longleftrightarrow> distinct (map st_id (sd_streams s)) \<and>
     (\<forall>r < length (sd_streams s). \<not> st_torn (sd_streams s ! r) \<longrightarrow> tget (sd_reg s) (st_id (sd_streams s ! r)) = Some r) \<and>
     (\<forall>i r. tget (sd_reg s) i = Some r \<longrightarrow> r < length (sd_streams s) \<and> st_id (sd_streams s ! r) = i)"

lemma st_teardown_inv:
  assumes "serve_inv s" "r < length (sd_streams s)"
  shows "serve_inv (st_teardown n r s)"
proof (cases "st_torn (sd_streams s ! r)")
  case True
  with assms show ?thesis by (simp add: st_teardown_def Let_def)
next
  case False
  define s' where "s' = st_teardown n r s"
  have s': "sd_streams s' = (sd_streams s)[r := (sd_streams s ! r)\<lparr>st_torn := True\<rparr>]"
    "sd_reg s' = tdel (st_id (sd_streams s ! r)) (sd_reg s)"
    using False by (simp_all add: s'_def st_teardown_def Let_def send_frame_def)
  have ids: "map st_id (sd_streams s') = map st_id (sd_streams s)"
    using assms(2) by (simp add: s' map_update list_update_same_conv)
  then have same: "st_id (sd_streams s' ! k) = st_id (sd_streams s ! k)" if "k < length (sd_streams s)" for k
    using that by (metis length_map nth_map)
  have len: "length (sd_streams s') = length (sd_streams s)" by (simp add: s')
  have other: "st_id (sd_streams s ! k) \<noteq> st_id (sd_streams s ! r)" if "k < length (sd_streams s)" "k \<noteq> r" for k
    using nth_eq_iff_index_eq [of "map st_id (sd_streams s)" k r] assms that by (simp add: serve_inv_def)
  have "serve_inv s'"
    unfolding serve_inv_def
  proof (intro conjI allI impI)
    show "distinct (map st_id (sd_streams s'))" using assms(1) ids by (simp add: serve_inv_def)
  next
    fix k assume k: "k < length (sd_streams s')" "\<not> st_torn (sd_streams s' ! k)"
    then have "k \<noteq> r" using assms(2) by (auto simp: s')
    with k assms(1) other same show "tget (sd_reg s') (st_id (sd_streams s' ! k)) = Some k"
      by (auto simp: len s' serve_inv_def)
  next
    fix i k assume "tget (sd_reg s') i = Some k"
    then have "tget (sd_reg s) i = Some k" by (simp add: s' split: if_splits)
    with assms(1) have "k < length (sd_streams s)" "st_id (sd_streams s ! k) = i" by (auto simp: serve_inv_def)
    then show "k < length (sd_streams s')" "st_id (sd_streams s' ! k) = i" using same len by auto
  qed
  then show ?thesis by (simp add: s'_def)
qed


lemma handleStreamOpen_inv:
  assumes "serve_inv s" "fr_ID req \<notin> st_id ` set (sd_streams s)"
  shows "serve_inv (handleStreamOpen say open_target req s)"
proof -
  have new: "tget (sd_reg s) (fr_ID req) = None"
  proof (rule ccontr)
    assume "tget (sd_reg s) (fr_ID req) \<noteq> None"
    then obtain r where "tget (sd_reg s) (fr_ID req) = Some r" by blast
    with assms(1) have "r < length (sd_streams s)" "st_id (sd_streams s ! r) = fr_ID req" by (auto simp: serve_inv_def)
    with assms(2) show False by (metis imageI nth_mem)
  qed
  have send: "serve_inv (send_frame f s)" for f using assms(1) by (simp add: serve_inv_def send_frame_def)
  have nth: "(sd_streams s @ [x]) ! k = (if k < length (sd_streams s) then sd_streams s ! k else x)"
    if "k < Suc (length (sd_streams s))" for k x
    using that by (auto simp: nth_append less_Suc_eq)
  have old: "st_id (sd_streams s ! k) \<noteq> fr_ID req" if "k < length (sd_streams s)" for k
    using assms(2) that by (metis imageI nth_mem)
  have "serve_inv (s\<lparr>sd_streams := sd_streams s @ [\<lparr>st_id = fr_ID req, st_torn = False, st_written = []\<rparr>],
      sd_reg := tput (fr_ID req) (length (sd_streams s)) (sd_reg s)\<rparr>)"
    using assms old by (auto simp: serve_inv_def nth less_Suc_eq)
  with send show ?thesis by (simp add: handleStreamOpen_def split: option.split)
qed

lemma serve_stream_inv:
  assumes inv: "serve_inv s" and new: "fr_Type f = FrameStreamOpen \<Longrightarrow> fr_ID f \<notin> st_id ` set (sd_streams s)"
  shows "serve_inv (serve_stream say open_target ok f s)"
proof (cases "fr_Type f = FrameStreamOpen")
  case True
  with handleStreamOpen_inv [OF inv new] show ?thesis by (simp add: serve_stream_def)
next
  case False
  show ?thesis
  proof (cases "tget (sd_reg s) (fr_ID f)")
    case None
    with False inv show ?thesis by (simp add: serve_stream_def split: frame_type.split)
  next
    case (Some r)
    then have r: "r < length (sd_streams s)" "st_id (sd_streams s ! r) = fr_ID f" using inv by (auto simp: serve_inv_def)
    have "serve_inv (writeInbound ok b r s)" for b
    proof (cases ok)
      case True
      have ids: "map st_id ((sd_streams s)[r := (sd_streams s ! r)\<lparr>st_written := x\<rparr>]) = map st_id (sd_streams s)" for x
        using r(1) by (simp add: map_update list_update_same_conv)
      with inv r True show ?thesis
        by (auto simp: writeInbound_def serve_inv_def nth_list_update)
    qed (use st_teardown_inv [OF inv r(1)] in \<open>simp add: writeInbound_def\<close>)
    moreover have "serve_inv (st_teardown False r (s\<lparr>sd_reg := tdel (fr_ID f) (sd_reg s)\<rparr>))"
    proof -
      have "st_teardown False r (s\<lparr>sd_reg := tdel (fr_ID f) (sd_reg s)\<rparr>) =
          (if st_torn (sd_streams s ! r) then s\<lparr>sd_reg := tdel (fr_ID f) (sd_reg s)\<rparr> else st_teardown False r s)"
        using r by (simp add: st_teardown_def Let_def tdel_def delete_idem)
      moreover have "serve_inv (s\<lparr>sd_reg := tdel (fr_ID f) (sd_reg s)\<rparr>)" if "st_torn (sd_streams s ! r)"
        unfolding serve_inv_def
      proof (intro conjI allI impI)
        fix k assume k: "k < length (sd_streams (s\<lparr>sd_reg := tdel (fr_ID f) (sd_reg s)\<rparr>))"
          "\<not> st_torn (sd_streams (s\<lparr>sd_reg := tdel (fr_ID f) (sd_reg s)\<rparr>) ! k)"
        then have reg: "tget (sd_reg s) (st_id (sd_streams s ! k)) = Some k" using inv by (simp add: serve_inv_def)
        have "st_id (sd_streams s ! k) \<noteq> fr_ID f" using reg Some k that by auto
        with reg show "tget (sd_reg (s\<lparr>sd_reg := tdel (fr_ID f) (sd_reg s)\<rparr>))
            (st_id (sd_streams (s\<lparr>sd_reg := tdel (fr_ID f) (sd_reg s)\<rparr>) ! k)) = Some k" by simp
      qed (use inv in \<open>auto simp: serve_inv_def split: if_splits\<close>)
      ultimately show ?thesis using st_teardown_inv [OF inv r(1)] by simp
    qed
    ultimately show ?thesis using False Some inv by (simp add: serve_stream_def split: frame_type.split)
  qed
qed

lemma serve_reach_inv: "serve_reach say s \<Longrightarrow> serve_inv s"
  by (induction rule: serve_reach.induct)
    (simp_all add: serve_stream_inv st_teardown_inv, simp add: serve_inv_def newSpokeStreams_def)

text \<open>\<^verbatim>\<open>closeAll\<close> leaves no stream of the registry open and reopens none.\<close>

lemma fold_teardown:
  "(\<forall>k < length (sd_streams s). \<not> st_torn (sd_streams s ! k) \<longrightarrow> k \<in> snd ` set xs) \<Longrightarrow>
   let s' = fold (\<lambda>(i, r). st_teardown False r) xs s in
     length (sd_streams s') = length (sd_streams s) \<and> sd_sent s' = sd_sent s \<and>
     map st_id (sd_streams s') = map st_id (sd_streams s) \<and> (\<forall>st \<in> set (sd_streams s'). st_torn st)"
proof (induction xs arbitrary: s)
  case Nil
  then show ?case by (auto simp: in_set_conv_nth)
next
  case (Cons x xs)
  obtain i r where x: "x = (i, r)" by fastforce
  define s1 where "s1 = st_teardown False r s"
  have s1: "length (sd_streams s1) = length (sd_streams s)" "sd_sent s1 = sd_sent s"
      "map st_id (sd_streams s1) = map st_id (sd_streams s)"
    by (simp_all add: s1_def st_teardown_def Let_def map_update list_update_same_conv)
      (metis list_update_beyond list_update_id map_update linorder_not_le server_stream.select_convs(1) server_stream.surjective
        server_stream.update_convs(2) length_map nth_map)
  have "k \<in> snd ` set xs" if "k < length (sd_streams s1)" "\<not> st_torn (sd_streams s1 ! k)" for k
  proof -
    have "\<not> st_torn (sd_streams s ! k)" "k \<noteq> r"
      using that s1(1) by (cases "r < length (sd_streams s)";
          force simp: s1_def st_teardown_def Let_def nth_list_update split: if_splits)+
    then show ?thesis using Cons.prems that s1(1) x by auto
  qed
  from Cons.IH [of s1] this s1 show ?case by (simp add: x s1_def [symmetric] Let_def)
qed

text \<open>
  C40 (serve_leaks_no_tunnel). While the spoke serves the hub every tunnel that is still open towards a box is
  in its registry, so that when the connection is lost closing the registry closes all of them,
  without sending anything more.
\<close>

theorem serve_leaks_no_tunnel:
  assumes "serve_reach say s"
  shows "list_all st_torn (sd_streams (closeAll s)) \<and> length (sd_streams (closeAll s)) = length (sd_streams s) \<and>
    sd_sent (closeAll s) = sd_sent s"
proof -
  have "k \<in> snd ` set (sd_reg s)" if "k < length (sd_streams s)" "\<not> st_torn (sd_streams s ! k)" for k
    using serve_reach_inv [OF assms] that tget_mem [of "sd_reg s" "st_id (sd_streams s ! k)" k] by (force simp: serve_inv_def)
  then show ?thesis using fold_teardown [of "s\<lparr>sd_reg := []\<rparr>" "sd_reg s"] by (simp add: closeAll_def Let_def list_all_iff)
qed


theorem serve_leaks_no_tunnel_witness:
  "list_all st_torn (sd_streams (closeAll (serve_stream (\<lambda>_. ''e'') (\<lambda>_. None) True
     ((zero_frame FrameStreamOpen 4)\<lparr>fr_Payload := Some (JObj [])\<rparr>) newSpokeStreams))) \<and>
   length (sd_streams (serve_stream (\<lambda>_. ''e'') (\<lambda>_. None) True
     ((zero_frame FrameStreamOpen 4)\<lparr>fr_Payload := Some (JObj [])\<rparr>) newSpokeStreams)) = 1"
proof -
  let ?f = "(zero_frame FrameStreamOpen 4)\<lparr>fr_Payload := Some (JObj [])\<rparr>"
  have "serve_reach (\<lambda>_. ''e'') (serve_stream (\<lambda>_. ''e'') (\<lambda>_. None) True ?f newSpokeStreams)"
    by (rule sv_frame [OF sv_start]) (simp add: newSpokeStreams_def)
  from serve_leaks_no_tunnel [OF this] show ?thesis
    by (simp add: serve_stream_def handleStreamOpen_def zero_frame_def decodePayload_def dec_streamOpenReq_def newSpokeStreams_def)
qed

end
