(* ===== verification/Remote.thy ===== *)
theory Remote
  imports Dispatch Streams
begin

text \<open>
  The two ends that place calls over a cluster connection: \<^verbatim>\<open>remoteSpoke\<close> (\<^verbatim>\<open>internal/shared/cluster/remote.go\<close>,
  hub to spoke) and \<^verbatim>\<open>HubCaller\<close> (\<^verbatim>\<open>boxports.go\<close>, spoke to hub). Both correlate responses with calls by an
  incrementing 64-bit id: \<open>calls\<close> is that table, with the callers that are waiting and the frames received
  as history. The locale \<open>caller\<close> states what a user of the table keeps, and is interpreted on both.
\<close>

subsection \<open>Calls in flight\<close>

datatype chan = ChEmpty | ChFull wire_frame | ChClosed

record calls =
  ca_next :: int
  ca_pending :: "int set"
  ca_chan :: "int \<Rightarrow> chan option"
  ca_waiting :: "int set"
  ca_log :: "wire_frame list"

definition no_calls :: calls where
  "no_calls = \<lparr>ca_next = 0, ca_pending = {}, ca_chan = Map.empty, ca_waiting = {}, ca_log = []\<rparr>"

definition next_id :: "calls \<Rightarrow> int" where
  "next_id c = (ca_next c + 1) mod 2 ^ 64"

definition calls_new :: "calls \<Rightarrow> calls" where
  "calls_new c = c\<lparr>ca_next := next_id c, ca_pending := insert (next_id c) (ca_pending c),
     ca_chan := (ca_chan c)(next_id c \<mapsto> ChEmpty), ca_waiting := insert (next_id c) (ca_waiting c)\<rparr>"

text \<open>Streams take their ids from the same counter.\<close>

definition calls_skip :: "calls \<Rightarrow> calls" where
  "calls_skip c = c\<lparr>ca_next := next_id c\<rparr>"

definition calls_forget :: "int \<Rightarrow> calls \<Rightarrow> calls" where
  "calls_forget i c = c\<lparr>ca_pending := ca_pending c - {i}, ca_waiting := ca_waiting c - {i}\<rparr>"

text \<open>The send into the call's channel, which holds one frame: \<open>None\<close> if it would block or panic.\<close>

definition calls_deliver :: "wire_frame \<Rightarrow> calls \<Rightarrow> calls option" where
  "calls_deliver f c =
     (let c' = c\<lparr>ca_log := ca_log c @ [f]\<rparr> in
      if fr_ID f \<in> ca_pending c
      then (if ca_chan c (fr_ID f) = Some ChEmpty
            then Some (c'\<lparr>ca_pending := ca_pending c - {fr_ID f}, ca_chan := (ca_chan c)(fr_ID f \<mapsto> ChFull f)\<rparr>)
            else None)
      else Some c')"

definition calls_fail_all :: "calls \<Rightarrow> calls" where
  "calls_fail_all c =
     c\<lparr>ca_pending := {}, ca_chan := (\<lambda>i. if i \<in> ca_pending c then Some ChClosed else ca_chan c i)\<rparr>"

text \<open>What the caller of \<open>i\<close> gets from its channel, \<open>None\<close> while it has to wait.\<close>

definition call_outcome :: "(payload \<Rightarrow> 'r option) \<Rightarrow> call_error \<Rightarrow> int \<Rightarrow> calls \<Rightarrow> (call_error + 'r) option" where
  "call_outcome d gone i c =
     (case ca_chan c i of
        Some (ChFull f) \<Rightarrow> Some (call_result d f)
      | Some ChClosed \<Rightarrow> Some (Inl gone)
      | _ \<Rightarrow> None)"

definition calls_return :: "int \<Rightarrow> calls \<Rightarrow> calls" where
  "calls_return i c = c\<lparr>ca_waiting := ca_waiting c - {i}\<rparr>"

text \<open>The counter has not wrapped around: fewer than 2 to the 64 ids were taken.\<close>

definition ids_left :: "calls \<Rightarrow> bool" where
  "ids_left c \<longleftrightarrow> ca_next c + 1 < 2 ^ 64"

inductive calls_step :: "calls \<Rightarrow> calls \<Rightarrow> bool" where
  cl_new: "ids_left c \<Longrightarrow> calls_step c (calls_new c)"
| cl_skip: "ids_left c \<Longrightarrow> calls_step c (calls_skip c)"
| cl_forget: "i \<in> ca_waiting c \<Longrightarrow> calls_step c (calls_forget i c)"
| cl_deliver: "calls_deliver f c = Some c' \<Longrightarrow> calls_step c c'"
| cl_fail: "calls_step c (calls_fail_all c)"
| cl_return: "i \<in> ca_waiting c \<Longrightarrow> ca_chan c i \<noteq> Some ChEmpty \<Longrightarrow> calls_step c (calls_return i c)"

definition calls_inv :: "calls \<Rightarrow> bool" where
  "calls_inv c \<longleftrightarrow> 0 \<le> ca_next c \<and> ca_pending c \<subseteq> ca_waiting c \<and>
     (\<forall>i. ca_chan c i \<noteq> None \<longrightarrow> 0 < i \<and> i \<le> ca_next c) \<and>
     (\<forall>i \<in> ca_pending c. ca_chan c i = Some ChEmpty) \<and>
     (\<forall>i \<in> ca_waiting c. ca_chan c i \<noteq> None) \<and>
     (\<forall>i \<in> ca_waiting c - ca_pending c. ca_chan c i \<noteq> Some ChEmpty) \<and>
     (\<forall>i f. ca_chan c i = Some (ChFull f) \<longrightarrow> fr_ID f = i \<and> f \<in> set (ca_log c))"

lemma calls_step_inv: "calls_step c c' \<Longrightarrow> calls_inv c \<Longrightarrow> calls_inv c'"
proof (induction rule: calls_step.induct)
  case (cl_new c)
  have n: "next_id c = ca_next c + 1" using cl_new by (simp add: next_id_def calls_inv_def ids_left_def)
  have b: "0 < i \<and> i \<le> ca_next c" if "ca_chan c i = Some x" for i x using cl_new(2) that by (auto simp: calls_inv_def)
  have w: "i \<noteq> next_id c" if m: "i \<in> ca_waiting c" for i
  proof -
    obtain x where "ca_chan c i = Some x" using cl_new(2) m by (auto simp: calls_inv_def)
    from b [OF this] n show ?thesis by simp
  qed
  have "0 \<le> ca_next c" using cl_new(2) by (simp add: calls_inv_def)
  moreover have "ca_pending c \<subseteq> ca_waiting c" using cl_new(2) by (simp add: calls_inv_def)
  ultimately show ?case using cl_new(2) b w n
    unfolding calls_inv_def calls_new_def by (simp add: n) (auto simp: order_trans [of _ "ca_next c"])
next
  case (cl_skip c)
  then have "next_id c = ca_next c + 1" by (simp add: next_id_def calls_inv_def ids_left_def)
  with cl_skip(2) show ?case unfolding calls_inv_def calls_skip_def by (simp add: order_trans [of _ "ca_next c"])
next
  case (cl_forget i c)
  then show ?case by (auto simp: calls_inv_def calls_forget_def)
next
  case (cl_deliver f c c')
  note inv = cl_deliver(2) [unfolded calls_inv_def]
  show ?case
  proof (cases "fr_ID f \<in> ca_pending c")
    case True
    then have c': "c' = c\<lparr>ca_log := ca_log c @ [f], ca_pending := ca_pending c - {fr_ID f}, ca_chan := (ca_chan c)(fr_ID f \<mapsto> ChFull f)\<rparr>"
      and chan: "ca_chan c (fr_ID f) = Some ChEmpty"
      using cl_deliver(1) by (auto simp: calls_deliver_def Let_def split: if_splits)
    from chan inv have "0 < fr_ID f \<and> fr_ID f \<le> ca_next c" by blast
    with inv show ?thesis unfolding calls_inv_def c' by simp blast
  next
    case False
    then have "c' = c\<lparr>ca_log := ca_log c @ [f]\<rparr>" using cl_deliver(1) by (simp add: calls_deliver_def Let_def)
    with inv show ?thesis unfolding calls_inv_def by simp
  qed
next
  case (cl_fail c)
  then show ?case by (auto simp: calls_inv_def calls_fail_all_def)
next
  case (cl_return i c)
  then show ?case by (auto simp: calls_inv_def calls_return_def)
qed

locale caller =
  fixes calls_of :: "'s \<Rightarrow> calls"
    and down :: "'s \<Rightarrow> bool"
    and step :: "'s \<Rightarrow> 's \<Rightarrow> bool"
    and start :: "'s \<Rightarrow> bool"
  assumes start_calls: "start s \<Longrightarrow> calls_of s = no_calls"
    and step_calls: "step s s' \<Longrightarrow> calls_of s' = calls_of s \<or> calls_step (calls_of s) (calls_of s')"
    and start_down: "start s \<Longrightarrow> down s \<Longrightarrow> ca_pending (calls_of s) = {}"
    and step_down: "step s s' \<Longrightarrow> down s' \<Longrightarrow> (down s \<and> ca_pending (calls_of s') \<subseteq> ca_pending (calls_of s)) \<or> ca_pending (calls_of s') = {}"
begin

lemma reach_inv:
  assumes "step\<^sup>*\<^sup>* s s'" "start s"
  shows "calls_inv (calls_of s') \<and> (down s' \<longrightarrow> ca_pending (calls_of s') = {})"
  using assms
proof (induction rule: rtranclp_induct)
  case base
  then show ?case using start_calls [of s] by (simp add: calls_inv_def no_calls_def)
next
  case (step t u)
  then have inv: "calls_inv (calls_of t)" "down t \<longrightarrow> ca_pending (calls_of t) = {}" by simp_all
  have "calls_inv (calls_of u)" using step_calls [OF step(2)] calls_step_inv [OF _ inv(1)] inv(1) by metis
  moreover have "down u \<longrightarrow> ca_pending (calls_of u) = {}" using step_down [OF step(2)] inv(2) by blast
  ultimately show ?case by blast
qed

text \<open>A frame never makes the read loop block, and ends up at the call it answers.\<close>

lemma routed:
  assumes "step\<^sup>*\<^sup>* s s'" "start s"
  shows "calls_deliver f (calls_of s') \<noteq> None \<and>
    (ca_chan (calls_of s') i = Some (ChFull g) \<longrightarrow> fr_ID g = i \<and> g \<in> set (ca_log (calls_of s')))"
  using reach_inv [OF assms] by (auto simp: calls_inv_def calls_deliver_def Let_def)

text \<open>A call that waits while the connection is down has its outcome ready.\<close>

lemma unblocked:
  assumes "step\<^sup>*\<^sup>* s s'" "start s" "down s'" "i \<in> ca_waiting (calls_of s')"
  shows "\<exists>r. call_outcome d gone i (calls_of s') = Some r"
proof -
  have "i \<notin> ca_pending (calls_of s')" using reach_inv [OF assms(1,2)] assms(3) by simp
  moreover have "calls_inv (calls_of s')" using reach_inv [OF assms(1,2)] by simp
  ultimately obtain x where "ca_chan (calls_of s') i = Some x" "x \<noteq> ChEmpty"
    using assms(4) by (fastforce simp: calls_inv_def)
  then show ?thesis by (cases x) (auto simp: call_outcome_def)
qed

end


subsection \<open>The hub's handle on a spoke\<close>

record remote_spoke =
  rs_name :: string
  rs_calls :: calls
  rs_conns :: "(int, client_stream) table"
  rs_streams :: "int list"
  rs_closed :: "string option"
  rs_done :: bool

definition newRemoteSpoke :: "string \<Rightarrow> remote_spoke" where
  "newRemoteSpoke name =
     \<lparr>rs_name = name, rs_calls = no_calls, rs_conns = [], rs_streams = [], rs_closed = None, rs_done = False\<rparr>"

text \<open>\<^verbatim>\<open>call\<close> up to the send, and \<^verbatim>\<open>openStream\<close>; the id is the one the request frame carries.\<close>

definition rs_call :: "remote_spoke \<Rightarrow> (call_error + int) \<times> remote_spoke" where
  "rs_call r =
     (case rs_closed r of
        Some e \<Rightarrow> (Inl (CallClosed e), r)
      | None \<Rightarrow> (Inr (next_id (rs_calls r)), r\<lparr>rs_calls := calls_new (rs_calls r)\<rparr>))"

definition rs_openStream :: "remote_spoke \<Rightarrow> (call_error + int) \<times> remote_spoke" where
  "rs_openStream r =
     (case rs_closed r of
        Some e \<Rightarrow> (Inl (CallClosed e), r)
      | None \<Rightarrow>
          (let i = next_id (rs_calls r) in
           (Inr i, r\<lparr>rs_calls := calls_skip (rs_calls r), rs_conns := tput i (newClientStream i) (rs_conns r),
                     rs_streams := i # rs_streams r\<rparr>)))"

definition unregisterStream :: "int \<Rightarrow> remote_spoke \<Rightarrow> remote_spoke" where
  "unregisterStream i r = r\<lparr>rs_streams := filter (\<lambda>j. j \<noteq> i) (rs_streams r)\<rparr>"

text \<open>One turn of \<^verbatim>\<open>readLoop\<close>.\<close>

datatype recv_out = RecvOk | RecvServe | RecvBlocks | RecvPanics

definition rs_recv :: "nat \<Rightarrow> wire_frame \<Rightarrow> remote_spoke \<Rightarrow> recv_out \<times> remote_spoke" where
  "rs_recv pick f r =
     (let stream = (if fr_ID f \<in> set (rs_streams r) then tget (rs_conns r) (fr_ID f) else None) in
      case fr_Type f of
        FrameResp \<Rightarrow>
          (case calls_deliver f (rs_calls r) of None \<Rightarrow> (RecvBlocks, r) | Some c \<Rightarrow> (RecvOk, r\<lparr>rs_calls := c\<rparr>))
      | frame_type.FrameErr \<Rightarrow>
          (case calls_deliver f (rs_calls r) of None \<Rightarrow> (RecvBlocks, r) | Some c \<Rightarrow> (RecvOk, r\<lparr>rs_calls := c\<rparr>))
      | FrameStreamData \<Rightarrow>
          (case stream of
             None \<Rightarrow> (RecvOk, r)
           | Some cs \<Rightarrow>
               (case stream_frame pick f cs of
                  (PushBlocks, cs', reg) \<Rightarrow> (RecvBlocks, r)
                | (PushPanics, cs', reg) \<Rightarrow> (RecvPanics, r)
                | (_, cs', reg) \<Rightarrow> (RecvOk, r\<lparr>rs_conns := tput (fr_ID f) cs' (rs_conns r)\<rparr>)))
      | FrameStreamClose \<Rightarrow>
          (case stream of
             None \<Rightarrow> (RecvOk, r)
           | Some cs \<Rightarrow>
               (case stream_frame pick f cs of
                  (p, cs', reg) \<Rightarrow> (RecvOk, unregisterStream (fr_ID f) (r\<lparr>rs_conns := tput (fr_ID f) cs' (rs_conns r)\<rparr>))))
      | FrameSpokeReq \<Rightarrow> (RecvServe, r)
      | _ \<Rightarrow> (RecvOk, r))"

definition rs_shutdown :: "string \<Rightarrow> remote_spoke \<Rightarrow> remote_spoke" where
  "rs_shutdown cause r =
     (if rs_closed r \<noteq> None then r
      else r\<lparr>rs_closed := Some cause, rs_calls := calls_fail_all (rs_calls r),
             rs_conns := map (\<lambda>(i, cs). (i, if i \<in> set (rs_streams r) then closeRemote (Some cause) cs else cs)) (rs_conns r),
             rs_streams := [], rs_done := True\<rparr>)"

text \<open>What \<^verbatim>\<open>DialBox\<close> and \<^verbatim>\<open>OpenPTY\<close> ask the spoke to open.\<close>

definition dial_req :: "string \<Rightarrow> int \<Rightarrow> stream_open_req" where
  "dial_req idOrName port =
     \<lparr>so_BoxID = idOrName, so_Port = port, so_PTY = False, so_PTYCmd = [], so_PTYCols = 0, so_PTYRows = 0\<rparr>"

definition pty_req :: "string \<Rightarrow> string list \<Rightarrow> int \<Rightarrow> int \<Rightarrow> stream_open_req" where
  "pty_req idOrName cmd cols rows =
     \<lparr>so_BoxID = idOrName, so_Port = 0, so_PTY = True, so_PTYCmd = cmd, so_PTYCols = cols, so_PTYRows = rows\<rparr>"

definition open_frame :: "int \<Rightarrow> stream_open_req \<Rightarrow> wire_frame" where
  "open_frame i r = (zero_frame FrameStreamOpen i)\<lparr>fr_Payload := encodePayload enc_streamOpenReq r\<rparr>"

inductive rs_step :: "remote_spoke \<Rightarrow> remote_spoke \<Rightarrow> bool" where
  rss_call: "ids_left (rs_calls r) \<Longrightarrow> rs_call r = (Inr i, r') \<Longrightarrow> rs_step r r'"
| rss_open: "ids_left (rs_calls r) \<Longrightarrow> rs_openStream r = (Inr i, r') \<Longrightarrow> rs_step r r'"
| rss_give_up: "i \<in> ca_waiting (rs_calls r) \<Longrightarrow> rs_step r (r\<lparr>rs_calls := calls_forget i (rs_calls r)\<rparr>)"
| rss_return: "i \<in> ca_waiting (rs_calls r) \<Longrightarrow> ca_chan (rs_calls r) i \<noteq> Some ChEmpty \<Longrightarrow>
    rs_step r (r\<lparr>rs_calls := calls_return i (rs_calls r)\<rparr>)"
| rss_recv: "rs_recv pick f r = (x, r') \<Longrightarrow> rs_step r r'"
| rss_unregister: "rs_step r (unregisterStream i r)"
| rss_shutdown: "rs_step r (rs_shutdown cause r)"

lemma rs_recv_calls:
  assumes "rs_recv pick f r = (x, r')"
  shows "(rs_calls r' = rs_calls r \<or> calls_deliver f (rs_calls r) = Some (rs_calls r')) \<and> rs_closed r' = rs_closed r"
  using assms
  by (auto simp: rs_recv_def unregisterStream_def Let_def split: frame_type.splits option.splits prod.splits push_out.splits if_splits)

lemma deliver_pending: "calls_deliver f c = Some c' \<Longrightarrow> ca_pending c' \<subseteq> ca_pending c"
  by (auto simp: calls_deliver_def Let_def split: if_splits)

interpretation hub_end: caller rs_calls "\<lambda>r. rs_closed r \<noteq> None" rs_step "\<lambda>r. \<exists>name. r = newRemoteSpoke name"
proof (unfold_locales, goal_cases)
  case (2 r r')
  then show ?case
  proof cases
    case (rss_recv pick f x)
    then show ?thesis using rs_recv_calls cl_deliver by blast
  qed (auto simp: rs_call_def rs_openStream_def unregisterStream_def rs_shutdown_def Let_def
      intro: calls_step.intros split: option.splits)
next
  case (4 r r')
  from 4(1) show ?case
  proof cases
    case (rss_recv pick f x)
    then show ?thesis using rs_recv_calls [OF rss_recv] deliver_pending 4(2) by (metis order_refl)
  qed (use 4(2) in \<open>auto simp: rs_call_def rs_openStream_def unregisterStream_def rs_shutdown_def Let_def
      calls_fail_all_def calls_forget_def calls_return_def split: option.splits if_splits\<close>)
qed (auto simp: newRemoteSpoke_def)


subsection \<open>A spoke's handle on the hub\<close>

record hub_caller =
  hc_attached :: bool
  hc_calls :: calls

definition NewHubCaller :: hub_caller where
  "NewHubCaller = \<lparr>hc_attached = False, hc_calls = no_calls\<rparr>"

definition attach :: "hub_caller \<Rightarrow> hub_caller" where
  "attach h = h\<lparr>hc_attached := True\<rparr>"

definition detach :: "hub_caller \<Rightarrow> hub_caller" where
  "detach h = h\<lparr>hc_attached := False, hc_calls := calls_fail_all (hc_calls h)\<rparr>"

definition hc_deliver :: "wire_frame \<Rightarrow> hub_caller \<Rightarrow> hub_caller option" where
  "hc_deliver f h = map_option (\<lambda>c. h\<lparr>hc_calls := c\<rparr>) (calls_deliver f (hc_calls h))"

definition hc_call :: "hub_caller \<Rightarrow> (call_error + int) \<times> hub_caller" where
  "hc_call h =
     (if \<not> hc_attached h then (Inl CallDisconnected, h)
      else (Inr (next_id (hc_calls h)), h\<lparr>hc_calls := calls_new (hc_calls h)\<rparr>))"

inductive hc_step :: "hub_caller \<Rightarrow> hub_caller \<Rightarrow> bool" where
  hcs_call: "ids_left (hc_calls h) \<Longrightarrow> hc_call h = (Inr i, h') \<Longrightarrow> hc_step h h'"
| hcs_give_up: "i \<in> ca_waiting (hc_calls h) \<Longrightarrow> hc_step h (h\<lparr>hc_calls := calls_forget i (hc_calls h)\<rparr>)"
| hcs_return: "i \<in> ca_waiting (hc_calls h) \<Longrightarrow> ca_chan (hc_calls h) i \<noteq> Some ChEmpty \<Longrightarrow>
    hc_step h (h\<lparr>hc_calls := calls_return i (hc_calls h)\<rparr>)"
| hcs_deliver: "hc_deliver f h = Some h' \<Longrightarrow> hc_step h h'"
| hcs_attach: "hc_step h (attach h)"
| hcs_detach: "hc_step h (detach h)"

interpretation spoke_end: caller hc_calls "\<lambda>h. \<not> hc_attached h" hc_step "\<lambda>h. h = NewHubCaller"
proof (unfold_locales, goal_cases)
  case (2 h h')
  then show ?case
    by cases (auto simp: hc_call_def hc_deliver_def attach_def detach_def intro: calls_step.intros split: if_splits)
next
  case (4 h h')
  from 4(1) show ?case
  proof cases
    case (hcs_deliver f)
    then obtain c where "calls_deliver f (hc_calls h) = Some c" "h' = h\<lparr>hc_calls := c\<rparr>" by (auto simp: hc_deliver_def)
    with deliver_pending [of f "hc_calls h" c] 4(2) show ?thesis by simp
  qed (use 4(2) in \<open>auto simp: hc_call_def attach_def detach_def calls_fail_all_def calls_forget_def calls_return_def split: if_splits\<close>)
qed (auto simp: NewHubCaller_def no_calls_def)

subsection \<open>The spoke's serve loop\<close>

record 'w spoke_conn =
  sc_side :: spoke_side
  sc_mgr :: 'w
  sc_caller :: "hub_caller option"

definition serve_frame ::
  "(rpc_error \<Rightarrow> string) \<Rightarrow> (open_error option \<Rightarrow> string) \<Rightarrow> (stream_open_req \<Rightarrow> open_error option) \<Rightarrow> bool \<Rightarrow>
   'w box_manager \<Rightarrow> wire_frame \<Rightarrow> 'w spoke_conn \<Rightarrow> 'w spoke_conn option"
where
  "serve_frame txt say open_target ok mgr f s =
     (case fr_Type f of
        FrameReq \<Rightarrow>
          (case handleRequest txt mgr f (sc_mgr s) of
             (resp, w) \<Rightarrow> Some (s\<lparr>sc_mgr := w, sc_side := send_frame resp (sc_side s)\<rparr>))
      | FrameSpokeResp \<Rightarrow>
          (case sc_caller s of
             None \<Rightarrow> Some s
           | Some h \<Rightarrow> map_option (\<lambda>h'. s\<lparr>sc_caller := Some h'\<rparr>) (hc_deliver f h))
      | _ \<Rightarrow> Some (s\<lparr>sc_side := serve_stream say open_target ok f (sc_side s)\<rparr>))"

subsection \<open>Properties\<close>

lemma outcome_origin:
  assumes "call_outcome d g i c = Some (Inr x)" "calls_inv c"
  shows "\<exists>f \<in> set (ca_log c). fr_ID f = i \<and> fr_Error f = [] \<and> d (fr_Payload f) = Some x"
  using assms
  by (force simp: call_outcome_def calls_inv_def call_result_def split: option.splits chan.splits if_splits)

lemma deliver_outcome:
  assumes "calls_inv c" "calls_deliver f c = Some c'"
  shows "ca_waiting c' = ca_waiting c \<and>
    call_outcome d g i c' =
      (if i = fr_ID f \<and> i \<in> ca_waiting c \<and> call_outcome d g i c = None then Some (call_result d f) else call_outcome d g i c)"
proof (cases "fr_ID f \<in> ca_pending c")
  case True
  then have c': "c' = c\<lparr>ca_log := ca_log c @ [f], ca_pending := ca_pending c - {fr_ID f}, ca_chan := (ca_chan c)(fr_ID f \<mapsto> ChFull f)\<rparr>"
    and chan: "ca_chan c (fr_ID f) = Some ChEmpty" and w: "fr_ID f \<in> ca_waiting c"
    using assms by (auto simp: calls_deliver_def Let_def calls_inv_def split: if_splits)
  then show ?thesis by (auto simp: call_outcome_def)
next
  case False
  then have c': "c' = c\<lparr>ca_log := ca_log c @ [f]\<rparr>" using assms(2) by (simp add: calls_deliver_def Let_def)
  have "call_outcome d g i c \<noteq> None" if w: "i \<in> ca_waiting c" "i = fr_ID f"
  proof -
    have "ca_chan c i \<noteq> Some ChEmpty" "ca_chan c i \<noteq> None" using w False assms(1) by (auto simp: calls_inv_def)
    then show ?thesis by (auto simp: call_outcome_def split: option.split chan.split)
  qed
  then show ?thesis by (auto simp: c' call_outcome_def)
qed

text \<open>
  C15 (responses_reach_their_call). In every state the hub's end of a connection can get into, a response or
  error frame is taken off the wire without blocking the shared read loop, gives the call that waits for its id
  exactly the outcome it carries, and leaves the outcome of every other call as it is; no call gets
  a successful outcome but from a frame received with its own id. The same holds of a spoke's caller across
  reconnections.
\<close>

theorem responses_reach_their_call:
  assumes "rs_step\<^sup>*\<^sup>* (newRemoteSpoke name) r" and "hc_step\<^sup>*\<^sup>* NewHubCaller h"
    and "fr_Type f \<in> {FrameResp, frame_type.FrameErr}"
  shows "(\<exists>r'. rs_recv pick f r = (RecvOk, r') \<and> ca_waiting (rs_calls r') = ca_waiting (rs_calls r) \<and>
      (\<forall>i. call_outcome d CallDisconnected i (rs_calls r') =
        (if i = fr_ID f \<and> i \<in> ca_waiting (rs_calls r) \<and> call_outcome d CallDisconnected i (rs_calls r) = None
         then Some (call_result d f) else call_outcome d CallDisconnected i (rs_calls r)))) \<and>
    (\<exists>h'. hc_deliver f h = Some h' \<and> ca_waiting (hc_calls h') = ca_waiting (hc_calls h) \<and>
      (\<forall>i. call_outcome d CallDisconnected i (hc_calls h') =
        (if i = fr_ID f \<and> i \<in> ca_waiting (hc_calls h) \<and> call_outcome d CallDisconnected i (hc_calls h) = None
         then Some (call_result d f) else call_outcome d CallDisconnected i (hc_calls h)))) \<and>
    (call_outcome d CallDisconnected i (rs_calls r) = Some (Inr x) \<longrightarrow>
       (\<exists>g \<in> set (ca_log (rs_calls r)). fr_ID g = i \<and> fr_Error g = [] \<and> d (fr_Payload g) = Some x)) \<and>
    (call_outcome d CallDisconnected i (hc_calls h) = Some (Inr x) \<longrightarrow>
       (\<exists>g \<in> set (ca_log (hc_calls h)). fr_ID g = i \<and> fr_Error g = [] \<and> d (fr_Payload g) = Some x))"
proof -
  have inv: "calls_inv (rs_calls r)" "calls_inv (hc_calls h)"
    using hub_end.reach_inv [OF assms(1)] spoke_end.reach_inv [OF assms(2)] by blast+
  obtain c where c: "calls_deliver f (rs_calls r) = Some c" using hub_end.routed [OF assms(1)] by blast
  obtain c' where c': "calls_deliver f (hc_calls h) = Some c'" using spoke_end.routed [OF assms(2)] by blast
  have "rs_recv pick f r = (RecvOk, r\<lparr>rs_calls := c\<rparr>)" using assms(3) by (auto simp: rs_recv_def Let_def c)
  moreover have "hc_deliver f h = Some (h\<lparr>hc_calls := c'\<rparr>)" by (simp add: hc_deliver_def c')
  moreover note outcome_origin [of d CallDisconnected i "rs_calls r" x] outcome_origin [of d CallDisconnected i "hc_calls h" x]
    deliver_outcome [OF inv(1) c, of d CallDisconnected] deliver_outcome [OF inv(2) c', of d CallDisconnected] inv
  ultimately show ?thesis by (intro conjI exI [of _ "r\<lparr>rs_calls := c\<rparr>"] exI [of _ "h\<lparr>hc_calls := c'\<rparr>"]) simp_all
qed

text \<open>
  C16 (disconnect_unblocks_calls). When a connection is lost no call stays behind: every call that is still waiting
  has its outcome in its channel, and a new one is refused at once, on the hub's side and on the
  spoke's.
\<close>

theorem disconnect_unblocks_calls:
  assumes "rs_step\<^sup>*\<^sup>* (newRemoteSpoke name) r" and "hc_step\<^sup>*\<^sup>* NewHubCaller h"
  shows "(i \<in> ca_waiting (rs_calls (rs_shutdown cause r)) \<longrightarrow>
      (\<exists>x. call_outcome d CallDisconnected i (rs_calls (rs_shutdown cause r)) = Some x)) \<and>
    (\<exists>e. fst (rs_call (rs_shutdown cause r)) = Inl (CallClosed e)) \<and>
    (i \<in> ca_waiting (hc_calls (detach h)) \<longrightarrow> (\<exists>x. call_outcome d CallDisconnected i (hc_calls (detach h)) = Some x)) \<and>
    fst (hc_call (detach h)) = Inl CallDisconnected"
proof -
  have r: "rs_step\<^sup>*\<^sup>* (newRemoteSpoke name) (rs_shutdown cause r)" using assms(1) rss_shutdown by (rule rtranclp.rtrancl_into_rtrancl)
  have h: "hc_step\<^sup>*\<^sup>* NewHubCaller (detach h)" using assms(2) hcs_detach by (rule rtranclp.rtrancl_into_rtrancl)
  have "rs_closed (rs_shutdown cause r) \<noteq> None" by (simp add: rs_shutdown_def)
  moreover have "\<not> hc_attached (detach h)" by (simp add: detach_def)
  moreover have "\<exists>n. newRemoteSpoke name = newRemoteSpoke n" by blast
  ultimately show ?thesis using hub_end.unblocked [OF r] spoke_end.unblocked [OF h]
    by (auto simp: rs_call_def hc_call_def)
qed


text \<open>One call in flight on each side.\<close>

definition sample_reply_frame :: wire_frame where
  "sample_reply_frame = (zero_frame FrameResp 1)\<lparr>fr_Payload := Some (JObj [])\<rparr>"

lemma sample_calls:
  "rs_step\<^sup>*\<^sup>* (newRemoteSpoke ''gpu'') (snd (rs_call (newRemoteSpoke ''gpu'')))"
  "hc_step\<^sup>*\<^sup>* NewHubCaller (snd (hc_call (attach NewHubCaller)))"
proof -
  have "ids_left no_calls" by (simp add: ids_left_def no_calls_def)
  then have "rs_step (newRemoteSpoke ''gpu'') (snd (rs_call (newRemoteSpoke ''gpu'')))"
    "hc_step (attach NewHubCaller) (snd (hc_call (attach NewHubCaller)))"
    by (auto simp: rs_call_def hc_call_def newRemoteSpoke_def NewHubCaller_def attach_def intro: rss_call hcs_call)
  then show "rs_step\<^sup>*\<^sup>* (newRemoteSpoke ''gpu'') (snd (rs_call (newRemoteSpoke ''gpu'')))"
    "hc_step\<^sup>*\<^sup>* NewHubCaller (snd (hc_call (attach NewHubCaller)))"
    using hcs_attach by (auto intro: converse_rtranclp_into_rtranclp)
qed

theorem responses_reach_their_call_witness:
  "fst (rs_recv 0 sample_reply_frame (snd (rs_call (newRemoteSpoke ''gpu'')))) = RecvOk \<and>
   call_outcome (\<lambda>p. Some p) CallDisconnected 1
     (rs_calls (snd (rs_recv 0 sample_reply_frame (snd (rs_call (newRemoteSpoke ''gpu'')))))) = Some (Inr (Some (JObj [])))"
proof -
  have t: "fr_Type sample_reply_frame \<in> {FrameResp, frame_type.FrameErr}" "fr_ID sample_reply_frame = 1"
    "call_result (\<lambda>p. Some p) sample_reply_frame = Inr (Some (JObj []))"
    by (simp_all add: sample_reply_frame_def zero_frame_def call_result_def)
  have w: "1 \<in> ca_waiting (rs_calls (snd (rs_call (newRemoteSpoke ''gpu''))))"
    "call_outcome (\<lambda>p. Some p) CallDisconnected 1 (rs_calls (snd (rs_call (newRemoteSpoke ''gpu'')))) = None"
    by (simp_all add: rs_call_def newRemoteSpoke_def calls_new_def no_calls_def next_id_def call_outcome_def)
  note first = conjunct1 [OF responses_reach_their_call [OF sample_calls t(1), of 0 "\<lambda>p. Some p"]]
  obtain r' where r': "rs_recv 0 sample_reply_frame (snd (rs_call (newRemoteSpoke ''gpu''))) = (RecvOk, r')"
    and out: "\<forall>i. call_outcome (\<lambda>p. Some p) CallDisconnected i (rs_calls r') =
      (if i = fr_ID sample_reply_frame \<and> i \<in> ca_waiting (rs_calls (snd (rs_call (newRemoteSpoke ''gpu'')))) \<and>
          call_outcome (\<lambda>p. Some p) CallDisconnected i (rs_calls (snd (rs_call (newRemoteSpoke ''gpu'')))) = None
       then Some (call_result (\<lambda>p. Some p) sample_reply_frame)
       else call_outcome (\<lambda>p. Some p) CallDisconnected i (rs_calls (snd (rs_call (newRemoteSpoke ''gpu'')))))"
    using first by blast
  from out [THEN spec, of 1] show ?thesis using t(2,3) w by (simp add: r')
qed

theorem disconnect_unblocks_calls_witness:
  "fst (rs_call (rs_shutdown ''eof'' (snd (rs_call (newRemoteSpoke ''gpu''))))) = Inl (CallClosed ''eof'') \<and>
   (\<exists>x. call_outcome (\<lambda>p. Some ()) CallDisconnected 1 (rs_calls (rs_shutdown ''eof'' (snd (rs_call (newRemoteSpoke ''gpu''))))) = Some x)"
proof -
  have "1 \<in> ca_waiting (rs_calls (rs_shutdown ''eof'' (snd (rs_call (newRemoteSpoke ''gpu'')))))"
    "fst (rs_call (rs_shutdown ''eof'' (snd (rs_call (newRemoteSpoke ''gpu''))))) = Inl (CallClosed ''eof'')"
    by (simp_all add: rs_call_def newRemoteSpoke_def rs_shutdown_def calls_new_def calls_fail_all_def no_calls_def next_id_def)
  with disconnect_unblocks_calls [OF sample_calls, of 1 "''eof''" "\<lambda>p. Some ()"] show ?thesis by simp
qed


text \<open>
  Further (stream_open_arrives). The request to open a tunnel arrives at the spoke unchanged, and the spoke opens
  exactly that target once: it registers the stream under the hub's id, or, when the target cannot
  be opened, answers with a close frame of that stream and registers nothing.
\<close>

theorem stream_open_arrives:
  assumes "uint64 i" and "stream_open_req_ok r" and "over_wire (open_frame i r) = Some f"
    and "serve_frame txt say open_target ok mgr f s = Some s'"
  shows "case open_target r of
      None \<Rightarrow> tget (sd_reg (sc_side s')) i = Some (length (sd_streams (sc_side s))) \<and> sd_sent (sc_side s') = sd_sent (sc_side s)
    | Some e \<Rightarrow> sd_reg (sc_side s') = sd_reg (sc_side s) \<and>
        sd_sent (sc_side s') = sd_sent (sc_side s) @ [close_frame i (say (Some e))]"
proof -
  have "frame_ok (open_frame i r)" using assms(1) by (simp add: frame_ok_def open_frame_def zero_frame_def known_types_def)
  then have f: "f = open_frame i r" using assms(3) wire_frame.roundtrip [of "open_frame i r"] by (simp add: over_wire_def)
  then have t: "fr_Type f = FrameStreamOpen" "fr_ID f = i" by (simp_all add: open_frame_def zero_frame_def)
  have "decodePayload dec_streamOpenReq (fr_Payload f) = Some r"
    using streamOpenReq.payload_roundtrip [OF assms(2)] by (simp add: f open_frame_def)
  with assms(4) t show ?thesis
    by (auto simp: serve_frame_def serve_stream_def handleStreamOpen_def send_frame_def split: option.split)
qed

theorem stream_open_arrives_witness:
  "tget (sd_reg (sc_side (the (serve_frame (\<lambda>_. []) (\<lambda>_. []) (\<lambda>_. None) True
      (spoke_manager (\<lambda>_. ''e'') sample_ops (sample_guest True) sample_cfg) (open_frame 5 (dial_req ''web'' 80))
      \<lparr>sc_side = newSpokeStreams, sc_mgr = sample_mgr, sc_caller = None\<rparr>)))) 5 = Some 0"
proof -
  let ?s = "\<lparr>sc_side = newSpokeStreams, sc_mgr = sample_mgr, sc_caller = None\<rparr>"
  have n: "uint64 5" by (simp add: uint64_def)
  have r: "stream_open_req_ok (dial_req ''web'' 80)"
    by (simp add: stream_open_req_ok_def dial_req_def int64_def uint16_def) code_simp
  have f: "over_wire (open_frame 5 (dial_req ''web'' 80)) = Some (open_frame 5 (dial_req ''web'' 80))"
    unfolding over_wire_def by (rule wire_frame.roundtrip) (simp add: frame_ok_def open_frame_def zero_frame_def known_types_def n)
  obtain s' where s': "serve_frame (\<lambda>_. []) (\<lambda>_. []) (\<lambda>_. None) True
      (spoke_manager (\<lambda>_. ''e'') sample_ops (sample_guest True) sample_cfg) (open_frame 5 (dial_req ''web'' 80)) ?s = Some s'"
    by (simp add: serve_frame_def open_frame_def zero_frame_def)
  from stream_open_arrives [OF n r f s'] show ?thesis unfolding s' by (simp add: newSpokeStreams_def)
qed

end
