(* ===== verification/Guest.thy ===== *)
theory Guest
  imports GuestProto FcState
begin

text \<open>
  The agent inside a box, \<^verbatim>\<open>internal/guest/guest.go\<close>, \<^verbatim>\<open>output.go\<close> and \<^verbatim>\<open>pty.go\<close>, and the client the spoke
  reaches it with, \<^verbatim>\<open>client.go\<close>. The operating system of the box is the record \<open>os\<close> of the calls the
  agent makes, over a state of its own; a control connection is the bytes that arrive on it until
  its end, and serving it yields the bytes sent back and what became of the connection. Deadlines
  and a connection that breaks while a reply is written are not modelled.
\<close>

subsection \<open>The operating system\<close>

datatype run_error = ExitError string | OtherError string

record run_out =
  ro_Err :: "run_error option"
  ro_ExitCode :: int
  ro_Stdout :: string
  ro_Stderr :: string
  ro_CtxDone :: bool

text \<open>\<open>ps_Merged\<close>: both outputs go to one buffer, reported as \<open>ro_Stdout\<close>.\<close>

record proc_spec =
  ps_Argv :: "string list"
  ps_Env :: "string list"
  ps_Dir :: string
  ps_Cred :: "(int \<times> int) option"
  ps_Timeout :: "duration option"
  ps_Merged :: bool

record 'w os =
  os_MkdirAll :: "string \<Rightarrow> 'w \<Rightarrow> string option \<times> 'w"
  os_WriteFile :: "string \<Rightarrow> string \<Rightarrow> 32 word \<Rightarrow> 'w \<Rightarrow> string option \<times> 'w"
  os_Create :: "string \<Rightarrow> 32 word \<Rightarrow> 'w \<Rightarrow> string option \<times> 'w"
  os_Write :: "string \<Rightarrow> string \<Rightarrow> 'w \<Rightarrow> string option \<times> 'w"
  os_Close :: "string \<Rightarrow> 'w \<Rightarrow> string option \<times> 'w"
  os_Chmod :: "string \<Rightarrow> 32 word \<Rightarrow> 'w \<Rightarrow> string option \<times> 'w"
  os_Chown :: "string \<Rightarrow> int \<Rightarrow> int \<Rightarrow> 'w \<Rightarrow> string option \<times> 'w"
  os_Getenv :: "string \<Rightarrow> string"
  os_LookPath :: "string \<Rightarrow> string option"
  os_Run :: "proc_spec \<Rightarrow> 'w \<Rightarrow> run_out \<times> 'w"
  os_DialTCP :: "int \<Rightarrow> 'w \<Rightarrow> string option \<times> 'w"
  os_StartPTY :: "proc_spec \<Rightarrow> int \<Rightarrow> int \<Rightarrow> 'w \<Rightarrow> string option \<times> 'w"

subsection \<open>The agent's state\<close>

record guest_options =
  op_Home :: string
  op_InitScriptPath :: string
  op_Credential :: "(int \<times> int) option"

record guest =
  g_home :: string
  g_initScriptPath :: string
  g_cred :: "(int \<times> int) option"
  g_initReq :: init_req
  g_inited :: bool

datatype guest_error =
    AlreadyInitialised
  | MkdirFor string string | Writing string string | Creating string string | Closing string string
  | ChmodOf string string | ChownOf string string
  | WritingInitScript guest_error | ScriptTimeout duration | ScriptFailed string
  | DecodingPayload string | UnknownVerb string | EmptyCommand | RunningCommand string
  | PortOutOfRange int | DialingPort int string
  | PathNotAbsolute string | NegativeSize int
  | StartingPTY string

definition defaultInitScriptTimeout :: duration where
  "defaultInitScriptTimeout = 300 * second"

definition defaultInitScriptPath :: string where
  "defaultInitScriptPath = ''/run/llmbox-init-script''"

definition no_init :: init_req where
  "no_init = \<lparr>ir_Files = [], ir_Env = [], ir_InitScript = [], ir_InitScriptTimeout = 0\<rparr>"

definition New :: "guest_options \<Rightarrow> guest" where
  "New opts =
     \<lparr>g_home = op_Home opts,
      g_initScriptPath = (if op_InitScriptPath opts = [] then defaultInitScriptPath else op_InitScriptPath opts),
      g_cred = op_Credential opts, g_initReq = no_init, g_inited = False\<rparr>"

definition hasEnvKey :: "string list \<Rightarrow> string \<Rightarrow> bool" where
  "hasEnvKey env key \<longleftrightarrow> (\<exists>e \<in> set env. has_prefix e (key @ ''=''))"

definition entryEnv :: "'w os \<Rightarrow> guest \<Rightarrow> string list" where
  "entryEnv os g =
     (let env = ir_Env (g_initReq g);
          home = (if g_home g = [] then os_Getenv os ''HOME'' else g_home g);
          env1 = (if \<not> hasEnvKey env ''HOME'' \<and> home \<noteq> [] then env @ [''HOME='' @ home] else env);
          p = os_Getenv os ''PATH''
      in if \<not> hasEnvKey env1 ''PATH'' \<and> p \<noteq> [] then env1 @ [''PATH='' @ p] else env1)"

fun env_value :: "string \<Rightarrow> string list \<Rightarrow> string option" where
  "env_value key [] = None"
| "env_value key (e # es) =
     (if has_prefix e (key @ ''='') then Some (drop (length key + 1) e) else env_value key es)"

definition homeFromEnv :: "string list \<Rightarrow> string" where
  "homeFromEnv env = (case env_value ''HOME'' env of Some v \<Rightarrow> v | None \<Rightarrow> [])"

subsection \<open>Files\<close>

text \<open>\<^verbatim>\<open>os.FileMode\<close> is 32 bits wide; zero means 0644.\<close>

definition fileMode :: "int \<Rightarrow> 32 word" where
  "fileMode m = (let w = word_of_int m in if w = 0 then 420 else w)"

definition filepath_dir :: "string \<Rightarrow> string" where
  "filepath_dir p = filepath_clean (rev (dropWhile (\<lambda>c. c \<noteq> CHR ''/'') (rev p)))"

definition writeInjectFile :: "'w os \<Rightarrow> inject_file \<Rightarrow> 'w \<Rightarrow> guest_error option \<times> 'w" where
  "writeInjectFile os f w =
     (case os_MkdirAll os (filepath_dir (if_Path f)) w of
        (Some e, w1) \<Rightarrow> (Some (MkdirFor (if_Path f) e), w1)
      | (None, w1) \<Rightarrow>
          (case os_WriteFile os (if_Path f) (if_Content f) (fileMode (if_Mode f)) w1 of
             (Some e, w2) \<Rightarrow> (Some (Writing (if_Path f) e), w2)
           | (None, w2) \<Rightarrow>
               (case os_Chmod os (if_Path f) (fileMode (if_Mode f)) w2 of
                  (Some e, w3) \<Rightarrow> (Some (ChmodOf (if_Path f) e), w3)
                | (None, w3) \<Rightarrow>
                    if if_UID f \<noteq> 0 \<or> if_GID f \<noteq> 0
                    then (case os_Chown os (if_Path f) (if_UID f) (if_GID f) w3 of
                            (Some e, w4) \<Rightarrow> (Some (ChownOf (if_Path f) e), w4)
                          | (None, w4) \<Rightarrow> (None, w4))
                    else (None, w3))))"

text \<open>
  \<^verbatim>\<open>io.CopyN\<close> copies what there is and fails when that is less than asked for. The file is written
  as the bytes arrive: a short stream leaves a short file.
\<close>

definition writePutFile :: "'w os \<Rightarrow> guest \<Rightarrow> string \<Rightarrow> put_file_req \<Rightarrow> 'w \<Rightarrow> guest_error option \<times> 'w" where
  "writePutFile os g src rq w =
     (let path = pf_Path rq; mode = fileMode (pf_Mode rq); n = nat (pf_Size rq) in
      case os_MkdirAll os (filepath_dir path) w of
        (Some e, w1) \<Rightarrow> (Some (MkdirFor path e), w1)
      | (None, w1) \<Rightarrow>
          (case os_Create os path mode w1 of
             (Some e, w2) \<Rightarrow> (Some (Creating path e), w2)
           | (None, w2) \<Rightarrow>
               (case os_Write os path (take n src) w2 of
                  (Some e, w3) \<Rightarrow> (Some (Writing path e), snd (os_Close os path w3))
                | (None, w3) \<Rightarrow>
                    if length src < n then (Some (Writing path ''EOF''), snd (os_Close os path w3))
                    else
                      (case os_Close os path w3 of
                         (Some e, w4) \<Rightarrow> (Some (Closing path e), w4)
                       | (None, w4) \<Rightarrow>
                           (case os_Chmod os path mode w4 of
                              (Some e, w5) \<Rightarrow> (Some (ChmodOf path e), w5)
                            | (None, w5) \<Rightarrow>
                                (case g_cred g of
                                   None \<Rightarrow> (None, w5)
                                 | Some (uid, gid) \<Rightarrow>
                                     (case os_Chown os path uid gid w5 of
                                        (Some e, w6) \<Rightarrow> (Some (ChownOf path e), w6)
                                      | (None, w6) \<Rightarrow> (None, w6))))))))"

subsection \<open>Init and Exec\<close>

definition maxExecOutput :: nat where
  "maxExecOutput = 65536"

definition truncated_mark :: string where
  "truncated_mark = char_of (10 :: nat) # ''... [output truncated]''"

definition capOutput :: "string \<Rightarrow> string" where
  "capOutput b = (if length b \<le> maxExecOutput then b else take maxExecOutput b @ truncated_mark)"

definition runInitScript :: "'w os \<Rightarrow> guest \<Rightarrow> init_req \<Rightarrow> 'w \<Rightarrow> (string \<times> guest_error option) \<times> 'w" where
  "runInitScript os g rq w =
     (let (uid, gid) = (case g_cred g of Some c \<Rightarrow> c | None \<Rightarrow> (0, 0));
          timeout = (if ir_InitScriptTimeout rq \<le> 0 then defaultInitScriptTimeout else ir_InitScriptTimeout rq);
          env = entryEnv os g
      in
      case writeInjectFile os \<lparr>if_Path = g_initScriptPath g, if_Content = ir_InitScript rq, if_Mode = 493, if_UID = uid,
                               if_GID = gid\<rparr> w of
        (Some e, w1) \<Rightarrow> (([], Some (WritingInitScript e)), w1)
      | (None, w1) \<Rightarrow>
          (case os_Run os \<lparr>ps_Argv = [g_initScriptPath g], ps_Env = env, ps_Dir = homeFromEnv env, ps_Cred = g_cred g,
                           ps_Timeout = Some timeout, ps_Merged = True\<rparr> w1 of
             (out, w2) \<Rightarrow>
               (case ro_Err out of
                  None \<Rightarrow> (([], None), w2)
                | Some err \<Rightarrow>
                    ((trim_space (capOutput (ro_Stdout out)),
                      Some (if ro_CtxDone out then ScriptTimeout timeout
                            else ScriptFailed (case err of ExitError e \<Rightarrow> e | OtherError e \<Rightarrow> e))), w2))))"

fun write_all :: "'w os \<Rightarrow> inject_file list \<Rightarrow> 'w \<Rightarrow> guest_error option \<times> 'w" where
  "write_all os [] w = (None, w)"
| "write_all os (f # fs) w =
     (case writeInjectFile os f w of (Some e, w') \<Rightarrow> (Some e, w') | (None, w') \<Rightarrow> write_all os fs w')"

definition handleInit ::
  "'w os \<Rightarrow> (guest_error \<Rightarrow> string) \<Rightarrow> init_req \<Rightarrow> guest \<times> 'w \<Rightarrow> (guest_error + init_resp) \<times> guest \<times> 'w"
where
  "handleInit os say rq = (\<lambda>(g, w).
     if g_inited g then (Inl AlreadyInitialised, g, w)
     else
       (case write_all os (ir_Files rq) w of
          (Some e, w1) \<Rightarrow> (Inl e, g, w1)
        | (None, w1) \<Rightarrow>
            (let g1 = g\<lparr>g_initReq := rq\<rparr>;
                 finished = (\<lambda>w'. (Inr \<lparr>is_ScriptFailed = False, is_ScriptError = [], is_ScriptOutput = []\<rparr>,
                                   g1\<lparr>g_inited := True\<rparr>, w'))
             in
             if ir_InitScript rq = [] then finished w1
             else (case runInitScript os g1 rq w1 of
                     ((out, Some e), w2) \<Rightarrow>
                       (Inr \<lparr>is_ScriptFailed = True, is_ScriptError = say e, is_ScriptOutput = out\<rparr>, g1, w2)
                   | ((out, None), w2) \<Rightarrow> finished w2))))"

definition handleExec :: "'w os \<Rightarrow> string list \<Rightarrow> guest \<times> 'w \<Rightarrow> (guest_error + exec_result) \<times> guest \<times> 'w" where
  "handleExec os cmd = (\<lambda>(g, w).
     if cmd = [] then (Inl EmptyCommand, g, w)
     else
       (case os_Run os \<lparr>ps_Argv = cmd, ps_Env = entryEnv os g, ps_Dir = [], ps_Cred = g_cred g, ps_Timeout = None,
                        ps_Merged = False\<rparr> w of
          (out, w1) \<Rightarrow>
            (case ro_Err out of
               Some (OtherError e) \<Rightarrow> (Inl (RunningCommand e), g, w1)
             | _ \<Rightarrow> (Inr \<lparr>er_Stdout = capOutput (ro_Stdout out), er_Stderr = capOutput (ro_Stderr out),
                         er_ExitCode = ro_ExitCode out\<rparr>, g, w1))))"

definition guest_dispatch ::
  "'w os \<Rightarrow> (guest_error \<Rightarrow> string) \<Rightarrow> guest_req \<Rightarrow> guest \<times> 'w \<Rightarrow> (guest_error + payload) \<times> guest \<times> 'w"
where
  "guest_dispatch os say r st =
     (if rq_Verb r = verbInit then
        (case decodePayload dec_init_req (rq_Data r) of
           None \<Rightarrow> (Inl (DecodingPayload verbInit), st)
         | Some rq \<Rightarrow>
             (case handleInit os say rq st of
                (Inl e, st') \<Rightarrow> (Inl e, st')
              | (Inr out, st') \<Rightarrow> (Inr (Some (enc_init_resp out)), st')))
      else if rq_Verb r = verbExec then
        (case decodePayload dec_exec_cmd (rq_Data r) of
           None \<Rightarrow> (Inl (DecodingPayload verbExec), st)
         | Some cmd \<Rightarrow>
             (case handleExec os cmd st of
                (Inl e, st') \<Rightarrow> (Inl e, st')
              | (Inr out, st') \<Rightarrow> (Inr (Some (enc_exec_result out)), st')))
      else (Inl (UnknownVerb (rq_Verb r)), st))"

subsection \<open>Serving a connection\<close>

text \<open>
  How serving ends: the connection is closed, or its remaining bytes belong to a port of the box or
  to a terminal.
\<close>

datatype conn_end =
    ConnClosed
  | SplicedTo int string
  | OnTerminal proc_spec int int string

definition send_resp :: "guest_resp \<Rightarrow> string" where
  "send_resp r = (case writeFrame (enc_resp r) of Inl _ \<Rightarrow> [] | Inr b \<Rightarrow> b)"

definition err_resp :: "string \<Rightarrow> guest_resp" where
  "err_resp e = \<lparr>rs_Err = e, rs_Data = None\<rparr>"

definition ok_resp :: guest_resp where
  "ok_resp = \<lparr>rs_Err = [], rs_Data = None\<rparr>"

definition handleDial ::
  "'w os \<Rightarrow> (guest_error \<Rightarrow> string) \<Rightarrow> payload \<Rightarrow> string \<Rightarrow> guest \<times> 'w \<Rightarrow> string \<times> conn_end \<times> guest \<times> 'w"
where
  "handleDial os say data rest = (\<lambda>(g, w).
     case decodePayload dec_dial_req data of
       None \<Rightarrow> (send_resp (err_resp (say (DecodingPayload verbDial))), ConnClosed, g, w)
     | Some port \<Rightarrow>
         if port < 1 \<or> port > 65535 then (send_resp (err_resp (say (PortOutOfRange port))), ConnClosed, g, w)
         else (case os_DialTCP os port w of
                 (Some e, w1) \<Rightarrow> (send_resp (err_resp (say (DialingPort port e))), ConnClosed, g, w1)
               | (None, w1) \<Rightarrow> (send_resp ok_resp, SplicedTo port rest, g, w1)))"

definition handlePutFile ::
  "'w os \<Rightarrow> (guest_error \<Rightarrow> string) \<Rightarrow> payload \<Rightarrow> string \<Rightarrow> guest \<times> 'w \<Rightarrow> string \<times> conn_end \<times> guest \<times> 'w"
where
  "handlePutFile os say data rest = (\<lambda>(g, w).
     case decodePayload dec_put_file_req data of
       None \<Rightarrow> (send_resp (err_resp (say (DecodingPayload verbPutFile))), ConnClosed, g, w)
     | Some rq \<Rightarrow>
         if \<not> has_prefix (pf_Path rq) ''/'' then (send_resp (err_resp (say (PathNotAbsolute (pf_Path rq)))), ConnClosed, g, w)
         else if pf_Size rq < 0 then (send_resp (err_resp (say (NegativeSize (pf_Size rq)))), ConnClosed, g, w)
         else (case writePutFile os g rest rq w of
                 (Some e, w1) \<Rightarrow> (send_resp (err_resp (say e)), ConnClosed, g, w1)
               | (None, w1) \<Rightarrow> (send_resp ok_resp, ConnClosed, g, w1)))"

definition ptyShell :: "'w os \<Rightarrow> guest \<Rightarrow> string list \<Rightarrow> string list" where
  "ptyShell os g cmd =
     (if cmd \<noteq> [] then cmd
      else (case find (\<lambda>e. has_prefix e ''SHELL='' \<and> drop 6 e \<noteq> []) (entryEnv os g) of
              Some e \<Rightarrow> [drop 6 e, ''-l'']
            | None \<Rightarrow>
                (case os_LookPath os ''bash'' of
                   Some path \<Rightarrow> [path, ''-l'']
                 | None \<Rightarrow> [''/bin/sh'', ''-l''])))"

definition sizeOr :: "int \<Rightarrow> int \<Rightarrow> int" where
  "sizeOr v fallback = (if v = 0 then fallback else v)"

definition handlePTY ::
  "'w os \<Rightarrow> (guest_error \<Rightarrow> string) \<Rightarrow> payload \<Rightarrow> string \<Rightarrow> guest \<times> 'w \<Rightarrow> string \<times> conn_end \<times> guest \<times> 'w"
where
  "handlePTY os say data rest = (\<lambda>(g, w).
     case decodePayload dec_pty_req data of
       None \<Rightarrow> (send_resp (err_resp (say (DecodingPayload verbPTY))), ConnClosed, g, w)
     | Some rq \<Rightarrow>
         (let env = entryEnv os g @ [''TERM=xterm-256color''];
              spec = \<lparr>ps_Argv = ptyShell os g (py_Cmd rq), ps_Env = env, ps_Dir = homeFromEnv env, ps_Cred = g_cred g,
                      ps_Timeout = None, ps_Merged = True\<rparr>;
              cols = sizeOr (py_Cols rq) 80; rows = sizeOr (py_Rows rq) 24
          in
          case os_StartPTY os spec cols rows w of
            (Some e, w1) \<Rightarrow> (send_resp (err_resp (say (StartingPTY e))), ConnClosed, g, w1)
          | (None, w1) \<Rightarrow> (send_resp ok_resp, OnTerminal spec cols rows rest, g, w1)))"

text \<open>
  The loop over the frames of a connection. An error reply that does not fit a frame is dropped and
  the loop goes on; a result that does not fit ends it.
\<close>

function handleConn ::
  "'w os \<Rightarrow> (guest_error \<Rightarrow> string) \<Rightarrow> string \<Rightarrow> guest \<times> 'w \<Rightarrow> string \<times> conn_end \<times> guest \<times> 'w"
where
  "handleConn os say inp st =
     (case readFrame dec_req inp of
        (Inl _, _) \<Rightarrow> ([], ConnClosed, st)
      | (Inr r, rest) \<Rightarrow>
          if rq_Verb r = verbDial then handleDial os say (rq_Data r) rest st
          else if rq_Verb r = verbPutFile then handlePutFile os say (rq_Data r) rest st
          else if rq_Verb r = verbPTY then handlePTY os say (rq_Data r) rest st
          else
            (case guest_dispatch os say r st of
               (Inl e, st') \<Rightarrow>
                 (case handleConn os say rest st' of (out, fin) \<Rightarrow> (send_resp (err_resp (say e)) @ out, fin))
             | (Inr data, st') \<Rightarrow>
                 (case writeFrame (enc_resp \<lparr>rs_Err = [], rs_Data = data\<rparr>) of
                    Inl _ \<Rightarrow> ([], ConnClosed, st')
                  | Inr b \<Rightarrow> (case handleConn os say rest st' of (out, fin) \<Rightarrow> (b @ out, fin)))))"
  by pat_completeness auto
termination by (relation "measure (\<lambda>(os, say, inp, st). length inp)") (auto dest: readFrame_shorter [OF sym])

declare handleConn.simps [simp del]

subsection \<open>The terminal\<close>

text \<open>What reaches the terminal: keystrokes, and changes of its size.\<close>

record 'p pty_ops =
  pt_Write :: "string \<Rightarrow> 'p \<Rightarrow> bool \<times> 'p"
  pt_Setsize :: "nat \<Rightarrow> nat \<Rightarrow> 'p \<Rightarrow> 'p"

definition ptyMsgData :: nat where "ptyMsgData = 0"
definition ptyMsgResize :: nat where "ptyMsgResize = 1"

definition maxPTYControlPayload :: nat where
  "maxPTYControlPayload = 1048576"

definition PutUint16 :: "nat \<Rightarrow> string" where
  "PutUint16 n = [char_of (n div 256 mod 256), char_of (n mod 256)]"

definition Uint16 :: "string \<Rightarrow> nat" where
  "Uint16 h = byte_of (h ! 0) * 256 + byte_of (h ! 1)"

function pumpPTYInput :: "'p pty_ops \<Rightarrow> string \<Rightarrow> 'p \<Rightarrow> 'p" where
  "pumpPTYInput t inp p =
     (case ReadFull 5 inp of
        (Inl _, _) \<Rightarrow> p
      | (Inr hdr, rest) \<Rightarrow>
          (let n = Uint32 (tl hdr); kind = byte_of (hd hdr) in
           if n > maxPTYControlPayload then p
           else (case ReadFull n rest of
                   (Inl _, _) \<Rightarrow> p
                 | (Inr payload, rest') \<Rightarrow>
                     if kind = ptyMsgData
                     then (case pt_Write t payload p of
                             (False, p') \<Rightarrow> p'
                           | (True, p') \<Rightarrow> pumpPTYInput t rest' p')
                     else if kind = ptyMsgResize
                     then pumpPTYInput t rest'
                            (if length payload = 4 then pt_Setsize t (Uint16 (take 2 payload)) (Uint16 (drop 2 payload)) p else p)
                     else pumpPTYInput t rest' p)))"
  by pat_completeness auto
termination by (relation "measure (\<lambda>(t, inp, p). length inp)") (auto simp: ReadFull_def split: if_splits)

declare pumpPTYInput.simps [simp del]

definition encodePTYControl :: "nat \<Rightarrow> string \<Rightarrow> string" where
  "encodePTYControl msgType payload = char_of msgType # PutUint32 (length payload) @ payload"

definition EncodePTYInput :: "string \<Rightarrow> string" where
  "EncodePTYInput b = encodePTYControl ptyMsgData b"

definition encodePTYResize :: "nat \<Rightarrow> nat \<Rightarrow> string" where
  "encodePTYResize cols rows = encodePTYControl ptyMsgResize (PutUint16 cols @ PutUint16 rows)"

definition EncodePTYResize :: "nat \<Rightarrow> nat \<Rightarrow> string" where
  "EncodePTYResize cols rows = encodePTYResize cols rows"

subsection \<open>The client\<close>

datatype client_error =
    Connecting string | Sending string frame_error | Receiving string frame_error | GuestSays string | BadReply
  | Streaming string

text \<open>
  A call sends one frame and reads one; then the connection is closed, so the frame is all the agent
  ever reads on it. \<open>conn\<close> is the outcome of dialing the box.
\<close>

definition client_call ::
  "'w os \<Rightarrow> (guest_error \<Rightarrow> string) \<Rightarrow> string option \<Rightarrow> string \<Rightarrow> payload \<Rightarrow> guest \<times> 'w \<Rightarrow>
   (client_error + payload) \<times> guest \<times> 'w"
where
  "client_call os say conn verb data st =
     (case conn of
        Some e \<Rightarrow> (Inl (Connecting e), st)
      | None \<Rightarrow>
          (case writeFrame (enc_req \<lparr>rq_Verb = verb, rq_Data = data\<rparr>) of
             Inl e \<Rightarrow> (Inl (Sending verb e), st)
           | Inr b \<Rightarrow>
               (case handleConn os say b st of
                  (out, _, st') \<Rightarrow>
                    (case readFrame dec_resp out of
                       (Inl e, _) \<Rightarrow> (Inl (Receiving verb e), st')
                     | (Inr r, _) \<Rightarrow>
                         if rs_Err r \<noteq> [] then (Inl (GuestSays (rs_Err r)), st') else (Inr (rs_Data r), st')))))"

definition reply_into :: "(json \<Rightarrow> 'a option) \<Rightarrow> 'a \<Rightarrow> (client_error + payload) \<times> 's \<Rightarrow> (client_error + 'a) \<times> 's" where
  "reply_into dec zero = (\<lambda>(r, st).
     (case r of
        Inl e \<Rightarrow> Inl e
      | Inr None \<Rightarrow> Inr zero
      | Inr (Some j) \<Rightarrow> (case dec j of None \<Rightarrow> Inl BadReply | Some v \<Rightarrow> Inr v), st))"

definition client_Init ::
  "'w os \<Rightarrow> (guest_error \<Rightarrow> string) \<Rightarrow> string option \<Rightarrow> init_req \<Rightarrow> guest \<times> 'w \<Rightarrow> (client_error + init_resp) \<times> guest \<times> 'w"
where
  "client_Init os say conn rq st =
     reply_into dec_init_resp \<lparr>is_ScriptFailed = False, is_ScriptError = [], is_ScriptOutput = []\<rparr>
       (client_call os say conn verbInit (Some (enc_init_req rq)) st)"

definition client_Exec ::
  "'w os \<Rightarrow> (guest_error \<Rightarrow> string) \<Rightarrow> string option \<Rightarrow> string list \<Rightarrow> guest \<times> 'w \<Rightarrow> (client_error + exec_result) \<times> guest \<times> 'w"
where
  "client_Exec os say conn cmd st =
     reply_into dec_exec_result \<lparr>er_Stdout = [], er_Stderr = [], er_ExitCode = 0\<rparr>
       (client_call os say conn verbExec (Some (enc_exec_cmd cmd)) st)"

text \<open>
  The content follows the header on the connection. A source that ends early makes the client hang
  up, and the agent sees the stream end there.
\<close>

definition client_PutFile ::
  "'w os \<Rightarrow> (guest_error \<Rightarrow> string) \<Rightarrow> string option \<Rightarrow> string \<Rightarrow> int \<Rightarrow> int \<Rightarrow> string \<Rightarrow> guest \<times> 'w \<Rightarrow>
   client_error option \<times> guest \<times> 'w"
where
  "client_PutFile os say conn path mode sz src st =
     (case conn of
        Some e \<Rightarrow> (Some (Connecting e), st)
      | None \<Rightarrow>
          (case writeFrame (enc_req \<lparr>rq_Verb = verbPutFile,
                    rq_Data = Some (enc_put_file_req \<lparr>pf_Path = path, pf_Mode = mode, pf_Size = sz\<rparr>)\<rparr>) of
             Inl e \<Rightarrow> (Some (Sending verbPutFile e), st)
           | Inr b \<Rightarrow>
               (case handleConn os say (b @ take (nat sz) src) st of
                  (out, _, st') \<Rightarrow>
                    if int (length src) < sz then (Some (Streaming path), st')
                    else
                      (case readFrame dec_resp out of
                         (Inl e, _) \<Rightarrow> (Some (Receiving verbPutFile e), st')
                       | (Inr r, _) \<Rightarrow> if rs_Err r \<noteq> [] then (Some (GuestSays (rs_Err r)), st') else (None, st')))))"

text \<open>
  Dial and terminal: one frame each way, then the connection is the caller's. \<open>later\<close> is what the
  caller sends on it afterwards.
\<close>

definition client_open ::
  "'w os \<Rightarrow> (guest_error \<Rightarrow> string) \<Rightarrow> string option \<Rightarrow> string \<Rightarrow> json \<Rightarrow> string \<Rightarrow> guest \<times> 'w \<Rightarrow>
   (client_error + conn_end) \<times> guest \<times> 'w"
where
  "client_open os say conn verb data later st =
     (case conn of
        Some e \<Rightarrow> (Inl (Connecting e), st)
      | None \<Rightarrow>
          (case writeFrame (enc_req \<lparr>rq_Verb = verb, rq_Data = Some data\<rparr>) of
             Inl e \<Rightarrow> (Inl (Sending verb e), st)
           | Inr b \<Rightarrow>
               (case handleConn os say (b @ later) st of
                  (out, fin, st') \<Rightarrow>
                    (case readFrame dec_resp out of
                       (Inl e, _) \<Rightarrow> (Inl (Receiving verb e), st')
                     | (Inr r, _) \<Rightarrow>
                         if rs_Err r \<noteq> [] then (Inl (GuestSays (rs_Err r)), st') else (Inr fin, st')))))"

definition client_OpenPTY ::
  "'w os \<Rightarrow> (guest_error \<Rightarrow> string) \<Rightarrow> string option \<Rightarrow> string list \<Rightarrow> int \<Rightarrow> int \<Rightarrow> string \<Rightarrow> guest \<times> 'w \<Rightarrow>
   (client_error + conn_end) \<times> guest \<times> 'w"
where
  "client_OpenPTY os say conn cmd cols rows later st =
     client_open os say conn verbPTY (enc_pty_req \<lparr>py_Cmd = cmd, py_Cols = cols, py_Rows = rows\<rparr>) later st"

definition client_DialPort ::
  "'w os \<Rightarrow> (guest_error \<Rightarrow> string) \<Rightarrow> string option \<Rightarrow> int \<Rightarrow> string \<Rightarrow> guest \<times> 'w \<Rightarrow>
   (client_error + conn_end) \<times> guest \<times> 'w"
where
  "client_DialPort os say conn port later st =
     client_open os say conn verbDial (enc_dial_req port) later st"

end
