(* ===== verification/GuestCalls.thy ===== *)
theory GuestCalls
  imports Guest
begin

text \<open>
  What the control protocol of a box promises to the spoke: a call over the connection is a call of
  the handler, replies fit their frames and stay in step with the requests, the agent runs
  everything under the box user's credential, a copied file is exact, terminal input arrives in
  order.
\<close>

subsection \<open>Replies fit a frame\<close>

lemma length_esc_char: "length (esc_char c) \<le> 6"
  by (simp add: esc_char_def split: option.split)

lemma length_esc_str: "length (esc_str s) \<le> 6 * length s"
proof (induction s rule: esc_str.induct)
  case (2 c cs)
  show ?case
  proof (cases "byte_of c = 226 \<and> take 1 cs = [char_of (128 :: nat)] \<and> drop 1 cs \<noteq> [] \<and>
      (byte_of (cs ! 1) = 168 \<or> byte_of (cs ! 1) = 169)")
    case True
    have "length (esc_str (drop 2 cs)) \<le> 6 * length cs" using 2(1) [OF True] by simp
    moreover have "esc_str (c # cs) =
        [backslash, CHR ''u'', CHR ''2'', CHR ''0'', CHR ''2'', hex_char (byte_of (cs ! 1) - 160)] @ esc_str (drop 2 cs)"
      using True by simp
    ultimately show ?thesis by (simp only: length_append) simp
  next
    case False
    with 2(2) [OF False] length_esc_char [of c] show ?thesis by auto
  qed
qed simp

lemma length_text_str: "length (json_text (enc_str s)) \<le> 18 * length s + 2"
  using length_esc_str [of "to_utf8 s"] length_to_utf8 [of s] by (simp add: enc_str_def quote_str_def)

lemma length_show_nat: "0 < k \<Longrightarrow> n < 10 ^ k \<Longrightarrow> length (show_nat n) \<le> k"
proof (induction k arbitrary: n)
  case (Suc k)
  show ?case
  proof (cases "n < 10")
    case True
    then show ?thesis by (simp add: show_nat.simps [of n])
  next
    case False
    then have "k \<noteq> 0" "n div 10 < 10 ^ k" using Suc.prems by (cases k; simp)+
    with Suc.IH [of "n div 10"] False show ?thesis by (simp add: show_nat.simps [of n])
  qed
qed simp

lemma length_show_int: "int64 n \<Longrightarrow> length (show_int n) \<le> 20"
proof -
  assume "int64 n"
  then have "nat (- n) < 10 ^ 19" "nat n < 10 ^ 19" by (auto simp: int64_def)
  with length_show_nat [of 19 "nat (- n)"] length_show_nat [of 19 "nat n"] show ?thesis by (simp add: show_int_def)
qed

lemma length_capOutput: "length (capOutput b) \<le> 65559"
  by (simp add: capOutput_def maxExecOutput_def truncated_mark_def)

lemma exec_reply_length:
  assumes "length (er_Stdout r) \<le> 65559" "length (er_Stderr r) \<le> 65559" "int64 (er_ExitCode r)"
  shows "length (json_text (enc_resp \<lparr>rs_Err = [], rs_Data = Some (enc_exec_result r)\<rparr>)) \<le> maxFrame"
proof -
  have k: "length (quote_str ''data'') \<le> 26" "length (quote_str ''stdout'') \<le> 38" "length (quote_str ''stderr'') \<le> 38"
    "length (quote_str ''exit_code'') \<le> 56"
    using length_esc_str [of "''data''"] length_esc_str [of "''stdout''"] length_esc_str [of "''stderr''"]
      length_esc_str [of "''exit_code''"] by (simp_all add: quote_str_def del: esc_str.simps)
  note b = length_text_str [of "er_Stdout r"] length_text_str [of "er_Stderr r"] length_show_int [OF assms(3)]
  show ?thesis
    using k b assms(1,2)
    by (simp add: enc_resp_def raw_data_def omitempty_def enc_exec_result_def always_def maxFrame_def del: esc_str.simps)
qed

subsection \<open>One request, one reply\<close>

definition framed :: "string \<Rightarrow> bool" where
  "framed verb \<longleftrightarrow> verb \<noteq> verbDial \<and> verb \<noteq> verbPutFile \<and> verb \<noteq> verbPTY"

text \<open>The response to a request that is answered by a frame.\<close>

definition respond ::
  "'w os \<Rightarrow> (guest_error \<Rightarrow> string) \<Rightarrow> guest_req \<Rightarrow> guest \<times> 'w \<Rightarrow> guest_resp \<times> guest \<times> 'w"
where
  "respond os say r st =
     (case guest_dispatch os say r st of
        (Inl e, st') \<Rightarrow> (err_resp (say e), st')
      | (Inr d, st') \<Rightarrow> (\<lparr>rs_Err = [], rs_Data = d\<rparr>, st'))"

lemma readFrame_req:
  assumes "utf8 (rq_Verb r)" "data_utf8 (rq_Data r)" "writeFrame (enc_req r) = Inr b"
  shows "readFrame dec_req (b @ rest) = (Inr r, rest)"
  using frame_roundtrip [OF envelope_texts(1) [OF assms(2)] assms(3), of dec_req rest] req_roundtrip [OF assms(1)] by simp

lemma readFrame_resp:
  assumes "data_utf8 (rs_Data r)" "writeFrame (enc_resp r) = Inr b"
  shows "readFrame dec_resp (b @ rest) = (Inr (r\<lparr>rs_Err := to_utf8 (rs_Err r)\<rparr>), rest)"
  using frame_roundtrip [OF envelope_texts(2) [OF assms(1)] assms(2), of dec_resp rest] resp_roundtrip [of r] by simp

lemma dispatch_texts: "guest_dispatch os say r st = (Inr d, st') \<Longrightarrow> data_utf8 d"
  by (auto simp: guest_dispatch_def init_resp.texts guest_exec_result.texts split: if_splits option.splits prod.splits sum.splits)

lemma respond_texts: "data_utf8 (rs_Data (fst (respond os say r st)))"
  by (auto simp: respond_def err_resp_def split: prod.split sum.split dest: dispatch_texts)

lemma handleConn_respond:
  assumes "framed (rq_Verb r)" "utf8 (rq_Verb r)" "data_utf8 (rq_Data r)" "writeFrame (enc_req r) = Inr b"
    and "respond os say r st = (p, st')" "writeFrame (enc_resp p) = Inr b'"
  shows "handleConn os say (b @ rest) st = (case handleConn os say rest st' of (out, fin) \<Rightarrow> (b' @ out, fin))"
proof -
  obtain x st2 where "guest_dispatch os say r st = (x, st2)" by (rule prod.exhaust)
  then show ?thesis
    using assms(1,5,6) readFrame_req [OF assms(2-4)]
    by (cases x) (simp_all add: handleConn.simps [of os say "b @ rest"] framed_def respond_def send_resp_def)
qed

lemma handleConn_end: "handleConn os say [] st = ([], ConnClosed, st)"
  by (simp add: handleConn.simps readFrame_def ReadFull_def)

lemma client_call_respond:
  assumes "framed verb" "utf8 verb" "data_utf8 data" "writeFrame (enc_req \<lparr>rq_Verb = verb, rq_Data = data\<rparr>) = Inr b"
    and "respond os say \<lparr>rq_Verb = verb, rq_Data = data\<rparr> st = (p, st')" "writeFrame (enc_resp p) = Inr b'"
  shows "client_call os say None verb data st =
    (if rs_Err p \<noteq> [] then Inl (GuestSays (to_utf8 (rs_Err p))) else Inr (rs_Data p), st')"
proof -
  have "handleConn os say b st = (b', ConnClosed, st')"
    using handleConn_respond [of "\<lparr>rq_Verb = verb, rq_Data = data\<rparr>" b os say st p st' b' "[]"] assms
    by (simp add: handleConn_end)
  moreover have "data_utf8 (rs_Data p)" using respond_texts [of os say "\<lparr>rq_Verb = verb, rq_Data = data\<rparr>" st] assms(5) by simp
  ultimately show ?thesis
    using assms(4,6) readFrame_resp [of p b' "[]"] by (simp add: client_call_def to_utf8_Nil_iff)
qed

lemma verb_texts: "utf8 verbInit" "utf8 verbExec" "utf8 verbDial" "utf8 verbPutFile" "utf8 verbPTY"
  unfolding verb_defs by code_simp+

lemma verbs_framed: "framed verbInit" "framed verbExec"
  by (simp_all add: framed_def verb_defs)

definition fits :: "json \<Rightarrow> bool" where
  "fits j \<longleftrightarrow> length (json_text j) \<le> maxFrame"

lemma fits_frame: "fits j \<Longrightarrow> \<exists>b. writeFrame j = Inr b"
  by (simp add: fits_def writeFrame_def Let_def)

definition exec_req :: "string list \<Rightarrow> guest_req" where
  "exec_req cmd = \<lparr>rq_Verb = verbExec, rq_Data = Some (enc_exec_cmd cmd)\<rparr>"

definition init_request :: "init_req \<Rightarrow> guest_req" where
  "init_request rq = \<lparr>rq_Verb = verbInit, rq_Data = Some (enc_init_req rq)\<rparr>"

lemma respond_exec:
  "list_all utf8 cmd \<Longrightarrow> respond os say (exec_req cmd) st =
     (case handleExec os cmd st of
        (Inl e, st') \<Rightarrow> (err_resp (say e), st')
      | (Inr r, st') \<Rightarrow> (\<lparr>rs_Err = [], rs_Data = Some (enc_exec_result r)\<rparr>, st'))"
  by (simp add: respond_def exec_req_def guest_dispatch_def verb_defs decodePayload_def exec_cmd.roundtrip
      split: prod.split sum.split)

lemma respond_init:
  "init_req_ok rq \<Longrightarrow> respond os say (init_request rq) st =
     (case handleInit os say rq st of
        (Inl e, st') \<Rightarrow> (err_resp (say e), st')
      | (Inr r, st') \<Rightarrow> (\<lparr>rs_Err = [], rs_Data = Some (enc_init_resp r)\<rparr>, st'))"
  by (simp add: respond_def init_request_def guest_dispatch_def verb_defs decodePayload_def init_req.roundtrip
      split: prod.split sum.split)

lemma client_call_fits:
  assumes "framed (rq_Verb r)" "utf8 (rq_Verb r)" "data_utf8 (rq_Data r)" "fits (enc_req r)"
    and "respond os say r st = (p, st')" "fits (enc_resp p)"
  shows "client_call os say None (rq_Verb r) (rq_Data r) st =
    (if rs_Err p \<noteq> [] then Inl (GuestSays (to_utf8 (rs_Err p))) else Inr (rs_Data p), st')"
proof -
  obtain b b' where "writeFrame (enc_req r) = Inr b" "writeFrame (enc_resp p) = Inr b'"
    using fits_frame assms(4,6) by blast
  then show ?thesis using client_call_respond [of "rq_Verb r" "rq_Data r" b os say st p st' b'] assms by (cases r) simp
qed

lemma handleExec_code:
  "\<forall>spec w. int64 (ro_ExitCode (fst (os_Run os spec w))) \<Longrightarrow> handleExec os cmd st = (Inr r, st') \<Longrightarrow>
   int64 (er_ExitCode r) \<and> length (er_Stdout r) \<le> 65559 \<and> length (er_Stderr r) \<le> 65559"
proof -
  assume c: "\<forall>spec w. int64 (ro_ExitCode (fst (os_Run os spec w)))" and h: "handleExec os cmd st = (Inr r, st')"
  obtain g w where st: "st = (g, w)" by (rule prod.exhaust)
  define sp where "sp = \<lparr>ps_Argv = cmd, ps_Env = entryEnv os g, ps_Dir = [], ps_Cred = g_cred g, ps_Timeout = None,
    ps_Merged = False\<rparr>"
  obtain out w1 where run: "os_Run os sp w = (out, w1)" by (rule prod.exhaust)
  have "int64 (ro_ExitCode out)" using c run by (metis fst_conv)
  then show ?thesis using h st run
    by (auto simp: handleExec_def sp_def [symmetric] length_capOutput split: if_splits option.splits run_error.splits)
qed

text \<open>
  C39 (exec_reply_fits). Whatever a command prints and returns, the reply that carries its result fits
  one control frame: its two outputs are cut at 64 KiB, and escaping and UTF-8 replacement make them
  at most eighteen times longer.
\<close>

theorem exec_reply_fits:
  assumes "\<forall>spec w. int64 (ro_ExitCode (fst (os_Run os spec w)))" and "handleExec os cmd st = (Inr r, st')"
  shows "length (er_Stdout r) \<le> maxExecOutput + length truncated_mark \<and>
    length (json_text (enc_resp \<lparr>rs_Err = [], rs_Data = Some (enc_exec_result r)\<rparr>)) \<le> maxFrame"
  using handleExec_code [OF assms] exec_reply_length [of r] by (simp add: maxExecOutput_def truncated_mark_def)


subsection \<open>Many requests on one connection\<close>

fun respond_all ::
  "'w os \<Rightarrow> (guest_error \<Rightarrow> string) \<Rightarrow> guest_req list \<Rightarrow> guest \<times> 'w \<Rightarrow> guest_resp list \<times> guest \<times> 'w"
where
  "respond_all os say [] st = ([], st)"
| "respond_all os say (r # rs) st =
     (case respond os say r st of
        (p, st1) \<Rightarrow> (case respond_all os say rs st1 of (ps, st2) \<Rightarrow> (p # ps, st2)))"

definition frame_bytes :: "json \<Rightarrow> string" where
  "frame_bytes j = (case writeFrame j of Inl _ \<Rightarrow> [] | Inr b \<Rightarrow> b)"

fun read_all :: "nat \<Rightarrow> string \<Rightarrow> guest_resp list option" where
  "read_all 0 s = (if s = [] then Some [] else None)"
| "read_all (Suc n) s =
     (case readFrame dec_resp s of
        (Inl _, _) \<Rightarrow> None
      | (Inr p, rest) \<Rightarrow> map_option (\<lambda>ps. p # ps) (read_all n rest))"

definition req_ok :: "guest_req \<Rightarrow> bool" where
  "req_ok r \<longleftrightarrow> framed (rq_Verb r) \<and> utf8 (rq_Verb r) \<and> data_utf8 (rq_Data r) \<and> fits (enc_req r)"

lemma fits_bytes: "fits j \<Longrightarrow> writeFrame j = Inr (frame_bytes j)"
  using fits_frame [of j] by (auto simp: frame_bytes_def)


subsection \<open>Confinement\<close>

text \<open>
  \<open>P\<close> is any property of the box that the agent's own file operations keep and that processes keep
  when they run under the credential \<open>c\<close>.
\<close>

definition keeps_under :: "(int \<times> int) option \<Rightarrow> ('w \<Rightarrow> bool) \<Rightarrow> 'w os \<Rightarrow> bool" where
  "keeps_under c P os \<longleftrightarrow>
     (\<forall>p w. P w \<longrightarrow> P (snd (os_MkdirAll os p w))) \<and>
     (\<forall>p b m w. P w \<longrightarrow> P (snd (os_WriteFile os p b m w))) \<and>
     (\<forall>p m w. P w \<longrightarrow> P (snd (os_Create os p m w))) \<and>
     (\<forall>p b w. P w \<longrightarrow> P (snd (os_Write os p b w))) \<and>
     (\<forall>p w. P w \<longrightarrow> P (snd (os_Close os p w))) \<and>
     (\<forall>p m w. P w \<longrightarrow> P (snd (os_Chmod os p m w))) \<and>
     (\<forall>p u g w. P w \<longrightarrow> P (snd (os_Chown os p u g w))) \<and>
     (\<forall>n w. P w \<longrightarrow> P (snd (os_DialTCP os n w))) \<and>
     (\<forall>sp w. P w \<and> ps_Cred sp = c \<longrightarrow> P (snd (os_Run os sp w))) \<and>
     (\<forall>sp x y w. P w \<and> ps_Cred sp = c \<longrightarrow> P (snd (os_StartPTY os sp x y w)))"

lemma host_keepsD:
  "os_MkdirAll os p w = (e, w') \<Longrightarrow> keeps_under c P os \<Longrightarrow> P w \<Longrightarrow> P w'"
  "os_WriteFile os p b m w = (e, w') \<Longrightarrow> keeps_under c P os \<Longrightarrow> P w \<Longrightarrow> P w'"
  "os_Create os p m w = (e, w') \<Longrightarrow> keeps_under c P os \<Longrightarrow> P w \<Longrightarrow> P w'"
  "os_Write os p b w = (e, w') \<Longrightarrow> keeps_under c P os \<Longrightarrow> P w \<Longrightarrow> P w'"
  "os_Close os p w = (e, w') \<Longrightarrow> keeps_under c P os \<Longrightarrow> P w \<Longrightarrow> P w'"
  "os_Chmod os p m w = (e, w') \<Longrightarrow> keeps_under c P os \<Longrightarrow> P w \<Longrightarrow> P w'"
  "os_Chown os p u g w = (e, w') \<Longrightarrow> keeps_under c P os \<Longrightarrow> P w \<Longrightarrow> P w'"
  "os_DialTCP os n w = (e, w') \<Longrightarrow> keeps_under c P os \<Longrightarrow> P w \<Longrightarrow> P w'"
  unfolding keeps_under_def by (metis snd_conv)+

lemma keeps_run:
  "os_Run os sp w = (out, w') \<Longrightarrow> keeps_under c P os \<Longrightarrow> P w \<Longrightarrow> ps_Cred sp = c \<Longrightarrow> P w'"
  "os_StartPTY os sp x y w = (e, w') \<Longrightarrow> keeps_under c P os \<Longrightarrow> P w \<Longrightarrow> ps_Cred sp = c \<Longrightarrow> P w'"
  unfolding keeps_under_def by (metis snd_conv)+

lemma writeInjectFile_keeps:
  assumes "writeInjectFile os f w = (e, w')" and k: "keeps_under c P os" and "P w"
  shows "P w'"
proof -
  obtain e1 w1 where 1: "os_MkdirAll os (filepath_dir (if_Path f)) w = (e1, w1)" by (rule prod.exhaust)
  obtain e2 w2 where 2: "os_WriteFile os (if_Path f) (if_Content f) (fileMode (if_Mode f)) w1 = (e2, w2)" by (rule prod.exhaust)
  obtain e3 w3 where 3: "os_Chmod os (if_Path f) (fileMode (if_Mode f)) w2 = (e3, w3)" by (rule prod.exhaust)
  obtain e4 w4 where 4: "os_Chown os (if_Path f) (if_UID f) (if_GID f) w3 = (e4, w4)" by (rule prod.exhaust)
  have "P w1" "P w2" "P w3" "P w4"
    using host_keepsD(1) [OF 1 k assms(3)] host_keepsD(2) [OF 2 k] host_keepsD(6) [OF 3 k] host_keepsD(7) [OF 4 k] by auto
  with assms(1) show ?thesis
    by (simp add: writeInjectFile_def 1 2 3 4 split: option.splits if_splits)
qed

lemma write_all_keeps: "write_all os fs w = (e, w') \<Longrightarrow> keeps_under c P os \<Longrightarrow> P w \<Longrightarrow> P w'"
  by (induction fs arbitrary: w) (auto split: prod.splits option.splits dest: writeInjectFile_keeps)

lemma writePutFile_keeps:
  assumes "writePutFile os g src rq w = (e, w')" and k: "keeps_under c P os" and "P w"
  shows "P w'"
proof -
  obtain e1 w1 where 1: "os_MkdirAll os (filepath_dir (pf_Path rq)) w = (e1, w1)" by (rule prod.exhaust)
  obtain e2 w2 where 2: "os_Create os (pf_Path rq) (fileMode (pf_Mode rq)) w1 = (e2, w2)" by (rule prod.exhaust)
  obtain e3 w3 where 3: "os_Write os (pf_Path rq) (take (nat (pf_Size rq)) src) w2 = (e3, w3)" by (rule prod.exhaust)
  obtain e4 w4 where 4: "os_Close os (pf_Path rq) w3 = (e4, w4)" by (rule prod.exhaust)
  obtain e5 w5 where 5: "os_Chmod os (pf_Path rq) (fileMode (pf_Mode rq)) w4 = (e5, w5)" by (rule prod.exhaust)
  have P: "P w1" "P w2" "P w3" "P w4" "P w5"
    using host_keepsD(1) [OF 1 k assms(3)] host_keepsD(3) [OF 2 k] host_keepsD(4) [OF 3 k] host_keepsD(5) [OF 4 k] host_keepsD(6) [OF 5 k] by auto
  show ?thesis
    using assms(1) P
    by (auto simp: writePutFile_def Let_def 1 2 3 4 5 split: option.splits if_splits prod.splits dest: host_keepsD(7) [OF _ k])
qed

lemma runInitScript_keeps:
  assumes "runInitScript os g rq w = (x, w')" and k: "keeps_under (g_cred g) P os" and "P w"
  shows "P w'"
  using assms(1,3)
  by (auto simp: runInitScript_def Let_def split: prod.splits option.splits
      dest!: writeInjectFile_keeps [OF _ k] dest: keeps_run(1) [OF _ k])

definition same_box :: "guest \<Rightarrow> guest \<Rightarrow> bool" where
  "same_box g g' \<longleftrightarrow> g_home g' = g_home g \<and> g_initScriptPath g' = g_initScriptPath g \<and> g_cred g' = g_cred g \<and>
     (g_inited g \<longrightarrow> g' = g)"

lemma same_box_refl [simp]: "same_box g g"
  by (simp add: same_box_def)

lemma same_box_trans: "same_box g g' \<Longrightarrow> same_box g' g'' \<Longrightarrow> same_box g g''"
  by (auto simp: same_box_def)

lemma handleInit_keeps:
  assumes "handleInit os say rq (g, w) = (x, g', w')" and k: "keeps_under (g_cred g) P os" and "P w"
  shows "P w' \<and> same_box g g'"
proof (cases "g_inited g")
  case True
  with assms show ?thesis by (simp add: handleInit_def)
next
  case False
  obtain e1 w1 where 1: "write_all os (ir_Files rq) w = (e1, w1)" by (rule prod.exhaust)
  obtain r w2 where 2: "runInitScript os (g\<lparr>g_initReq := rq\<rparr>) rq w1 = (r, w2)" by (rule prod.exhaust)
  have P: "P w1" "P w2"
    using write_all_keeps [OF 1 k assms(3)] runInitScript_keeps [OF 2] k by auto
  with assms(1) False show ?thesis
    by (auto simp: handleInit_def Let_def 1 2 same_box_def split: option.splits if_splits prod.splits)
qed

lemma handleExec_keeps:
  assumes "handleExec os cmd (g, w) = (x, g', w')" and k: "keeps_under (g_cred g) P os" and "P w"
  shows "P w' \<and> same_box g g'"
  using assms(1,3)
  by (auto simp: handleExec_def split: if_splits prod.splits option.splits run_error.splits dest: keeps_run(1) [OF _ k])

lemma guest_dispatch_keeps:
  assumes "guest_dispatch os say r (g, w) = (x, g', w')" and k: "keeps_under (g_cred g) P os" and "P w"
  shows "P w' \<and> same_box g g'"
  using assms(1,3)
  by (auto simp: guest_dispatch_def split: if_splits prod.splits option.splits sum.splits
      dest: handleInit_keeps [OF _ k] handleExec_keeps [OF _ k])

text \<open>
  C20 (guest_confines). Whatever bytes arrive on a control connection, the agent never changes the
  credential, the home and the script path it was started with, an initialised agent keeps its
  parameters for good, every process and every terminal it starts runs under that credential, and so
  anything that such processes and the agent's own file operations leave alone stays as it is.
\<close>

theorem guest_confines:
  assumes "keeps_under (g_cred g) P os" and "P w" and "handleConn os say inp (g, w) = (out, fin, g', w')"
  shows "P w' \<and> g_cred g' = g_cred g \<and> g_home g' = g_home g \<and> g_initScriptPath g' = g_initScriptPath g \<and>
    (g_inited g \<longrightarrow> g' = g) \<and> (\<forall>sp x y rest. fin = OnTerminal sp x y rest \<longrightarrow> ps_Cred sp = g_cred g)"
proof -
  have "P w' \<and> same_box g g' \<and> (\<forall>sp x y rest. fin = OnTerminal sp x y rest \<longrightarrow> ps_Cred sp = g_cred g)"
    using assms
  proof (induction "length inp" arbitrary: inp g w out rule: less_induct)
    case less
    note k = less.prems(1)
    obtain x rest where fr: "readFrame dec_req inp = (x, rest)" by (rule prod.exhaust)
    show ?case
    proof (cases x)
      case (Inl e)
      with less.prems fr show ?thesis by (simp add: handleConn.simps [of os say inp])
    next
      case (Inr r)
      with fr have len: "length rest < length inp" by (auto dest: readFrame_shorter)
      consider "rq_Verb r = verbDial" | "rq_Verb r = verbPutFile" | "rq_Verb r = verbPTY" | "framed (rq_Verb r)"
        by (auto simp: framed_def)
      then show ?thesis
      proof cases
        case 1
        with less.prems fr Inr show ?thesis
          by (auto simp: handleConn.simps [of os say inp] handleDial_def split: option.splits if_splits prod.splits
              dest: host_keepsD(8) [OF _ k])
      next
        case 2
        with less.prems fr Inr show ?thesis
          by (auto simp: handleConn.simps [of os say inp] verb_defs handlePutFile_def split: option.splits if_splits prod.splits
              dest: writePutFile_keeps [OF _ k])
      next
        case 3
        with less.prems fr Inr show ?thesis
          by (auto simp: handleConn.simps [of os say inp] verb_defs handlePTY_def Let_def split: option.splits prod.splits
              dest: keeps_run(2) [OF _ k])
      next
        case 4
        obtain y g1 w1 where d: "guest_dispatch os say r (g, w) = (y, g1, w1)" by (rule prod_cases3)
        have s: "P w1 \<and> same_box g g1" using guest_dispatch_keeps [OF d k less.prems(2)] .
        then have c: "g_cred g1 = g_cred g" by (simp add: same_box_def)
        obtain out2 fin2 g2 w2 where h: "handleConn os say rest (g1, w1) = (out2, fin2, g2, w2)" by (rule prod_cases4)
        have IH: "P w2 \<and> same_box g1 g2 \<and> (\<forall>sp x y rest. fin2 = OnTerminal sp x y rest \<longrightarrow> ps_Cred sp = g_cred g1)"
          if "fin2 = fin" "g2 = g'" "w2 = w'"
          using less.hyps [OF len, of g1 w1 out2] h k c s that by simp
        show ?thesis
          using less.prems(3) fr Inr 4 d h IH s c same_box_trans
          by (auto simp: handleConn.simps [of os say inp] framed_def split: sum.splits)
      qed
    qed
  qed
  then show ?thesis by (auto simp: same_box_def)
qed

subsection \<open>Copying a file into a box\<close>

record file_info =
  fi_Content :: string
  fi_Mode :: "32 word"
  fi_Owner :: "int \<times> int"

abbreviation perm :: "32 word \<Rightarrow> 32 word" where
  "perm m \<equiv> and m 511"

text \<open>
  What the copy relies on of the file system, for a call that reports success: creating a file truncates it,
  writing appends, closing changes nothing, a mode is set in its permission bits, and a change of
  owner keeps the content and the permission bits. \<open>at\<close> is the file a path names.
\<close>

definition file_laws :: "('w \<Rightarrow> string \<Rightarrow> file_info option) \<Rightarrow> 'w os \<Rightarrow> bool" where
  "file_laws at os \<longleftrightarrow>
     (\<forall>p m w w'. os_Create os p m w = (None, w') \<longrightarrow> (\<exists>f. at w' p = Some f \<and> fi_Content f = [])) \<and>
     (\<forall>p b w w' f. os_Write os p b w = (None, w') \<and> at w p = Some f \<longrightarrow>
        at w' p = Some (f\<lparr>fi_Content := fi_Content f @ b\<rparr>)) \<and>
     (\<forall>p w w'. os_Close os p w = (None, w') \<longrightarrow> at w' p = at w p) \<and>
     (\<forall>p m w w' f. os_Chmod os p m w = (None, w') \<and> at w p = Some f \<longrightarrow>
        (\<exists>m'. perm m' = perm m \<and> at w' p = Some (f\<lparr>fi_Mode := m'\<rparr>))) \<and>
     (\<forall>p u g w w' f. os_Chown os p u g w = (None, w') \<and> at w p = Some f \<longrightarrow>
        (\<exists>m'. perm m' = perm (fi_Mode f) \<and> at w' p = Some (f\<lparr>fi_Mode := m', fi_Owner := (u, g)\<rparr>)))"

lemma file_lawsD:
  assumes l: "file_laws at os"
  shows "os_Create os p m w = (None, w') \<Longrightarrow> \<exists>f. at w' p = Some f \<and> fi_Content f = []"
    "os_Write os p b w = (None, w') \<Longrightarrow> at w p = Some f \<Longrightarrow> at w' p = Some (f\<lparr>fi_Content := fi_Content f @ b\<rparr>)"
    "os_Close os p w = (None, w') \<Longrightarrow> at w' p = at w p"
    "os_Chmod os p m w = (None, w') \<Longrightarrow> at w p = Some f \<Longrightarrow> \<exists>m'. perm m' = perm m \<and> at w' p = Some (f\<lparr>fi_Mode := m'\<rparr>)"
    "os_Chown os p u d w = (None, w') \<Longrightarrow> at w p = Some f \<Longrightarrow>
       \<exists>m'. perm m' = perm (fi_Mode f) \<and> at w' p = Some (f\<lparr>fi_Mode := m', fi_Owner := (u, d)\<rparr>)"
proof -
  note l = l [unfolded file_laws_def]
  show "os_Create os p m w = (None, w') \<Longrightarrow> \<exists>f. at w' p = Some f \<and> fi_Content f = []"
    using conjunct1 [OF l] by blast
  show "os_Write os p b w = (None, w') \<Longrightarrow> at w p = Some f \<Longrightarrow> at w' p = Some (f\<lparr>fi_Content := fi_Content f @ b\<rparr>)"
    using conjunct1 [OF conjunct2 [OF l]] by blast
  show "os_Close os p w = (None, w') \<Longrightarrow> at w' p = at w p"
    using conjunct1 [OF conjunct2 [OF conjunct2 [OF l]]] by blast
  show "os_Chmod os p m w = (None, w') \<Longrightarrow> at w p = Some f \<Longrightarrow> \<exists>m'. perm m' = perm m \<and> at w' p = Some (f\<lparr>fi_Mode := m'\<rparr>)"
    using conjunct1 [OF conjunct2 [OF conjunct2 [OF conjunct2 [OF l]]]] by blast
  show "os_Chown os p u d w = (None, w') \<Longrightarrow> at w p = Some f \<Longrightarrow>
       \<exists>m'. perm m' = perm (fi_Mode f) \<and> at w' p = Some (f\<lparr>fi_Mode := m', fi_Owner := (u, d)\<rparr>)"
    using conjunct2 [OF conjunct2 [OF conjunct2 [OF conjunct2 [OF l]]]] by blast
qed

lemma writePutFile_exact:
  assumes "file_laws at os" and "writePutFile os g src rq w = (None, w')"
  shows "nat (pf_Size rq) \<le> length src \<and>
    (\<exists>f. at w' (pf_Path rq) = Some f \<and> fi_Content f = take (nat (pf_Size rq)) src \<and>
       perm (fi_Mode f) = perm (fileMode (pf_Mode rq)) \<and> (\<forall>c. g_cred g = Some c \<longrightarrow> fi_Owner f = c))"
proof -
  note laws = file_lawsD [OF assms(1)]
  let ?p = "pf_Path rq" and ?m = "fileMode (pf_Mode rq)" and ?b = "take (nat (pf_Size rq)) src"
  obtain w1 w2 w3 w4 w5 where
    2: "os_Create os ?p ?m w1 = (None, w2)" and 3: "os_Write os ?p ?b w2 = (None, w3)" and
    4: "os_Close os ?p w3 = (None, w4)" and 5: "os_Chmod os ?p ?m w4 = (None, w5)" and n: "nat (pf_Size rq) \<le> length src" and
    6: "case g_cred g of None \<Rightarrow> w' = w5 | Some (u, d) \<Rightarrow> os_Chown os ?p u d w5 = (None, w')"
    using assms(2) by (auto simp: writePutFile_def Let_def split: prod.splits option.splits if_splits)
  obtain f2 where f2: "at w2 ?p = Some f2" "fi_Content f2 = []" using laws(1) [OF 2] by blast
  have "at w4 ?p = Some (f2\<lparr>fi_Content := ?b\<rparr>)" using laws(2) [OF 3 f2(1)] laws(3) [OF 4] f2(2) by simp
  from laws(4) [OF 5 this] obtain m5 where f5: "at w5 ?p = Some (f2\<lparr>fi_Content := ?b, fi_Mode := m5\<rparr>)" "perm m5 = perm ?m"
    by blast
  show ?thesis
  proof (cases "g_cred g")
    case None
    with 6 f5 n show ?thesis by auto
  next
    case (Some c)
    obtain u d where c: "c = (u, d)" by (rule prod.exhaust)
    with 6 Some have "os_Chown os ?p u d w5 = (None, w')" by simp
    from laws(5) [OF this f5(1)] f5(2) n c Some show ?thesis by auto
  qed
qed

definition put_req :: "string \<Rightarrow> int \<Rightarrow> int \<Rightarrow> put_file_req" where
  "put_req path mode sz = \<lparr>pf_Path = path, pf_Mode = mode, pf_Size = sz\<rparr>"

text \<open>An error reply is either read as that error or does not arrive at all.\<close>

lemma read_send_resp:
  assumes "data_utf8 (rs_Data r)"
  shows "readFrame dec_resp (send_resp r) = (Inr (r\<lparr>rs_Err := to_utf8 (rs_Err r)\<rparr>), []) \<or>
    readFrame dec_resp (send_resp r) = (Inl FrameEOF, [])"
proof (cases "writeFrame (enc_resp r)")
  case (Inl e)
  then show ?thesis by (simp add: send_resp_def readFrame_def ReadFull_def)
next
  case (Inr b)
  with readFrame_resp [OF assms Inr, of "[]"] show ?thesis by (simp add: send_resp_def)
qed

lemma error_reply_noticed:
  assumes "say e \<noteq> []"
  shows "case readFrame dec_resp (send_resp (err_resp (say e))) of (Inl _, _) \<Rightarrow> True | (Inr r, _) \<Rightarrow> rs_Err r \<noteq> []"
  using read_send_resp [of "err_resp (say e)"] assms by (auto simp: err_resp_def to_utf8_Nil_iff)

lemma client_PutFile_handler:
  assumes "utf8 path" "int64 mode" "int64 sz" "\<forall>e. say e \<noteq> []"
    and "client_PutFile os say None path mode sz src (g, w) = (None, g', w')"
  shows "g' = g \<and> has_prefix path ''/'' \<and> 0 \<le> sz \<and> sz \<le> int (length src) \<and>
    writePutFile os g (take (nat sz) src) (put_req path mode sz) w = (None, w')"
proof -
  let ?data = "Some (enc_put_file_req (put_req path mode sz))"
  let ?r = "\<lparr>rq_Verb = verbPutFile, rq_Data = ?data\<rparr>"
  obtain b where b: "writeFrame (enc_req ?r) = Inr b"
    using assms(5) by (auto simp: client_PutFile_def put_req_def split: sum.splits)
  obtain out fin g1 w1 where h: "handlePutFile os say ?data (take (nat sz) src) (g, w) = (out, fin, g1, w1)" by (rule prod_cases4)
  have d: "decodePayload dec_put_file_req ?data = Some (put_req path mode sz)"
    using put_file_req.roundtrip [of "put_req path mode sz"] assms(1-3) by (simp add: decodePayload_def put_req_def)
  have "readFrame dec_req (b @ take (nat sz) src) = (Inr ?r, take (nat sz) src)"
    by (rule readFrame_req [OF _ _ b]) (simp_all add: verb_texts put_file_req.texts)
  with h have "handleConn os say (b @ take (nat sz) src) (g, w) = (out, fin, g1, w1)"
    by (simp add: handleConn.simps [of os say "b @ take (nat sz) src"]) (simp add: verb_defs)
  with assms(5) b have r: "case readFrame dec_resp out of (Inl _, _) \<Rightarrow> False | (Inr r, _) \<Rightarrow> rs_Err r = []"
    and g: "g1 = g'" "w1 = w'" and sz: "sz \<le> int (length src)"
    by (auto simp: client_PutFile_def put_req_def split: if_splits sum.splits prod.splits)
  have e: "out \<noteq> send_resp (err_resp (say e))" for e
    using r error_reply_noticed [of say e] assms(4) by (auto split: prod.splits sum.splits)
  show ?thesis using h g sz e d by (auto simp: handlePutFile_def put_req_def split: if_splits prod.splits option.splits)
qed

lemma ok_resp_sent: "readFrame dec_resp (send_resp ok_resp) = (Inr ok_resp, [])"
proof -
  have "writeFrame (enc_resp ok_resp) = Inr (send_resp ok_resp)"
    by (simp add: send_resp_def writeFrame_def Let_def enc_resp_def ok_resp_def omitempty_def raw_data_def maxFrame_def)
  from readFrame_resp [OF _ this, of "[]"] show ?thesis by (simp add: ok_resp_def)
qed

lemma client_PutFile_succeeds:
  assumes "utf8 path" "int64 mode" "int64 sz" "has_prefix path ''/''" "0 \<le> sz" "sz \<le> int (length src)"
    and "fits (enc_req \<lparr>rq_Verb = verbPutFile, rq_Data = Some (enc_put_file_req (put_req path mode sz))\<rparr>)"
    and "writePutFile os g (take (nat sz) src) (put_req path mode sz) w = (None, w')"
  shows "client_PutFile os say None path mode sz src (g, w) = (None, g, w')"
proof -
  let ?data = "Some (enc_put_file_req (put_req path mode sz))"
  let ?r = "\<lparr>rq_Verb = verbPutFile, rq_Data = ?data\<rparr>"
  obtain b where b: "writeFrame (enc_req ?r) = Inr b" using fits_frame [OF assms(7)] by blast
  have d: "decodePayload dec_put_file_req ?data = Some (put_req path mode sz)"
    using put_file_req.roundtrip [of "put_req path mode sz"] assms(1-3) by (simp add: decodePayload_def put_req_def)
  have "readFrame dec_req (b @ take (nat sz) src) = (Inr ?r, take (nat sz) src)"
    by (rule readFrame_req [OF _ _ b]) (simp_all add: verb_texts put_file_req.texts)
  moreover have "handlePutFile os say ?data (take (nat sz) src) (g, w) = (send_resp ok_resp, ConnClosed, g, w')"
    using d assms(4-6,8) by (simp add: handlePutFile_def) (simp add: put_req_def)
  ultimately have "handleConn os say (b @ take (nat sz) src) (g, w) = (send_resp ok_resp, ConnClosed, g, w')"
    by (simp add: handleConn.simps [of os say "b @ take (nat sz) src"]) (simp add: verb_defs)
  with b assms(6) show ?thesis by (simp add: client_PutFile_def put_req_def ok_resp_sent) (simp add: ok_resp_def)
qed

text \<open>
  C19 (putfile_exact). When copying a file into a box reports success, the file at that path holds
  exactly the announced number of bytes of the source, has the announced permissions (0644 when none
  are given) and belongs to the box user; the path was absolute and the source long enough. Every
  failure, on either side and at any point of the stream, is reported.
\<close>

theorem putfile_exact:
  assumes "file_laws at os" and "\<forall>e. say e \<noteq> []" and "utf8 path" and "int64 mode" and "int64 sz"
    and "client_PutFile os say None path mode sz src (g, w) = (None, g', w')"
  shows "g' = g \<and> has_prefix path ''/'' \<and> 0 \<le> sz \<and> sz \<le> int (length src) \<and>
    (\<exists>f. at w' path = Some f \<and> fi_Content f = take (nat sz) src \<and> perm (fi_Mode f) = perm (fileMode mode) \<and>
       (\<forall>c. g_cred g = Some c \<longrightarrow> fi_Owner f = c))"
  using client_PutFile_handler [OF assms(3-5,2,6)] writePutFile_exact [OF assms(1), of g "take (nat sz) src" "put_req path mode sz" w w']
  by (auto simp: put_req_def)

subsection \<open>Typing into a terminal\<close>

datatype pty_msg = PtyInput string | PtyResize nat nat

fun pty_bytes :: "pty_msg \<Rightarrow> string" where
  "pty_bytes (PtyInput b) = EncodePTYInput b"
| "pty_bytes (PtyResize c r) = EncodePTYResize c r"

fun pty_apply :: "'p pty_ops \<Rightarrow> pty_msg \<Rightarrow> 'p \<Rightarrow> 'p" where
  "pty_apply t (PtyInput b) p = snd (pt_Write t b p)"
| "pty_apply t (PtyResize c r) p = pt_Setsize t c r p"

fun pty_msg_ok :: "pty_msg \<Rightarrow> bool" where
  "pty_msg_ok (PtyInput b) \<longleftrightarrow> length b \<le> maxPTYControlPayload"
| "pty_msg_ok (PtyResize c r) \<longleftrightarrow> c < 65536 \<and> r < 65536"

lemma Uint16_Put: "n < 65536 \<Longrightarrow> Uint16 (PutUint16 n) = n"
  by (simp add: Uint16_def PutUint16_def)

lemma length_PutUint16 [simp]: "length (PutUint16 n) = 2"
  by (simp add: PutUint16_def)

lemma pump_header:
  "ReadFull 5 (encodePTYControl k payload @ rest) = (Inr (char_of k # PutUint32 (length payload)), payload @ rest)"
proof -
  have "encodePTYControl k payload @ rest = (char_of k # PutUint32 (length payload)) @ (payload @ rest)"
    by (simp add: encodePTYControl_def)
  then show ?thesis using ReadFull_append [of "char_of k # PutUint32 (length payload)" 5 "payload @ rest"] by simp
qed

lemma pump_length: "length payload \<le> maxPTYControlPayload \<Longrightarrow> Uint32 (PutUint32 (length payload)) = length payload"
  by (intro Uint32_Put) (simp add: maxPTYControlPayload_def)

lemma pump_step:
  assumes "pty_msg_ok m" and w: "\<forall>b q. fst (pt_Write t b q)"
  shows "pumpPTYInput t (pty_bytes m @ rest) p = pumpPTYInput t rest (pty_apply t m p)"
proof (cases m)
  case (PtyInput b)
  obtain q where q: "pt_Write t b p = (True, q)" using w by (cases "pt_Write t b p") (metis fst_conv)
  have l: "length b \<le> maxPTYControlPayload" using assms(1) PtyInput by simp
  show ?thesis
    using pump_length [OF l] PtyInput q l
    by (simp add: pumpPTYInput.simps [of t "encodePTYControl 0 b @ rest"] EncodePTYInput_def ptyMsgData_def Let_def
        ReadFull_append pump_header)
next
  case (PtyResize c r)
  let ?b = "PutUint16 c @ PutUint16 r"
  have l: "length ?b = 4" by simp
  then have l': "length ?b \<le> maxPTYControlPayload" by (simp add: maxPTYControlPayload_def)
  have t: "take 2 ?b = PutUint16 c" "drop 2 ?b = PutUint16 r" by simp_all
  show ?thesis
    using pump_length [OF l'] PtyResize l l' t assms(1) ReadFull_append [of ?b 4 rest]
    by (simp add: pumpPTYInput.simps [of t "encodePTYControl (Suc 0) ?b @ rest"] EncodePTYResize_def encodePTYResize_def
        ptyMsgData_def ptyMsgResize_def Let_def Uint16_Put pump_header)
qed

text \<open>
  C38 (terminal_input_in_order). Keystrokes and window sizes framed by the client reach the terminal
  complete and in order, as long as the terminal takes them; a message that announces more than
  1 MiB ends the session before any of it is applied.
\<close>

theorem terminal_input_in_order:
  assumes "\<forall>b q. fst (pt_Write t b q)"
  shows "(list_all pty_msg_ok ms \<longrightarrow>
      pumpPTYInput t (concat (map pty_bytes ms)) p = fold (pty_apply t) ms p) \<and>
    (list_all pty_msg_ok ms \<and> maxPTYControlPayload < length b \<and> length b < 4294967296 \<longrightarrow>
      pumpPTYInput t (concat (map pty_bytes ms) @ EncodePTYInput b @ rest) p = fold (pty_apply t) ms p)"
proof -
  have *: "list_all pty_msg_ok ms \<Longrightarrow> pumpPTYInput t (concat (map pty_bytes ms) @ s) p = pumpPTYInput t s (fold (pty_apply t) ms p)" for s
    by (induction ms arbitrary: p) (simp_all add: pump_step [OF _ assms])
  have e: "pumpPTYInput t [] q = q" for q by (simp add: pumpPTYInput.simps ReadFull_def)
  have o: "pumpPTYInput t (EncodePTYInput b @ rest) q = q" if "maxPTYControlPayload < length b" "length b < 4294967296" for q
  proof -
    show ?thesis using that Uint32_Put [OF that(2)]
      by (simp add: pumpPTYInput.simps [of t "encodePTYControl ptyMsgData b @ rest"] EncodePTYInput_def Let_def pump_header)
  qed
  show ?thesis using * [of "[]"] * [of "EncodePTYInput b @ rest"] e o by simp
qed

subsection \<open>Witnesses\<close>

text \<open>A box in memory: its files, and the credentials its processes ran under.\<close>

type_synonym sim_box = "(string \<times> file_info) list \<times> (int \<times> int) option list"

definition on_file :: "string \<Rightarrow> (file_info \<Rightarrow> file_info) \<Rightarrow> sim_box \<Rightarrow> string option \<times> sim_box" where
  "on_file p h b = (case tget (fst b) p of
     None \<Rightarrow> (Some ''no such file'', b)
   | Some f \<Rightarrow> (None, (tput p (h f) (fst b), snd b)))"

definition sim_os :: "sim_box os" where
  "sim_os =
     \<lparr>os_MkdirAll = (\<lambda>p b. (None, b)),
      os_WriteFile = (\<lambda>p c m b. (None, (tput p \<lparr>fi_Content = c, fi_Mode = m, fi_Owner = (0, 0)\<rparr> (fst b), snd b))),
      os_Create = (\<lambda>p m b. (None, (tput p \<lparr>fi_Content = [], fi_Mode = m, fi_Owner = (0, 0)\<rparr> (fst b), snd b))),
      os_Write = (\<lambda>p c. on_file p (\<lambda>f. f\<lparr>fi_Content := fi_Content f @ c\<rparr>)),
      os_Close = (\<lambda>p b. (None, b)),
      os_Chmod = (\<lambda>p m. on_file p (\<lambda>f. f\<lparr>fi_Mode := m\<rparr>)),
      os_Chown = (\<lambda>p u g. on_file p (\<lambda>f. f\<lparr>fi_Owner := (u, g)\<rparr>)),
      os_Getenv = (\<lambda>k. if k = ''PATH'' then ''/bin'' else []),
      os_LookPath = (\<lambda>_. None),
      os_Run = (\<lambda>sp b. (\<lparr>ro_Err = None, ro_ExitCode = 0, ro_Stdout = concat (ps_Argv sp), ro_Stderr = [], ro_CtxDone = False\<rparr>,
                        (fst b, snd b @ [ps_Cred sp]))),
      os_DialTCP = (\<lambda>_ b. (None, b)),
      os_StartPTY = (\<lambda>sp _ _ b. (None, (fst b, snd b @ [ps_Cred sp])))\<rparr>"

definition sim_guest :: guest where
  "sim_guest = New \<lparr>op_Home = ''/home/box'', op_InitScriptPath = [], op_Credential = Some (1000, 1000)\<rparr>"

lemma sim_laws: "file_laws (\<lambda>b. tget (fst b)) sim_os"
  unfolding file_laws_def
  by (intro conjI allI impI) (auto simp: sim_os_def on_file_def split: option.splits)

lemma sim_keeps: "keeps_under c (\<lambda>b. list_all (\<lambda>d. d = c) (snd b)) sim_os"
  unfolding keeps_under_def
  by (intro conjI allI impI) (auto simp: sim_os_def on_file_def split: option.splits)

lemma sim_code: "int64 (ro_ExitCode (fst (os_Run sim_os sp w)))"
  by (simp add: sim_os_def int64_def)

lemma sim_exec: "handleExec sim_os [''ls''] (sim_guest, [], []) =
  (Inr \<lparr>er_Stdout = ''ls'', er_Stderr = [], er_ExitCode = 0\<rparr>, sim_guest, [], [Some (1000, 1000)])"
  by (simp add: handleExec_def sim_os_def capOutput_def maxExecOutput_def sim_guest_def New_def)

lemma fits_short: "json_text j = s \<Longrightarrow> length s \<le> 1000 \<Longrightarrow> fits j"
  by (simp add: fits_def maxFrame_def)

lemma sim_fits: "fits (enc_req (exec_req [''ls'']))"
  "fits (enc_resp \<lparr>rs_Err = [], rs_Data = Some (enc_exec_result \<lparr>er_Stdout = ''ls'', er_Stderr = [], er_ExitCode = 0\<rparr>)\<rparr>)"
  "fits (enc_resp (err_resp ''no''))" "fits (enc_req \<lparr>rq_Verb = ''bogus'', rq_Data = None\<rparr>)"
  by (rule fits_short, code_simp, simp)+

lemma sim_texts: "list_all utf8 [''ls'']" "utf8 ''bogus''" "to_utf8 ''ls'' = ''ls''" "to_utf8 ''no'' = ''no''"
  by code_simp+

theorem exec_reply_fits_witness:
  "length (json_text (enc_resp \<lparr>rs_Err = [], rs_Data = Some (enc_exec_result
     \<lparr>er_Stdout = ''ls'', er_Stderr = [], er_ExitCode = 0\<rparr>)\<rparr>)) \<le> maxFrame"
  using exec_reply_fits [OF _ sim_exec] sim_code by blast


lemma bogus_ok: "req_ok \<lparr>rq_Verb = ''bogus'', rq_Data = None\<rparr>" "req_ok (exec_req [''ls''])"
  using sim_fits sim_texts by (simp_all add: req_ok_def framed_def verb_defs exec_req_def exec_cmd.texts)
    (simp add: verb_texts(2) [unfolded verb_defs])

lemma sim_respond: "respond_all sim_os (\<lambda>_. ''no'') [\<lparr>rq_Verb = ''bogus'', rq_Data = None\<rparr>, exec_req [''ls'']] (sim_guest, [], []) =
   ([err_resp ''no'', \<lparr>rs_Err = [], rs_Data = Some (enc_exec_result \<lparr>er_Stdout = ''ls'', er_Stderr = [], er_ExitCode = 0\<rparr>)\<rparr>],
    sim_guest, [], [Some (1000, 1000)])"
proof -
  have "respond sim_os (\<lambda>_. ''no'') \<lparr>rq_Verb = ''bogus'', rq_Data = None\<rparr> (sim_guest, [], []) = (err_resp ''no'', sim_guest, [], [])"
    by (simp add: respond_def guest_dispatch_def verb_defs)
  then show ?thesis using respond_exec [OF sim_texts(1), of sim_os "\<lambda>_. ''no''" "(sim_guest, [], [])"] sim_exec by simp
qed


theorem guest_confines_witness:
  "list_all (\<lambda>d. d = Some (1000, 1000)) (snd (snd (snd (snd (handleConn sim_os (\<lambda>_. ''no'')
     (frame_bytes (enc_req (exec_req [''ls''])) @ ''junk'') (sim_guest, [], []))))))"
proof -
  obtain out fin g' w' where h: "handleConn sim_os (\<lambda>_. ''no'') (frame_bytes (enc_req (exec_req [''ls''])) @ ''junk'')
     (sim_guest, [], []) = (out, fin, g', w')" by (rule prod_cases4)
  have c: "g_cred sim_guest = Some (1000, 1000)" by (simp add: sim_guest_def New_def)
  show ?thesis using guest_confines [OF _ _ h, of "\<lambda>b. list_all (\<lambda>d. d = Some (1000, 1000)) (snd b)"] sim_keeps c h by simp
qed

lemma sim_put: "writePutFile sim_os sim_guest ''xy'' (put_req ''/a/b'' 0 2) ([], []) =
  (None, [(''/a/b'', \<lparr>fi_Content = ''xy'', fi_Mode = 420, fi_Owner = (1000, 1000)\<rparr>)], [])"
  by (simp add: writePutFile_def put_req_def sim_os_def on_file_def tput_def sim_guest_def New_def fileMode_def numeral_2_eq_2)

lemma sim_put_ok: "client_PutFile sim_os (\<lambda>_. ''no'') None ''/a/b'' 0 2 ''xyz'' (sim_guest, [], []) =
  (None, sim_guest, [(''/a/b'', \<lparr>fi_Content = ''xy'', fi_Mode = 420, fi_Owner = (1000, 1000)\<rparr>)], [])"
proof (rule client_PutFile_succeeds)
  show "utf8 ''/a/b''" by code_simp
  show "fits (enc_req \<lparr>rq_Verb = verbPutFile, rq_Data = Some (enc_put_file_req (put_req ''/a/b'' 0 2))\<rparr>)"
    by (rule fits_short, code_simp, simp)
  show "writePutFile sim_os sim_guest (take (nat 2) ''xyz'') (put_req ''/a/b'' 0 2) ([], []) =
    (None, [(''/a/b'', \<lparr>fi_Content = ''xy'', fi_Mode = 420, fi_Owner = (1000, 1000)\<rparr>)], [])"
    using sim_put by (simp add: numeral_2_eq_2)
qed (simp_all add: int64_def)

theorem putfile_exact_witness:
  "\<exists>f. tget [(''/a/b'', \<lparr>fi_Content = ''xy'', fi_Mode = 420, fi_Owner = (1000, 1000)\<rparr>)] ''/a/b'' = Some f \<and>
     fi_Content f = take (nat 2) ''xyz'' \<and> g_cred sim_guest = Some (1000, 1000) \<and> fi_Owner f = (1000, 1000)"
proof -
  have c: "g_cred sim_guest = Some (1000, 1000)" by (simp add: sim_guest_def New_def)
  have "utf8 ''/a/b''" by code_simp
  from putfile_exact [OF sim_laws _ this _ _ sim_put_ok] c show ?thesis by (auto simp: int64_def)
qed

theorem terminal_input_in_order_witness:
  "pumpPTYInput \<lparr>pt_Write = \<lambda>b p. (True, p @ [PtyInput b]), pt_Setsize = \<lambda>c r p. p @ [PtyResize c r]\<rparr>
     (concat (map pty_bytes [PtyInput ''ls'', PtyResize 80 24])) [] = [PtyInput ''ls'', PtyResize 80 24]"
  using terminal_input_in_order [of "\<lparr>pt_Write = \<lambda>b p. (True, p @ [PtyInput b]), pt_Setsize = \<lambda>c r p. p @ [PtyResize c r]\<rparr>"
      "[PtyInput ''ls'', PtyResize 80 24]" "[]"]
  by (simp add: maxPTYControlPayload_def)

end
