(* ===== verification/CloudHv.thy ===== *)
theory CloudHv
  imports BoxManager Regex
begin

text \<open>
  The Cloud Hypervisor backend, \<^verbatim>\<open>internal/spoke/cloudhypervisor\<close>: per-box metadata (\<^verbatim>\<open>state.go\<close>), the VM
  configuration (\<^verbatim>\<open>vmconfig.go\<close>), the checks of the host (\<^verbatim>\<open>preflight.go\<close>), the wiring of options
  (\<^verbatim>\<open>register.go\<close>) and the provisioner (\<^verbatim>\<open>provisioner.go\<close>). It is the second backend the box manager's
  locale \<open>provisioner\<close> is interpreted on.

  As in the Firecracker model, instances are shared by pointer: \<open>cp_heap\<close> is the store of them and a
  handle is an index into it. The launcher (\<^verbatim>\<open>chlauncher.go\<close> and the VMM behind it) is outside: whether
  a launch fails, whether an orphan answers and whether it can be halted are arguments; the machines
  that run are \<open>cp_vms\<close>. Operations are whole; how the pieces of concurrent creates interleave is
  the subject of the Firecracker theories.
\<close>

subsection \<open>VM configuration\<close>

record vm_config_params =
  vp_Kernel :: string
  vp_Cmdline :: string
  vp_Rootfs :: string
  vp_VsockUDS :: string
  vp_VCPUs :: int
  vp_MemoryBytes :: int
  vp_GPUs :: "string list"
  vp_MDEVs :: "string list"
  vp_TapName :: string
  vp_MAC :: string
  vp_IPArg :: string

record vm_config =
  vc_BootVCPUs :: int
  vc_MaxVCPUs :: int
  vc_Memory :: int
  vc_Kernel :: string
  vc_Cmdline :: string
  vc_Disks :: "(string \<times> bool) list"
  vc_Vsock :: "int \<times> string"
  vc_Serial :: string
  vc_Console :: string
  vc_Net :: "(string \<times> string) list"
  vc_Devices :: "string list"

definition defaultKernelCmdline :: string where
  "defaultKernelCmdline = ''console=ttyS0 reboot=k panic=1 net.ifnames=0 root=/dev/vda rw init=/init''"

definition is_hex :: "char \<Rightarrow> bool" where
  "is_hex c \<longleftrightarrow> is_digit c \<or> (97 \<le> (of_char c :: nat) \<and> (of_char c :: nat) \<le> 102) \<or>
     (65 \<le> (of_char c :: nat) \<and> (of_char c :: nat) \<le> 70)"

fun Times :: "nat \<Rightarrow> rx \<Rightarrow> rx" where
  "Times 0 r = Empty"
| "Times (Suc n) r = Then r (Times n r)"

definition pciAddressRE :: rx where
  "pciAddressRE =
     Then (Times 4 (Class is_hex)) (Then (Lit (CHR '':'')) (Then (Times 2 (Class is_hex)) (Then (Lit (CHR '':''))
       (Then (Times 2 (Class is_hex)) (Then (Lit (CHR ''.''))
         (Class (\<lambda>c. 48 \<le> (of_char c :: nat) \<and> (of_char c :: nat) \<le> 55)))))))"

definition validatePCIAddress :: "string \<Rightarrow> bool" where
  "validatePCIAddress addr = accepts pciAddressRE addr"

definition pciDeviceSysfsPath :: "string \<Rightarrow> string" where
  "pciDeviceSysfsPath addr = ''/sys/bus/pci/devices/'' @ addr @ ''/''"

definition mdevUUIDRE :: rx where
  "mdevUUIDRE =
     Then (Times 8 (Class is_hex)) (Then (Lit (CHR ''-'')) (Then (Times 4 (Class is_hex)) (Then (Lit (CHR ''-''))
       (Then (Times 4 (Class is_hex)) (Then (Lit (CHR ''-'')) (Then (Times 4 (Class is_hex)) (Then (Lit (CHR ''-''))
         (Times 12 (Class is_hex)))))))))"

definition validateMediatedDevice :: "string \<Rightarrow> bool" where
  "validateMediatedDevice s \<longleftrightarrow> accepts mdevUUIDRE s \<or> has_prefix s ''/sys/''"

definition mdevSysfsPath :: "string \<Rightarrow> string" where
  "mdevSysfsPath s = (if has_prefix s ''/'' then s else ''/sys/bus/mdev/devices/'' @ s)"

definition buildVMConfig :: "vm_config_params \<Rightarrow> vm_config" where
  "buildVMConfig p =
     (let cmdline = (if vp_Cmdline p = [] then defaultKernelCmdline else vp_Cmdline p);
          cmdline1 = (if vp_TapName p \<noteq> [] \<and> vp_IPArg p \<noteq> [] then cmdline @ '' '' @ vp_IPArg p else cmdline)
      in \<lparr>vc_BootVCPUs = vp_VCPUs p, vc_MaxVCPUs = vp_VCPUs p, vc_Memory = vp_MemoryBytes p, vc_Kernel = vp_Kernel p,
          vc_Cmdline = cmdline1, vc_Disks = [(vp_Rootfs p, False)], vc_Vsock = (3, vp_VsockUDS p), vc_Serial = ''Tty'',
          vc_Console = ''Off'', vc_Net = (if vp_TapName p \<noteq> [] then [(vp_TapName p, vp_MAC p)] else []),
          vc_Devices = map pciDeviceSysfsPath (vp_GPUs p) @ map mdevSysfsPath (vp_MDEVs p)\<rparr>)"

subsection \<open>Box metadata\<close>

record ch_meta =
  cm_Token :: string
  cm_BoxID :: string
  cm_Description :: string
  cm_Image :: string
  cm_Phase :: string
  cm_Paused :: bool
  cm_Created :: int
  cm_DiskBytes :: int
  cm_GPUs :: "string list"
  cm_MDEVs :: "string list"
  cm_Egress :: bool
  cm_NetIndex :: int
  cm_Namespace :: string

text \<open>
  The state directory: box directories with what their \<^verbatim>\<open>meta.json\<close> parses to, if anything, and the
  box's root file system, a copy of an image at a size or the torso of a failed copy.
\<close>

datatype rootfs = Image string int | Partial

record ch_dir =
  cd_meta :: "ch_meta option"
  cd_rootfs :: "rootfs option"

type_synonym ch_disk = "(string, ch_dir) table"

definition ch_apiSockPath :: "ch_meta \<Rightarrow> string \<Rightarrow> string" where
  "ch_apiSockPath m stateDir = filepath_join [boxDir stateDir (cm_Token m), ''ch-api.sock'']"

definition ch_vsockUDSPath :: "ch_meta \<Rightarrow> string \<Rightarrow> string" where
  "ch_vsockUDSPath m stateDir = filepath_join [boxDir stateDir (cm_Token m), ''vsock.sock'']"

definition ch_dir_of :: "ch_disk \<Rightarrow> string \<Rightarrow> ch_dir" where
  "ch_dir_of d tok = (case tget d tok of None \<Rightarrow> \<lparr>cd_meta = None, cd_rootfs = None\<rparr> | Some e \<Rightarrow> e)"

definition ch_mkdir :: "string \<Rightarrow> ch_disk \<Rightarrow> ch_disk" where
  "ch_mkdir tok d = (if tget d tok = None then tput tok \<lparr>cd_meta = None, cd_rootfs = None\<rparr> d else d)"

definition ch_save :: "save_fault \<Rightarrow> ch_meta \<Rightarrow> ch_disk \<Rightarrow> save_fault option \<times> ch_disk" where
  "ch_save f m d =
     (case f of
        SaveMkdir \<Rightarrow> (Some SaveMkdir, d)
      | SaveWrite \<Rightarrow> (Some SaveWrite, ch_mkdir (cm_Token m) d)
      | SaveRename \<Rightarrow> (Some SaveRename, ch_mkdir (cm_Token m) d)
      | SaveOk \<Rightarrow> (None, tput (cm_Token m) ((ch_dir_of d (cm_Token m))\<lparr>cd_meta := Some m\<rparr>) (ch_mkdir (cm_Token m) d)))"

definition ch_loadMetas :: "dir_read \<Rightarrow> ch_disk \<Rightarrow> ch_meta list option" where
  "ch_loadMetas r d =
     (case r of
        DirMissing \<Rightarrow> Some []
      | DirUnreadable \<Rightarrow> None
      | DirRead \<Rightarrow>
          Some (List.map_filter (\<lambda>(name, e). case cd_meta e of None \<Rightarrow> None | Some m \<Rightarrow> if cm_Token m = [] then None else Some m)
                  (sort_key fst d)))"

definition ch_toBox :: "ch_meta \<Rightarrow> string \<Rightarrow> box" where
  "ch_toBox m state =
     \<lparr>box_InstanceID = cm_Token m, box_Name = namePrefix (cm_Phase m) @ cm_Token m, box_BoxID = cm_BoxID m,
      box_Description = cm_Description m, box_Spoke = [], box_Image = cm_Image m, box_State = state, box_Status = [],
      box_Phase = cm_Phase m, box_LastError = [], box_Created = cm_Created m, box_LastSeen = 0\<rparr>"

subsection \<open>The provisioner's state\<close>

definition chNet :: mvm_config where
  "chNet = \<lparr>cfg_TapPrefix = ''llmboxch'', cfg_SubnetBase = ''172.17'', cfg_TapGroup = 0, cfg_Uplink = []\<rparr>"

record vm_spec =
  vs_Token :: string
  vs_BoxDir :: string
  vs_Kernel :: string
  vs_RootfsSrc :: string
  vs_APISock :: string
  vs_VsockUDS :: string
  vs_DiskBytes :: int
  vs_VCPUs :: int
  vs_MemoryBytes :: int
  vs_GPUs :: "string list"
  vs_MDEVs :: "string list"
  vs_TapName :: string
  vs_MAC :: string
  vs_IPArg :: string

record ch_instance =
  ci_meta :: ch_meta
  ci_handle :: "nat option"
  ci_alive :: bool

record 'h ch_prov =
  cp_kernelImage :: string
  cp_defaultRootfs :: string
  cp_stateDir :: string
  cp_namespace :: string
  cp_limits :: limits
  cp_gpus :: "string list"
  cp_mdevs :: "string list"
  cp_egress :: mvm_config
  cp_egressMode :: egress_mode
  cp_poolSize :: int
  cp_tapGroup :: int
  cp_poolDone :: bool
  cp_poolErr :: "net_error option"
  cp_heap :: "ch_instance list"
  cp_boxes :: "(string, nat) table"
  cp_used :: "int set"
  cp_disk :: ch_disk
  cp_host :: 'h
  cp_vms :: "(nat \<times> vm_spec) list"
  cp_nextVM :: nat

datatype ch_error =
    ChInvalidBoxID string | ChMissingImages | ChToken | ChNetwork net_error | ChNoSlot int | ChLaunch string
  | ChSaveMeta save_fault | ChNotFound string | ChUnreadable | ChBadGPU string | ChBadMdev string | ChEgressFlags
  | ChEgressMode string

datatype copy_fault = CopyOk | CopyOpen | CopyCreate | CopyWrite

text \<open>What the host answers during a launch; \<open>le_size\<close> is the size of the image.\<close>

record launch_env =
  le_mkdir :: bool
  le_stat :: bool
  le_copy :: copy_fault
  le_size :: int
  le_statCopy :: bool
  le_truncate :: bool
  le_start :: bool
  le_socket :: bool
  le_create :: bool
  le_boot :: bool
  le_guest :: bool

record ch_env =
  ce_token :: "string option"
  ce_now :: int
  ce_launch :: launch_env
  ce_save :: save_fault
  ce_rm :: bool

definition ch_guestNetEnabled :: "'h ch_prov \<Rightarrow> bool" where
  "ch_guestNetEnabled p \<longleftrightarrow> cp_egressMode p \<noteq> EgressDisabled"

definition ch_EnsureNetwork :: "'h exec \<Rightarrow> 'h ch_prov \<Rightarrow> net_error option \<times> 'h ch_prov" where
  "ch_EnsureNetwork exec p =
     (case cp_egressMode p of
        EgressDisabled \<Rightarrow> (None, p)
      | EgressExternal \<Rightarrow>
          if cp_poolDone p then (cp_poolErr p, p)
          else (case ValidatePool exec (cp_egress p) (cp_poolSize p) (cp_host p) of
                  (e, h) \<Rightarrow> (e, p\<lparr>cp_poolDone := True, cp_poolErr := e, cp_host := h\<rparr>))
      | EgressManaged \<Rightarrow>
          if cp_poolDone p then (cp_poolErr p, p)
          else (let eg = (cp_egress p)\<lparr>cfg_TapGroup := cp_tapGroup p\<rparr> in
                case EnsurePool exec eg (cp_poolSize p) (cp_host p) of
                  (e, h) \<Rightarrow> (e, p\<lparr>cp_egress := eg, cp_poolDone := True, cp_poolErr := e, cp_host := h\<rparr>)))"

definition ch_allocIndexLocked :: "'h ch_prov \<Rightarrow> int option \<times> 'h ch_prov" where
  "ch_allocIndexLocked p =
     (case alloc_loop 0 (cp_poolSize p) (cp_used p) of
        Some i \<Rightarrow> (Some i, p\<lparr>cp_used := insert i (cp_used p)\<rparr>)
      | None \<Rightarrow> (None, p))"

definition ch_diskBytesFor :: "limits \<Rightarrow> int \<Rightarrow> int" where
  "ch_diskBytesFor l requested =
     (let want = (if requested \<le> 0 then lim_DiskBytes l else requested)
      in if lim_MaxDiskBytes l > 0 \<and> want > lim_MaxDiskBytes l then lim_MaxDiskBytes l else want)"

text \<open>As for Firecracker, the ceiling of the quotient by a billion is the integer one.\<close>

definition ch_vcpuCount :: "limits \<Rightarrow> int" where
  "ch_vcpuCount l =
     (if lim_NanoCPUs l \<le> 0 then 1
      else let n = (lim_NanoCPUs l + 999999999) div 1000000000 in if n < 1 then 1 else n)"

definition ch_memSizeMib :: "limits \<Rightarrow> int" where
  "ch_memSizeMib l =
     (if lim_MemoryBytes l \<le> 0 then 512
      else let mib = lim_MemoryBytes l div 1048576 in if mib < 128 then 128 else mib)"

definition specFor :: "'h ch_prov \<Rightarrow> ch_meta \<Rightarrow> vm_spec" where
  "specFor p m =
     (let n = NetFor chNet (cm_NetIndex m) in
      \<lparr>vs_Token = cm_Token m, vs_BoxDir = boxDir (cp_stateDir p) (cm_Token m), vs_Kernel = cp_kernelImage p,
       vs_RootfsSrc = cp_defaultRootfs p, vs_APISock = ch_apiSockPath m (cp_stateDir p),
       vs_VsockUDS = ch_vsockUDSPath m (cp_stateDir p), vs_DiskBytes = cm_DiskBytes m,
       vs_VCPUs = ch_vcpuCount (cp_limits p), vs_MemoryBytes = ch_memSizeMib (cp_limits p) * 1048576,
       vs_GPUs = cm_GPUs m, vs_MDEVs = cm_MDEVs m,
       vs_TapName = (if cm_Egress m then bn_TapName n else []),
       vs_MAC = (if cm_Egress m then MACForIndex (cm_NetIndex m) else []),
       vs_IPArg = (if cm_Egress m then KernelIPArg n else [])\<rparr>)"

subsection \<open>The launcher\<close>

text \<open>
  A launch copies the image unless the box has a root file system already, starts the VMM, creates
  and boots a machine with \<open>buildVMConfig\<close> of the specification, and waits for the guest; what fails
  after the VMM was started stops it.
\<close>

definition launch_params :: "vm_spec \<Rightarrow> vm_config_params" where
  "launch_params s =
     \<lparr>vp_Kernel = vs_Kernel s, vp_Cmdline = [], vp_Rootfs = filepath_join [vs_BoxDir s, ''rootfs.ext4''],
      vp_VsockUDS = vs_VsockUDS s, vp_VCPUs = vs_VCPUs s, vp_MemoryBytes = vs_MemoryBytes s, vp_GPUs = vs_GPUs s,
      vp_MDEVs = vs_MDEVs s, vp_TapName = vs_TapName s, vp_MAC = vs_MAC s, vp_IPArg = vs_IPArg s\<rparr>"

definition ch_copyFile :: "copy_fault \<Rightarrow> string \<Rightarrow> int \<Rightarrow> rootfs option \<Rightarrow> bool \<times> rootfs option" where
  "ch_copyFile f src sz old =
     (case f of
        CopyOpen \<Rightarrow> (False, old)
      | CopyCreate \<Rightarrow> (False, old)
      | CopyWrite \<Rightarrow> (False, Some Partial)
      | CopyOk \<Rightarrow> (True, Some (Image src sz)))"

definition prepareRootfs :: "launch_env \<Rightarrow> string \<Rightarrow> int \<Rightarrow> rootfs option \<Rightarrow> string option \<times> rootfs option" where
  "prepareRootfs le src diskBytes old =
     (case ch_copyFile (le_copy le) src (le_size le) old of
        (False, f) \<Rightarrow> (Some ''copying rootfs'', f)
      | (True, f) \<Rightarrow>
          if diskBytes > 0 then
            if \<not> le_statCopy le then (Some ''stat rootfs copy'', f)
            else if diskBytes > le_size le then
              if le_truncate le then (None, Some (Image src diskBytes)) else (Some ''resizing rootfs'', f)
            else (None, f)
          else (None, f))"

definition stage_root :: "launch_env \<Rightarrow> vm_spec \<Rightarrow> ch_disk \<Rightarrow> string option \<times> ch_disk" where
  "stage_root le s d =
     (let dir = ch_dir_of d (vs_Token s) in
      if \<not> le_stat le then (Some ''stat box rootfs'', d)
      else if cd_rootfs dir \<noteq> None then (None, d)
      else (case prepareRootfs le (vs_RootfsSrc s) (vs_DiskBytes s) None of
              (e, f) \<Rightarrow> (e, tput (vs_Token s) (dir\<lparr>cd_rootfs := f\<rparr>) d)))"

definition boot_fault :: "launch_env \<Rightarrow> string option" where
  "boot_fault le =
     (if \<not> le_socket le then Some ''cloud-hypervisor API socket never appeared''
      else if \<not> le_create le then Some ''creating the VM''
      else if \<not> le_boot le then Some ''booting the VM''
      else if \<not> le_guest le then Some ''guest never answered''
      else None)"

text \<open>\<^verbatim>\<open>Stop\<close> waits for the process to exit; \<^verbatim>\<open>Halt\<close> reaches the machine that was started last on a socket path.\<close>

definition Stop :: "nat \<Rightarrow> 'h ch_prov \<Rightarrow> 'h ch_prov" where
  "Stop vm p = p\<lparr>cp_vms := filter (\<lambda>(i, _). i \<noteq> vm) (cp_vms p)\<rparr>"

definition Launch :: "launch_env \<Rightarrow> vm_spec \<Rightarrow> 'h ch_prov \<Rightarrow> (string + nat) \<times> 'h ch_prov" where
  "Launch le s p =
     (if \<not> le_mkdir le then (Inl ''creating box dir'', p)
      else (case stage_root le s (ch_mkdir (vs_Token s) (cp_disk p)) of
              (Some e, d) \<Rightarrow> (Inl e, p\<lparr>cp_disk := d\<rparr>)
            | (None, d) \<Rightarrow>
                if \<not> le_start le then (Inl ''starting cloud-hypervisor'', p\<lparr>cp_disk := d\<rparr>)
                else let vm = cp_nextVM p;
                         p1 = p\<lparr>cp_disk := d, cp_vms := (vm, s) # cp_vms p, cp_nextVM := Suc vm\<rparr>
                     in case boot_fault le of
                          Some e \<Rightarrow> (Inl e, Stop vm p1)
                        | None \<Rightarrow> (Inr vm, p1)))"

definition Halt :: "bool \<Rightarrow> string \<Rightarrow> 'h ch_prov \<Rightarrow> 'h ch_prov" where
  "Halt works sock p =
     (if works then (case find (\<lambda>(_, s). vs_APISock s = sock) (cp_vms p) of None \<Rightarrow> p | Some (i, _) \<Rightarrow> Stop i p) else p)"

definition ch_remove_dir :: "bool \<Rightarrow> string \<Rightarrow> 'h ch_prov \<Rightarrow> 'h ch_prov" where
  "ch_remove_dir works tok p = (if works then p\<lparr>cp_disk := tdel tok (cp_disk p)\<rparr> else p)"

subsection \<open>Operations\<close>

definition ch_freeSlot :: "ch_meta \<Rightarrow> 'h ch_prov \<Rightarrow> 'h ch_prov" where
  "ch_freeSlot m p = (if cm_Egress m then p\<lparr>cp_used := cp_used p - {cm_NetIndex m}\<rparr> else p)"

definition ch_new_meta :: "ch_env \<Rightarrow> create_options \<Rightarrow> string \<Rightarrow> 'h ch_prov \<Rightarrow> ch_meta" where
  "ch_new_meta env opts token p =
     \<lparr>cm_Token = token, cm_BoxID = co_BoxID opts, cm_Description = co_Description opts, cm_Image = cp_defaultRootfs p,
      cm_Phase = ''pending'', cm_Paused = False, cm_Created = ce_now env,
      cm_DiskBytes = ch_diskBytesFor (cp_limits p) (co_DiskBytes opts), cm_GPUs = cp_gpus p, cm_MDEVs = cp_mdevs p,
      cm_Egress = False, cm_NetIndex = 0, cm_Namespace = cp_namespace p\<rparr>"

text \<open>The slot of a box with an egress interface; a control-only box takes none.\<close>

definition ch_reserve :: "'h exec \<Rightarrow> ch_meta \<Rightarrow> 'h ch_prov \<Rightarrow> (ch_error + ch_meta) \<times> 'h ch_prov" where
  "ch_reserve exec m p =
     (if \<not> ch_guestNetEnabled p then (Inr m, p)
      else (case ch_EnsureNetwork exec p of
              (Some e, p1) \<Rightarrow> (Inl (ChNetwork e), p1)
            | (None, p1) \<Rightarrow>
                (case ch_allocIndexLocked p1 of
                   (None, p2) \<Rightarrow> (Inl (ChNoSlot (cp_poolSize p)), p2)
                 | (Some i, p2) \<Rightarrow> (Inr (m\<lparr>cm_Egress := True, cm_NetIndex := i\<rparr>), p2))))"

definition ch_build :: "ch_env \<Rightarrow> ch_meta \<Rightarrow> 'h ch_prov \<Rightarrow> (ch_error + nat) \<times> 'h ch_prov" where
  "ch_build env m p =
     (case Launch (ce_launch env) (specFor p m) p of
        (Inl e, p1) \<Rightarrow> (Inl (ChLaunch e), ch_remove_dir (ce_rm env) (cm_Token m) (ch_freeSlot m p1))
      | (Inr vm, p1) \<Rightarrow>
          (case ch_save (ce_save env) m (cp_disk p1) of
             (Some e, d) \<Rightarrow>
               (Inl (ChSaveMeta e),
                ch_remove_dir (ce_rm env) (cm_Token m) (ch_freeSlot m (Stop vm (p1\<lparr>cp_disk := d\<rparr>))))
           | (None, d) \<Rightarrow>
               (Inr (length (cp_heap p)),
                p1\<lparr>cp_disk := d, cp_heap := cp_heap p1 @ [\<lparr>ci_meta = m, ci_handle = Some vm, ci_alive = False\<rparr>],
                   cp_boxes := tput (cm_Token m) (length (cp_heap p1)) (cp_boxes p1)\<rparr>)))"

definition ch_Provision ::
  "'h exec \<Rightarrow> ch_env \<Rightarrow> create_options \<Rightarrow> 'h ch_prov \<Rightarrow> (ch_error + nat) \<times> 'h ch_prov"
where
  "ch_Provision exec env opts p =
     (if co_BoxID opts \<noteq> [] \<and> \<not> ValidBoxID (co_BoxID opts) then (Inl (ChInvalidBoxID (co_BoxID opts)), p)
      else if cp_kernelImage p = [] \<or> cp_defaultRootfs p = [] then (Inl ChMissingImages, p)
      else (case ce_token env of
              None \<Rightarrow> (Inl ChToken, p)
            | Some token \<Rightarrow>
                (case ch_reserve exec (ch_new_meta env opts token p) p of
                   (Inl e, p1) \<Rightarrow> (Inl e, p1)
                 | (Inr m, p1) \<Rightarrow> ch_build env m p1)))"

definition ch_List :: "'h ch_prov \<Rightarrow> nat list" where
  "ch_List p = map snd (cp_boxes p)"

definition ch_Meta :: "ch_instance \<Rightarrow> box" where
  "ch_Meta i =
     ch_toBox (ci_meta i)
       (if cm_Paused (ci_meta i) then StatePaused
        else if ci_handle i \<noteq> None \<or> ci_alive i then ''running'' else ''stopped'')"

definition ch_Find :: "string \<Rightarrow> 'h ch_prov \<Rightarrow> ch_error + nat" where
  "ch_Find idOrName p =
     (case tget (cp_boxes p) idOrName of
        Some r \<Rightarrow> Inr r
      | None \<Rightarrow>
          (case find (\<lambda>r. cm_BoxID (ci_meta (cp_heap p ! r)) \<noteq> [] \<and> cm_BoxID (ci_meta (cp_heap p ! r)) = idOrName)
                  (map snd (cp_boxes p)) of
             Some r \<Rightarrow> Inr r
           | None \<Rightarrow> Inl (ChNotFound idOrName)))"

definition ch_upd :: "nat \<Rightarrow> (ch_instance \<Rightarrow> ch_instance) \<Rightarrow> 'h ch_prov \<Rightarrow> 'h ch_prov" where
  "ch_upd r f p = p\<lparr>cp_heap := (cp_heap p)[r := f (cp_heap p ! r)]\<rparr>"

definition stopCompute :: "bool \<Rightarrow> nat \<Rightarrow> 'h ch_prov \<Rightarrow> 'h ch_prov" where
  "stopCompute halts r p =
     (let i = cp_heap p ! r in
      case ci_handle i of
        Some vm \<Rightarrow> Stop vm p
      | None \<Rightarrow> if ci_alive i then Halt halts (ch_apiSockPath (ci_meta i) (cp_stateDir p)) p else p)"

definition ch_persist :: "save_fault \<Rightarrow> nat \<Rightarrow> 'h ch_prov \<Rightarrow> ch_error option \<times> 'h ch_prov" where
  "ch_persist sf r p =
     (case ch_save sf (ci_meta (cp_heap p ! r)) (cp_disk p) of
        (Some e, d) \<Rightarrow> (Some (ChSaveMeta e), p\<lparr>cp_disk := d\<rparr>)
      | (None, d) \<Rightarrow> (None, p\<lparr>cp_disk := d\<rparr>))"

abbreviation ch_token :: "'h ch_prov \<Rightarrow> nat \<Rightarrow> string" where
  "ch_token p r \<equiv> cm_Token (ci_meta (cp_heap p ! r))"

definition ch_set_ready :: "ch_instance \<Rightarrow> ch_instance" where
  "ch_set_ready i = i\<lparr>ci_meta := (ci_meta i)\<lparr>cm_Phase := ''ready''\<rparr>\<rparr>"

definition ch_MarkReady :: "save_fault \<Rightarrow> nat \<Rightarrow> 'h ch_prov \<Rightarrow> ch_error option \<times> 'h ch_prov" where
  "ch_MarkReady sf r p =
     (let p1 = ch_upd r ch_set_ready p;
          p2 = (case tget (cp_boxes p1) (ch_token p r) of None \<Rightarrow> p1 | Some live \<Rightarrow> ch_upd live ch_set_ready p1)
      in ch_persist sf r p2)"

definition ch_Pause :: "bool \<Rightarrow> save_fault \<Rightarrow> nat \<Rightarrow> 'h ch_prov \<Rightarrow> ch_error option \<times> 'h ch_prov" where
  "ch_Pause halts sf r p =
     (if tget (cp_boxes p) (ch_token p r) = None then (Some (ChNotFound (ch_token p r)), p)
      else ch_persist sf r
             (ch_upd r (\<lambda>i. i\<lparr>ci_handle := None, ci_alive := False, ci_meta := (ci_meta i)\<lparr>cm_Paused := True\<rparr>\<rparr>)
                (stopCompute halts r p)))"

definition ch_Resume :: "launch_env \<Rightarrow> save_fault \<Rightarrow> nat \<Rightarrow> 'h ch_prov \<Rightarrow> ch_error option \<times> 'h ch_prov" where
  "ch_Resume le sf r p =
     (if tget (cp_boxes p) (ch_token p r) = None then (Some (ChNotFound (ch_token p r)), p)
      else (case Launch le (specFor p (ci_meta (cp_heap p ! r))) p of
              (Inl e, p1) \<Rightarrow> (Some (ChLaunch e), p1)
            | (Inr vm, p1) \<Rightarrow>
                ch_persist sf r
                  (ch_upd r (\<lambda>i. i\<lparr>ci_handle := Some vm, ci_alive := False, ci_meta := (ci_meta i)\<lparr>cm_Paused := False\<rparr>\<rparr>) p1)))"

definition ch_Destroy :: "bool \<Rightarrow> bool \<Rightarrow> nat \<Rightarrow> 'h ch_prov \<Rightarrow> ch_error option \<times> 'h ch_prov" where
  "ch_Destroy halts rm r p =
     (let tok = ch_token p r;
          m = ci_meta (cp_heap p ! r);
          present = (tget (cp_boxes p) tok \<noteq> None);
          p1 = ch_freeSlot m (p\<lparr>cp_boxes := tdel tok (cp_boxes p)\<rparr>);
          p2 = ch_remove_dir rm tok (stopCompute halts r p1)
      in (if present then None else Some (ChNotFound tok), p2))"

subsection \<open>Start-up\<close>

fun ch_rehydrate_metas :: "(string \<Rightarrow> bool) \<Rightarrow> ch_meta list \<Rightarrow> 'h ch_prov \<Rightarrow> 'h ch_prov" where
  "ch_rehydrate_metas alive [] p = p"
| "ch_rehydrate_metas alive (m # ms) p =
     (if cp_namespace p \<noteq> [] \<and> cm_Namespace m \<noteq> cp_namespace p then ch_rehydrate_metas alive ms p
      else
        ch_rehydrate_metas alive ms
          (p\<lparr>cp_heap := cp_heap p @ [\<lparr>ci_meta = m, ci_handle = None,
                 ci_alive = (\<not> cm_Paused m \<and> alive (ch_apiSockPath m (cp_stateDir p)))\<rparr>],
             cp_boxes := tput (cm_Token m) (length (cp_heap p)) (cp_boxes p),
             cp_used := (if cm_Egress m then insert (cm_NetIndex m) (cp_used p) else cp_used p)\<rparr>))"

definition ch_rehydrate :: "(string \<Rightarrow> bool) \<Rightarrow> dir_read \<Rightarrow> 'h ch_prov \<Rightarrow> ch_error option \<times> 'h ch_prov" where
  "ch_rehydrate alive r p =
     (case ch_loadMetas r (cp_disk p) of
        None \<Rightarrow> (Some ChUnreadable, p)
      | Some ms \<Rightarrow> (None, ch_rehydrate_metas alive ms p))"

text \<open>\<open>disk\<close>, \<open>host\<close> and \<open>vms\<close> are what the host holds when the spoke starts.\<close>

definition ch_blank :: "string \<Rightarrow> string \<Rightarrow> string \<Rightarrow> ch_disk \<Rightarrow> 'h \<Rightarrow> (nat \<times> vm_spec) list \<Rightarrow> nat \<Rightarrow> 'h ch_prov" where
  "ch_blank kernelImage defaultRootfs stateDir disk host vms next =
     \<lparr>cp_kernelImage = kernelImage, cp_defaultRootfs = defaultRootfs,
      cp_stateDir = (if stateDir = [] then ''/run/llmbox/cloud-hypervisor'' else stateDir), cp_namespace = [],
      cp_limits = \<lparr>lim_MemoryBytes = 0, lim_NanoCPUs = 0, lim_PidsLimit = 0, lim_MaxBoxes = 0,
                   lim_DiskBytes = 0, lim_MaxDiskBytes = 0\<rparr>,
      cp_gpus = [], cp_mdevs = [], cp_egress = chNet, cp_egressMode = EgressManaged, cp_poolSize = 16,
      cp_tapGroup = 100000, cp_poolDone = False, cp_poolErr = None, cp_heap = [], cp_boxes = [], cp_used = {},
      cp_disk = disk, cp_host = host, cp_vms = vms, cp_nextVM = next\<rparr>"

definition ch_NewProvisioner ::
  "(string \<Rightarrow> bool) \<Rightarrow> dir_read \<Rightarrow> string \<Rightarrow> string \<Rightarrow> string \<Rightarrow> ch_disk \<Rightarrow> 'h \<Rightarrow> (nat \<times> vm_spec) list \<Rightarrow> nat \<Rightarrow>
   ch_error + 'h ch_prov"
where
  "ch_NewProvisioner alive r kernelImage defaultRootfs stateDir disk host vms next =
     (case ch_rehydrate alive r (ch_blank kernelImage defaultRootfs stateDir disk host vms next) of
        (Some e, _) \<Rightarrow> Inl e
      | (None, p) \<Rightarrow> Inr p)"

record ch_options =
  bo_KernelImagePath :: string
  bo_RootfsImagePath :: string
  bo_StateDir :: string
  bo_Limits :: limits
  bo_Namespace :: string
  bo_GPUPassthrough :: "string list"
  bo_GPUMediatedDevices :: "string list"
  bo_EgressMode :: string
  bo_DisableEgress :: bool
  bo_PoolSize :: int
  bo_TapGroupGID :: int
  bo_CloudHypervisorBinary :: string

definition resolveEgressMode :: "ch_options \<Rightarrow> ch_error + egress_mode" where
  "resolveEgressMode o' =
     (if bo_EgressMode o' = [] then Inr (if bo_DisableEgress o' then EgressDisabled else EgressManaged)
      else (case ParseEgressMode (bo_EgressMode o') of
              Inl s \<Rightarrow> Inl (ChEgressMode s)
            | Inr mode \<Rightarrow> if bo_DisableEgress o' \<and> mode \<noteq> EgressDisabled then Inl ChEgressFlags else Inr mode))"

definition ch_configure :: "ch_options \<Rightarrow> egress_mode \<Rightarrow> 'h ch_prov \<Rightarrow> 'h ch_prov" where
  "ch_configure o' mode p =
     p\<lparr>cp_limits := bo_Limits o', cp_namespace := bo_Namespace o', cp_gpus := bo_GPUPassthrough o',
       cp_mdevs := bo_GPUMediatedDevices o', cp_egressMode := mode,
       cp_poolSize := (if bo_PoolSize o' > 0 then bo_PoolSize o' else cp_poolSize p),
       cp_tapGroup := (if bo_TapGroupGID o' > 0 then bo_TapGroupGID o' else cp_tapGroup p)\<rparr>"

definition buildProvisioner ::
  "(string \<Rightarrow> bool) \<Rightarrow> dir_read \<Rightarrow> ch_options \<Rightarrow> ch_disk \<Rightarrow> 'h \<Rightarrow> (nat \<times> vm_spec) list \<Rightarrow> nat \<Rightarrow> ch_error + 'h ch_prov"
where
  "buildProvisioner alive r o' disk host vms next =
     (case find (\<lambda>a. \<not> validatePCIAddress a) (bo_GPUPassthrough o') of
        Some a \<Rightarrow> Inl (ChBadGPU a)
      | None \<Rightarrow>
          (case find (\<lambda>m. \<not> validateMediatedDevice m) (bo_GPUMediatedDevices o') of
             Some m \<Rightarrow> Inl (ChBadMdev m)
           | None \<Rightarrow>
               (case resolveEgressMode o' of
                  Inl e \<Rightarrow> Inl e
                | Inr mode \<Rightarrow>
                    (case ch_NewProvisioner alive r (bo_KernelImagePath o') (bo_RootfsImagePath o') (bo_StateDir o') disk
                            host vms next of
                       Inl e \<Rightarrow> Inl e
                     | Inr p \<Rightarrow> Inr (ch_configure o' mode p)))))"

subsection \<open>Checks of the host\<close>

record preflight_config =
  pc_chBinary :: string
  pc_kernel :: string
  pc_rootfs :: string
  pc_egressMode :: egress_mode
  pc_gpuCount :: nat

record preflight_probes =
  pr_lookPath :: "string \<Rightarrow> bool"
  pr_readable :: "string \<Rightarrow> bool"
  pr_kvmReadWrite :: bool
  pr_cpuVirt :: "bool option"
  pr_iommuActive :: bool
  pr_euid :: int

datatype preflight_problem =
    NoBinary string | NoKVM | CPUUnknown | NoVirtualization | NoKernel | KernelUnreadable string | NoRootfs
  | RootfsUnreadable string | NotRoot | NoTool string | NoIOMMU

definition cpuHasVirtualization :: "string \<Rightarrow> bool" where
  "cpuHasVirtualization cpuinfo \<longleftrightarrow>
     list_ex (\<lambda>line. has_prefix (trim_space line) ''flags'' \<and> list_ex (\<lambda>f. f = ''vmx'' \<or> f = ''svm'') (Mvmnet.fields line))
       (split_char (char_of (10 :: nat)) cpuinfo)"

definition preflight :: "preflight_probes \<Rightarrow> preflight_config \<Rightarrow> preflight_problem list" where
  "preflight pr cfg =
     (let bin = (if pc_chBinary cfg = [] then ''cloud-hypervisor'' else pc_chBinary cfg) in
      (if pr_lookPath pr bin then [] else [NoBinary bin]) @
      (if pr_kvmReadWrite pr then [] else [NoKVM]) @
      (case pr_cpuVirt pr of None \<Rightarrow> [CPUUnknown] | Some True \<Rightarrow> [] | Some False \<Rightarrow> [NoVirtualization]) @
      (if pc_kernel cfg = [] then [NoKernel] else if pr_readable pr (pc_kernel cfg) then [] else [KernelUnreadable (pc_kernel cfg)]) @
      (if pc_rootfs cfg = [] then [NoRootfs] else if pr_readable pr (pc_rootfs cfg) then [] else [RootfsUnreadable (pc_rootfs cfg)]) @
      (case pc_egressMode cfg of
         EgressManaged \<Rightarrow>
           (if pr_euid pr = 0 then [] else [NotRoot]) @
           concat (map (\<lambda>t. if pr_lookPath pr t then [] else [NoTool t]) [''ip'', ''iptables''])
       | EgressExternal \<Rightarrow> if pr_lookPath pr ''ip'' then [] else [NoTool ''ip'']
       | EgressDisabled \<Rightarrow> []) @
      (if pc_gpuCount cfg > 0 \<and> \<not> pr_iommuActive pr then [NoIOMMU] else []))"

definition preflightConfigFrom :: "ch_options \<Rightarrow> egress_mode \<Rightarrow> preflight_config" where
  "preflightConfigFrom o' mode =
     \<lparr>pc_chBinary = bo_CloudHypervisorBinary o', pc_kernel = bo_KernelImagePath o', pc_rootfs = bo_RootfsImagePath o',
      pc_egressMode = mode, pc_gpuCount = length (bo_GPUPassthrough o') + length (bo_GPUMediatedDevices o')\<rparr>"

datatype ch_start_error = StartOptions ch_error | StartHost "preflight_problem list" | StartPool net_error

definition ch_newBackend ::
  "preflight_probes \<Rightarrow> 'h exec \<Rightarrow> (string \<Rightarrow> bool) \<Rightarrow> dir_read \<Rightarrow> ch_options \<Rightarrow> ch_disk \<Rightarrow> 'h \<Rightarrow> (nat \<times> vm_spec) list \<Rightarrow> nat \<Rightarrow>
   ch_start_error + 'h ch_prov"
where
  "ch_newBackend pr exec alive r o' disk host vms next =
     (case resolveEgressMode o' of
        Inl e \<Rightarrow> Inl (StartOptions e)
      | Inr mode \<Rightarrow>
          if preflight pr (preflightConfigFrom o' mode) \<noteq> [] then Inl (StartHost (preflight pr (preflightConfigFrom o' mode)))
          else (case buildProvisioner alive r o' disk host vms next of
                  Inl e \<Rightarrow> Inl (StartOptions e)
                | Inr p \<Rightarrow>
                    (case ch_EnsureNetwork exec p of
                       (Some e, p1) \<Rightarrow> Inl (StartPool e)
                     | (None, p1) \<Rightarrow> Inr p1)))"

subsection \<open>Invariant\<close>

text \<open>
  What identifies a box: everything of its metadata but the phase and the paused flag. \<open>ch_box\<close> is
  the running provisioner's view of the boxes, \<open>ch_stored\<close> that of the state directory.
\<close>

definition ch_id :: "ch_meta \<Rightarrow> ch_meta" where
  "ch_id m = m\<lparr>cm_Phase := [], cm_Paused := False\<rparr>"

definition ch_box :: "'h ch_prov \<Rightarrow> string \<Rightarrow> ch_meta option" where
  "ch_box p t = map_option (\<lambda>r. ch_id (ci_meta (cp_heap p ! r))) (tget (cp_boxes p) t)"

definition ch_stored :: "ch_disk \<Rightarrow> string \<Rightarrow> ch_meta option" where
  "ch_stored d t = map_option ch_id (cd_meta (ch_dir_of d t))"

definition ch_root :: "ch_disk \<Rightarrow> string \<Rightarrow> rootfs option" where
  "ch_root d t = cd_rootfs (ch_dir_of d t)"

definition ch_rooted :: "ch_disk \<Rightarrow> bool" where
  "ch_rooted d \<longleftrightarrow> (\<forall>t. ch_stored d t \<noteq> None \<longrightarrow> (\<exists>img sz. ch_root d t = Some (Image img sz)))"

definition ch_refs :: "'h ch_prov \<Rightarrow> bool" where
  "ch_refs p \<longleftrightarrow> keys_distinct (cp_boxes p) \<and>
     (\<forall>t r. tget (cp_boxes p) t = Some r \<longrightarrow> r < length (cp_heap p) \<and> ch_token p r = t \<and> t \<noteq> [])"

definition slots_of :: "(string \<Rightarrow> ch_meta option) \<Rightarrow> int set" where
  "slots_of B = {cm_NetIndex m |m. m \<in> ran B \<and> cm_Egress m}"

definition slots_apart :: "(string \<Rightarrow> ch_meta option) \<Rightarrow> bool" where
  "slots_apart B \<longleftrightarrow> (\<forall>t u m n. B t = Some m \<and> B u = Some n \<and> cm_Egress m \<and> cm_Egress n \<and> cm_NetIndex m = cm_NetIndex n \<longrightarrow> t = u)"

definition ch_inv :: "'h ch_prov \<Rightarrow> bool" where
  "ch_inv p \<longleftrightarrow> ch_refs p \<and> cp_used p = slots_of (ch_box p) \<and> slots_apart (ch_box p) \<and> keys_distinct (cp_disk p) \<and>
     ch_stored (cp_disk p) = ch_box p \<and> ch_rooted (cp_disk p) \<and> list_all (\<lambda>(i, _). i < cp_nextVM p) (cp_vms p)"

definition ch_fresh :: "string \<Rightarrow> 'h ch_prov \<Rightarrow> bool" where
  "ch_fresh t p \<longleftrightarrow> t \<noteq> [] \<and> tget (cp_boxes p) t = None \<and> tget (cp_disk p) t = None"

definition ch_live :: "nat \<Rightarrow> 'h ch_prov \<Rightarrow> bool" where
  "ch_live r p \<longleftrightarrow> tget (cp_boxes p) (ch_token p r) = Some r"

lemma ch_id_simps [simp]:
  "cm_Token (ch_id m) = cm_Token m" "cm_BoxID (ch_id m) = cm_BoxID m" "cm_Egress (ch_id m) = cm_Egress m"
  "cm_NetIndex (ch_id m) = cm_NetIndex m" "ch_id (m\<lparr>cm_Phase := ph\<rparr>) = ch_id m" "ch_id (m\<lparr>cm_Paused := b\<rparr>) = ch_id m"
  "ch_id (ch_id m) = ch_id m"
  by (simp_all add: ch_id_def)

lemma refsD:
  assumes "ch_refs p"
  shows "keys_distinct (cp_boxes p)"
    and "tget (cp_boxes p) t = Some r \<Longrightarrow> r < length (cp_heap p) \<and> ch_token p r = t \<and> t \<noteq> []"
  using assms unfolding ch_refs_def by blast+

lemma same_boxes:
  assumes "cp_heap q = cp_heap p" "cp_boxes q = cp_boxes p"
  shows "ch_refs q = ch_refs p" "ch_box q = ch_box p"
  using assms by (simp_all only: ch_refs_def ch_box_def fun_eq_iff simp_thms)

lemma ch_box_token:
  assumes "ch_refs p" "ch_box p t = Some m"
  shows "cm_Token m = t \<and> t \<noteq> []"
  using assms(2) refsD(2) [OF assms(1), of t] by (auto simp: ch_box_def)

lemma ch_List_live:
  assumes "ch_refs p"
  shows "r \<in> set (ch_List p) \<longleftrightarrow> ch_live r p"
proof -
  have "(t, r) \<in> set (cp_boxes p) \<longleftrightarrow> t = ch_token p r \<and> ch_live r p" for t
    unfolding mem_tget [OF refsD(1) [OF assms]] ch_live_def using refsD(2) [OF assms, of t r] by blast
  then show ?thesis unfolding ch_List_def by (metis (no_types, lifting) imageE imageI list.set_map prod.collapse snd_conv)
qed

lemma ch_live_lt: "ch_refs p \<Longrightarrow> ch_live r p \<Longrightarrow> r < length (cp_heap p)"
  unfolding ch_live_def using refsD(2) by blast

lemma ch_live_box: "ch_live r p \<Longrightarrow> ch_box p (ch_token p r) = Some (ch_id (ci_meta (cp_heap p ! r)))"
  by (simp add: ch_live_def ch_box_def)

text \<open>The invariant only reads these views, so a step that keeps them keeps it.\<close>

lemma ch_inv_frame:
  assumes "ch_inv p" "ch_refs q" "ch_box q = ch_box p" "cp_used q = cp_used p" "keys_distinct (cp_disk q)"
    "ch_stored (cp_disk q) = ch_stored (cp_disk p)" "ch_rooted (cp_disk q)" "list_all (\<lambda>(i, _). i < cp_nextVM q) (cp_vms q)"
  shows "ch_inv q"
  using assms by (simp add: ch_inv_def)

lemma dir_of_put: "ch_dir_of (tput t e d) u = (if u = t then e else ch_dir_of d u)"
  by (simp add: ch_dir_of_def)

lemma dir_of_mkdir [simp]: "ch_dir_of (ch_mkdir t d) = ch_dir_of d"
  by (rule ext) (simp add: ch_dir_of_def ch_mkdir_def)

lemma dir_of_tdel: "ch_dir_of (tdel t d) u = (if u = t then \<lparr>cd_meta = None, cd_rootfs = None\<rparr> else ch_dir_of d u)"
  by (simp add: ch_dir_of_def)

lemma views_eq: "ch_dir_of d = ch_dir_of d0 \<Longrightarrow> ch_stored d = ch_stored d0 \<and> ch_root d = ch_root d0"
  by (simp add: ch_stored_def ch_root_def fun_eq_iff)

lemma keys_distinct_mkdir [simp]: "keys_distinct d \<Longrightarrow> keys_distinct (ch_mkdir t d)"
  by (simp add: ch_mkdir_def)

lemma stored_tdel: "ch_stored (tdel t d) = (ch_stored d)(t := None)"
  by (auto simp: ch_stored_def dir_of_tdel)

lemma rooted_tdel: "ch_rooted d \<Longrightarrow> ch_rooted (tdel t d)"
  by (simp add: ch_rooted_def ch_stored_def ch_root_def dir_of_tdel)

lemma save_spec:
  assumes "ch_save sf m d = (e, d')"
  shows "keys_distinct d \<Longrightarrow> keys_distinct d'"
    "ch_stored d' = (if e = None then (ch_stored d)(cm_Token m \<mapsto> ch_id m) else ch_stored d)"
    "ch_root d' = ch_root d"
    "ch_dir_of d' u = (if u = cm_Token m \<and> e = None then (ch_dir_of d u)\<lparr>cd_meta := Some m\<rparr> else ch_dir_of d u)"
    "tget d' u = (if u = cm_Token m \<and> e = None then Some ((ch_dir_of d u)\<lparr>cd_meta := Some m\<rparr>)
       else if u = cm_Token m \<and> tget d u = None \<and> sf \<noteq> SaveMkdir then Some \<lparr>cd_meta = None, cd_rootfs = None\<rparr> else tget d u)"
proof -
  show "keys_distinct d \<Longrightarrow> keys_distinct d'" using assms by (cases sf) (auto simp: ch_save_def)
  show dir: "ch_dir_of d' u = (if u = cm_Token m \<and> e = None then (ch_dir_of d u)\<lparr>cd_meta := Some m\<rparr> else ch_dir_of d u)" for u
    using assms by (cases sf) (auto simp: ch_save_def dir_of_put)
  show "ch_stored d' = (if e = None then (ch_stored d)(cm_Token m \<mapsto> ch_id m) else ch_stored d)"
    by (rule ext) (simp add: ch_stored_def dir)
  show "ch_root d' = ch_root d" by (rule ext) (simp add: ch_root_def dir)
  show "tget d' u = (if u = cm_Token m \<and> e = None then Some ((ch_dir_of d u)\<lparr>cd_meta := Some m\<rparr>)
       else if u = cm_Token m \<and> tget d u = None \<and> sf \<noteq> SaveMkdir then Some \<lparr>cd_meta = None, cd_rootfs = None\<rparr> else tget d u)"
    using assms by (cases sf) (auto simp: ch_save_def ch_mkdir_def)
qed

subsection \<open>Operations on a box keep it\<close>

lemma upd_refs:
  assumes "\<And>i. ch_id (ci_meta (f i)) = ch_id (ci_meta i)"
  shows "ch_refs (ch_upd r f p) = ch_refs p" "ch_box (ch_upd r f p) = ch_box p" "ch_token (ch_upd r f p) s = ch_token p s"
    "ch_id (ci_meta (cp_heap (ch_upd r f p) ! s)) = ch_id (ci_meta (cp_heap p ! s))"
proof -
  show *: "ch_id (ci_meta (cp_heap (ch_upd r f p) ! s)) = ch_id (ci_meta (cp_heap p ! s))" for s
    using assms by (cases "r < length (cp_heap p)") (auto simp: ch_upd_def nth_list_update list_update_beyond)
  then show t: "ch_token (ch_upd r f p) s = ch_token p s" for s by (metis ch_id_simps(1))
  have len: "length (cp_heap (ch_upd r f p)) = length (cp_heap p)" "cp_boxes (ch_upd r f p) = cp_boxes p"
    by (simp_all add: ch_upd_def)
  show "ch_refs (ch_upd r f p) = ch_refs p" by (simp only: ch_refs_def t len)
  show "ch_box (ch_upd r f p) = ch_box p" by (simp only: ch_box_def * len fun_eq_iff simp_thms)
qed

lemma upd_frame [simp]:
  "cp_boxes (ch_upd r f p) = cp_boxes p" "cp_used (ch_upd r f p) = cp_used p" "cp_disk (ch_upd r f p) = cp_disk p"
  "cp_vms (ch_upd r f p) = cp_vms p" "cp_nextVM (ch_upd r f p) = cp_nextVM p"
  by (simp_all add: ch_upd_def)

lemma upd_inv:
  assumes "ch_inv p" "\<And>i. ch_id (ci_meta (f i)) = ch_id (ci_meta i)"
  shows "ch_inv (ch_upd r f p)"
  by (rule ch_inv_frame [OF assms(1)])
    (use assms(1) in \<open>simp_all add: ch_inv_def upd_refs [where f = f, OF assms(2)]\<close>)

lemma persist_inv:
  assumes "ch_inv p" "ch_live r p"
  shows "ch_inv (snd (ch_persist sf r p))" "ch_box (snd (ch_persist sf r p)) = ch_box p"
    "ch_root (cp_disk (snd (ch_persist sf r p))) = ch_root (cp_disk p)"
proof -
  obtain e d where s: "ch_save sf (ci_meta (cp_heap p ! r)) (cp_disk p) = (e, d)" by (rule prod.exhaust)
  have q: "snd (ch_persist sf r p) = p\<lparr>cp_disk := d\<rparr>" by (simp add: ch_persist_def s split: option.split)
  have b: "ch_box (p\<lparr>cp_disk := d\<rparr>) = ch_box p" by (simp add: ch_box_def fun_eq_iff)
  have st: "ch_stored d = ch_stored (cp_disk p)"
    using save_spec(2) [OF s] ch_live_box [OF assms(2)] assms(1) by (auto simp: ch_inv_def)
  then have "ch_rooted d" using save_spec(3) [OF s] assms(1) by (simp add: ch_inv_def ch_rooted_def)
  with st show "ch_inv (snd (ch_persist sf r p))"
    unfolding q by (intro ch_inv_frame [OF assms(1)])
      (use assms(1) b save_spec(1) [OF s] in \<open>simp_all add: ch_inv_def same_boxes(1) [of "p\<lparr>cp_disk := d\<rparr>" p]\<close>)
  show "ch_box (snd (ch_persist sf r p)) = ch_box p" by (simp add: q b)
  show "ch_root (cp_disk (snd (ch_persist sf r p))) = ch_root (cp_disk p)" using save_spec(3) [OF s] by (simp add: q)
qed

lemma list_all_filter: "list_all P xs \<Longrightarrow> list_all P (filter Q xs)"
  by (auto simp: list_all_iff)

lemma vms_inv:
  assumes "ch_inv p" "list_all (\<lambda>(i, _). i < cp_nextVM p) vms"
  shows "ch_inv (p\<lparr>cp_vms := vms\<rparr>)"
  by (rule ch_inv_frame [OF assms(1)]) (use assms in \<open>simp_all add: ch_inv_def same_boxes [of "p\<lparr>cp_vms := vms\<rparr>" p]\<close>)

lemma stopCompute_vms: "\<exists>Q. stopCompute halts r p = p\<lparr>cp_vms := filter Q (cp_vms p)\<rparr>"
proof -
  have halt: "\<exists>Q. Halt b sock p = p\<lparr>cp_vms := filter Q (cp_vms p)\<rparr>" for b sock
    by (auto simp: Halt_def Stop_def intro: exI [of _ "\<lambda>_. True"] split: option.split)
  show ?thesis
    by (cases "ci_handle (cp_heap p ! r)")
      (auto simp: stopCompute_def Stop_def Let_def intro: exI [of _ "\<lambda>_. True"] halt)
qed

lemma stopCompute_inv: "ch_inv p \<Longrightarrow> ch_inv (stopCompute halts r p)"
  using stopCompute_vms [of halts r p] vms_inv [OF _ list_all_filter] by (metis ch_inv_def)

lemma stopCompute_frame:
  "cp_heap (stopCompute halts r p) = cp_heap p" "cp_boxes (stopCompute halts r p) = cp_boxes p"
  "cp_used (stopCompute halts r p) = cp_used p" "cp_disk (stopCompute halts r p) = cp_disk p"
  "cp_nextVM (stopCompute halts r p) = cp_nextVM p" "ch_box (stopCompute halts r p) = ch_box p"
  using stopCompute_vms [of halts r p] by (auto simp: ch_box_def fun_eq_iff)

lemma specFor_Token [simp]: "vs_Token (specFor p m) = cm_Token m"
  by (simp add: specFor_def Let_def)

lemma rooted_cong:
  assumes "ch_rooted d0" "ch_stored d = ch_stored d0" "\<And>u. ch_stored d0 u \<noteq> None \<Longrightarrow> ch_root d u = ch_root d0 u"
  shows "ch_rooted d"
  using assms unfolding ch_rooted_def by metis

lemma prepare_image:
  assumes "prepareRootfs le src n old = (None, f)"
  shows "\<exists>sz. f = Some (Image src sz) \<and> (0 < n \<longrightarrow> n \<le> sz)"
  using assms by (auto simp: prepareRootfs_def ch_copyFile_def split: copy_fault.splits if_splits prod.splits bool.splits)

lemma stage_root_spec:
  assumes "stage_root le s d = (e, d')"
  shows "keys_distinct d \<Longrightarrow> keys_distinct d'" "ch_stored d' = ch_stored d" "u \<noteq> vs_Token s \<Longrightarrow> tget d' u = tget d u"
    "ch_root d (vs_Token s) \<noteq> None \<Longrightarrow> d' = d"
    "e = None \<Longrightarrow> ch_root d (vs_Token s) = None \<Longrightarrow>
       \<exists>sz. ch_dir_of d' (vs_Token s) = (ch_dir_of d (vs_Token s))\<lparr>cd_rootfs := Some (Image (vs_RootfsSrc s) sz)\<rparr> \<and>
         (0 < vs_DiskBytes s \<longrightarrow> vs_DiskBytes s \<le> sz)"
proof -
  obtain pe f where P: "prepareRootfs le (vs_RootfsSrc s) (vs_DiskBytes s) None = (pe, f)" by (rule prod.exhaust)
  define dir where "dir = ch_dir_of d (vs_Token s)"
  consider (same) "d' = d" "e = None \<Longrightarrow> cd_rootfs dir \<noteq> None"
    | (copied) "cd_rootfs dir = None" "e = pe" "d' = tput (vs_Token s) (dir\<lparr>cd_rootfs := f\<rparr>) d"
  proof (cases "le_stat le \<and> cd_rootfs dir = None")
    case True
    with assms P have "e = pe" "d' = tput (vs_Token s) (dir\<lparr>cd_rootfs := f\<rparr>) d"
      by (simp_all add: stage_root_def Let_def dir_def [symmetric])
    with True that(2) show ?thesis by blast
  next
    case False
    with assms have "d' = d \<and> (e = None \<longrightarrow> cd_rootfs dir \<noteq> None)"
      by (cases "le_stat le") (auto simp: stage_root_def Let_def dir_def [symmetric])
    with that(1) show ?thesis by blast
  qed
  then have "(keys_distinct d \<longrightarrow> keys_distinct d') \<and> ch_stored d' = ch_stored d \<and> (\<forall>u. u \<noteq> vs_Token s \<longrightarrow> tget d' u = tget d u) \<and>
    (ch_root d (vs_Token s) \<noteq> None \<longrightarrow> d' = d) \<and>
    (e = None \<and> ch_root d (vs_Token s) = None \<longrightarrow>
       (\<exists>sz. ch_dir_of d' (vs_Token s) = dir\<lparr>cd_rootfs := Some (Image (vs_RootfsSrc s) sz)\<rparr> \<and>
         (0 < vs_DiskBytes s \<longrightarrow> vs_DiskBytes s \<le> sz)))"
  proof cases
    case same
    then show ?thesis by (auto simp: ch_root_def dir_def)
  next
    case copied
    have "ch_stored d' = ch_stored d" by (rule ext) (simp add: copied(3) ch_stored_def dir_of_put dir_def)
    moreover have "\<exists>sz. f = Some (Image (vs_RootfsSrc s) sz) \<and> (0 < vs_DiskBytes s \<longrightarrow> vs_DiskBytes s \<le> sz)" if "e = None"
      using prepare_image [of le "vs_RootfsSrc s" "vs_DiskBytes s" None f] P copied(2) that by simp
    ultimately show ?thesis using copied by (auto simp: ch_root_def dir_def dir_of_put)
  qed
  then show "keys_distinct d \<Longrightarrow> keys_distinct d'" "ch_stored d' = ch_stored d" "u \<noteq> vs_Token s \<Longrightarrow> tget d' u = tget d u"
    "ch_root d (vs_Token s) \<noteq> None \<Longrightarrow> d' = d"
    "e = None \<Longrightarrow> ch_root d (vs_Token s) = None \<Longrightarrow>
       \<exists>sz. ch_dir_of d' (vs_Token s) = (ch_dir_of d (vs_Token s))\<lparr>cd_rootfs := Some (Image (vs_RootfsSrc s) sz)\<rparr> \<and>
         (0 < vs_DiskBytes s \<longrightarrow> vs_DiskBytes s \<le> sz)"
    unfolding dir_def by blast+
qed

text \<open>Whatever fails, a launch leaves the machines that ran before, and a box's existing root file system.\<close>

lemma Launch_disk:
  assumes "Launch le s p = (res, q)"
  obtains e d where "stage_root le s (ch_mkdir (vs_Token s) (cp_disk p)) = (e, d)" "cp_disk q = d" "\<not> isl res \<longrightarrow> e = None"
  | "cp_disk q = cp_disk p" "isl res"
proof (cases "le_mkdir le")
  case False
  with assms that(2) show ?thesis by (auto simp: Launch_def)
next
  case True
  obtain e d where e: "stage_root le s (ch_mkdir (vs_Token s) (cp_disk p)) = (e, d)" by (rule prod.exhaust)
  have "cp_disk q = d \<and> (\<not> isl res \<longrightarrow> e = None)"
    using assms True e by (auto simp: Launch_def Let_def Stop_def split: option.splits if_splits)
  with e that(1) show ?thesis by blast
qed

lemma Launch_frame:
  assumes run: "Launch le s p = (res, q)" and vms: "list_all (\<lambda>(i, _). i < cp_nextVM p) (cp_vms p)"
  shows "cp_heap q = cp_heap p" "cp_boxes q = cp_boxes p" "cp_used q = cp_used p"
    "case res of Inl e \<Rightarrow> cp_vms q = cp_vms p \<and> cp_nextVM p \<le> cp_nextVM q
     | Inr vm \<Rightarrow> vm = cp_nextVM p \<and> cp_vms q = (vm, s) # cp_vms p \<and> cp_nextVM q = Suc vm"
    "ch_box q = ch_box p" "ch_refs q = ch_refs p"
proof -
  have old: "filter (\<lambda>(i, _). i \<noteq> cp_nextVM p) (cp_vms p) = cp_vms p"
    using vms by (auto simp: list_all_iff filter_id_conv)
  show h: "cp_heap q = cp_heap p" "cp_boxes q = cp_boxes p" "cp_used q = cp_used p"
    "case res of Inl e \<Rightarrow> cp_vms q = cp_vms p \<and> cp_nextVM p \<le> cp_nextVM q
     | Inr vm \<Rightarrow> vm = cp_nextVM p \<and> cp_vms q = (vm, s) # cp_vms p \<and> cp_nextVM q = Suc vm"
    using run old by (auto simp: Launch_def Let_def Stop_def split: option.splits if_splits prod.splits)
  show "ch_box q = ch_box p" "ch_refs q = ch_refs p" by (rule same_boxes [OF h(1,2)])+
qed

lemma Launch_views:
  assumes run: "Launch le s p = (res, q)"
  shows "keys_distinct (cp_disk p) \<Longrightarrow> keys_distinct (cp_disk q)" "ch_stored (cp_disk q) = ch_stored (cp_disk p)"
    "u \<noteq> vs_Token s \<Longrightarrow> tget (cp_disk q) u = tget (cp_disk p) u"
    "ch_root (cp_disk p) (vs_Token s) \<noteq> None \<Longrightarrow> ch_root (cp_disk q) = ch_root (cp_disk p)"
    "\<not> isl res \<Longrightarrow> ch_root (cp_disk p) (vs_Token s) = None \<Longrightarrow>
       \<exists>sz. ch_dir_of (cp_disk q) (vs_Token s) = (ch_dir_of (cp_disk p) (vs_Token s))\<lparr>cd_rootfs := Some (Image (vs_RootfsSrc s) sz)\<rparr> \<and>
         (0 < vs_DiskBytes s \<longrightarrow> vs_DiskBytes s \<le> sz)"
proof -
  have "(keys_distinct (cp_disk p) \<longrightarrow> keys_distinct (cp_disk q)) \<and> ch_stored (cp_disk q) = ch_stored (cp_disk p) \<and>
    (\<forall>u. u \<noteq> vs_Token s \<longrightarrow> tget (cp_disk q) u = tget (cp_disk p) u) \<and>
    (ch_root (cp_disk p) (vs_Token s) \<noteq> None \<longrightarrow> ch_root (cp_disk q) = ch_root (cp_disk p)) \<and>
    (\<not> isl res \<and> ch_root (cp_disk p) (vs_Token s) = None \<longrightarrow>
       (\<exists>sz. ch_dir_of (cp_disk q) (vs_Token s) = (ch_dir_of (cp_disk p) (vs_Token s))\<lparr>cd_rootfs := Some (Image (vs_RootfsSrc s) sz)\<rparr> \<and>
         (0 < vs_DiskBytes s \<longrightarrow> vs_DiskBytes s \<le> sz)))"
  proof (cases rule: Launch_disk [OF run])
  case (1 e d)
  note st = stage_root_spec [OF 1(1)]
  have v: "ch_stored (ch_mkdir t d0) = ch_stored d0" "ch_root (ch_mkdir t d0) = ch_root d0" for t d0
    using views_eq [of "ch_mkdir t d0" d0] by simp_all
  have "u \<noteq> vs_Token s \<Longrightarrow> tget d u = tget (cp_disk p) u" for u using st(3) [of u] by (simp add: ch_mkdir_def)
  then show ?thesis using st(1,2,4,5) 1(2,3) by (auto simp: v)
  qed auto
  then show "keys_distinct (cp_disk p) \<Longrightarrow> keys_distinct (cp_disk q)" "ch_stored (cp_disk q) = ch_stored (cp_disk p)"
    "u \<noteq> vs_Token s \<Longrightarrow> tget (cp_disk q) u = tget (cp_disk p) u"
    "ch_root (cp_disk p) (vs_Token s) \<noteq> None \<Longrightarrow> ch_root (cp_disk q) = ch_root (cp_disk p)"
    "\<not> isl res \<Longrightarrow> ch_root (cp_disk p) (vs_Token s) = None \<Longrightarrow>
       \<exists>sz. ch_dir_of (cp_disk q) (vs_Token s) = (ch_dir_of (cp_disk p) (vs_Token s))\<lparr>cd_rootfs := Some (Image (vs_RootfsSrc s) sz)\<rparr> \<and>
         (0 < vs_DiskBytes s \<longrightarrow> vs_DiskBytes s \<le> sz)"
    by blast+
qed

lemma Launch_inv:
  assumes run: "Launch le s p = (res, q)" and inv: "ch_inv p" and stored: "ch_stored (cp_disk p) (vs_Token s) \<noteq> None"
  shows "ch_inv q" "ch_root (cp_disk q) = ch_root (cp_disk p)"
proof -
  have vms: "list_all (\<lambda>(i, _). i < cp_nextVM p) (cp_vms p)" "ch_rooted (cp_disk p)" using inv by (simp_all add: ch_inv_def)
  note fr = Launch_frame [OF run vms(1)] and v = Launch_views [OF run]
  have "ch_root (cp_disk p) (vs_Token s) \<noteq> None" using vms(2) stored by (auto simp: ch_rooted_def)
  then show root: "ch_root (cp_disk q) = ch_root (cp_disk p)" by (rule v(4))
  have "list_all (\<lambda>(i, _). i < cp_nextVM q) (cp_vms q)"
    using fr(4) vms(1) by (cases res) (auto simp: list_all_iff less_SucI)
  moreover have "ch_rooted (cp_disk q)" by (rule rooted_cong [OF vms(2) v(2)]) (simp add: root)
  ultimately show "ch_inv q" by (intro ch_inv_frame [OF inv]) (use fr v inv in \<open>simp_all add: ch_inv_def\<close>)
qed

lemma live_boxes: "cp_boxes q = cp_boxes p \<Longrightarrow> ch_token q r = ch_token p r \<Longrightarrow> ch_live r q = ch_live r p"
  by (simp only: ch_live_def)

lemma ready_keeps:
  assumes "ch_inv p" "ch_live r p"
  shows "ch_inv (snd (ch_MarkReady sf r p)) \<and> ch_box (snd (ch_MarkReady sf r p)) = ch_box p"
proof -
  have f: "ch_id (ci_meta (ch_set_ready i)) = ch_id (ci_meta i)" for i by (simp add: ch_set_ready_def)
  note u = upd_refs [where f = ch_set_ready, OF f]
  let ?p = "ch_upd r ch_set_ready (ch_upd r ch_set_ready p)"
  have i: "ch_inv ?p" by (rule upd_inv [OF upd_inv [OF assms(1) f] f])
  have l: "ch_live r ?p" using assms(2) by (subst live_boxes [of _ p]) (simp_all add: u)
  have "ch_MarkReady sf r p = ch_persist sf r ?p"
    using assms(2) by (simp add: ch_MarkReady_def ch_live_def)
  with persist_inv [OF i l, of sf] show ?thesis by (simp add: u)
qed

lemma pause_keeps:
  assumes "ch_inv p" "ch_live r p"
  shows "ch_inv (snd (ch_Pause halts sf r p)) \<and> ch_box (snd (ch_Pause halts sf r p)) = ch_box p \<and>
    ch_root (cp_disk (snd (ch_Pause halts sf r p))) = ch_root (cp_disk p)"
proof -
  define f :: "ch_instance \<Rightarrow> ch_instance" where "f = (\<lambda>i. i\<lparr>ci_handle := None, ci_alive := False, ci_meta := (ci_meta i)\<lparr>cm_Paused := True\<rparr>\<rparr>)"
  have f: "ch_id (ci_meta (f i)) = ch_id (ci_meta i)" for i by (simp add: f_def)
  note u = upd_refs [where f = f, OF f]
  let ?p = "ch_upd r f (stopCompute halts r p)"
  have i: "ch_inv ?p" by (rule upd_inv [OF stopCompute_inv [OF assms(1)] f])
  have l: "ch_live r ?p" using assms(2) by (subst live_boxes [of _ p]) (simp_all add: u stopCompute_frame)
  have "ch_Pause halts sf r p = ch_persist sf r ?p"
    using assms(2) by (simp add: ch_Pause_def ch_live_def f_def)
  with persist_inv [OF i l, of sf] show ?thesis by (simp add: u stopCompute_frame)
qed

lemma resume_keeps:
  assumes "ch_inv p" "ch_live r p"
  shows "ch_inv (snd (ch_Resume le sf r p)) \<and> ch_box (snd (ch_Resume le sf r p)) = ch_box p \<and>
    ch_root (cp_disk (snd (ch_Resume le sf r p))) = ch_root (cp_disk p)"
proof -
  let ?s = "specFor p (ci_meta (cp_heap p ! r))"
  obtain res q where L: "Launch le ?s p = (res, q)" by (rule prod.exhaust)
  have stored: "ch_stored (cp_disk p) (vs_Token ?s) \<noteq> None"
    using ch_live_box [OF assms(2)] assms(1) by (simp add: ch_inv_def)
  have vms: "list_all (\<lambda>(i, _). i < cp_nextVM p) (cp_vms p)" using assms(1) by (simp add: ch_inv_def)
  note fr = Launch_frame [OF L vms] and i = Launch_inv [OF L assms(1) stored]
  have present: "tget (cp_boxes p) (ch_token p r) = Some r" using assms(2) by (simp add: ch_live_def)
  show ?thesis
  proof (cases res)
    case (Inl e)
    with L i fr(5) present show ?thesis by (simp add: ch_Resume_def)
  next
    case (Inr vm)
    define f :: "ch_instance \<Rightarrow> ch_instance"
      where "f = (\<lambda>i. i\<lparr>ci_handle := Some vm, ci_alive := False, ci_meta := (ci_meta i)\<lparr>cm_Paused := False\<rparr>\<rparr>)"
    have f: "ch_id (ci_meta (f i)) = ch_id (ci_meta i)" for i by (simp add: f_def)
    note u = upd_refs [where f = f, OF f]
    have i': "ch_inv (ch_upd r f q)" by (rule upd_inv [OF i(1) f])
    have l: "ch_live r (ch_upd r f q)" using assms(2) by (subst live_boxes [of _ p]) (simp_all add: u fr)
    have "ch_Resume le sf r p = ch_persist sf r (ch_upd r f q)"
      using L Inr present by (simp add: ch_Resume_def f_def)
    with persist_inv [OF i' l, of sf] i(2) show ?thesis by (simp add: u fr)
  qed
qed

text \<open>Removing a box frees its slot, and only its slot.\<close>

lemma slots_remove:
  assumes "slots_apart B" "B t = Some m"
  shows "slots_of (B(t := None)) = (if cm_Egress m then slots_of B - {cm_NetIndex m} else slots_of B)"
    "slots_apart (B(t := None))"
proof -
  have apart: "t = u" if "B u = Some n" "cm_Egress m" "cm_Egress n" "cm_NetIndex m = cm_NetIndex n" for u n
    using assms that unfolding slots_apart_def by blast
  have mem: "i \<in> slots_of C \<longleftrightarrow> (\<exists>u n. C u = Some n \<and> cm_Egress n \<and> cm_NetIndex n = i)" for i C
    by (auto simp: slots_of_def ran_def)
  show "slots_of (B(t := None)) = (if cm_Egress m then slots_of B - {cm_NetIndex m} else slots_of B)"
  proof (rule set_eqI)
    fix i show "i \<in> slots_of (B(t := None)) \<longleftrightarrow> i \<in> (if cm_Egress m then slots_of B - {cm_NetIndex m} else slots_of B)"
    proof
      assume "i \<in> slots_of (B(t := None))"
      then obtain u n where u: "(B(t := None)) u = Some n" "cm_Egress n" "cm_NetIndex n = i" unfolding mem by blast
      then have "u \<noteq> t" "B u = Some n" by (auto split: if_splits)
      then show "i \<in> (if cm_Egress m then slots_of B - {cm_NetIndex m} else slots_of B)"
        using u(2,3) apart [of u n] mem [of i B] by auto
    next
      assume "i \<in> (if cm_Egress m then slots_of B - {cm_NetIndex m} else slots_of B)"
      then have i: "i \<in> slots_of B" "cm_Egress m \<Longrightarrow> i \<noteq> cm_NetIndex m" by (auto split: if_splits)
      then obtain u n where u: "B u = Some n" "cm_Egress n" "cm_NetIndex n = i" unfolding mem by blast
      then have "u \<noteq> t" using assms(2) i(2) by auto
      then show "i \<in> slots_of (B(t := None))" unfolding mem using u by (intro exI [of _ u] exI [of _ n]) simp
    qed
  qed
  show "slots_apart (B(t := None))"
    unfolding slots_apart_def by (metis assms(1) fun_upd_apply option.distinct(1) slots_apart_def)
qed

lemma refs_tdel: "ch_refs p \<Longrightarrow> ch_refs (p\<lparr>cp_boxes := tdel t (cp_boxes p)\<rparr>)"
  unfolding ch_refs_def by simp

lemma ch_box_tdel: "ch_box (p\<lparr>cp_boxes := tdel t (cp_boxes p)\<rparr>) = (ch_box p)(t := None)"
  by (auto simp: ch_box_def)

lemma destroy_removes:
  assumes "ch_inv p" "ch_live r p"
  shows "fst (ch_Destroy halts True r p) = None" "ch_inv (snd (ch_Destroy halts True r p))"
    "ch_box (snd (ch_Destroy halts True r p)) = (ch_box p)(ch_token p r := None)"
proof -
  let ?t = "ch_token p r" and ?m = "ci_meta (cp_heap p ! r)"
  define p1 where "p1 = ch_freeSlot ?m (p\<lparr>cp_boxes := tdel ?t (cp_boxes p)\<rparr>)"
  define q where "q = snd (ch_Destroy halts True r p)"
  have p1: "cp_heap p1 = cp_heap p" "cp_boxes p1 = tdel ?t (cp_boxes p)" "cp_disk p1 = cp_disk p"
    "cp_vms p1 = cp_vms p" "cp_nextVM p1 = cp_nextVM p"
    "cp_used p1 = (if cm_Egress ?m then cp_used p - {cm_NetIndex ?m} else cp_used p)"
    by (simp_all add: p1_def ch_freeSlot_def)
  have q: "cp_heap q = cp_heap p1" "cp_boxes q = cp_boxes p1" "cp_used q = cp_used p1"
    "cp_disk q = tdel ?t (cp_disk p1)" "cp_nextVM q = cp_nextVM p1" "\<exists>Q. cp_vms q = filter Q (cp_vms p1)"
    using stopCompute_vms [of halts r p1]
    by (auto simp: q_def ch_Destroy_def Let_def p1_def [symmetric] ch_remove_dir_def stopCompute_frame)
  have b: "ch_refs q" "ch_box q = (ch_box p)(?t := None)"
    using refs_tdel [of p ?t] assms(1) same_boxes [of q "p\<lparr>cp_boxes := tdel ?t (cp_boxes p)\<rparr>"]
    by (simp_all add: q p1 ch_box_tdel ch_inv_def)
  have box: "ch_box p ?t = Some (ch_id ?m)" by (rule ch_live_box [OF assms(2)])
  note gone = slots_remove [of "ch_box p", OF _ box]
  have "list_all (\<lambda>(i, _). i < cp_nextVM q) (cp_vms q)"
    using q(5,6) assms(1) p1 list_all_filter by (fastforce simp: ch_inv_def)
  then show "ch_inv (snd (ch_Destroy halts True r p))"
    using b gone assms(1) unfolding q_def [symmetric] ch_inv_def by (simp add: q p1 stored_tdel rooted_tdel)
  show "ch_box (snd (ch_Destroy halts True r p)) = (ch_box p)(?t := None)" using b(2) by (simp add: q_def)
  show "fst (ch_Destroy halts True r p) = None" using assms(2) by (simp add: ch_Destroy_def Let_def ch_live_def)
qed

subsection \<open>Creating a box\<close>

text \<open>What readying the network leaves alone.\<close>

definition ch_frame :: "'h ch_prov \<Rightarrow> 'h ch_prov \<Rightarrow> bool" where
  "ch_frame p q \<longleftrightarrow> cp_heap q = cp_heap p \<and> cp_boxes q = cp_boxes p \<and> cp_disk q = cp_disk p \<and> cp_vms q = cp_vms p \<and>
     cp_nextVM q = cp_nextVM p \<and> (\<forall>m. specFor q m = specFor p m) \<and> cp_poolSize q = cp_poolSize p"

lemma EnsureNetwork_frame:
  assumes "ch_EnsureNetwork exec p = (e, q)"
  shows "ch_frame p q \<and> cp_used q = cp_used p"
  using assms unfolding ch_frame_def
  by (auto simp: ch_EnsureNetwork_def Let_def specFor_def split: egress_mode.splits if_splits prod.splits)

lemma reserve_spec:
  assumes "ch_reserve exec m p = (res, q)"
  shows "ch_frame p q \<and> (case res of
      Inl e \<Rightarrow> cp_used q = cp_used p
    | Inr m' \<Rightarrow>
        if ch_guestNetEnabled p
        then \<exists>i. m' = m\<lparr>cm_Egress := True, cm_NetIndex := i\<rparr> \<and> i \<notin> cp_used p \<and> 0 \<le> i \<and> i < cp_poolSize p \<and>
               cp_used q = insert i (cp_used p)
        else m' = m \<and> cp_used q = cp_used p)"
proof (cases "ch_guestNetEnabled p")
  case False
  with assms show ?thesis by (auto simp: ch_reserve_def ch_frame_def)
next
  case True
  obtain e p1 where n: "ch_EnsureNetwork exec p = (e, p1)" by (rule prod.exhaust)
  note fr = EnsureNetwork_frame [OF n]
  show ?thesis
  proof (cases e)
    case (Some x)
    with assms True n fr show ?thesis by (auto simp: ch_reserve_def)
  next
    case None
    show ?thesis
    proof (cases "alloc_loop 0 (cp_poolSize p1) (cp_used p1)")
      case None
      with assms True n fr \<open>e = None\<close> show ?thesis by (auto simp: ch_reserve_def ch_allocIndexLocked_def)
    next
      case (Some i)
      have q: "res = Inr (m\<lparr>cm_Egress := True, cm_NetIndex := i\<rparr>)" "q = p1\<lparr>cp_used := insert i (cp_used p1)\<rparr>"
        using assms True n \<open>e = None\<close> Some by (auto simp: ch_reserve_def ch_allocIndexLocked_def)
      have "ch_frame p q" using fr by (simp add: ch_frame_def q(2) specFor_def)
      with q fr True alloc_loop_spec [of 0 "cp_poolSize p1" "cp_used p1" i] Some show ?thesis
        by (auto simp: ch_frame_def)
    qed
  qed
qed

lemma reserve_meta:
  assumes "ch_reserve exec m p = (Inr m', q)" "\<not> cm_Egress m"
  shows "cm_Token m' = cm_Token m" "cm_BoxID m' = cm_BoxID m" "cm_Phase m' = cm_Phase m" "cm_Egress m' = ch_guestNetEnabled p"
    "cm_Egress m' \<longrightarrow> cm_NetIndex m' \<notin> cp_used p \<and> 0 \<le> cm_NetIndex m' \<and> cm_NetIndex m' < cp_poolSize p"
    "cp_used q = (if cm_Egress m' then insert (cm_NetIndex m') (cp_used p) else cp_used p)"
proof -
  consider (on) i where "ch_guestNetEnabled p" "m' = m\<lparr>cm_Egress := True, cm_NetIndex := i\<rparr>" "i \<notin> cp_used p" "0 \<le> i"
      "i < cp_poolSize p" "cp_used q = insert i (cp_used p)"
    | (off) "\<not> ch_guestNetEnabled p" "m' = m" "cp_used q = cp_used p"
    using reserve_spec [OF assms(1), THEN conjunct2, unfolded sum.case] by (metis (full_types))
  then have "cm_Token m' = cm_Token m \<and> cm_BoxID m' = cm_BoxID m \<and> cm_Phase m' = cm_Phase m \<and> cm_Egress m' = ch_guestNetEnabled p \<and>
    (cm_Egress m' \<longrightarrow> cm_NetIndex m' \<notin> cp_used p \<and> 0 \<le> cm_NetIndex m' \<and> cm_NetIndex m' < cp_poolSize p) \<and>
    cp_used q = (if cm_Egress m' then insert (cm_NetIndex m') (cp_used p) else cp_used p)"
    by cases (simp_all add: assms(2))
  then show "cm_Token m' = cm_Token m" "cm_BoxID m' = cm_BoxID m" "cm_Phase m' = cm_Phase m" "cm_Egress m' = ch_guestNetEnabled p"
    "cm_Egress m' \<longrightarrow> cm_NetIndex m' \<notin> cp_used p \<and> 0 \<le> cm_NetIndex m' \<and> cm_NetIndex m' < cp_poolSize p"
    "cp_used q = (if cm_Egress m' then insert (cm_NetIndex m') (cp_used p) else cp_used p)" by blast+
qed

text \<open>Nothing but the registration of the machine is left of a create.\<close>

definition ch_untouched :: "bool \<Rightarrow> 'h ch_prov \<Rightarrow> 'h ch_prov \<Rightarrow> bool" where
  "ch_untouched rm p q \<longleftrightarrow> cp_heap q = cp_heap p \<and> cp_boxes q = cp_boxes p \<and> cp_used q = cp_used p \<and> cp_vms q = cp_vms p \<and>
     cp_nextVM p \<le> cp_nextVM q \<and> ch_stored (cp_disk q) = ch_stored (cp_disk p) \<and>
     (rm \<longrightarrow> tget (cp_disk q) = tget (cp_disk p)) \<and> keys_distinct (cp_disk q) \<and> ch_rooted (cp_disk q)"

definition ch_added :: "ch_meta \<Rightarrow> nat \<Rightarrow> 'h ch_prov \<Rightarrow> 'h ch_prov \<Rightarrow> bool" where
  "ch_added m r p q \<longleftrightarrow> r = length (cp_heap p) \<and>
     cp_heap q = cp_heap p @ [\<lparr>ci_meta = m, ci_handle = Some (cp_nextVM p), ci_alive = False\<rparr>] \<and>
     cp_boxes q = tput (cm_Token m) r (cp_boxes p) \<and>
     cp_used q = (if cm_Egress m then insert (cm_NetIndex m) (cp_used p) else cp_used p) \<and>
     cp_vms q = (cp_nextVM p, specFor p m) # cp_vms p \<and> cp_nextVM q = Suc (cp_nextVM p) \<and>
     keys_distinct (cp_disk q) \<and>
     (\<exists>sz. ch_dir_of (cp_disk q) = (ch_dir_of (cp_disk p))
         (cm_Token m := \<lparr>cd_meta = Some m, cd_rootfs = Some (Image (cp_defaultRootfs p) sz)\<rparr>) \<and>
       (0 < cm_DiskBytes m \<longrightarrow> cm_DiskBytes m \<le> sz))"

lemma undo_disk:
  assumes d0: "tget d0 t = None" "keys_distinct d" "ch_rooted d0"
    and d: "\<And>u. u \<noteq> t \<Longrightarrow> tget d u = tget d0 u" "ch_stored d = ch_stored d0"
  shows "ch_stored (if b then tdel t d else d) = ch_stored d0" "b \<longrightarrow> tget (if b then tdel t d else d) = tget d0"
    "keys_distinct (if b then tdel t d else d)" "ch_rooted (if b then tdel t d else d)"
proof -
  have none: "ch_stored d0 t = None" using d0(1) by (simp add: ch_stored_def ch_dir_of_def)
  then have "(ch_stored d0)(t := None) = ch_stored d0" by (rule fun_upd_idem)
  then show st: "ch_stored (if b then tdel t d else d) = ch_stored d0" using d(2) by (simp add: stored_tdel)
  show "b \<longrightarrow> tget (if b then tdel t d else d) = tget d0" using d(1) d0(1) by (auto simp: fun_eq_iff)
  show "keys_distinct (if b then tdel t d else d)" using d0(2) by simp
  have "ch_root (if b then tdel t d else d) u = ch_root d0 u" if "ch_stored d0 u \<noteq> None" for u
  proof -
    have "u \<noteq> t" using that none by auto
    with d(1) show ?thesis by (simp add: ch_root_def ch_dir_of_def)
  qed
  then show "ch_rooted (if b then tdel t d else d)" by (rule rooted_cong [OF d0(3) st])
qed

lemma cleanup_frame:
  "cp_heap (ch_remove_dir b t (ch_freeSlot m p)) = cp_heap p" "cp_boxes (ch_remove_dir b t (ch_freeSlot m p)) = cp_boxes p"
  "cp_used (ch_remove_dir b t (ch_freeSlot m p)) = (if cm_Egress m then cp_used p - {cm_NetIndex m} else cp_used p)"
  "cp_disk (ch_remove_dir b t (ch_freeSlot m p)) = (if b then tdel t (cp_disk p) else cp_disk p)"
  "cp_vms (ch_remove_dir b t (ch_freeSlot m p)) = cp_vms p" "cp_nextVM (ch_remove_dir b t (ch_freeSlot m p)) = cp_nextVM p"
  by (simp_all add: ch_remove_dir_def ch_freeSlot_def)

lemma build_spec:
  assumes run: "ch_build env m p1 = (res, q)"
    and p1: "ch_frame p p1" "cp_used p1 = (if cm_Egress m then insert (cm_NetIndex m) (cp_used p) else cp_used p)"
    and ok: "ch_inv p" "ch_fresh (cm_Token m) p" "cm_Egress m \<Longrightarrow> cm_NetIndex m \<notin> cp_used p"
  shows "case res of Inl e \<Rightarrow> ch_untouched (ce_rm env) p q | Inr r \<Rightarrow> ch_added m r p q"
proof -
  let ?t = "cm_Token m"
  have none: "tget (cp_disk p) ?t = None" using ok(2) by (simp add: ch_fresh_def)
  have kd: "keys_distinct (cp_disk p)" "list_all (\<lambda>(i, _). i < cp_nextVM p) (cp_vms p)" "ch_rooted (cp_disk p)"
    using ok(1) by (simp_all add: ch_inv_def)
  have fr1: "cp_heap p1 = cp_heap p" "cp_boxes p1 = cp_boxes p" "cp_disk p1 = cp_disk p" "cp_vms p1 = cp_vms p"
    "cp_nextVM p1 = cp_nextVM p" "specFor p1 m = specFor p m" using p1(1) by (simp_all add: ch_frame_def)
  obtain lr p2 where L: "Launch (ce_launch env) (specFor p m) p1 = (lr, p2)" by (rule prod.exhaust)
  have "list_all (\<lambda>(i, _). i < cp_nextVM p1) (cp_vms p1)" using kd(2) fr1 by simp
  note fr = Launch_frame [OF L this, unfolded fr1] and v = Launch_views [OF L, unfolded fr1 specFor_Token]
  have freed: "(if cm_Egress m then cp_used p2 - {cm_NetIndex m} else cp_used p2) = cp_used p"
    using fr(3) p1(2) ok(3) by auto
  have kd2: "keys_distinct (cp_disk p2)" by (rule v(1) [OF kd(1)])
  show ?thesis
  proof (cases lr)
    case (Inl e)
    have q: "res = Inl (ChLaunch e)" "q = ch_remove_dir (ce_rm env) ?t (ch_freeSlot m p2)"
      using run L Inl fr1 by (auto simp: ch_build_def)
    note undo = undo_disk [OF none kd2 kd(3) v(3,2), of "ce_rm env"]
    show ?thesis
      unfolding q sum.case ch_untouched_def cleanup_frame freed using undo fr Inl by simp
  next
    case (Inr vm)
    have vm: "vm = cp_nextVM p" "cp_vms p2 = (vm, specFor p m) # cp_vms p" "cp_nextVM p2 = Suc vm"
      using fr(4) Inr by simp_all
    obtain se d where S: "ch_save (ce_save env) m (cp_disk p2) = (se, d)" by (rule prod.exhaust)
    note sv = save_spec [OF S]
    show ?thesis
    proof (cases se)
      case (Some e)
      have q: "res = Inl (ChSaveMeta e)" "q = ch_remove_dir (ce_rm env) ?t (ch_freeSlot m (Stop vm (p2\<lparr>cp_disk := d\<rparr>)))"
        using run L Inr S Some fr1 by (auto simp: ch_build_def)
      have "filter (\<lambda>(i, _). i \<noteq> cp_nextVM p) (cp_vms p) = cp_vms p"
        using kd(2) by (auto simp: list_all_iff filter_id_conv)
      then have st: "cp_heap (Stop vm (p2\<lparr>cp_disk := d\<rparr>)) = cp_heap p" "cp_boxes (Stop vm (p2\<lparr>cp_disk := d\<rparr>)) = cp_boxes p"
        "cp_used (Stop vm (p2\<lparr>cp_disk := d\<rparr>)) = cp_used p2" "cp_disk (Stop vm (p2\<lparr>cp_disk := d\<rparr>)) = d"
        "cp_vms (Stop vm (p2\<lparr>cp_disk := d\<rparr>)) = cp_vms p" "cp_nextVM (Stop vm (p2\<lparr>cp_disk := d\<rparr>)) = Suc (cp_nextVM p)"
        using fr vm by (simp_all add: Stop_def)
      have d: "u \<noteq> ?t \<Longrightarrow> tget d u = tget (cp_disk p) u" "ch_stored d = ch_stored (cp_disk p)" for u
        using sv(2) sv(5) [of u] Some v(2) v(3) [of u] by simp_all
      show ?thesis
        unfolding q sum.case ch_untouched_def cleanup_frame st freed
        using undo_disk [OF none sv(1) [OF kd2] kd(3) d, of "ce_rm env"] by simp
    next
      case None
      have res: "res = Inr (length (cp_heap p1))" using run L Inr S None fr1 by (auto simp: ch_build_def)
      have q: "q = p2\<lparr>cp_disk := d, cp_heap := cp_heap p2 @ [\<lparr>ci_meta = m, ci_handle = Some vm, ci_alive = False\<rparr>],
           cp_boxes := tput ?t (length (cp_heap p2)) (cp_boxes p2)\<rparr>"
        using run L Inr S None fr1 by (auto simp: ch_build_def)
      have blank: "ch_dir_of (cp_disk p) ?t = \<lparr>cd_meta = None, cd_rootfs = None\<rparr>" using none by (simp add: ch_dir_of_def)
      obtain sz where sz: "ch_dir_of (cp_disk p2) ?t = \<lparr>cd_meta = None, cd_rootfs = Some (Image (cp_defaultRootfs p) sz)\<rparr>"
        "0 < cm_DiskBytes m \<longrightarrow> cm_DiskBytes m \<le> sz"
        using v(5) blank Inr by (auto simp: ch_root_def specFor_def Let_def)
      have "ch_dir_of d u = ((ch_dir_of (cp_disk p))(?t := \<lparr>cd_meta = Some m, cd_rootfs = Some (Image (cp_defaultRootfs p) sz)\<rparr>)) u" for u
        using sv(4) [of u] None sz(1) v(3) [of u] by (cases "u = ?t") (simp_all add: ch_dir_of_def)
      then have "ch_dir_of d = (ch_dir_of (cp_disk p))(?t := \<lparr>cd_meta = Some m, cd_rootfs = Some (Image (cp_defaultRootfs p) sz)\<rparr>)"
        by (rule ext)
      with sz(2) show ?thesis unfolding res q sum.case ch_added_def using fr vm fr1 p1(2) sv(1) [OF kd2] by auto
    qed
  qed
qed

definition ch_token_ok :: "ch_env \<Rightarrow> 'h ch_prov \<Rightarrow> bool" where
  "ch_token_ok env p \<longleftrightarrow> (case ce_token env of None \<Rightarrow> True | Some t \<Rightarrow> ch_fresh t p)"

lemma provision_spec:
  assumes run: "ch_Provision exec env opts p = (res, q)" and ok: "ch_inv p" "ch_token_ok env p"
  shows "case res of
      Inl e \<Rightarrow> ch_untouched (ce_rm env) p q
    | Inr r \<Rightarrow> \<exists>m. ch_added m r p q \<and> ce_token env = Some (cm_Token m) \<and> cm_BoxID m = co_BoxID opts \<and>
        cm_Phase m = ''pending'' \<and> cm_Egress m = ch_guestNetEnabled p \<and>
        (cm_Egress m \<longrightarrow> cm_NetIndex m \<notin> cp_used p \<and> 0 \<le> cm_NetIndex m \<and> cm_NetIndex m < cp_poolSize p)"
proof -
  have kd: "keys_distinct (cp_disk p)" "ch_rooted (cp_disk p)" using ok(1) by (simp_all add: ch_inv_def)
  then have refl: "ch_untouched rm p p" for rm by (simp add: ch_untouched_def)
  consider (early) e where "res = Inl e" "q = p"
    | (late) t r1 p1 where "ce_token env = Some t" "ch_reserve exec (ch_new_meta env opts t p) p = (r1, p1)"
        "case r1 of Inl e \<Rightarrow> res = Inl e \<and> q = p1 | Inr m \<Rightarrow> ch_build env m p1 = (res, q)"
    using run by (auto simp: ch_Provision_def split: if_splits option.splits prod.splits sum.splits)
  then show ?thesis
  proof cases
    case early
    with refl show ?thesis by simp
  next
    case late
    let ?m = "ch_new_meta env opts t p"
    have m: "cm_Token ?m = t" "cm_BoxID ?m = co_BoxID opts" "cm_Phase ?m = ''pending''" "\<not> cm_Egress ?m"
      by (simp_all add: ch_new_meta_def)
    have fresh: "ch_fresh t p" using ok(2) late(1) by (simp add: ch_token_ok_def)
    note rs = reserve_spec [OF late(2)]
    show ?thesis
    proof (cases r1)
      case (Inl e)
      with late(3) rs kd show ?thesis by (simp add: ch_untouched_def ch_frame_def)
    next
      case (Inr m')
      have run': "ch_build env m' p1 = (res, q)" using late(3) Inr by simp
      have m': "cm_Token m' = t" "cm_BoxID m' = co_BoxID opts" "cm_Phase m' = ''pending''" "cm_Egress m' = ch_guestNetEnabled p"
        "cm_Egress m' \<longrightarrow> cm_NetIndex m' \<notin> cp_used p \<and> 0 \<le> cm_NetIndex m' \<and> cm_NetIndex m' < cp_poolSize p"
        "cp_used p1 = (if cm_Egress m' then insert (cm_NetIndex m') (cp_used p) else cp_used p)"
        using reserve_meta [OF late(2) [unfolded Inr] m(4)] m by simp_all
      have "case res of Inl e \<Rightarrow> ch_untouched (ce_rm env) p q | Inr r \<Rightarrow> ch_added m' r p q"
        by (rule build_spec [OF run' _ m'(6) ok(1)]) (use rs m' fresh in simp_all)
      with m' late(1) show ?thesis by (cases res) auto
    qed
  qed
qed

lemma untouched_inv:
  assumes "ch_inv p" "ch_untouched rm p q"
  shows "ch_inv q" "ch_box q = ch_box p"
proof -
  note q = assms(2) [unfolded ch_untouched_def]
  have b: "ch_refs q = ch_refs p" "ch_box q = ch_box p" using q by (intro same_boxes; simp)+
  have "list_all (\<lambda>(i, _). i < cp_nextVM q) (cp_vms q)"
    using assms(1) q by (auto simp: ch_inv_def list_all_iff)
  with b q show "ch_inv q" by (intro ch_inv_frame [OF assms(1)]) (use assms(1) in \<open>simp_all add: ch_inv_def\<close>)
  show "ch_box q = ch_box p" by (rule b(2))
qed

lemma ch_box_put:
  assumes "ch_refs p" "cp_heap q = cp_heap p @ [i]" "cp_boxes q = tput t (length (cp_heap p)) (cp_boxes p)"
    "cm_Token (ci_meta i) = t" "t \<noteq> []"
  shows "ch_refs q" "ch_box q = (ch_box p)(t \<mapsto> ch_id (ci_meta i))"
proof -
  have old: "tget (cp_boxes p) u = Some r \<Longrightarrow> r < length (cp_heap p) \<and> ch_token p r = u \<and> u \<noteq> []" for u r
    using refsD(2) [OF assms(1)] .
  have "r < length (cp_heap q) \<and> ch_token q r = u \<and> u \<noteq> []" if "tget (cp_boxes q) u = Some r" for u r
    using that old [of u r] assms(2-5) by (auto simp: nth_append split: if_splits)
  then show "ch_refs q" using refsD(1) [OF assms(1)] assms(3) by (simp add: ch_refs_def)
  show "ch_box q = (ch_box p)(t \<mapsto> ch_id (ci_meta i))"
  proof
    fix u show "ch_box q u = ((ch_box p)(t \<mapsto> ch_id (ci_meta i))) u"
      using old [of u] assms(2,3) by (cases "tget (cp_boxes p) u") (auto simp: ch_box_def nth_append)
  qed
qed

lemma slots_insert:
  assumes "B t = None"
  shows "slots_of (B(t \<mapsto> m)) = (if cm_Egress m then insert (cm_NetIndex m) (slots_of B) else slots_of B)"
    "slots_apart B \<Longrightarrow> (cm_Egress m \<Longrightarrow> cm_NetIndex m \<notin> slots_of B) \<Longrightarrow> slots_apart (B(t \<mapsto> m))"
proof -
  show "slots_of (B(t \<mapsto> m)) = (if cm_Egress m then insert (cm_NetIndex m) (slots_of B) else slots_of B)"
    unfolding slots_of_def ran_map_upd [of B, OF assms] by auto
  assume a: "slots_apart B" and new: "cm_Egress m \<Longrightarrow> cm_NetIndex m \<notin> slots_of B"
  have "cm_NetIndex n \<in> slots_of B" if "B u = Some n" "cm_Egress n" for u n
    using that by (auto simp: slots_of_def ran_def)
  with a new show "slots_apart (B(t \<mapsto> m))" unfolding slots_apart_def by (metis fun_upd_apply option.inject)
qed

lemma added_inv:
  assumes "ch_inv p" "ch_added m r p q" "ch_fresh (cm_Token m) p" "cm_Egress m \<Longrightarrow> cm_NetIndex m \<notin> cp_used p"
  shows "ch_inv q" "ch_box q = (ch_box p)(cm_Token m \<mapsto> ch_id m)" "ch_live r q" "ci_meta (cp_heap q ! r) = m"
proof -
  note q = assms(2) [unfolded ch_added_def]
  have new: "ch_box p (cm_Token m) = None" "cm_Token m \<noteq> []" using assms(3) by (simp_all add: ch_fresh_def ch_box_def)
  have refs: "ch_refs p" using assms(1) by (simp add: ch_inv_def)
  have b: "ch_refs q" "ch_box q = (ch_box p)(cm_Token m \<mapsto> ch_id m)"
    using ch_box_put [of p q "\<lparr>ci_meta = m, ci_handle = Some (cp_nextVM p), ci_alive = False\<rparr>" "cm_Token m"] q refs new(2) by simp_all
  then show "ch_box q = (ch_box p)(cm_Token m \<mapsto> ch_id m)" by simp
  show m: "ci_meta (cp_heap q ! r) = m" using q by simp
  show "ch_live r q" using q m by (simp add: ch_live_def)
  obtain sz where dir: "ch_dir_of (cp_disk q) = (ch_dir_of (cp_disk p))
      (cm_Token m := \<lparr>cd_meta = Some m, cd_rootfs = Some (Image (cp_defaultRootfs p) sz)\<rparr>)" using q by blast
  have "ch_stored (cp_disk q) = (ch_stored (cp_disk p))(cm_Token m \<mapsto> ch_id m)"
    by (rule ext) (simp add: ch_stored_def dir)
  then have "ch_stored (cp_disk q) = ch_box q" using assms(1) b(2) by (simp add: ch_inv_def)
  moreover have "ch_rooted (cp_disk q)"
    using assms(1) by (simp add: ch_inv_def ch_rooted_def ch_stored_def ch_root_def dir)
  moreover have "list_all (\<lambda>(i, _). i < cp_nextVM q) (cp_vms q)" using assms(1) q by (auto simp: ch_inv_def list_all_iff)
  moreover note slots_insert [of "ch_box p", OF new(1), of "ch_id m"]
  ultimately show "ch_inv q" using assms(1,4) b q by (auto simp: ch_inv_def)
qed

subsection \<open>The manager on this backend\<close>

text \<open>
  As for Firecracker, a draw of a token in use is treated as a failing random source and a destroy
  manages to remove the state directory.
\<close>

definition ch_err :: "ch_error \<Rightarrow> prov_error" where
  "ch_err e = (case e of ChNotFound n \<Rightarrow> ErrBoxNotFound n | _ \<Rightarrow> ProvFailed ''cloud-hypervisor'')"

definition ch_no_collision :: "'h ch_prov \<Rightarrow> ch_env \<Rightarrow> ch_env" where
  "ch_no_collision p env =
     (case ce_token env of None \<Rightarrow> env | Some t \<Rightarrow> if ch_fresh t p then env else env\<lparr>ce_token := None\<rparr>)"

definition ch_ops :: "'h exec \<Rightarrow> ch_env \<Rightarrow> bool \<Rightarrow> save_fault \<Rightarrow> ('h ch_prov, nat) prov_ops" where
  "ch_ops exec env halts sf =
     \<lparr>po_Provision = (\<lambda>opts p. case ch_Provision exec (ch_no_collision p env) opts p of
                        (Inl e, p') \<Rightarrow> (Inl (ch_err e), p') | (Inr r, p') \<Rightarrow> (Inr r, p')),
      po_List = (\<lambda>p. Inr (ch_List p)),
      po_Find = (\<lambda>n p. case ch_Find n p of Inl e \<Rightarrow> Inl (ch_err e) | Inr r \<Rightarrow> Inr r),
      po_Meta = (\<lambda>p r. ch_Meta (cp_heap p ! r)),
      po_Pause = (\<lambda>r p. case ch_Pause halts sf r p of (e, p') \<Rightarrow> (map_option ch_err e, p')),
      po_Resume = (\<lambda>r p. case ch_Resume (ce_launch env) sf r p of (e, p') \<Rightarrow> (map_option ch_err e, p')),
      po_Destroy = (\<lambda>r p. case ch_Destroy halts True r p of (e, p') \<Rightarrow> (map_option ch_err e, p'))\<rparr>"

definition ch_ids :: "'h ch_prov \<Rightarrow> (string \<times> string) set" where
  "ch_ids p = (\<lambda>m. (cm_Token m, cm_BoxID m)) ` ran (ch_box p)"

lemma ch_no_collision_ok: "ch_token_ok (ch_no_collision p env) p"
  by (simp add: ch_token_ok_def ch_no_collision_def split: option.split)

lemma ch_Meta_key [simp]:
  "box_key (ch_Meta i) = (cm_Token (ci_meta i), cm_BoxID (ci_meta i))"
  "box_InstanceID (ch_Meta i) = cm_Token (ci_meta i)" "box_BoxID (ch_Meta i) = cm_BoxID (ci_meta i)"
  by (simp_all add: box_key_def ch_Meta_def ch_toBox_def)

lemma ran_ch_box:
  assumes "ch_refs p"
  shows "ran (ch_box p) = (\<lambda>r. ch_id (ci_meta (cp_heap p ! r))) ` set (ch_List p)"
proof -
  have "m \<in> ran (ch_box p) \<longleftrightarrow> (\<exists>r. ch_live r p \<and> m = ch_id (ci_meta (cp_heap p ! r)))" for m
  proof
    assume "m \<in> ran (ch_box p)"
    then obtain t r where r: "tget (cp_boxes p) t = Some r" "m = ch_id (ci_meta (cp_heap p ! r))"
      by (auto simp: ran_def ch_box_def)
    with refsD(2) [OF assms r(1)] show "\<exists>r. ch_live r p \<and> m = ch_id (ci_meta (cp_heap p ! r))" by (auto simp: ch_live_def)
  next
    assume "\<exists>r. ch_live r p \<and> m = ch_id (ci_meta (cp_heap p ! r))"
    with ch_live_box show "m \<in> ran (ch_box p)" by (auto intro: ranI)
  qed
  then show ?thesis using ch_List_live [OF assms] by (auto simp: image_def)
qed

lemma ch_ids_list:
  assumes "ch_refs p"
  shows "ch_ids p = set (map (box_key \<circ> (\<lambda>r. ch_Meta (cp_heap p ! r))) (ch_List p))"
    "distinct (map (box_key \<circ> (\<lambda>r. ch_Meta (cp_heap p ! r))) (ch_List p))"
proof -
  show "ch_ids p = set (map (box_key \<circ> (\<lambda>r. ch_Meta (cp_heap p ! r))) (ch_List p))"
    unfolding ch_ids_def ran_ch_box [OF assms] by (simp add: image_image)
  have tok: "ch_token p r = t" if "(t, r) \<in> set (cp_boxes p)" for t r
    using that refsD(2) [OF assms, of t r] by (simp add: mem_tget [OF refsD(1) [OF assms]])
  have "map (fst \<circ> (box_key \<circ> (\<lambda>r. ch_Meta (cp_heap p ! r)))) (ch_List p) = map fst (cp_boxes p)"
    using tok by (auto simp: ch_List_def)
  then have "distinct (map fst (map (box_key \<circ> (\<lambda>r. ch_Meta (cp_heap p ! r))) (ch_List p)))"
    using refsD(1) [OF assms] by (simp add: keys_distinct_def)
  then show "distinct (map (box_key \<circ> (\<lambda>r. ch_Meta (cp_heap p ! r))) (ch_List p))" by (metis distinct_map)
qed

lemma ch_ids_fst: "ch_refs p \<Longrightarrow> fst ` ch_ids p = dom (ch_box p)"
  using ch_box_token [of p] by (force simp: ch_ids_def ran_def dom_def image_def)

lemma ch_ids_remove:
  assumes "ch_refs p" "ch_box p t = Some m"
  shows "(\<lambda>m. (cm_Token m, cm_BoxID m)) ` ran ((ch_box p)(t := None)) = ch_ids p - {(t, cm_BoxID m)}"
proof -
  have tok: "cm_Token n = u" if "ch_box p u = Some n" for u n using ch_box_token [OF assms(1) that] by simp
  have "ran ((ch_box p)(t := None)) = {n \<in> ran (ch_box p). cm_Token n \<noteq> t}"
    using tok by (auto simp: ran_def split: if_splits)
  moreover have "n = m" if "n \<in> ran (ch_box p)" "cm_Token n = t" for n using that tok assms(2) by (auto simp: ran_def)
  ultimately show ?thesis by (auto simp: ch_ids_def)
qed

lemma ch_Find_live:
  assumes "ch_refs p" "ch_Find n p = Inr r"
  shows "r \<in> set (ch_List p)"
  using assms(2) refsD(2) [OF assms(1), of n] ch_List_live [OF assms(1), of r]
  by (auto simp: ch_Find_def ch_List_def ch_live_def find_Some_iff split: option.splits intro: nth_mem)

interpretation ch: provisioner "ch_ops exec env halts sf" ch_inv "\<lambda>p r. r \<in> set (ch_List p)" ch_ids
  for exec :: "'h exec" and env :: ch_env and halts :: bool and sf :: save_fault
proof (unfold_locales, goal_cases)
  case (1 p insts)
  then have refs: "ch_refs p" and l: "insts = ch_List p" by (auto simp: ch_inv_def ch_ops_def)
  show ?case
    using ch_ids_list [OF refs] distinct_card [OF ch_ids_list(2) [OF refs]] by (simp add: l ch_ops_def comp_def)
next
  case (2 p n r)
  then show ?case using ch_Find_live [of p n r] by (auto simp: ch_inv_def ch_ops_def split: sum.splits)
next
  case (3 p r)
  then show ?case using ch_ids_list(1) [of p] by (auto simp: ch_inv_def ch_ops_def)
next
  case (4 p opts e p')
  then obtain e' where run: "ch_Provision exec (ch_no_collision p env) opts p = (Inl e', p')"
    by (auto simp: ch_ops_def split: prod.splits sum.splits)
  have "ch_untouched (ce_rm (ch_no_collision p env)) p p'"
    using provision_spec [OF run 4(1) ch_no_collision_ok] by simp
  from untouched_inv [OF 4(1) this] show ?case by (simp add: ch_ids_def)
next
  case (5 p opts r p')
  then have run: "ch_Provision exec (ch_no_collision p env) opts p = (Inr r, p')"
    by (auto simp: ch_ops_def split: prod.splits sum.splits)
  obtain m where m: "ch_added m r p p'" "ce_token (ch_no_collision p env) = Some (cm_Token m)" "cm_BoxID m = co_BoxID opts"
    "cm_Egress m \<longrightarrow> cm_NetIndex m \<notin> cp_used p"
    using provision_spec [OF run 5(1) ch_no_collision_ok] by auto
  have fresh: "ch_fresh (cm_Token m) p" using ch_no_collision_ok [of p env] m(2) by (simp add: ch_token_ok_def)
  note new = added_inv [OF 5(1) m(1) fresh m(4) [THEN mp]]
  have refs: "ch_refs p" "ch_refs p'" using 5(1) new(1) by (simp_all add: ch_inv_def)
  have none: "ch_box p (cm_Token m) = None" using fresh by (simp add: ch_fresh_def ch_box_def)
  then have "ch_ids p' = insert (cm_Token m, co_BoxID opts) (ch_ids p)"
    using m(3) by (simp add: ch_ids_def new(2) ran_map_upd [of "ch_box p"])
  moreover have "cm_Token m \<notin> fst ` ch_ids p" using none by (simp add: ch_ids_fst [OF refs(1)] dom_def)
  ultimately show ?case using new m(3) ch_List_live [OF refs(2), of r] by (simp add: ch_ops_def)
next
  case (6 p r e p')
  have refs: "ch_refs p" using 6(1) by (simp add: ch_inv_def)
  have live: "ch_live r p" using 6(2) ch_List_live [OF refs] by blast
  note gone = destroy_removes [OF 6(1) live, of halts]
  have e: "e = None" "p' = snd (ch_Destroy halts True r p)" using 6(3) gone(1) by (auto simp: ch_ops_def split: prod.splits)
  show ?case
    using gone ch_ids_remove [OF refs ch_live_box [OF live]] by (simp add: e ch_ids_def ch_ops_def)
next
  case (7 p r e p')
  have live: "ch_live r p" using 7(1,2) ch_List_live [of p r] by (simp add: ch_inv_def)
  have "p' = snd (ch_Pause halts sf r p)" using 7(3) by (auto simp: ch_ops_def split: prod.splits)
  with pause_keeps [OF 7(1) live, of halts sf] show ?case by (simp add: ch_ids_def)
next
  case (8 p r e p')
  have live: "ch_live r p" using 8(1,2) ch_List_live [of p r] by (simp add: ch_inv_def)
  have "p' = snd (ch_Resume (ce_launch env) sf r p)" using 8(3) by (auto simp: ch_ops_def split: prod.splits)
  with resume_keeps [OF 8(1) live, of "ce_launch env" sf] show ?case by (simp add: ch_ids_def)
next
  case (9 p)
  then show ?case using ch_ids_list(1) [of p] by (simp add: ch_inv_def)
qed

end
