(* ===== verification/ChLifecycle.thy ===== *)
theory ChLifecycle
  imports CloudHv
begin

text \<open>
  The Cloud Hypervisor provisioner over whole runs: a restarted spoke reads its boxes back from the
  state directory, and in every state that creates, pauses, resumes, destroys and restarts lead to,
  no two networked boxes share a slot. Two departures from what the comments promise are recorded at
  the end: the namespace does not scope a provisioner, and resuming a running box starts a second
  machine.
\<close>

subsection \<open>Restart\<close>

lemma load_metas:
  assumes "ch_refs p" "cp_namespace p = []" "\<forall>m \<in> set ms. cm_Token m \<noteq> []"
  shows "ch_refs (ch_rehydrate_metas alive ms p) \<and>
    ch_box (ch_rehydrate_metas alive ms p) = ch_box p ++ map_of (rev (map (\<lambda>m. (cm_Token m, ch_id m)) ms)) \<and>
    cp_used (ch_rehydrate_metas alive ms p) = cp_used p \<union> cm_NetIndex ` {m \<in> set ms. cm_Egress m} \<and>
    cp_disk (ch_rehydrate_metas alive ms p) = cp_disk p \<and> cp_vms (ch_rehydrate_metas alive ms p) = cp_vms p \<and>
    cp_nextVM (ch_rehydrate_metas alive ms p) = cp_nextVM p"
  using assms
proof (induction ms arbitrary: p)
  case (Cons m ms)
  define i where "i = \<lparr>ci_meta = m, ci_handle = None, ci_alive = (\<not> cm_Paused m \<and> alive (ch_apiSockPath m (cp_stateDir p)))\<rparr>"
  define q where "q = p\<lparr>cp_heap := cp_heap p @ [i], cp_boxes := tput (cm_Token m) (length (cp_heap p)) (cp_boxes p),
    cp_used := (if cm_Egress m then insert (cm_NetIndex m) (cp_used p) else cp_used p)\<rparr>"
  have q: "ch_refs q" "ch_box q = (ch_box p)(cm_Token m \<mapsto> ch_id m)"
    using ch_box_put [of p q i "cm_Token m"] Cons.prems by (simp_all add: q_def i_def)
  have step: "ch_rehydrate_metas alive (m # ms) p = ch_rehydrate_metas alive ms q"
    using Cons.prems(2) by (simp add: q_def i_def)
  have "cp_namespace q = []" "\<forall>m \<in> set ms. cm_Token m \<noteq> []" using Cons.prems by (simp_all add: q_def)
  note IH = Cons.IH [OF q(1) this]
  have "cp_used q \<union> cm_NetIndex ` {m \<in> set ms. cm_Egress m} = cp_used p \<union> cm_NetIndex ` {m' \<in> set (m # ms). cm_Egress m'}"
    by (auto simp: q_def)
  moreover have "ch_box q ++ map_of (rev (map (\<lambda>m. (cm_Token m, ch_id m)) ms)) =
      ch_box p ++ map_of (rev (map (\<lambda>m. (cm_Token m, ch_id m)) (m # ms)))"
    by (rule ext) (simp add: q(2) map_add_def map_of_append split: option.split)
  moreover have "cp_disk q = cp_disk p" "cp_vms q = cp_vms p" "cp_nextVM q = cp_nextVM p" by (simp_all add: q_def)
  ultimately show ?case unfolding step using IH by simp
qed simp

lemma loaded_metas:
  assumes kd: "keys_distinct d" and keyed: "\<And>t x. ch_stored d t = Some x \<Longrightarrow> cm_Token x = t \<and> t \<noteq> []"
    and load: "ch_loadMetas r d = Some ms" "r = DirRead \<or> d = []"
  shows "m \<in> set ms \<longleftrightarrow> cd_meta (ch_dir_of d (cm_Token m)) = Some m" "m \<in> set ms \<Longrightarrow> cm_Token m \<noteq> []"
proof -
  define pick where "pick = (\<lambda>(name :: string, e :: ch_dir).
      case cd_meta e of None \<Rightarrow> None | Some m \<Rightarrow> if cm_Token m = [] then None else Some m)"
  have pick: "pick x = Some m \<longleftrightarrow> cd_meta (snd x) = Some m \<and> cm_Token m \<noteq> []" for x m
    by (auto simp: pick_def split: prod.split option.split)
  have set_ms: "m \<in> set ms \<longleftrightarrow> (\<exists>n e. (n, e) \<in> set d \<and> cd_meta e = Some m) \<and> cm_Token m \<noteq> []" for m
  proof (cases r)
    case DirRead
    then have "ms = List.map_filter pick (sort_key fst d)" using load(1) by (simp add: ch_loadMetas_def pick_def)
    then have "m \<in> set ms \<longleftrightarrow> (\<exists>x \<in> set d. cd_meta (snd x) = Some m \<and> cm_Token m \<noteq> [])" by (simp add: mem_map_filter pick)
    then show ?thesis by force
  qed (use load in \<open>simp_all add: ch_loadMetas_def\<close>)
  have key: "cm_Token m = n \<and> n \<noteq> []" if "cd_meta (ch_dir_of d n) = Some m" for n
    using keyed [of n "ch_id m"] that by (simp add: ch_stored_def)
  have "(\<exists>n e. (n, e) \<in> set d \<and> cd_meta e = Some m) \<longleftrightarrow> (\<exists>n. cd_meta (ch_dir_of d n) = Some m)"
    unfolding mem_tget [OF kd] ch_dir_of_def by (auto split: option.splits)
  then show "m \<in> set ms \<longleftrightarrow> cd_meta (ch_dir_of d (cm_Token m)) = Some m"
    unfolding set_ms using key by metis
  show "m \<in> set ms \<Longrightarrow> cm_Token m \<noteq> []" by (simp add: set_ms)
qed

text \<open>Without a namespace in force every persisted box comes back, and with it its slot.\<close>

lemma rehydrate_recovers:
  assumes p: "ch_refs p" "cp_namespace p = []" "cp_boxes p = []" "cp_used p = {}"
    and d: "keys_distinct (cp_disk p)" "\<And>t x. ch_stored (cp_disk p) t = Some x \<Longrightarrow> cm_Token x = t \<and> t \<noteq> []"
    and r: "r = DirRead \<or> cp_disk p = []" and run: "ch_rehydrate alive r p = (None, q)"
  shows "ch_refs q" "ch_box q = ch_stored (cp_disk p)" "cp_used q = slots_of (ch_stored (cp_disk p))"
    "cp_disk q = cp_disk p" "cp_vms q = cp_vms p" "cp_nextVM q = cp_nextVM p"
proof -
  obtain ms where ms: "ch_loadMetas r (cp_disk p) = Some ms" "q = ch_rehydrate_metas alive ms p"
    using run by (auto simp: ch_rehydrate_def split: option.splits)
  note mem = loaded_metas [OF d ms(1) r]
  have ne: "\<forall>m \<in> set ms. cm_Token m \<noteq> []" using mem(2) by blast
  note l = load_metas [OF p(1,2) ne, of alive, folded ms(2)]
  let ?M = "map_of (rev (map (\<lambda>m. (cm_Token m, ch_id m)) ms))"
  have M: "?M t = Some x \<Longrightarrow> ch_stored (cp_disk p) t = Some x" for t x
    using mem(1) by (auto dest!: map_of_SomeD simp: ch_stored_def)
  have "?M = ch_stored (cp_disk p)"
  proof
    fix t
    show "?M t = ch_stored (cp_disk p) t"
    proof (cases "?M t")
      case None
      then have "cm_Token m \<noteq> t" if "m \<in> set ms" for m using that by (force simp: map_of_eq_None_iff)
      then have "cd_meta (ch_dir_of (cp_disk p) t) \<noteq> Some m" for m
        using mem(1) [of m] d(2) [of t "ch_id m"] by (auto simp: ch_stored_def)
      with None show ?thesis by (cases "cd_meta (ch_dir_of (cp_disk p) t)") (auto simp: ch_stored_def)
    qed (simp add: M)
  qed
  moreover have "ch_box p = Map.empty" using p(3) by (auto simp: ch_box_def)
  ultimately show box: "ch_box q = ch_stored (cp_disk p)" using l by simp
  have "ran (ch_stored (cp_disk p)) = ch_id ` set ms"
  proof (rule set_eqI)
    fix x
    have tok: "cm_Token m = t" if "cd_meta (ch_dir_of (cp_disk p) t) = Some m" for t m
      using d(2) [of t "ch_id m"] that by (simp add: ch_stored_def)
    have "x \<in> ran (ch_stored (cp_disk p)) \<longleftrightarrow> (\<exists>t m. cd_meta (ch_dir_of (cp_disk p) t) = Some m \<and> x = ch_id m)"
      by (auto simp: ran_def ch_stored_def)
    also have "\<dots> \<longleftrightarrow> (\<exists>m \<in> set ms. x = ch_id m)" using mem(1) tok by metis
    finally show "x \<in> ran (ch_stored (cp_disk p)) \<longleftrightarrow> x \<in> ch_id ` set ms" by blast
  qed
  then have "slots_of (ch_stored (cp_disk p)) = cm_NetIndex ` {m \<in> set ms. cm_Egress m}"
    by (force simp: slots_of_def)
  with l p(4) show "cp_used q = slots_of (ch_stored (cp_disk p))" by simp
  show "ch_refs q" "cp_disk q = cp_disk p" "cp_vms q = cp_vms p" "cp_nextVM q = cp_nextVM p" using l by simp_all
qed

lemma build_recovers:
  assumes d: "keys_distinct d" "\<And>t x. ch_stored d t = Some x \<Longrightarrow> cm_Token x = t \<and> t \<noteq> []"
    and r: "r = DirRead \<or> d = []" and run: "buildProvisioner alive r o' d host vms next = Inr q"
  shows "ch_refs q" "ch_box q = ch_stored d" "cp_used q = slots_of (ch_stored d)" "cp_disk q = d" "cp_vms q = vms"
    "cp_nextVM q = next"
proof -
  obtain mode p where np: "ch_NewProvisioner alive r (bo_KernelImagePath o') (bo_RootfsImagePath o') (bo_StateDir o') d host vms next = Inr p"
    and q: "q = ch_configure o' mode p"
    using run by (auto simp: buildProvisioner_def split: option.splits sum.splits)
  define p0 where "p0 = ch_blank (bo_KernelImagePath o') (bo_RootfsImagePath o') (bo_StateDir o') d host vms next"
  have p0: "cp_heap p0 = []" "cp_namespace p0 = []" "cp_boxes p0 = []" "cp_used p0 = {}" "cp_disk p0 = d"
      "cp_vms p0 = vms" "cp_nextVM p0 = next" by (simp_all add: p0_def ch_blank_def)
  have re: "ch_rehydrate alive r p0 = (None, p)"
    using np by (auto simp: ch_NewProvisioner_def p0_def split: prod.splits option.splits)
  have refs: "ch_refs p0" by (simp add: ch_refs_def p0)
  note rec = rehydrate_recovers [OF refs p0(2-4), unfolded p0(5-7), OF d r re]
  have fr: "cp_heap q = cp_heap p" "cp_boxes q = cp_boxes p" "cp_used q = cp_used p" "cp_disk q = cp_disk p"
    "cp_vms q = cp_vms p" "cp_nextVM q = cp_nextVM p"
    by (simp_all add: q ch_configure_def)
  show "ch_refs q" "ch_box q = ch_stored d" "cp_used q = slots_of (ch_stored d)" "cp_disk q = d" "cp_vms q = vms"
    "cp_nextVM q = next"
    using rec by (simp_all add: fr same_boxes [OF fr(1,2)])
qed

lemma build_inv:
  assumes d: "keys_distinct d" "\<And>t x. ch_stored d t = Some x \<Longrightarrow> cm_Token x = t \<and> t \<noteq> []" "slots_apart (ch_stored d)" "ch_rooted d"
    and r: "r = DirRead \<or> d = []" and run: "buildProvisioner alive r o' d host vms next = Inr q"
    and vms: "list_all (\<lambda>(i, _). i < next) vms"
  shows "ch_inv q"
  using build_recovers [OF d(1,2) r run] d(1,3,4) vms by (simp add: ch_inv_def)

subsection \<open>Runs\<close>

inductive ch_step :: "'h ch_prov \<Rightarrow> 'h ch_prov \<Rightarrow> bool" where
  cs_provision: "ch_token_ok env p \<Longrightarrow> ch_Provision exec env opts p = (res, q) \<Longrightarrow> ch_step p q"
| cs_ready: "r \<in> set (ch_List p) \<Longrightarrow> ch_MarkReady sf r p = (e, q) \<Longrightarrow> ch_step p q"
| cs_pause: "r \<in> set (ch_List p) \<Longrightarrow> ch_Pause halts sf r p = (e, q) \<Longrightarrow> ch_step p q"
| cs_resume: "r \<in> set (ch_List p) \<Longrightarrow> ch_Resume le sf r p = (e, q) \<Longrightarrow> ch_step p q"
| cs_destroy: "r \<in> set (ch_List p) \<Longrightarrow> ch_Destroy halts True r p = (e, q) \<Longrightarrow> ch_step p q"
| cs_restart: "buildProvisioner alive DirRead o' (cp_disk p) (cp_host p) (cp_vms p) (cp_nextVM p) = Inr q \<Longrightarrow> ch_step p q"

inductive ch_reach :: "'h ch_prov \<Rightarrow> bool" where
  ch_start: "buildProvisioner alive r o' [] host [] 0 = Inr p \<Longrightarrow> ch_reach p"
| ch_next: "ch_reach p \<Longrightarrow> ch_step p q \<Longrightarrow> ch_reach q"

lemma restart_recovers:
  assumes inv: "ch_inv p" and run: "buildProvisioner alive DirRead o' (cp_disk p) host (cp_vms p) (cp_nextVM p) = Inr q"
  shows "ch_inv q" "ch_box q = ch_box p" "cp_used q = cp_used p"
proof -
  have d: "keys_distinct (cp_disk p)" "ch_stored (cp_disk p) = ch_box p" "ch_refs p" using inv by (simp_all add: ch_inv_def)
  have keyed: "ch_stored (cp_disk p) t = Some x \<Longrightarrow> cm_Token x = t \<and> t \<noteq> []" for t x
    using ch_box_token [OF d(3)] by (simp add: d(2))
  show "ch_inv q" using build_inv [OF d(1) keyed _ _ _ run] inv by (simp add: ch_inv_def)
  show "ch_box q = ch_box p" "cp_used q = cp_used p"
    using build_recovers [OF d(1) keyed _ run] inv by (simp_all add: ch_inv_def)
qed

lemma provision_keeps:
  assumes "ch_inv p" "ch_token_ok env p" "ch_Provision exec env opts p = (res, q)"
  shows "ch_inv q"
proof (cases res)
  case (Inl e)
  then show ?thesis using provision_spec [OF assms(3,1,2)] untouched_inv(1) [OF assms(1)] by auto
next
  case (Inr r)
  then obtain m where "ch_added m r p q" "ce_token env = Some (cm_Token m)" "cm_Egress m \<longrightarrow> cm_NetIndex m \<notin> cp_used p"
    using provision_spec [OF assms(3,1,2)] by auto
  with added_inv(1) [OF assms(1)] assms(2) show ?thesis by (simp add: ch_token_ok_def)
qed

lemma ch_step_inv:
  assumes "ch_step p q" "ch_inv p"
  shows "ch_inv q"
proof -
  have live: "r \<in> set (ch_List p) \<Longrightarrow> ch_live r p" for r using assms(2) ch_List_live [of p r] by (simp add: ch_inv_def)
  show ?thesis using assms(1)
  proof cases
    case (cs_provision env exec opts res)
    then show ?thesis using provision_keeps [OF assms(2)] by blast
  next
    case (cs_ready r sf e)
    then show ?thesis using ready_keeps [OF assms(2) live, of r sf] by simp
  next
    case (cs_pause r halts sf e)
    then show ?thesis using pause_keeps [OF assms(2) live, of r halts sf] by simp
  next
    case (cs_resume r le sf e)
    then show ?thesis using resume_keeps [OF assms(2) live, of r le sf] by simp
  next
    case (cs_destroy r halts e)
    then show ?thesis using destroy_removes(2) [OF assms(2) live, of r halts] by simp
  next
    case (cs_restart alive o')
    then show ?thesis by (rule restart_recovers(1) [OF assms(2)])
  qed
qed

lemma ch_reach_inv: "ch_reach p \<Longrightarrow> ch_inv p"
proof (induction rule: ch_reach.induct)
  case (ch_start alive r o' host p)
  then show ?case
    by (rule build_inv [rotated 5]) (simp_all add: ch_stored_def ch_rooted_def ch_dir_of_def slots_apart_def)
qed (rule ch_step_inv)

subsection \<open>Devices of a box\<close>

lemma show_int_eq: "show_int i = show_int j \<longleftrightarrow> i = j"
proof -
  have sign: "show_nat n \<noteq> ''-'' @ show_nat k" for n k
  proof
    assume "show_nat n = ''-'' @ show_nat k"
    then have "is_digit (CHR ''-'')" using show_nat_digits [of n] by simp
    then show False using is_digit_not_sign by blast
  qed
  show ?thesis
    using sign [of "nat i" "nat (- j)"] sign [of "nat j" "nat (- i)"]
    by (cases "i < 0"; cases "j < 0") (auto simp: show_int_def show_nat_inject)
qed

lemma specFor_networked:
  "cm_Egress m \<Longrightarrow> vs_TapName (specFor p m) = TapName chNet (cm_NetIndex m)"
  "\<not> cm_Egress m \<Longrightarrow> vc_Net (buildVMConfig (launch_params (specFor p m))) = []"
  by (simp_all add: specFor_def Let_def NetFor_def buildVMConfig_def launch_params_def)

subsection \<open>Sample runs\<close>

definition sample_ch_options :: ch_options where
  "sample_ch_options =
     \<lparr>bo_KernelImagePath = ''/vmlinux'', bo_RootfsImagePath = ''/rootfs'', bo_StateDir = ''/run/ch'',
      bo_Limits = \<lparr>lim_MemoryBytes = 0, lim_NanoCPUs = 0, lim_PidsLimit = 0, lim_MaxBoxes = 0, lim_DiskBytes = 0,
                   lim_MaxDiskBytes = 0\<rparr>,
      bo_Namespace = ''a'', bo_GPUPassthrough = [], bo_GPUMediatedDevices = [], bo_EgressMode = ''external'',
      bo_DisableEgress = False, bo_PoolSize = 2, bo_TapGroupGID = 0, bo_CloudHypervisorBinary = []\<rparr>"

definition sample_ch_create :: "string \<Rightarrow> create_options" where
  "sample_ch_create n = \<lparr>co_BoxID = n, co_Description = [], co_SpokeName = [], co_Files = [], co_DiskBytes = 0\<rparr>"

definition sample_launch :: launch_env where
  "sample_launch =
     \<lparr>le_mkdir = True, le_stat = True, le_copy = CopyOk, le_size = 100, le_statCopy = True, le_truncate = True, le_start = True,
      le_socket = True, le_create = True, le_boot = True, le_guest = True\<rparr>"

definition sample_ch_env :: "string \<Rightarrow> ch_env" where
  "sample_ch_env t = \<lparr>ce_token = Some t, ce_now = 0, ce_launch = sample_launch, ce_save = SaveOk, ce_rm = True\<rparr>"

definition sample_ch_exec :: "unit exec" where
  "sample_ch_exec cmd h = ((None, ''2: tap: <BROADCAST,UP> mtu 1500''), h)"

definition sample_ch_build :: "ch_options \<Rightarrow> ch_disk \<Rightarrow> unit ch_prov" where
  "sample_ch_build o' d = projr (buildProvisioner (\<lambda>_. True) DirRead o' d () [] 0)"

definition sample_ch_start :: "unit ch_prov" where
  "sample_ch_start = sample_ch_build sample_ch_options []"

definition sample_ch_new :: "string \<Rightarrow> string \<Rightarrow> unit ch_prov \<Rightarrow> unit ch_prov" where
  "sample_ch_new t b p = snd (ch_Provision sample_ch_exec (sample_ch_env t) (sample_ch_create b) p)"

definition sample_ch_two :: "unit ch_prov" where
  "sample_ch_two = sample_ch_new ''bb'' ''web'' (sample_ch_new ''aa'' ''db'' sample_ch_start)"

lemma sample_ch_two_reach: "ch_reach sample_ch_start" "ch_reach sample_ch_two"
proof -
  have "\<not> isl (buildProvisioner (\<lambda>_. True) DirRead sample_ch_options [] () [] 0)" by code_simp
  then show s: "ch_reach sample_ch_start"
    unfolding sample_ch_start_def sample_ch_build_def by (intro ch_start) (simp add: sum.expand sum.collapse)
  have new: "ch_reach p \<Longrightarrow> ch_token_ok (sample_ch_env t) p \<Longrightarrow> ch_reach (sample_ch_new t b p)" for t b p
    unfolding sample_ch_new_def by (rule ch_next, assumption) (rule cs_provision, assumption, rule prod.collapse [symmetric])
  have "ch_token_ok (sample_ch_env ''aa'') sample_ch_start"
    "ch_token_ok (sample_ch_env ''bb'') (sample_ch_new ''aa'' ''db'' sample_ch_start)" by code_simp+
  with s show "ch_reach sample_ch_two" unfolding sample_ch_two_def by (intro new)
qed

lemma sample_ch_boxes:
  "map_option (\<lambda>m. (cm_Egress m, cm_NetIndex m)) (ch_box sample_ch_two ''aa'') = Some (True, 0)"
  "map_option (\<lambda>m. (cm_Egress m, cm_NetIndex m)) (ch_box sample_ch_two ''bb'') = Some (True, 1)"
  by code_simp+

subsection \<open>Safety over whole runs\<close>



text \<open>
  Further (ch_create_all_or_nothing). A create that fails, at whatever point, leaves the boxes, the
  slots, the running machines and the persisted metadata as they were, and no directory when its
  removal works; one that succeeds adds one box in the pending phase under the requested id, with
  one machine booted from the box's own specification, persisted, with a full copy of the image that
  is at least as large as asked for, and, when boxes are networked, on a slot that was free.
\<close>

theorem ch_create_all_or_nothing:
  assumes "ch_reach p" "ch_token_ok env p" "ch_Provision exec env opts p = (res, q)"
  shows "case res of
      Inl e \<Rightarrow> cp_boxes q = cp_boxes p \<and> ch_box q = ch_box p \<and> cp_used q = cp_used p \<and> cp_vms q = cp_vms p \<and>
        ch_stored (cp_disk q) = ch_stored (cp_disk p) \<and> (ce_rm env \<longrightarrow> tget (cp_disk q) = tget (cp_disk p))
    | Inr r \<Rightarrow> \<exists>m. ce_token env = Some (cm_Token m) \<and> cm_BoxID m = co_BoxID opts \<and> cm_Phase m = ''pending'' \<and>
        ch_box p (cm_Token m) = None \<and> ch_box q = (ch_box p)(cm_Token m \<mapsto> ch_id m) \<and> r \<in> set (ch_List q) \<and>
        ci_meta (cp_heap q ! r) = m \<and> cp_vms q = (cp_nextVM p, specFor p m) # cp_vms p \<and>
        cd_meta (ch_dir_of (cp_disk q) (cm_Token m)) = Some m \<and>
        (\<exists>sz. ch_root (cp_disk q) (cm_Token m) = Some (Image (cp_defaultRootfs p) sz) \<and>
           (0 < cm_DiskBytes m \<longrightarrow> cm_DiskBytes m \<le> sz)) \<and>
        (if cm_Egress m then cm_NetIndex m \<notin> cp_used p \<and> 0 \<le> cm_NetIndex m \<and> cm_NetIndex m < cp_poolSize p \<and>
           cp_used q = insert (cm_NetIndex m) (cp_used p) else cp_used q = cp_used p)"
proof (cases res)
  case (Inl e)
  note inv = ch_reach_inv [OF assms(1)]
  have u: "ch_untouched (ce_rm env) p q" using provision_spec [OF assms(3) inv assms(2)] Inl by simp
  from untouched_inv(2) [OF inv u] u show ?thesis by (simp add: Inl ch_untouched_def)
next
  case (Inr r)
  note inv = ch_reach_inv [OF assms(1)]
  obtain m where m: "ch_added m r p q" "ce_token env = Some (cm_Token m)" "cm_BoxID m = co_BoxID opts" "cm_Phase m = ''pending''"
    "cm_Egress m \<longrightarrow> cm_NetIndex m \<notin> cp_used p \<and> 0 \<le> cm_NetIndex m \<and> cm_NetIndex m < cp_poolSize p"
    using provision_spec [OF assms(3) inv assms(2)] Inr by auto
  have fresh: "ch_fresh (cm_Token m) p" using assms(2) m(2) by (simp add: ch_token_ok_def)
  have free: "cm_Egress m \<Longrightarrow> cm_NetIndex m \<notin> cp_used p" using m(5) by blast
  note new = added_inv [OF inv m(1) fresh free]
  have "r \<in> set (ch_List q)" using new(1,3) ch_List_live [of q r] by (simp add: ch_inv_def)
  moreover have "ch_box p (cm_Token m) = None" using fresh by (simp add: ch_fresh_def ch_box_def)
  ultimately show ?thesis unfolding Inr sum.case
    by (intro exI [of _ m]) (use new(2,4) m in \<open>auto simp: ch_added_def ch_root_def\<close>)
qed

theorem ch_create_all_or_nothing_witness:
  "(let q = snd (ch_Provision sample_ch_exec ((sample_ch_env ''aa'')\<lparr>ce_save := SaveRename\<rparr>) (sample_ch_create ''db'') sample_ch_start)
    in cp_vms q = [] \<and> cp_used q = cp_used sample_ch_start \<and> tget (cp_disk q) = tget (cp_disk sample_ch_start)) \<and>
   (\<exists>m. ch_box (sample_ch_new ''aa'' ''db'' sample_ch_start) = (ch_box sample_ch_start)(''aa'' \<mapsto> ch_id m) \<and> cm_BoxID m = ''db'')"
proof -
  let ?bad = "(sample_ch_env ''aa'')\<lparr>ce_save := SaveRename\<rparr>"
  have ok: "ch_token_ok ?bad sample_ch_start" "ch_token_ok (sample_ch_env ''aa'') sample_ch_start" by code_simp+
  have res: "fst (ch_Provision sample_ch_exec ?bad (sample_ch_create ''db'') sample_ch_start) = Inl (ChSaveMeta SaveRename)"
    "fst (ch_Provision sample_ch_exec (sample_ch_env ''aa'') (sample_ch_create ''db'') sample_ch_start) = Inr 0" by code_simp+
  have start: "cp_vms sample_ch_start = []" "ce_rm ?bad" by code_simp+
  obtain q1 where q1: "ch_Provision sample_ch_exec ?bad (sample_ch_create ''db'') sample_ch_start = (Inl (ChSaveMeta SaveRename), q1)"
    using res(1) by (metis prod.collapse)
  obtain q2 where q2: "ch_Provision sample_ch_exec (sample_ch_env ''aa'') (sample_ch_create ''db'') sample_ch_start = (Inr 0, q2)"
    using res(2) by (metis prod.collapse)
  have t: "ce_token (sample_ch_env ''aa'') = Some ''aa''" "co_BoxID (sample_ch_create ''db'') = ''db''" by code_simp+
  note f = ch_create_all_or_nothing [OF sample_ch_two_reach(1) ok(1) q1, unfolded sum.case]
    and s = ch_create_all_or_nothing [OF sample_ch_two_reach(1) ok(2) q2, unfolded sum.case]
  from s t have "\<exists>m. ch_box q2 = (ch_box sample_ch_start)(''aa'' \<mapsto> ch_id m) \<and> cm_BoxID m = ''db''" by auto
  then show ?thesis using f start q1 q2 by (simp add: sample_ch_new_def)
qed

lemma stage_root_meta:
  assumes "stage_root le s d = (e, d')"
  shows "cd_meta (ch_dir_of d' t) = cd_meta (ch_dir_of d t)"
  using assms by (auto simp: stage_root_def Let_def dir_of_put split: if_splits prod.splits)

text \<open>A resume on each of its branches, for a box that is present.\<close>

lemma resume_outcome:
  assumes inv: "ch_inv p" and live: "ch_live r p" and run: "ch_Resume le sf r p = (e, q)"
  shows "(case e of
      Some (ChLaunch x) \<Rightarrow> cp_heap q = cp_heap p \<and> cp_vms q = cp_vms p
    | _ \<Rightarrow> (e = None \<longleftrightarrow> sf = SaveOk) \<and> ci_handle (cp_heap q ! r) = Some (cp_nextVM p) \<and>
        \<not> cm_Paused (ci_meta (cp_heap q ! r)) \<and>
        cp_vms q = (cp_nextVM p, specFor p (ci_meta (cp_heap p ! r))) # cp_vms p) \<and>
    cd_meta (ch_dir_of (cp_disk q) (ch_token p r)) =
      (if e = None then Some (ci_meta (cp_heap q ! r)) else cd_meta (ch_dir_of (cp_disk p) (ch_token p r)))"
proof -
  let ?s = "specFor p (ci_meta (cp_heap p ! r))"
  obtain res p1 where L: "Launch le ?s p = (res, p1)" by (rule prod.exhaust)
  have vms: "list_all (\<lambda>(i, _). i < cp_nextVM p) (cp_vms p)" and refs: "ch_refs p" using inv by (simp_all add: ch_inv_def)
  note fr = Launch_frame [OF L vms]
  have lt: "r < length (cp_heap p)" by (rule ch_live_lt [OF refs live])
  have meta: "cd_meta (ch_dir_of (cp_disk p1) t) = cd_meta (ch_dir_of (cp_disk p) t)" for t
  proof (cases rule: Launch_disk [OF L])
    case (1 e d)
    have "cd_meta (ch_dir_of d t) = cd_meta (ch_dir_of (ch_mkdir (vs_Token ?s) (cp_disk p)) t)"
      by (rule stage_root_meta [OF 1(1)])
    with 1 show ?thesis by simp
  qed simp
  have present: "tget (cp_boxes p) (ch_token p r) \<noteq> None" using live by (simp add: ch_live_def)
  show ?thesis
  proof (cases res)
    case (Inl x)
    then have "e = Some (ChLaunch x)" "q = p1" using run present L by (simp_all add: ch_Resume_def)
    with Inl fr meta show ?thesis by simp
  next
    case (Inr vm)
    define f :: "ch_instance \<Rightarrow> ch_instance"
      where "f = (\<lambda>i. i\<lparr>ci_handle := Some vm, ci_alive := False, ci_meta := (ci_meta i)\<lparr>cm_Paused := False\<rparr>\<rparr>)"
    have per: "ch_persist sf r (ch_upd r f p1) = (e, q)" using run present L Inr by (simp add: ch_Resume_def f_def)
    have h: "cp_heap q = (cp_heap p)[r := f (cp_heap p ! r)]" "cp_vms q = cp_vms p1"
      using per fr(1) by (auto simp: ch_persist_def ch_upd_def split: prod.splits option.splits)
    have inst: "cp_heap q ! r = f (cp_heap p ! r)" using lt by (simp add: h)
    have sv: "ch_save sf (ci_meta (f (cp_heap p ! r))) (cp_disk p1) =
        (case e of Some (ChSaveMeta x) \<Rightarrow> Some x | _ \<Rightarrow> None, cp_disk q)"
      "e = None \<or> (\<exists>x. e = Some (ChSaveMeta x))"
      using per lt fr(1) by (auto simp: ch_persist_def ch_upd_def split: prod.splits option.splits)
    have dq: "cp_disk q = snd (ch_save sf (ci_meta (f (cp_heap p ! r))) (cp_disk p1))" by (simp add: sv(1))
    have en: "e = None \<longleftrightarrow> sf = SaveOk" using sv by (cases sf) (auto simp: ch_save_def)
    have tok: "cm_Token (ci_meta (f (cp_heap p ! r))) = ch_token p r" by (simp add: f_def)
    have "(e = None \<longleftrightarrow> sf = SaveOk) \<and> cd_meta (ch_dir_of (cp_disk q) (ch_token p r)) =
        (if e = None then Some (ci_meta (cp_heap q ! r)) else cd_meta (ch_dir_of (cp_disk p1) (ch_token p r)))"
      unfolding dq using en tok by (cases sf) (auto simp: ch_save_def inst dir_of_put)
    with sv(2) show ?thesis using fr(4) Inr meta by (auto simp: h(2) inst f_def)
  qed
qed


definition sample_ch_paused :: "unit ch_prov" where
  "sample_ch_paused = snd (ch_Pause True SaveOk 0 sample_ch_two)"

lemma sample_ch_paused_reach: "ch_reach sample_ch_paused" "(0 :: nat) \<in> set (ch_List sample_ch_paused)"
proof -
  have "(0 :: nat) \<in> set (ch_List sample_ch_two)" by code_simp
  then show "ch_reach sample_ch_paused"
    unfolding sample_ch_paused_def by (rule ch_next [OF sample_ch_two_reach(2) cs_pause [OF _ prod.collapse [symmetric]]])
  show "(0 :: nat) \<in> set (ch_List sample_ch_paused)" by code_simp
qed


subsection \<open>Start-up\<close>

definition ch_ready :: "'h ch_prov \<Rightarrow> bool" where
  "ch_ready p \<longleftrightarrow> cp_kernelImage p \<noteq> [] \<and> cp_defaultRootfs p \<noteq> [] \<and>
     (ch_guestNetEnabled p \<longrightarrow> cp_poolDone p \<and> cp_poolErr p = None)"

lemma ready_EnsureNetwork: "ch_ready p \<Longrightarrow> ch_EnsureNetwork exec p = (None, p)"
  by (cases "cp_egressMode p") (simp_all add: ch_ready_def ch_guestNetEnabled_def ch_EnsureNetwork_def)

lemma reserve_ready:
  assumes "ch_ready p"
  shows "case ch_reserve exec m p of (r, q) \<Rightarrow> cp_host q = cp_host p \<and> (\<forall>e. r = Inl e \<longrightarrow> e = ChNoSlot (cp_poolSize p))"
  by (simp add: ch_reserve_def ready_EnsureNetwork [OF assms] ch_allocIndexLocked_def split: option.split)

lemma cp_host_launch: "cp_host (snd (Launch le s p)) = cp_host p"
  by (auto simp: Launch_def Let_def Stop_def split: prod.splits option.splits)

lemma cp_host_build: "cp_host (snd (ch_build env m p)) = cp_host p"
proof -
  obtain r q where L: "Launch (ce_launch env) (specFor p m) p = (r, q)" by (rule prod.exhaust)
  have "cp_host q = cp_host p" using cp_host_launch [of "ce_launch env" "specFor p m" p] L by simp
  then show ?thesis
    by (auto simp: ch_build_def L ch_remove_dir_def ch_freeSlot_def Stop_def split: sum.splits prod.splits option.splits)
qed

lemma build_errors: "fst (ch_build env m p) = Inl e \<Longrightarrow> (\<exists>x. e = ChLaunch x) \<or> (\<exists>x. e = ChSaveMeta x)"
  by (auto simp: ch_build_def split: sum.splits prod.splits option.splits)

lemma rehydrate_keeps:
  "cp_kernelImage (ch_rehydrate_metas alive ms q) = cp_kernelImage q"
  "cp_defaultRootfs (ch_rehydrate_metas alive ms q) = cp_defaultRootfs q"
  by (induction ms arbitrary: q) simp_all

lemma build_keeps_options:
  assumes "buildProvisioner alive r o' d host vms next = Inr p"
  shows "cp_kernelImage p = bo_KernelImagePath o'" "cp_defaultRootfs p = bo_RootfsImagePath o'"
    "resolveEgressMode o' = Inr (cp_egressMode p)"
proof -
  obtain mode p0 where np: "ch_NewProvisioner alive r (bo_KernelImagePath o') (bo_RootfsImagePath o') (bo_StateDir o') d host vms next = Inr p0"
    and mode: "resolveEgressMode o' = Inr mode" and p: "p = ch_configure o' mode p0"
    using assms by (auto simp: buildProvisioner_def split: option.splits sum.splits)
  have "cp_kernelImage p0 = bo_KernelImagePath o' \<and> cp_defaultRootfs p0 = bo_RootfsImagePath o'"
    using np by (auto simp: ch_NewProvisioner_def ch_rehydrate_def ch_blank_def rehydrate_keeps split: prod.splits option.splits)
  then show "cp_kernelImage p = bo_KernelImagePath o'" "cp_defaultRootfs p = bo_RootfsImagePath o'"
    "resolveEgressMode o' = Inr (cp_egressMode p)"
    by (simp_all add: p mode ch_configure_def)
qed

text \<open>
  Further (ch_backend_starts_ready). When the backend starts, the host has passed every check: the VMM
  binary is found, KVM and virtualization are there, kernel and root image are named and readable, a
  managed pool has root and its tools, and device passthrough an active IOMMU. From then on a
  create does not touch host networking and fails only for a bad id, a failing random source, a
  full pool, a failed launch or a failed save.
\<close>

theorem ch_backend_starts_ready:
  assumes "ch_newBackend pr exec alive r o' d host vms next = Inr p"
  shows "pr_lookPath pr (if bo_CloudHypervisorBinary o' = [] then ''cloud-hypervisor'' else bo_CloudHypervisorBinary o') \<and>
    pr_kvmReadWrite pr \<and> pr_cpuVirt pr = Some True \<and>
    cp_kernelImage p \<noteq> [] \<and> pr_readable pr (cp_kernelImage p) \<and> cp_defaultRootfs p \<noteq> [] \<and> pr_readable pr (cp_defaultRootfs p) \<and>
    (cp_egressMode p = EgressManaged \<longrightarrow> pr_euid pr = 0 \<and> pr_lookPath pr ''ip'' \<and> pr_lookPath pr ''iptables'') \<and>
    (bo_GPUPassthrough o' \<noteq> [] \<or> bo_GPUMediatedDevices o' \<noteq> [] \<longrightarrow> pr_iommuActive pr) \<and>
    cp_host (snd (ch_Provision exec' env opts p)) = cp_host p \<and>
    (case fst (ch_Provision exec' env opts p) of
       Inl e \<Rightarrow> e = ChInvalidBoxID (co_BoxID opts) \<or> e = ChToken \<or> e = ChNoSlot (cp_poolSize p) \<or>
         (\<exists>x. e = ChLaunch x) \<or> (\<exists>x. e = ChSaveMeta x)
     | Inr r \<Rightarrow> True)"
proof -
  obtain mode p0 where mode: "resolveEgressMode o' = Inr mode" and ok: "preflight pr (preflightConfigFrom o' mode) = []"
    and b: "buildProvisioner alive r o' d host vms next = Inr p0" and n: "ch_EnsureNetwork exec p0 = (None, p)"
    using assms by (auto simp: ch_newBackend_def split: sum.splits if_splits prod.splits option.splits)
  note o = build_keeps_options [OF b]
  have same: "cp_kernelImage p = cp_kernelImage p0" "cp_defaultRootfs p = cp_defaultRootfs p0" "cp_egressMode p = mode"
    using n o(3) mode by (auto simp: ch_EnsureNetwork_def Let_def split: egress_mode.splits if_splits prod.splits)
  have checks: "pr_lookPath pr (if bo_CloudHypervisorBinary o' = [] then ''cloud-hypervisor'' else bo_CloudHypervisorBinary o')"
    "pr_kvmReadWrite pr" "pr_cpuVirt pr = Some True" "bo_KernelImagePath o' \<noteq> []" "pr_readable pr (bo_KernelImagePath o')"
    "bo_RootfsImagePath o' \<noteq> []" "pr_readable pr (bo_RootfsImagePath o')"
    "mode = EgressManaged \<longrightarrow> pr_euid pr = 0 \<and> pr_lookPath pr ''ip'' \<and> pr_lookPath pr ''iptables''"
    "bo_GPUPassthrough o' \<noteq> [] \<or> bo_GPUMediatedDevices o' \<noteq> [] \<longrightarrow> pr_iommuActive pr"
    using ok by (auto simp: preflight_def preflightConfigFrom_def Let_def split: if_splits option.splits bool.splits)
  have "cp_egressMode p0 = mode" using o(3) mode by simp
  then have "ch_guestNetEnabled p \<longrightarrow> cp_poolDone p \<and> cp_poolErr p = None"
    using n same(3) by (auto simp: ch_guestNetEnabled_def ch_EnsureNetwork_def Let_def split: egress_mode.splits if_splits prod.splits)
  then have ready: "ch_ready p" using checks o same by (simp add: ch_ready_def)
  have prov: "cp_host (snd (ch_Provision exec' env opts p)) = cp_host p \<and>
    (case fst (ch_Provision exec' env opts p) of
       Inl e \<Rightarrow> e = ChInvalidBoxID (co_BoxID opts) \<or> e = ChToken \<or> e = ChNoSlot (cp_poolSize p) \<or>
         (\<exists>x. e = ChLaunch x) \<or> (\<exists>x. e = ChSaveMeta x)
     | Inr r \<Rightarrow> True)"
  proof (cases "ce_token env")
    case None
    with ready show ?thesis by (simp add: ch_Provision_def ch_ready_def)
  next
    case (Some t)
    obtain rr q where R: "ch_reserve exec' (ch_new_meta env opts t p) p = (rr, q)" by (rule prod.exhaust)
    note rs = reserve_ready [OF ready, of exec' "ch_new_meta env opts t p", unfolded R prod.case]
    show ?thesis
    proof (cases rr)
      case (Inl e)
      with Some R rs ready show ?thesis by (simp add: ch_Provision_def ch_ready_def)
    next
      case (Inr m)
      have "cp_host (snd (ch_build env m q)) = cp_host p" using rs cp_host_build [of env m q] by simp
      moreover have "case fst (ch_build env m q) of Inl e \<Rightarrow> (\<exists>x. e = ChLaunch x) \<or> (\<exists>x. e = ChSaveMeta x) | Inr r \<Rightarrow> True"
        using build_errors [of env m q] by (cases "fst (ch_build env m q)") simp_all
      ultimately show ?thesis using Some R Inr ready
        by (auto simp: ch_Provision_def ch_ready_def split: sum.splits)
    qed
  qed
  with checks o same show ?thesis by simp
qed

subsection \<open>Passed-through devices\<close>

lemma rx_chars_Times: "rx_chars (Times n r) c \<Longrightarrow> rx_chars r c"
  by (induction n) auto

lemma accepted_no_slash: "accepts r s \<Longrightarrow> \<not> rx_chars r (CHR ''/'') \<Longrightarrow> CHR ''/'' \<notin> set s"
  using denotes_chars [of r s "CHR ''/''"] by (auto simp: accepts_denotes)

lemma hex_no_slash: "\<not> rx_chars (Times n (Class is_hex)) (CHR ''/'')"
  using rx_chars_Times [of n "Class is_hex" "CHR ''/''"] by (auto simp: is_hex_def is_digit_def)

text \<open>
  Further (gpu_paths_confined). A provisioner is built only from well-formed device references: the
  path of a passed-through GPU is one entry of \<^verbatim>\<open>/sys/bus/pci/devices\<close>, that of a mediated device one
  entry of \<^verbatim>\<open>/sys/bus/mdev/devices\<close> or a path the operator wrote that starts in \<^verbatim>\<open>/sys/\<close>.
\<close>

theorem gpu_paths_confined:
  assumes "buildProvisioner alive r o' d host vms next = Inr p"
  shows "cp_gpus p = bo_GPUPassthrough o' \<and> cp_mdevs p = bo_GPUMediatedDevices o' \<and>
    list_all (\<lambda>a. \<exists>n. pciDeviceSysfsPath a = ''/sys/bus/pci/devices/'' @ n @ ''/'' \<and> CHR ''/'' \<notin> set n) (cp_gpus p) \<and>
    list_all (\<lambda>m. has_prefix (mdevSysfsPath m) ''/sys/'' \<and>
      (has_prefix m ''/sys/'' \<or> (\<exists>n. mdevSysfsPath m = ''/sys/bus/mdev/devices/'' @ n \<and> CHR ''/'' \<notin> set n))) (cp_mdevs p)"
proof -
  obtain mode p0 where p: "p = ch_configure o' mode p0"
    and gpu: "list_all validatePCIAddress (bo_GPUPassthrough o')" and mdev: "list_all validateMediatedDevice (bo_GPUMediatedDevices o')"
    using assms by (auto simp: buildProvisioner_def find_None_iff list_all_iff split: option.splits sum.splits)
  have "CHR ''/'' \<notin> set a" if "validatePCIAddress a" for a
    using that accepted_no_slash [of pciAddressRE a] hex_no_slash
    by (simp add: validatePCIAddress_def pciAddressRE_def)
  then have g: "\<exists>n. pciDeviceSysfsPath a = ''/sys/bus/pci/devices/'' @ n @ ''/'' \<and> CHR ''/'' \<notin> set n" if "validatePCIAddress a" for a
    using that by (auto simp: pciDeviceSysfsPath_def)
  have uuid: "CHR ''/'' \<notin> set m" if "accepts mdevUUIDRE m" for m
    using that accepted_no_slash [of mdevUUIDRE m] hex_no_slash by (simp add: mdevUUIDRE_def)
  have "has_prefix (mdevSysfsPath m) ''/sys/'' \<and>
      (has_prefix m ''/sys/'' \<or> (\<exists>n. mdevSysfsPath m = ''/sys/bus/mdev/devices/'' @ n \<and> CHR ''/'' \<notin> set n))"
    if "validateMediatedDevice m" for m
  proof (cases "has_prefix m ''/sys/''")
    case True
    then show ?thesis by (auto simp: mdevSysfsPath_def has_prefix_iff)
  next
    case False
    with that have "CHR ''/'' \<notin> set m" by (simp add: validateMediatedDevice_def uuid)
    moreover from this have "\<not> has_prefix m ''/''" by (auto simp: has_prefix_iff)
    ultimately show ?thesis by (auto simp: mdevSysfsPath_def has_prefix_iff)
  qed
  with g gpu mdev show ?thesis unfolding p ch_configure_def by (auto simp: list_all_iff)
qed

subsection \<open>Departures\<close>

text \<open>
  The namespace is set only after the boxes were read back, and neither \<^verbatim>\<open>List\<close> nor \<^verbatim>\<open>Find\<close> looks at it: a
  spoke with namespace \<^verbatim>\<open>b\<close> lists, and destroys, the boxes of a spoke with namespace \<^verbatim>\<open>a\<close> on the same host.
\<close>

lemma namespace_does_not_scope:
  "let p = sample_ch_build (sample_ch_options\<lparr>bo_Namespace := ''b''\<rparr>) (cp_disk sample_ch_two);
       (e, q) = ch_Destroy True True 0 p
   in cp_namespace p = ''b'' \<and> map (\<lambda>r. cm_Namespace (ci_meta (cp_heap p ! r))) (ch_List p) = [''a'', ''a''] \<and>
      e = None \<and> tget (cp_disk q) ''aa'' = None"
  by code_simp

text \<open>
  Resuming a box that runs boots a second machine on the same root file system; the handle of the
  first is overwritten, so it keeps running after the box is destroyed.
\<close>

lemma resume_running_leaks_machine:
  "let p = sample_ch_new ''aa'' ''db'' sample_ch_start; q = snd (ch_Resume sample_launch SaveOk 0 p); d = snd (ch_Destroy True True 0 q)
   in map (vs_Token \<circ> snd) (cp_vms q) = [''aa'', ''aa''] \<and> ch_List d = [] \<and> map (vs_Token \<circ> snd) (cp_vms d) = [''aa'']"
  by code_simp

text \<open>
  Destroying through a stale handle reports that the box is gone, but frees the slot of the box that
  took it since; the next create shares it.
\<close>

lemma ch_stale_destroy_shares_slot:
  "let p = sample_ch_new ''bb'' ''web'' (snd (ch_Destroy True True 0 (sample_ch_new ''aa'' ''db'' sample_ch_start)));
       (e, q) = ch_Destroy True True 0 p;
       z = sample_ch_new ''cc'' ''job'' q
   in e = Some (ChNotFound ''aa'') \<and> map (\<lambda>r. (ch_token z r, cm_NetIndex (ci_meta (cp_heap z ! r)))) (ch_List z) = [(''bb'', 0), (''cc'', 0)]"
  by code_simp

text \<open>A mediated-device path only has to start in \<^verbatim>\<open>/sys/\<close>.\<close>

lemma mdev_path_leaves_sysfs:
  "validateMediatedDevice ''/sys/../etc'' \<and> mdevSysfsPath ''/sys/../etc'' = ''/sys/../etc''"
  by code_simp

end
