(* ===== verification/Spec2Isabelle.thy ===== *)
theory Spec2Isabelle
  imports Nftables Allowlist FcOperator Remote GuestCalls ChLifecycle
begin

text \<open>
  A verification library for llmbox (\<^verbatim>\<open>github.com/clems4ever/llmbox\<close>), a service that runs isolated
  boxes for agents. A \<^emph>\<open>hub\<close> (\<^verbatim>\<open>internal/hub\<close>) owns the registry of boxes, the database, the published
  ports and the egress allowlists. \<^emph>\<open>Spokes\<close> (\<^verbatim>\<open>internal/spoke\<close>) are hosts that enroll with the hub
  over one outgoing connection (\<^verbatim>\<open>internal/shared/cluster\<close>), create boxes through a backend
  (Firecracker and Cloud Hypervisor microVMs here), talk to an agent inside every box (\<^verbatim>\<open>internal/guest\<close>), and enforce
  each box's network policy with a DNS resolver and a packet firewall.

  \<^bold>\<open>How the parts interact.\<close> A user asks the hub for a box; \<open>createBox\<close> claims the box id, calls the
  spoke's manager over the wire, records the session and pushes the box's policy. On the spoke the
  manager asks the provisioner for a machine, copies files and initialises the guest. The hub's sync
  pass compares the spoke's inventory with its records; destroy, purge and drop remove them. A box
  asks its spoke to publish a port, the spoke asks the hub. Traffic to a port and terminals run
  through byte tunnels over the same connection. A box's DNS queries go to the spoke's resolver,
  which answers only allowed names and opens the firewall for exactly the answered addresses.

  \<^bold>\<open>Theories.\<close> Paths are below \<^verbatim>\<open>src/internal\<close>; the manifest maps every definition to its lines.

  \<^item> \<open>Prelude\<close>, \<open>Regex\<close>, \<open>Netaddr\<close>, \<open>Json\<close>, \<open>JsonText\<close>: what the program uses of the Go language and its
    standard library: string helpers, keyed tables, anchored regular expressions (matching by
    derivatives, proved equal to the declarative semantics), host and port strings, decimal numbers,
    JSON values with field tags, base64, UTF-8 replacement, and JSON texts with the round trip
    \<open>json_roundtrip\<close>.
  \<^item> \<open>Sandbox\<close> (\<^verbatim>\<open>shared/sandbox\<close>): the box types and box id validation.
  \<^item> \<open>Netfw\<close>, \<open>Recording\<close>, \<open>Nftables\<close> (\<^verbatim>\<open>spoke/netfw\<close>), \<open>Dnsd\<close> (\<^verbatim>\<open>spoke/dnsd\<close>), \<open>Isolation\<close>
    (\<^verbatim>\<open>spoke/isolation\<close>): firewall programmers, pins with deadlines, the resolver's handler, and the
    enforcer that composes them. Deny by default, only answered addresses are opened, what is open
    is pinned, a sweep closes what expired, a released box stays closed.
  \<^item> \<open>HubStore\<close> (\<^verbatim>\<open>hub/store\<close>): the database as a record of keyed tables, with the store's operations.
  \<^item> \<open>Enroll\<close> (\<^verbatim>\<open>shared/cluster/tokens.go\<close>, \<^verbatim>\<open>hub.go\<close>, \<^verbatim>\<open>spoke.go\<close>, \<^verbatim>\<open>hub/apikey\<close>, \<^verbatim>\<open>hub/token\<close>), \<open>Spokes\<close>
    (\<^verbatim>\<open>hub/server.go\<close>): join tokens, credentials, the handshake on both ends, the registry of live
    connections, dropping a spoke.
  \<^item> \<open>Registry\<close>, \<open>Boxes\<close>, \<open>Lifecycle\<close> (\<^verbatim>\<open>hub/server.go\<close>, \<^verbatim>\<open>gc.go\<close>), \<open>Ports\<close> (\<^verbatim>\<open>hub/proxy.go\<close>,
    \<^verbatim>\<open>boxports.go\<close>), \<open>Allowlist\<close> (\<^verbatim>\<open>hub/allowlist.go\<close>, \<^verbatim>\<open>dns_audit.go\<close>): the hub's state \<open>server\<close> and its
    operations: create, destroy, sync, purge, restore, published ports, groups and policies. The
    database mirrors the registry, box ids stay unique under concurrent creates, every operation
    touches exactly the records it names.
  \<^item> \<open>Mvmnet\<close> (\<^verbatim>\<open>spoke/microvm/mvmnet\<close>), \<open>FcState\<close>, \<open>Firecracker\<close>, \<open>FcLeases\<close>, \<open>FcLifecycle\<close>, \<open>FcOperator\<close>
    (\<^verbatim>\<open>spoke/firecracker\<close>): the pool of TAP devices, the per-box metadata on disk, the provisioner and
    the operator's commands. The provisioner refines an abstract machine that leases slots and user
    ids (\<open>lease_step\<close>); creates are all-or-nothing; a restart recovers the boxes.
  \<^item> \<open>BoxManager\<close> (\<^verbatim>\<open>spoke/box\<close>): the manager over any provisioner, its cap and its unique ids.
  \<^item> \<open>Wire\<close>, \<open>Dispatch\<close>, \<open>Streams\<close>, \<open>Remote\<close> (\<^verbatim>\<open>shared/cluster\<close>): the protocol, both dispatchers and
    stubs, byte tunnels with their deadlines, pending calls and connection loss.
  \<^item> \<open>GuestProto\<close>, \<open>Guest\<close>, \<open>GuestCalls\<close> (\<^verbatim>\<open>guest\<close>): the agent in a box: its length-prefixed JSON frames, its
    handlers (init, exec, file copy, terminal, port dialling) over the box's operating system, the
    spoke's client. A call has the effect of the handler run in place, requests on one connection
    get one reply each, the agent never leaves the box's credential.
  \<^item> \<open>CloudHv\<close>, \<open>ChLifecycle\<close> (\<^verbatim>\<open>spoke/cloudhypervisor\<close>): the second backend: VM configuration, checks of the
    host, launch sequence, provisioner. Networked boxes have slots of their own, creates are
    all-or-nothing, a restart recovers the boxes, pause and resume keep the box's disk.
  \<^bold>\<open>Interfaces.\<close> \<open>egress_firewall\<close> (what the enforcer needs of a firewall programmer; interpreted on the
  recording programmer), \<open>kv_put\<close>, \<open>kv_store\<close>, \<open>kv_take\<close> (the tables of the store; interpreted on
  sessions, flows, join tokens, API keys, settings), \<open>codec\<close> (a payload that survives the wire;
  interpreted on every payload), \<open>text_codec\<close> (one that also survives as text; interpreted on the
  guest's payloads), \<open>provisioner\<close> (what the manager needs of a backend; interpreted on the Firecracker
  and on the Cloud Hypervisor provisioner), \<open>caller\<close> (a table of pending calls; interpreted on the hub's and on the
  spoke's end).

  \<^bold>\<open>Concurrency.\<close> Code under one mutex is one function. Where the program runs pieces concurrently,
  an inductive step relation interleaves them: \<open>enf_reachable\<close>, \<open>hub_reach\<close>, \<open>box_step\<close>, \<open>claim_step\<close>,
  \<open>fc_step\<close>, \<open>ch_step\<close> (whole operations), \<open>mgr_step\<close>, \<open>tun_step\<close>, \<open>serve_reach\<close>, \<open>rs_step\<close>, \<open>hc_step\<close>. A \<^verbatim>\<open>select\<close> with several ready
  cases takes the choice as an argument; theorems hold for every choice. Map iteration order is the
  order of a list with distinct keys, and the theorems hold for every order.

  \<^bold>\<open>What is a parameter.\<close> Code outside the repository is an argument of the definitions: the command
  runner for \<^verbatim>\<open>ip\<close>, \<^verbatim>\<open>iptables\<close> and \<^verbatim>\<open>nft\<close>, the virtual machine monitors, the upstream DNS server, hash functions
  and random tokens, the file system and the processes of a box. Where a theorem needs a law about
  one of them it is a named hypothesis, and its witness instantiates the parameter.

  \<^bold>\<open>Integers, fuel and termination.\<close> Go integers are \<open>int\<close> with their range in the codecs and with the
  wrap-around written out where it can happen (\<open>ttl_duration_bounds\<close>); addresses are words. Loops
  are structural or have a termination proof; the only fuel is in \<open>json_parse\<close>, with twice the length
  of the text plus one, and \<open>parse_fuel\<close> shows that more changes nothing. Times are nanoseconds.

  \<^bold>\<open>Not modelled.\<close> Pure input and output around the modelled logic: the websocket and vsock transports,
  HTTP handlers and the reverse proxy's byte copying, flag parsing and process wiring
  (\<^verbatim>\<open>spoke/spoke.go\<close>, \<^verbatim>\<open>cmd\<close>), image download and unpacking (\<^verbatim>\<open>firecracker/assets.go\<close>), hook processes,
  configuration files; the Docker backend, which is calls into the engine's client
  package; test harnesses. The manifest lists each with its reason. Database errors of SQLite itself
  are modelled only where the code treats them specially.

  The properties are numbered C1 to C40 in the order of importance; the text before each theorem says
  which. Theorems marked \<^emph>\<open>Further\<close> are results of the same kind that are not in that list. Executions in
  which the code does not do what it means to do are lemmas of their own, listed as findings.
\<close>

subsection \<open>From the hub's configuration to the spoke's resolver\<close>

lemma normalizeName_valid: "valid_domain p \<Longrightarrow> normalizeName p = p"
  using valid_domain_lower [of p] valid_domain_last [of p]
  by (auto simp: normalizeName_eq is_lower_def lower_char_def split: if_splits)

lemma rulesFromPolicy_patterns:
  "np_Enabled pol \<Longrightarrow> set (map rule_Pattern (rulesFromPolicy pol)) = set (map dr_Pattern (np_Rules pol))"
  by (auto simp: rulesFromPolicy_def)

lemma policy_Set_Allowed:
  "policy_Allowed (policy_Set b rules p) b q = first_match rules (normalizeName q)"
  by (auto simp: policy_Allowed_def policy_Set_def)

text \<open>
  C3 (pushed_policy_is_enforced). End to end: after the hub computes a box's policy from its groups
  and the spoke's enforcer applies it, the resolver allows a query of that box exactly when the
  queried name matches a domain of the box's effective allowlist, and in a well-formed configuration
  each such domain is compared as stored.
\<close>

theorem pushed_policy_is_enforced:
  assumes "ListAllowlistGroups d = Inr groups" and "GetBoxGroups b d = Inr assigned"
    and "boxNetworkPolicy b d = Inr pol"
  shows "(policy_Allowed (enf_policy (SetNetworkPolicy b pol e)) b q \<noteq> None \<longleftrightarrow>
      (\<exists>p \<in> set (fst (effectiveAllowlist groups assigned)). matchDomain p (normalizeName q))) \<and>
    (groups_wf d \<longrightarrow> (\<forall>p \<in> set (fst (effectiveAllowlist groups assigned)). valid_domain p \<and> normalizeName p = p))"
proof
  let ?rules = "rulesFromPolicy pol"
  note pol = box_policy_rules [OF assms]
  have pats: "rule_Pattern ` set ?rules = set (fst (effectiveAllowlist groups assigned))"
    using rulesFromPolicy_patterns [of pol] policy_rules_effective [of assigned groups] by (simp add: pol)
  have "policy_Allowed (enf_policy (SetNetworkPolicy b pol e)) b q = first_match ?rules (normalizeName q)"
    by (simp add: SetNetworkPolicy_def policy_Set_Allowed)
  then show "policy_Allowed (enf_policy (SetNetworkPolicy b pol e)) b q \<noteq> None \<longleftrightarrow>
      (\<exists>p \<in> set (fst (effectiveAllowlist groups assigned)). matchDomain p (normalizeName q))"
    unfolding pats [symmetric] by (simp add: first_match_None)
  have "groups_wf d \<Longrightarrow> p \<in> set (fst (effectiveAllowlist groups assigned)) \<Longrightarrow> valid_domain p" for p
    using assms(1)
    by (auto simp: effectiveAllowlist_def ListAllowlistGroups_def domainsFor_def groups_wf_def Let_def)
  then show "groups_wf d \<longrightarrow>
      (\<forall>p \<in> set (fst (effectiveAllowlist groups assigned)). valid_domain p \<and> normalizeName p = p)"
    using normalizeName_valid by blast
qed

theorem pushed_policy_is_enforced_witness:
  "\<exists>pol. boxNetworkPolicy ''web'' (empty_db\<lparr>
       db_groups := [(''g'', \<lparr>ag_ID = ''g'', ag_Name = ''G'', ag_Description = [], ag_TTLSeconds = 30, ag_IsGlobal = True,
         ag_Domains = [], ag_CreatedAt = 0, ag_UpdatedAt = 0\<rparr>)],
       db_group_domains := [(''g'', ''*.ok.com'')]\<rparr>) = Inr pol \<and>
     policy_Allowed (enf_policy (SetNetworkPolicy ''web'' pol (fresh_enforcer ()))) ''web'' ''Api.OK.com.'' \<noteq> None"
proof -
  define d where "d = empty_db\<lparr>
       db_groups := [(''g'', \<lparr>ag_ID = ''g'', ag_Name = ''G'', ag_Description = [], ag_TTLSeconds = 30, ag_IsGlobal = True,
         ag_Domains = [], ag_CreatedAt = 0, ag_UpdatedAt = 0\<rparr>)],
       db_group_domains := [(''g'', ''*.ok.com'')]\<rparr>"
  obtain groups where g: "ListAllowlistGroups d = Inr groups" "''*.ok.com'' \<in> set (fst (effectiveAllowlist groups []))"
    by (auto simp: ListAllowlistGroups_def d_def empty_db_def effectiveAllowlist_def reaches_def domainsFor_def)
  have a: "GetBoxGroups ''web'' d = Inr []" by (auto simp: GetBoxGroups_def d_def empty_db_def)
  obtain pol where p: "boxNetworkPolicy ''web'' d = Inr pol" using g a by (simp add: boxNetworkPolicy_def)
  have "matchDomain ''*.ok.com'' (normalizeName ''Api.OK.com.'')" by code_simp
  with pushed_policy_is_enforced [OF g(1) a p] g(2)
  have "policy_Allowed (enf_policy (SetNetworkPolicy ''web'' pol (fresh_enforcer ()))) ''web'' ''Api.OK.com.'' \<noteq> None"
    by blast
  with p show ?thesis unfolding d_def [symmetric] by blast
qed

end
